(* ===== verification/Prelude.thy ===== *)
theory Prelude
  imports Main "HOL-Library.Word"
begin

unbundle bit_operations_syntax

text \<open>
  Shared vocabulary of the development: the fixed-width integer types of the C++ sources
  (\<open>include/tupai/type.hpp\<close> and \<open>stdint.h\<close>), the ways a kernel routine can fail to return
  normally, the result type that carries such a failure, and the generic lemmas on words, lists
  and modular indices that the component theories use.
\<close>

section \<open>Machine types\<close>

type_synonym u8 = "8 word"
type_synonym u16 = "16 word"
type_synonym u32 = "32 word"
type_synonym u64 = "64 word"

text \<open>The amd64 target (\<open>config/\<close>): pointers and \<open>size_t\<close> have 64 bits, \<open>id_t\<close> is \<open>int64_t\<close>.\<close>

type_synonym size_t = "64 word"
type_synonym addr = "64 word"
type_synonym id_t = "64 word"

definition ID_INVALID :: id_t where
  "ID_INVALID = - 1"

text \<open>The number of values of \<open>size_t\<close>; used where a counter is a \<open>nat\<close> with the wrap written out.\<close>

definition SIZE_MOD :: nat where
  "SIZE_MOD = 2 ^ 64"

definition size_inc :: "nat \<Rightarrow> nat" where
  "size_inc n = (n + 1) mod SIZE_MOD"

definition size_dec :: "nat \<Rightarrow> nat" where
  "size_dec n = (if n = 0 then SIZE_MOD - 1 else n - 1)"

section \<open>Failures as values\<close>

text \<open>
  \<open>Panic\<close>: a call of \<open>panic\<close> (\<open>kernel/panic.cpp\<close>), which never returns.
  \<open>OutOfBounds\<close>: an access outside the array the code indexes, \<open>Uninit\<close>: a read of a cell never
  written, \<open>NullDeref\<close>: a dereference of \<open>nullptr\<close>, \<open>DivByZero\<close>: an integer division by zero.
  \<open>Deadlock\<close>: the caller spins on a lock that is already held. \<open>Diverges\<close>: a loop whose exit
  condition never becomes true.
\<close>

datatype fault = Panic string | OutOfBounds | Uninit | NullDeref | DivByZero | Deadlock | Diverges

datatype 'a res = Ok 'a | Fail fault

fun bind_res :: "'a res \<Rightarrow> ('a \<Rightarrow> 'b res) \<Rightarrow> 'b res" where
  "bind_res (Ok x) f = f x"
| "bind_res (Fail e) f = Fail e"

fun the_ok :: "'a res \<Rightarrow> 'a" where
  "the_ok (Ok x) = x"
| "the_ok (Fail e) = undefined"

fun is_ok :: "'a res \<Rightarrow> bool" where
  "is_ok (Ok _) = True"
| "is_ok (Fail _) = False"

lemma bind_res_Ok_iff [simp]:
  "bind_res m f = Ok y \<longleftrightarrow> (\<exists>x. m = Ok x \<and> f x = Ok y)"
  by (cases m) auto

lemma bind_res_Fail_iff:
  "bind_res m f = Fail e \<longleftrightarrow> m = Fail e \<or> (\<exists>x. m = Ok x \<and> f x = Fail e)"
  by (cases m) auto

lemma bind_res_assoc: "bind_res (bind_res m f) g = bind_res m (\<lambda>x. bind_res (f x) g)"
  by (cases m) auto

lemma bind_res_Ok_right [simp]: "bind_res m Ok = m"
  by (cases m) auto

lemma bind_res_cong [fundef_cong]:
  "m = m' \<Longrightarrow> (\<And>x. m' = Ok x \<Longrightarrow> f x = f' x) \<Longrightarrow> bind_res m f = bind_res m' f'"
  by (cases m') auto

lemma is_ok_iff: "is_ok m \<longleftrightarrow> (\<exists>x. m = Ok x)"
  by (cases m) auto

text \<open>
  \<open>post P r\<close>: if the call returns, the state it leaves satisfies \<open>P\<close>. The rules of \<open>post_rules\<close> say which routines keep
  an invariant; \<open>post_bind\<close> composes them the way the code does.
\<close>

named_theorems post_rules

definition post :: "('s \<Rightarrow> bool) \<Rightarrow> ('a \<times> 's) res \<Rightarrow> bool" where
  "post P r \<longleftrightarrow> (\<forall>x s. r = Ok (x, s) \<longrightarrow> P s)"

lemma post_Ok [simp, post_rules]: "post P (Ok (x, s)) \<longleftrightarrow> P s"
  by (simp add: post_def)

lemma post_Fail [simp, post_rules]: "post P (Fail e)"
  by (simp add: post_def)

lemma postD: "post P r \<Longrightarrow> r = Ok (x, s) \<Longrightarrow> P s"
  by (simp add: post_def)

lemma post_bind:
  "post P r \<Longrightarrow> (\<And>x s. r = Ok (x, s) \<Longrightarrow> P s \<Longrightarrow> post Q (f (x, s))) \<Longrightarrow> post Q (bind_res r f)"
  by (auto simp: post_def)

text \<open>A transition system with an invariant: what every reachable state satisfies.\<close>

locale invariant_system =
  fixes start :: "'s \<Rightarrow> bool"
    and step :: "'s \<Rightarrow> 's \<Rightarrow> bool"
    and inv :: "'s \<Rightarrow> bool"
  assumes init: "start s \<Longrightarrow> inv s"
    and keep: "step s s' \<Longrightarrow> inv s \<Longrightarrow> inv s'"
begin

lemma always:
  assumes "start s" "step\<^sup>*\<^sup>* s s'"
  shows "inv s'"
  using assms(2) by (induction rule: rtranclp_induct) (auto intro: keep init assms(1))

end

text \<open>Array accesses that check the bounds the C++ code does not check.\<close>

definition arr_get :: "'a list \<Rightarrow> nat \<Rightarrow> 'a res" where
  "arr_get xs i = (if i < length xs then Ok (xs ! i) else Fail OutOfBounds)"

definition arr_set :: "'a list \<Rightarrow> nat \<Rightarrow> 'a \<Rightarrow> 'a list res" where
  "arr_set xs i v = (if i < length xs then Ok (xs[i := v]) else Fail OutOfBounds)"

lemma arr_get_Ok [simp]: "i < length xs \<Longrightarrow> arr_get xs i = Ok (xs ! i)"
  by (simp add: arr_get_def)

lemma arr_set_Ok [simp]: "i < length xs \<Longrightarrow> arr_set xs i v = Ok (xs[i := v])"
  by (simp add: arr_set_def)

lemma arr_get_eq_Ok: "arr_get xs i = Ok v \<longleftrightarrow> i < length xs \<and> v = xs ! i"
  by (auto simp: arr_get_def)

lemma arr_set_eq_Ok: "arr_set xs i v = Ok ys \<longleftrightarrow> i < length xs \<and> ys = xs[i := v]"
  by (auto simp: arr_set_def)

section \<open>Counting loops\<close>

text \<open>\<open>for (i = i0; i < n; i ++) body\<close>, with a body that may fail.\<close>

function for_up :: "nat \<Rightarrow> nat \<Rightarrow> (nat \<Rightarrow> 's \<Rightarrow> 's res) \<Rightarrow> 's \<Rightarrow> 's res" where
  "for_up i n body s = (if i < n then bind_res (body i s) (for_up (Suc i) n body) else Ok s)"
  by pat_completeness auto
termination
  by (relation "measure (\<lambda>(i, n, body, s). n - i)") auto

declare for_up.simps [simp del]

text \<open>The loop rule: an invariant indexed by the counter.\<close>

lemma for_up_inv:
  assumes "P i s" "i \<le> n"
    "\<And>j t. i \<le> j \<Longrightarrow> j < n \<Longrightarrow> P j t \<Longrightarrow> \<exists>u. body j t = Ok u \<and> P (Suc j) u"
  shows "\<exists>t. for_up i n body s = Ok t \<and> P n t"
  using assms
proof (induction i n body s rule: for_up.induct)
  case (1 i n body s)
  show ?case
  proof (cases "i < n")
    case True
    then obtain u where u: "body i s = Ok u" "P (Suc i) u" using "1.prems" by blast
    have "\<exists>t. for_up (Suc i) n body u = Ok t \<and> P n t"
      by (rule "1.IH" [OF True u]) (use True "1.prems"(3) in auto)
    then show ?thesis using True u by (subst for_up.simps) simp
  next
    case False
    then show ?thesis using "1.prems"(1,2) by (subst for_up.simps) simp
  qed
qed

section \<open>Counters\<close>

lemma size_inc_small [simp]: "Suc n < SIZE_MOD \<Longrightarrow> size_inc n = Suc n"
  by (simp add: size_inc_def)

lemma size_dec_pos [simp]: "0 < n \<Longrightarrow> size_dec n = n - 1"
  by (simp add: size_dec_def)

lemma SIZE_MOD_pos [simp]: "0 < SIZE_MOD"
  by (simp add: SIZE_MOD_def)

section \<open>Modular indices\<close>

text \<open>Every index below \<open>n\<close> is hit by a probe that starts anywhere and wraps around.\<close>

lemma mod_probe_surj:
  assumes "i < (n::nat)"
  shows "\<exists>k<n. (off + k) mod n = i"
proof -
  let ?k = "(i + (n - off mod n)) mod n"
  have n: "0 < n" using assms by simp
  have "(off + ?k) mod n = (off mod n + (i + (n - off mod n))) mod n"
    by (simp add: mod_simps)
  also have "off mod n + (i + (n - off mod n)) = i + n"
    using mod_less_divisor [OF n, of off] by linarith
  also have "(i + n) mod n = i" using assms by simp
  finally show ?thesis using n by (intro exI [of _ ?k]) simp
qed

lemma mod_add_le_inj:
  assumes "(a + i) mod n = (a + j) mod n" "i \<le> j" "j < (n::nat)"
  shows "i = j"
proof -
  have "n dvd (a + j) - (a + i)"
    using assms(1,2) by (intro iffD1 [OF mod_eq_dvd_iff_nat]) simp_all
  then have "n dvd j - i" by simp
  moreover have "j - i < n" using assms(3) by simp
  ultimately have "j - i = 0" by (metis nat_dvd_not_less neq0_conv)
  then show ?thesis using assms(2) by simp
qed

lemma mod_add_left_inj:
  assumes "(a + i) mod n = (a + j) mod n" "i < (n::nat)" "j < n"
  shows "i = j"
proof (cases "i \<le> j")
  case True
  then show ?thesis using mod_add_le_inj [OF assms(1)] assms(3) by simp
next
  case False
  then show ?thesis using mod_add_le_inj [OF assms(1) [symmetric]] assms(2) by simp
qed

section \<open>Words\<close>

lemma ID_INVALID_neq_0 [simp]: "ID_INVALID \<noteq> 0" "0 \<noteq> ID_INVALID"
  by (simp_all add: ID_INVALID_def)

lemma unat_lt64: "unat (w :: 64 word) < 2 ^ 64"
  using unsigned_less [of w] by simp

end
