(* ===== verification/Util_Mem.thy ===== *)
theory Util_Mem
  imports Prelude
begin

text \<open>
  Memory helpers: \<open>include/tupai/util/mem.hpp\<close>, \<open>include/tupai/util/math.hpp\<close> and the C run-time
  routines of \<open>kernel/cpp.cpp\<close>. Addresses and sizes are 64-bit words; memory is a total byte store
  \<open>addr \<Rightarrow> u8\<close>. The alignment functions are used with a non-zero alignment only (the sources
  pass constants or a block size).
\<close>

type_synonym memory = "addr \<Rightarrow> u8"

text \<open>The bytes behind an address.\<close>

definition bytes_at :: "memory \<Rightarrow> addr \<Rightarrow> nat \<Rightarrow> u8 list" where
  "bytes_at m p n = map (\<lambda>i. m (p + of_nat i)) [0..<n]"

lemma length_bytes_at [simp]: "length (bytes_at m p n) = n"
  by (simp add: bytes_at_def)

lemma bytes_at_cong: "(\<And>i. i < n \<Longrightarrow> m (p + of_nat i) = m' (p + of_nat i)) \<Longrightarrow> bytes_at m p n = bytes_at m' p n"
  by (simp add: bytes_at_def)

definition max_of :: "'a::linorder \<Rightarrow> 'a \<Rightarrow> 'a" where
  "max_of a b = (if a > b then a else b)"

definition min_of :: "'a::linorder \<Rightarrow> 'a \<Rightarrow> 'a" where
  "min_of a b = (if a < b then a else b)"

definition align_floor :: "size_t \<Rightarrow> size_t \<Rightarrow> size_t" where
  "align_floor n align = n - n mod align"

definition align_ceiling :: "size_t \<Rightarrow> size_t \<Rightarrow> size_t" where
  "align_ceiling n align = (if n = 0 then align else align + align * ((n - 1) div align))"

text \<open>The byte loops run upwards, \<open>i\<close> counting to \<open>n\<close>.\<close>

fun mem_copy_loop :: "addr \<Rightarrow> addr \<Rightarrow> nat \<Rightarrow> nat \<Rightarrow> memory \<Rightarrow> memory" where
  "mem_copy_loop src dest i 0 m = m"
| "mem_copy_loop src dest i (Suc k) m =
     mem_copy_loop src dest (Suc i) k (m(dest + of_nat i := m (src + of_nat i)))"

definition mem_copy :: "addr \<Rightarrow> addr \<Rightarrow> size_t \<Rightarrow> memory \<Rightarrow> memory" where
  "mem_copy src dest n m = mem_copy_loop src dest 0 (unat n) m"

definition memcpy :: "addr \<Rightarrow> addr \<Rightarrow> size_t \<Rightarrow> memory \<Rightarrow> addr \<times> memory" where
  "memcpy dest src n m = (dest, mem_copy_loop src dest 0 (unat n) m)"

fun memset_loop :: "addr \<Rightarrow> u8 \<Rightarrow> nat \<Rightarrow> nat \<Rightarrow> memory \<Rightarrow> memory" where
  "memset_loop ptr v i 0 m = m"
| "memset_loop ptr v i (Suc k) m = memset_loop ptr v (Suc i) k (m(ptr + of_nat i := v))"

definition memset :: "addr \<Rightarrow> 32 word \<Rightarrow> size_t \<Rightarrow> memory \<Rightarrow> addr \<times> memory" where
  "memset ptr value num m = (ptr, memset_loop ptr (ucast value) 0 (unat num) m)"

section \<open>Alignment\<close>

lemma max_of_max [simp]: "max_of a b = max a b"
  by (auto simp: max_of_def max_def)

lemma min_of_min [simp]: "min_of a b = min a b"
  by (auto simp: min_of_def min_def)

lemma unat_align_floor: "unat (align_floor n a) = unat n - unat n mod unat a"
proof -
  have "n mod a \<le> n" by (simp add: word_le_nat_alt unat_mod_distrib)
  then show ?thesis by (simp add: align_floor_def unat_sub unat_mod_distrib)
qed

lemma align_floor_aligned: "unat a dvd unat (align_floor n a)"
  by (simp add: unat_align_floor minus_mod_eq_mult_div)

lemma align_floor_le: "align_floor n a \<le> n"
  by (simp add: word_le_nat_alt unat_align_floor)

text \<open>
  The ceiling as arithmetic on natural numbers, whenever the result fits a \<open>size_t\<close>. The value at
  \<open>0\<close> is the alignment, not \<open>0\<close>.
\<close>

definition ceil_nat :: "nat \<Rightarrow> nat \<Rightarrow> nat" where
  "ceil_nat n a = (if n = 0 then a else a + a * ((n - 1) div a))"

lemma unat_align_ceiling:
  assumes "ceil_nat (unat n) (unat a) < 2 ^ 64"
  shows "unat (align_ceiling n a) = ceil_nat (unat n) (unat a)"
proof (cases "n = 0")
  case True
  then show ?thesis by (simp add: align_ceiling_def ceil_nat_def)
next
  case False
  then have pos: "0 < unat n" by (simp add: unat_gt_0)
  then have n1: "unat (n - 1) = unat n - 1" using False by (simp add: unat_minus_one)
  have fits: "unat a + unat a * ((unat n - 1) div unat a) < 2 ^ 64"
    using assms pos by (simp add: ceil_nat_def)
  have m: "unat (a * ((n - 1) div a)) = unat a * ((unat n - 1) div unat a)"
    using fits by (subst unat_mult_lem [THEN iffD1]) (simp_all add: unat_div_distrib n1)
  have "unat (a + a * ((n - 1) div a)) = unat a + unat a * ((unat n - 1) div unat a)"
    using fits m by (subst unat_add_lem [THEN iffD1]) simp_all
  then show ?thesis using False pos by (simp add: align_ceiling_def ceil_nat_def)
qed

lemma ceil_nat_dvd: "a dvd ceil_nat n a"
  by (simp add: ceil_nat_def)

lemma ceil_nat_ge:
  assumes "0 < a"
  shows "n \<le> ceil_nat n a"
proof (cases "n = 0")
  case False
  have "n - 1 < a + a * ((n - 1) div a)"
    using assms by (metis add.commute dividend_less_div_times mult.commute)
  then show ?thesis using False by (simp add: ceil_nat_def)
qed simp

lemma ceil_nat_less:
  assumes "0 < n"
  shows "ceil_nat n a < n + a"
proof -
  have "a * ((n - 1) div a) \<le> n - 1" by (rule times_div_less_eq_dividend)
  then have "a * ((n - 1) div a) < n" using assms by linarith
  then show ?thesis using assms by (simp add: ceil_nat_def)
qed

lemma ceil_nat_id:
  assumes "a dvd n" "0 < n" "0 < a"
  shows "ceil_nat n a = n"
proof -
  obtain k where k: "n = a * k" using assms(1) by (elim dvdE)
  then have "0 < k" using assms(2) by simp
  then have "n - 1 = (a - 1) + (k - 1) * a"
    using k assms(3) by (cases k) (auto simp: algebra_simps)
  then have "(n - 1) div a = k - 1" using assms(3) by (simp only: div_mult_self1) simp
  then show ?thesis using k \<open>0 < k\<close> assms(2) by (cases k) (auto simp: ceil_nat_def)
qed

lemma ceil_nat_zero: "ceil_nat 0 a = a"
  by (simp add: ceil_nat_def)

section \<open>Byte loops\<close>

lemma of_nat_add_inj64:
  assumes "i < 2 ^ 64" "j < 2 ^ 64"
  shows "p + of_nat i = (p + of_nat j :: 64 word) \<longleftrightarrow> i = j"
proof
  assume "p + of_nat i = (p + of_nat j :: 64 word)"
  then have "unat (of_nat i :: 64 word) = unat (of_nat j :: 64 word)" by simp
  then show "i = j" using assms by (simp add: unat_of_nat)
qed simp

lemma memset_loop_frame:
  "(\<And>j. i \<le> j \<Longrightarrow> j < i + k \<Longrightarrow> a \<noteq> p + of_nat j) \<Longrightarrow> memset_loop p v i k m a = m a"
  by (induction k arbitrary: i m) auto

lemma memset_loop_in:
  assumes "i + k \<le> 2 ^ 64" "i \<le> j" "j < i + k"
  shows "memset_loop p v i k m (p + of_nat j) = v"
  using assms
proof (induction k arbitrary: i m)
  case (Suc k)
  show ?case
  proof (cases "j = i")
    case True
    have "memset_loop p v (Suc i) k (m(p + of_nat i := v)) (p + of_nat i) = v"
    proof (subst memset_loop_frame)
      fix l assume "Suc i \<le> l" "l < Suc i + k"
      then show "p + of_nat i \<noteq> p + of_nat l"
        using Suc.prems(1) of_nat_add_inj64 [of i l p] by auto
    qed simp
    then show ?thesis using True by simp
  qed (use Suc in auto)
qed simp

text \<open>\<open>mem_copy\<close> copies the old contents when the regions do not overlap.\<close>

lemma mem_copy_loop_frame:
  "(\<And>j. i \<le> j \<Longrightarrow> j < i + k \<Longrightarrow> a \<noteq> dest + of_nat j) \<Longrightarrow> mem_copy_loop src dest i k m a = m a"
  by (induction k arbitrary: i m) auto

lemma mem_copy_loop_in:
  assumes "i + k \<le> 2 ^ 64" "i \<le> j" "j < i + k"
    and "\<forall>j l. i \<le> j \<and> j < i + k \<and> i \<le> l \<and> l < i + k \<longrightarrow> src + of_nat j \<noteq> dest + of_nat l"
  shows "mem_copy_loop src dest i k m (dest + of_nat j) = m (src + of_nat j)"
  using assms
proof (induction k arbitrary: i m)
  case (Suc k)
  let ?m = "m(dest + of_nat i := m (src + of_nat i))"
  show ?case
  proof (cases "j = i")
    case True
    have "mem_copy_loop src dest (Suc i) k ?m (dest + of_nat i) = ?m (dest + of_nat i)"
    proof (rule mem_copy_loop_frame)
      fix l assume "Suc i \<le> l" "l < Suc i + k"
      then show "dest + of_nat i \<noteq> dest + of_nat l"
        using Suc.prems(1) of_nat_add_inj64 [of i l dest] by auto
    qed
    then show ?thesis using True by simp
  next
    case False
    have "mem_copy_loop src dest (Suc i) k ?m (dest + of_nat j) = ?m (src + of_nat j)"
      using Suc.prems False by (intro Suc.IH) auto
    moreover have "src + of_nat j \<noteq> dest + of_nat i" using Suc.prems by auto
    ultimately show ?thesis by simp
  qed
qed simp

lemma mem_copy_disjoint:
  assumes "\<forall>j l. j < unat n \<and> l < unat n \<longrightarrow> src + of_nat j \<noteq> dest + of_nat l" "j < unat n"
  shows "mem_copy src dest n m (dest + of_nat j) = m (src + of_nat j)"
  unfolding mem_copy_def using assms unat_lt64 [of n] by (intro mem_copy_loop_in) auto

lemma mem_copy_outside:
  assumes "\<forall>j<unat n. a \<noteq> dest + of_nat j"
  shows "mem_copy src dest n m a = m a"
  unfolding mem_copy_def using assms by (intro mem_copy_loop_frame) auto

end
