(* ===== verification/Locks.thy ===== *)
theory Locks
  imports Prelude
begin

text \<open>
  The kernel's locks: \<open>spinlock_t\<close> (\<open>kernel/util/spinlock.cpp\<close> over the exchange loop in
  \<open>kernel/x86/amd64/util/\<close>), \<open>hwlock_t\<close> (\<open>kernel/util/hwlock.cpp\<close>, which masks interrupts) with the
  interrupt flag of \<open>kernel/x86/interrupt.cpp\<close>, and \<open>mutex_t\<close> (\<open>kernel/util/mutex.cpp\<close>).

  Two views of the spinlock: as seen by one caller, where taking a held lock never returns
  (\<open>Fail Deadlock\<close>), used by the component models; and as a transition system over any number of
  threads that run the exchange loop, where mutual exclusion is an invariant. The locale
  \<open>lock_discipline\<close> states what a critical section relies on.
\<close>

section \<open>Spinlock, one caller\<close>

record spinlock_t =
  lock_val :: size_t

definition spinlock_new :: spinlock_t where
  "spinlock_new = \<lparr>lock_val = 0\<rparr>"

definition spinlock_lock :: "spinlock_t \<Rightarrow> spinlock_t res" where
  "spinlock_lock l = (if lock_val l = 0 then Ok (l\<lparr>lock_val := 1\<rparr>) else Fail Deadlock)"

definition spinlock_unlock :: "spinlock_t \<Rightarrow> spinlock_t" where
  "spinlock_unlock l = l\<lparr>lock_val := 0\<rparr>"

text \<open>\<open>is_locked\<close> takes the lock, reads the value, and takes the lock again.\<close>

definition spinlock_is_locked :: "spinlock_t \<Rightarrow> (bool \<times> spinlock_t) res" where
  "spinlock_is_locked l =
     bind_res (spinlock_lock l) (\<lambda>l1.
       let locked = lock_val l1 > 0
       in bind_res (spinlock_lock l1) (\<lambda>l2. Ok (locked, l2)))"

section \<open>Critical sections\<close>

text \<open>The shape \<open>lock(); body; unlock(); return value;\<close> of every guarded routine.\<close>

definition with_lock ::
    "('s \<Rightarrow> 's res) \<Rightarrow> ('s \<Rightarrow> 's) \<Rightarrow> ('s \<Rightarrow> ('a \<times> 's) res) \<Rightarrow> 's \<Rightarrow> ('a \<times> 's) res" where
  "with_lock lock unlock body s =
     bind_res (lock s) (\<lambda>s1. bind_res (body s1) (\<lambda>(x, s2). Ok (x, unlock s2)))"

locale lock_discipline =
  fixes lock :: "'s \<Rightarrow> 's res"
    and unlock :: "'s \<Rightarrow> 's"
    and held :: "'s \<Rightarrow> bool"
    and core :: "'s \<Rightarrow> 'c"
  assumes lock_free: "\<not> held s \<Longrightarrow> \<exists>s'. lock s = Ok s' \<and> held s' \<and> core s' = core s"
    and lock_held: "held s \<Longrightarrow> lock s = Fail Deadlock"
    and unlock_free: "\<not> held (unlock s)"
    and unlock_core: "core (unlock s) = core s"
begin

text \<open>A section entered with the lock free is left with the lock free, whatever its body does.\<close>

lemma section_releases: "with_lock lock unlock body s = Ok (x, s') \<Longrightarrow> \<not> held s'"
  by (auto simp: with_lock_def unlock_free)

lemma section_needs_free: "with_lock lock unlock body s = Ok (x, s') \<Longrightarrow> \<not> held s"
  using lock_held [of s] by (auto simp: with_lock_def)

lemma section_blocks: "held s \<Longrightarrow> with_lock lock unlock body s = Fail Deadlock"
  by (simp add: with_lock_def lock_held)

text \<open>Calling a guarded routine inside a section of the same lock never returns.\<close>

lemma nested_section_blocks:
  assumes "\<And>s1. held s1 \<Longrightarrow> \<exists>y s2. pre s1 = Ok (y, s2) \<and> held s2"
  shows "with_lock lock unlock (\<lambda>s1. bind_res (pre s1) (\<lambda>(y, s2).
    bind_res (with_lock lock unlock body s2) rest)) s = Fail Deadlock"
proof (cases "held s")
  case True
  then show ?thesis by (rule section_blocks)
next
  case False
  then obtain s1 where s1: "lock s = Ok s1" "held s1" using lock_free by blast
  then obtain y s2 where "pre s1 = Ok (y, s2)" "held s2" using assms by blast
  then show ?thesis using s1 by (simp add: with_lock_def lock_held)
qed

text \<open>A body that only looks at the protected data.\<close>

lemma section_read:
  assumes "\<not> held s" "\<And>s1. core s1 = core s \<Longrightarrow> body s1 = Ok (x, s1)"
  shows "\<exists>s'. with_lock lock unlock body s = Ok (x, s') \<and> \<not> held s' \<and> core s' = core s"
proof -
  obtain s1 where "lock s = Ok s1" "held s1" "core s1 = core s" using lock_free [OF assms(1)] by blast
  then show ?thesis using assms(2) by (simp add: with_lock_def unlock_free unlock_core)
qed

end

definition spin_held :: "spinlock_t \<Rightarrow> bool" where
  "spin_held l \<longleftrightarrow> lock_val l \<noteq> 0"

interpretation spin: lock_discipline spinlock_lock spinlock_unlock spin_held "\<lambda>_. ()"
  by unfold_locales (auto simp: spinlock_lock_def spinlock_unlock_def spin_held_def)

lemma spinlock_is_locked_never_returns: "spinlock_is_locked l = Fail Deadlock"
  by (simp add: spinlock_is_locked_def spinlock_lock_def)

section \<open>Spinlock, many threads\<close>

text \<open>
  \<open>spinlock_lock_impl\<close>: \<open>mov $1, %rax\<close>; \<open>_lock: xchg (%rdi), %rax; test; jnz _lock\<close>. The register keeps
  what the exchange returned, so a retry writes the old value back.
\<close>

datatype phase = Idle | Spin size_t | Crit

record spin_sys =
  sval :: size_t
  pcs :: "nat \<Rightarrow> phase"

definition spin_init :: spin_sys where
  "spin_init = \<lparr>sval = 0, pcs = (\<lambda>_. Idle)\<rparr>"

inductive spin_step :: "spin_sys \<Rightarrow> spin_sys \<Rightarrow> bool" where
  spin_enter: "pcs s i = Idle \<Longrightarrow> spin_step s (s\<lparr>pcs := (pcs s)(i := Spin 1)\<rparr>)"
| spin_xchg: "pcs s i = Spin r \<Longrightarrow>
     spin_step s (s\<lparr>sval := r, pcs := (pcs s)(i := if sval s = 0 then Crit else Spin (sval s))\<rparr>)"
| spin_leave: "pcs s i = Crit \<Longrightarrow> spin_step s (s\<lparr>sval := 0, pcs := (pcs s)(i := Idle)\<rparr>)"

inductive spin_reach :: "spin_sys \<Rightarrow> bool" where
  spin_start: "spin_reach spin_init"
| spin_next: "spin_reach s \<Longrightarrow> spin_step s t \<Longrightarrow> spin_reach t"

inductive_cases spin_stepE: "spin_step s t"

definition spin_inv :: "spin_sys \<Rightarrow> bool" where
  "spin_inv s \<longleftrightarrow> (\<forall>i r. pcs s i = Spin r \<longrightarrow> r \<noteq> 0) \<and>
     (\<forall>i j. pcs s i = Crit \<and> pcs s j = Crit \<longrightarrow> i = j) \<and>
     (sval s \<noteq> 0 \<longleftrightarrow> (\<exists>i. pcs s i = Crit))"

lemma spin_inv_init: "spin_inv spin_init"
  by (simp add: spin_inv_def spin_init_def)

lemma spin_invI:
  assumes "\<And>i r. pcs s i = Spin r \<Longrightarrow> r \<noteq> 0" "\<And>i j. pcs s i = Crit \<Longrightarrow> pcs s j = Crit \<Longrightarrow> i = j"
    "sval s \<noteq> 0 \<longleftrightarrow> (\<exists>i. pcs s i = Crit)"
  shows "spin_inv s"
  unfolding spin_inv_def using assms by blast

lemma spin_inv_step:
  assumes "spin_step s t" "spin_inv s"
  shows "spin_inv t"
proof -
  have reg: "pcs s i = Spin r \<Longrightarrow> r \<noteq> 0" for i r using assms(2) unfolding spin_inv_def by blast
  have one: "pcs s i = Crit \<Longrightarrow> pcs s j = Crit \<Longrightarrow> i = j" for i j
    using assms(2) unfolding spin_inv_def by blast
  have held: "sval s \<noteq> 0 \<longleftrightarrow> (\<exists>i. pcs s i = Crit)" using assms(2) unfolding spin_inv_def by blast
  from assms(1) show ?thesis
  proof cases
    case (spin_enter i)
    have crit: "pcs t j = Crit \<longleftrightarrow> pcs s j = Crit" for j using spin_enter by auto
    show ?thesis
      by (rule spin_invI) (use spin_enter reg one held crit in \<open>auto split: if_splits\<close>)
  next
    case (spin_xchg i r)
    show ?thesis
    proof (cases "sval s = 0")
      case True
      then have none: "pcs s j \<noteq> Crit" for j using held by blast
      have crit: "pcs t j = Crit \<longleftrightarrow> j = i" for j using spin_xchg True none by auto
      show ?thesis
        by (rule spin_invI) (use spin_xchg reg crit True in \<open>auto split: if_splits\<close>)
    next
      case False
      have crit: "pcs t j = Crit \<longleftrightarrow> pcs s j = Crit" for j using spin_xchg False by auto
      have "r \<noteq> 0" using spin_xchg(2) reg by blast
      then show ?thesis
        by (intro spin_invI) (use spin_xchg reg one held crit False in \<open>auto split: if_splits\<close>)
    qed
  next
    case (spin_leave i)
    have crit: "pcs t j \<noteq> Crit" for j using spin_leave one [of j i] by auto
    show ?thesis
      by (rule spin_invI) (use spin_leave reg crit in \<open>auto split: if_splits\<close>)
  qed
qed

lemma spin_reach_inv: "spin_reach s \<Longrightarrow> spin_inv s"
  by (induction rule: spin_reach.induct) (auto intro: spin_inv_init spin_inv_step)

section \<open>The hardware lock\<close>

text \<open>
  \<open>hwlock_t\<close> has no members: every instance shares the two statics of \<open>hwlock.cpp\<close>. \<open>rflags\<close> is the
  processor's flag register, whose bit 9 is the interrupt flag.
\<close>

record hw_state =
  rflags :: u64
  hw_int_enabled :: bool
  hw_locked :: bool

definition interrupt_enable :: "bool \<Rightarrow> hw_state \<Rightarrow> hw_state" where
  "interrupt_enable enable s =
     (if enable then s\<lparr>rflags := rflags s OR push_bit 9 1\<rparr>
      else s\<lparr>rflags := rflags s AND NOT (push_bit 9 1)\<rparr>)"

definition interrupt_enabled :: "hw_state \<Rightarrow> bool" where
  "interrupt_enabled s \<longleftrightarrow> rflags s AND push_bit 9 1 > 0"

definition hw_init :: hw_state where
  "hw_init = \<lparr>rflags = 0, hw_int_enabled = False, hw_locked = False\<rparr>"

definition hwlock_is_locked :: "hw_state \<Rightarrow> bool" where
  "hwlock_is_locked s = hw_locked s"

definition hwlock_lock :: "hw_state \<Rightarrow> hw_state" where
  "hwlock_lock s =
     (if \<not> hw_locked s
      then let s1 = s\<lparr>hw_int_enabled := interrupt_enabled s\<rparr>;
               s2 = (if hw_int_enabled s1 then interrupt_enable False s1 else s1)
           in s2\<lparr>hw_locked := True\<rparr>
      else s)"

definition hwlock_unlock :: "hw_state \<Rightarrow> hw_state" where
  "hwlock_unlock s =
     (if hw_locked s
      then let s1 = (if hw_int_enabled s then interrupt_enable True s else s);
               s2 = s1\<lparr>hw_int_enabled := interrupt_enabled s1\<rparr>
           in s2\<lparr>hw_locked := False\<rparr>
      else s)"

lemma bit_IF_mask: "bit (512 :: int) n \<longleftrightarrow> n = 9"
  using bit_exp_iff [of 9 n, where 'a = int] by auto

lemma interrupt_enabled_bit: "interrupt_enabled s \<longleftrightarrow> bit (rflags s) 9"
proof -
  have "rflags s AND push_bit 9 1 = (if bit (rflags s) 9 then push_bit 9 1 else 0)"
    by (rule bit_word_eqI) (auto simp: bit_simps bit_IF_mask)
  then show ?thesis by (simp add: interrupt_enabled_def)
qed

lemma interrupt_enabled_enable [simp]: "interrupt_enabled (interrupt_enable b s) \<longleftrightarrow> b"
  by (auto simp: interrupt_enabled_bit interrupt_enable_def bit_simps bit_IF_mask)

lemma interrupt_enable_fields [simp]:
  "hw_int_enabled (interrupt_enable b s) = hw_int_enabled s"
  "hw_locked (interrupt_enable b s) = hw_locked s"
  by (simp_all add: interrupt_enable_def)

lemma interrupt_enabled_upd [simp]:
  "interrupt_enabled (s\<lparr>hw_int_enabled := b\<rparr>) = interrupt_enabled s"
  "interrupt_enabled (s\<lparr>hw_locked := b\<rparr>) = interrupt_enabled s"
  by (simp_all add: interrupt_enabled_def)

text \<open>Inside a section entered from an unlocked state the processor takes no interrupt.\<close>

lemma hwlock_lock_masks:
  "\<not> hw_locked s \<Longrightarrow> hw_locked (hwlock_lock s) \<and> \<not> interrupt_enabled (hwlock_lock s) \<and>
     hw_int_enabled (hwlock_lock s) = interrupt_enabled s"
  by (simp add: hwlock_lock_def Let_def)

lemma hwlock_unlock_restores:
  "hw_locked s \<Longrightarrow> \<not> interrupt_enabled s \<Longrightarrow> \<not> hw_locked (hwlock_unlock s) \<and>
     interrupt_enabled (hwlock_unlock s) = hw_int_enabled s"
  by (simp add: hwlock_unlock_def Let_def)

lemma hwlock_balanced:
  assumes "\<not> hw_locked s"
  shows "\<not> hw_locked (hwlock_unlock (hwlock_lock s))"
    "interrupt_enabled (hwlock_unlock (hwlock_lock s)) = interrupt_enabled s"
  using hwlock_lock_masks [OF assms] hwlock_unlock_restores [of "hwlock_lock s"] by simp_all

lemma hwlock_lock_idem: "hwlock_lock (hwlock_lock s) = hwlock_lock s"
  by (cases "hw_locked s") (simp_all add: hwlock_lock_def Let_def)

lemma hwlock_unlock_unlocked: "\<not> hw_locked s \<Longrightarrow> hwlock_unlock s = s"
  by (simp add: hwlock_unlock_def)

text \<open>The lock does not count: the end of an inner section ends the outer one.\<close>

lemma hwlock_nested_released:
  "\<not> hw_locked s \<Longrightarrow>
     \<not> hw_locked (hwlock_unlock (hwlock_lock (hwlock_lock s))) \<and>
     interrupt_enabled (hwlock_unlock (hwlock_lock (hwlock_lock s))) = interrupt_enabled s"
  by (simp add: hwlock_lock_idem hwlock_balanced)

section \<open>The mutex\<close>

text \<open>
  \<open>mutex_t::lock\<close> and \<open>unlock\<close> issue the system calls \<open>LMUTEX\<close> and \<open>UMUTEX\<close>, whose handlers in
  \<open>kernel/sys/call.cpp\<close> are commented out: \<open>locked\<close> is never written.
\<close>

record mutex_t =
  locked :: bool

definition mutex_lock :: "mutex_t \<Rightarrow> mutex_t" where
  "mutex_lock m = m"

definition mutex_unlock :: "mutex_t \<Rightarrow> mutex_t" where
  "mutex_unlock m = m"

end
