(* ===== verification/Util_Str.thy ===== *)
theory Util_Str
  imports Prelude
begin

text \<open>
  C strings: \<open>include/tupai/util/str.hpp\<close>. A \<open>char*\<close> is the array it points into, a list of
  characters with the terminator written out; a loop that runs past the end of the array is
  \<open>Fail OutOfBounds\<close>. \<open>cstr\<close> reads the string an array holds, and the lemmas say what each
  routine does to it.
\<close>

abbreviation NUL :: char where
  "NUL \<equiv> CHR 0x00"

definition cstr :: "string \<Rightarrow> string" where
  "cstr buf = takeWhile (\<lambda>c. c \<noteq> NUL) buf"

definition is_cstr :: "string \<Rightarrow> bool" where
  "is_cstr buf \<longleftrightarrow> NUL \<in> set buf"

text \<open>A string literal as the compiler lays it out.\<close>

definition lit :: "string \<Rightarrow> string" where
  "lit s = s @ [NUL]"

section \<open>The routines\<close>

text \<open>\<open>for (i = 0; str[i] != 0; i ++); return i;\<close>\<close>

function str_len_from :: "string \<Rightarrow> nat \<Rightarrow> nat res" where
  "str_len_from str i =
     bind_res (arr_get str i) (\<lambda>c. if c \<noteq> NUL then str_len_from str (Suc i) else Ok i)"
  by pat_completeness auto
termination
  by (relation "measure (\<lambda>(str, i). length str - i)") (auto simp: arr_get_eq_Ok)

definition str_len :: "string \<Rightarrow> nat res" where
  "str_len str = str_len_from str 0"

text \<open>\<open>for (i = 0; src[i] != 0; i ++) dest[i] = src[i]; dest[i] = 0;\<close>\<close>

function str_cpy_from :: "string \<Rightarrow> string \<Rightarrow> nat \<Rightarrow> string res" where
  "str_cpy_from src dest i =
     bind_res (arr_get src i) (\<lambda>c.
       if c \<noteq> NUL
       then bind_res (arr_set dest i c) (\<lambda>dest'. str_cpy_from src dest' (Suc i))
       else arr_set dest i NUL)"
  by pat_completeness auto
termination
  by (relation "measure (\<lambda>(src, dest, i). length src - i)") (auto simp: arr_get_eq_Ok)

definition str_cpy :: "string \<Rightarrow> string \<Rightarrow> string res" where
  "str_cpy src dest = str_cpy_from src dest 0"

text \<open>\<open>for (i = 0; src[i] != 0 && i + 1 < n; i ++) dest[i] = src[i]; dest[i] = 0;\<close>\<close>

function str_cpy_n_from :: "string \<Rightarrow> string \<Rightarrow> nat \<Rightarrow> nat \<Rightarrow> string res" where
  "str_cpy_n_from src dest n i =
     bind_res (arr_get src i) (\<lambda>c.
       if c \<noteq> NUL \<and> i + 1 < n
       then bind_res (arr_set dest i c) (\<lambda>dest'. str_cpy_n_from src dest' n (Suc i))
       else arr_set dest i NUL)"
  by pat_completeness auto
termination
  by (relation "measure (\<lambda>(src, dest, n, i). length src - i)") (auto simp: arr_get_eq_Ok)

definition str_cpy_n :: "string \<Rightarrow> string \<Rightarrow> nat \<Rightarrow> string res" where
  "str_cpy_n src dest n = str_cpy_n_from src dest n 0"

text \<open>The template overload takes the bound from the type of the destination array.\<close>

definition str_cpy_arr :: "string \<Rightarrow> string \<Rightarrow> string res" where
  "str_cpy_arr src dest = str_cpy_n src dest (length dest)"

text \<open>A \<open>do\<close> loop: the characters at \<open>i\<close> are compared before either terminator is looked for.\<close>

function str_equal_from :: "string \<Rightarrow> string \<Rightarrow> nat \<Rightarrow> bool res" where
  "str_equal_from str0 str1 i =
     bind_res (arr_get str0 i) (\<lambda>a. bind_res (arr_get str1 i) (\<lambda>b.
       if a \<noteq> b then Ok False
       else bind_res (arr_get str0 (Suc i)) (\<lambda>a'.
         if a' \<noteq> NUL then str_equal_from str0 str1 (Suc i)
         else bind_res (arr_get str1 (Suc i)) (\<lambda>b'.
           if b' \<noteq> NUL then str_equal_from str0 str1 (Suc i) else Ok True))))"
  by pat_completeness auto
termination
  by (relation "measure (\<lambda>(str0, str1, i). length str0 - i)") (auto simp: arr_get_eq_Ok)

definition str_equal :: "string \<Rightarrow> string \<Rightarrow> bool res" where
  "str_equal str0 str1 = str_equal_from str0 str1 0"

declare str_len_from.simps [simp del] str_cpy_from.simps [simp del]
  str_cpy_n_from.simps [simp del] str_equal_from.simps [simp del]

section \<open>Facts about terminated arrays\<close>

lemma cstr_append_NUL: "NUL \<notin> set s \<Longrightarrow> cstr (s @ NUL # t) = s"
  unfolding cstr_def by (induction s) auto

lemma cstr_lit [simp]: "NUL \<notin> set s \<Longrightarrow> cstr (lit s) = s"
  unfolding lit_def by (rule cstr_append_NUL)

lemma is_cstr_lit [simp]: "is_cstr (lit s)"
  by (simp add: is_cstr_def lit_def)

lemma NUL_notin_cstr [simp]: "NUL \<notin> set (cstr buf)"
  unfolding cstr_def by (auto dest: set_takeWhileD)

lemma length_cstr_le: "length (cstr buf) \<le> length buf"
  by (simp add: cstr_def length_takeWhile_le)

lemma length_cstr_less: "is_cstr buf \<Longrightarrow> length (cstr buf) < length buf"
  unfolding cstr_def is_cstr_def by (induction buf) auto

lemma cstr_nth: "i < length (cstr buf) \<Longrightarrow> buf ! i = cstr buf ! i"
  unfolding cstr_def by (simp add: takeWhile_nth)

lemma cstr_nth_neq: "i < length (cstr buf) \<Longrightarrow> buf ! i \<noteq> NUL"
  by (metis NUL_notin_cstr cstr_nth nth_mem)

lemma cstr_nth_end: "is_cstr buf \<Longrightarrow> buf ! length (cstr buf) = NUL"
  using length_cstr_less [of buf] nth_length_takeWhile [of "\<lambda>c. c \<noteq> NUL" buf]
  by (simp add: cstr_def)

lemma cstr_eqI:
  assumes "length s < length buf" "\<And>i. i < length s \<Longrightarrow> buf ! i = s ! i"
    "buf ! length s = NUL" "NUL \<notin> set s"
  shows "cstr buf = s"
proof -
  have "buf = s @ NUL # drop (Suc (length s)) buf"
  proof (rule nth_equalityI)
    show "length buf = length (s @ NUL # drop (Suc (length s)) buf)"
      using assms(1) by simp
    fix i assume "i < length buf"
    then show "buf ! i = (s @ NUL # drop (Suc (length s)) buf) ! i"
      using assms by (auto simp: nth_append nth_Cons' not_less less_Suc_eq_le)
  qed
  then have "cstr buf = cstr (s @ NUL # drop (Suc (length s)) buf)" by simp
  also have "\<dots> = s"
    using assms(4) by (rule cstr_append_NUL)
  finally show ?thesis .
qed

lemma is_cstrI: "i < length buf \<Longrightarrow> buf ! i = NUL \<Longrightarrow> is_cstr buf"
  by (metis is_cstr_def nth_mem)


section \<open>What the routines do\<close>

lemma str_len_from_cstr:
  assumes "is_cstr str" "i \<le> length (cstr str)"
  shows "str_len_from str i = Ok (length (cstr str))"
  using assms
proof (induction str i rule: str_len_from.induct)
  case (1 str i)
  have i: "i < length str" using 1(2,3) length_cstr_less [of str] by simp
  show ?case
  proof (cases "i = length (cstr str)")
    case True
    then show ?thesis using i 1(2) by (simp add: str_len_from.simps cstr_nth_end)
  next
    case False
    then have "str ! i \<noteq> NUL" using 1(3) by (intro cstr_nth_neq) simp
    then show ?thesis using i 1 False by (subst str_len_from.simps) simp
  qed
qed

lemma str_len_cstr: "is_cstr str \<Longrightarrow> str_len str = Ok (length (cstr str))"
  by (simp add: str_len_def str_len_from_cstr)

text \<open>
  The copy loop, from position \<open>i\<close> on: \<open>k\<close> is where the terminator lands. Everything outside
  \<open>[i, k]\<close> keeps its value.
\<close>

lemma str_cpy_n_from_spec:
  assumes "is_cstr src" "i \<le> length (cstr src)" "k = min (length (cstr src)) (max i (n - 1))"
    "k < length dest"
  shows "\<exists>d. str_cpy_n_from src dest n i = Ok d \<and> length d = length dest \<and> d ! k = NUL \<and>
    (\<forall>j. i \<le> j \<and> j < k \<longrightarrow> d ! j = src ! j) \<and> (\<forall>j. j < i \<or> k < j \<longrightarrow> d ! j = dest ! j)"
  using assms
proof (induction src dest n i rule: str_cpy_n_from.induct)
  case (1 src dest n i)
  have i: "i < length src" "i \<le> k" "i < length dest"
    using "1.prems" length_cstr_less [of src] by auto
  show ?case
  proof (cases "src ! i \<noteq> NUL \<and> i + 1 < n")
    case True
    then have lt: "i < length (cstr src)"
      using "1.prems"(1,2) cstr_nth_end [of src] by (cases "i = length (cstr src)") auto
    have k: "k = min (length (cstr src)) (max (Suc i) (n - 1))"
      using "1.prems"(3) True lt by auto
    have "\<exists>d. str_cpy_n_from src (dest[i := src ! i]) n (Suc i) = Ok d \<and>
        length d = length (dest[i := src ! i]) \<and> d ! k = NUL \<and>
        (\<forall>j. Suc i \<le> j \<and> j < k \<longrightarrow> d ! j = src ! j) \<and>
        (\<forall>j. j < Suc i \<or> k < j \<longrightarrow> d ! j = dest[i := src ! i] ! j)"
      using "1.IH" [of "src ! i" "dest[i := src ! i]"] True i lt k "1.prems"(1,4) by simp
    then obtain d where d: "str_cpy_n_from src (dest[i := src ! i]) n (Suc i) = Ok d"
        "length d = length dest" "d ! k = NUL" "\<And>j. Suc i \<le> j \<Longrightarrow> j < k \<Longrightarrow> d ! j = src ! j"
        "\<And>j. j < Suc i \<or> k < j \<Longrightarrow> d ! j = dest[i := src ! i] ! j"
      by auto
    have "d ! i = src ! i" using d(5) [of i] i by simp
    then have "\<forall>j. i \<le> j \<and> j < k \<longrightarrow> d ! j = src ! j" using d(4) by (metis Suc_leI nat_less_le)
    moreover have "\<forall>j. j < i \<or> k < j \<longrightarrow> d ! j = dest ! j" using d(5) i by auto
    moreover have "str_cpy_n_from src dest n i = Ok d"
      using True i d(1) by (subst str_cpy_n_from.simps) simp
    ultimately show ?thesis using d by blast
  next
    case False
    then have "k = i"
    proof (cases "src ! i = NUL")
      case True
      then have "i = length (cstr src)"
        using "1.prems"(2) cstr_nth_neq [of i src] by fastforce
      then show ?thesis using "1.prems"(3) by simp
    qed (use False "1.prems" in auto)
    moreover have "str_cpy_n_from src dest n i = Ok (dest[i := NUL])"
      using False i by (subst str_cpy_n_from.simps) auto
    ultimately show ?thesis using i by auto
  qed
qed

lemma str_cpy_n_ok:
  assumes "is_cstr src" "0 < n" "n \<le> length dest"
  shows "\<exists>d. str_cpy_n src dest n = Ok d \<and> length d = length dest \<and> is_cstr d \<and>
    cstr d = take (n - 1) (cstr src) \<and> (\<forall>j\<ge>n. d ! j = dest ! j)"
proof -
  let ?k = "min (length (cstr src)) (n - 1)"
  have k: "?k < length dest" using assms(2,3) by linarith
  obtain d where d: "str_cpy_n_from src dest n 0 = Ok d" "length d = length dest" "d ! ?k = NUL"
      "\<And>j. j < ?k \<Longrightarrow> d ! j = src ! j" "\<And>j. ?k < j \<Longrightarrow> d ! j = dest ! j"
    using str_cpy_n_from_spec [OF assms(1), of 0 ?k n dest] k by auto
  have "cstr d = take (n - 1) (cstr src)"
  proof (rule cstr_eqI)
    show "length (take (n - 1) (cstr src)) < length d" using assms d(2) by simp
    show "NUL \<notin> set (take (n - 1) (cstr src))" by (meson NUL_notin_cstr in_set_takeD)
    show "d ! length (take (n - 1) (cstr src)) = NUL" using d(3) by (simp add: min.commute)
    fix i assume "i < length (take (n - 1) (cstr src))"
    then show "d ! i = take (n - 1) (cstr src) ! i"
      using d(4) by (simp add: cstr_nth)
  qed
  moreover have "is_cstr d" using d(2,3) assms by (intro is_cstrI [of ?k]) auto
  moreover have "\<forall>j\<ge>n. d ! j = dest ! j" using d(5) assms(2) by auto
  ultimately show ?thesis using d by (auto simp: str_cpy_n_def)
qed

lemma str_equal_from_spec:
  assumes "is_cstr a" "is_cstr b" "i < length (cstr a) \<or> i < length (cstr b)"
    "take i (cstr a) = take i (cstr b)" "i \<le> length (cstr a)" "i \<le> length (cstr b)"
  shows "str_equal_from a b i = Ok (cstr a = cstr b)"
  using assms
proof (induction a b i rule: str_equal_from.induct)
  case (1 a b i)
  have len: "length (cstr a) < length a" "length (cstr b) < length b"
    using "1.prems" by (simp_all add: length_cstr_less)
  then have i: "i < length a" "i < length b" using "1.prems"(5,6) by linarith+
  show ?case
  proof (cases "a ! i = b ! i")
    case False
    have "cstr a \<noteq> cstr b"
    proof
      assume eq: "cstr a = cstr b"
      then have "i < length (cstr a)" "i < length (cstr b)" using "1.prems"(3) by auto
      then show False using False eq by (metis cstr_nth)
    qed
    then show ?thesis using False i by (simp add: str_equal_from.simps)
  next
    case True
    have lt: "i < length (cstr a)" "i < length (cstr b)"
      using True "1.prems" cstr_nth_end [of a] cstr_nth_end [of b] cstr_nth_neq [of i a]
        cstr_nth_neq [of i b] by (metis le_neq_implies_less)+
    have tk: "take (Suc i) (cstr a) = take (Suc i) (cstr b)"
      using True lt "1.prems"(4) by (simp add: take_Suc_conv_app_nth cstr_nth)
    have suc: "Suc i < length a" "Suc i < length b" using lt len by linarith+
    have zero: "x ! Suc i = NUL \<longleftrightarrow> Suc i = length (cstr x)"
      if "is_cstr x" "i < length (cstr x)" for x
      using that cstr_nth_end [of x] cstr_nth_neq [of "Suc i" x]
      by (metis Suc_leI le_neq_implies_less)
    show ?thesis
    proof (cases "a ! Suc i = NUL \<and> b ! Suc i = NUL")
      case True
      then have "cstr a = cstr b" using zero lt tk "1.prems"(1,2) by simp
      then show ?thesis using True \<open>a ! i = b ! i\<close> i suc by (subst str_equal_from.simps) simp
    next
      case False
      then have "Suc i < length (cstr a) \<or> Suc i < length (cstr b)"
        using zero lt "1.prems"(1,2) by (metis Suc_leI le_neq_implies_less)
      then show ?thesis
        using "1.IH" [OF arr_get_Ok [OF i(1)] arr_get_Ok [OF i(2)]] False True tk lt i suc "1.prems"(1,2)
        by (subst str_equal_from.simps) auto
    qed
  qed
qed

lemma str_equal_cstr:
  assumes "is_cstr a" "is_cstr b" "cstr a \<noteq> [] \<or> cstr b \<noteq> []"
  shows "str_equal a b = Ok (cstr a = cstr b)"
  unfolding str_equal_def using assms by (intro str_equal_from_spec) auto

end
