(* ===== verification/Conv.thy ===== *)
theory Conv
  imports Util_Str Util_Mem
begin

text \<open>
  Integer to text: \<open>kernel/util/conv.cpp\<close>. The template \<open>compose_integer\<close> is one function over the
  width and the signedness of its type; a value is an \<open>int\<close> kept in the range of that type, and a
  result that does not fit wraps the way the target does. The caller's buffer is the list of its
  characters, so a write outside it would be \<open>Fail OutOfBounds\<close>; the lemmas show that none happens
  once the size test has passed, what string the buffer holds, and that reading the string back in
  the same base gives the value.
\<close>

section \<open>The routine\<close>

definition wrap_int :: "bool \<Rightarrow> nat \<Rightarrow> int \<Rightarrow> int" where
  "wrap_int sg bits v = (if sg then signed_take_bit (bits - 1) v else take_bit bits v)"

definition in_range :: "bool \<Rightarrow> nat \<Rightarrow> int \<Rightarrow> bool" where
  "in_range sg bits v \<longleftrightarrow>
     (if sg then - (2 ^ (bits - 1)) \<le> v \<and> v < 2 ^ (bits - 1) else 0 \<le> v \<and> v < 2 ^ bits)"

definition abs_T :: "bool \<Rightarrow> nat \<Rightarrow> int \<Rightarrow> int" where
  "abs_T sg bits v = wrap_int sg bits (if v < 0 then - v else v)"

text \<open>\<open>for (T test = abs(val); test > 0; test /= base) digits ++;\<close> a loop that need not end.\<close>

partial_function (option) count_digits :: "int \<Rightarrow> int \<Rightarrow> nat \<Rightarrow> nat option" where
  "count_digits base test digits =
     (if test > 0 then count_digits base (test div base) (Suc digits) else Some digits)"

declare count_digits.simps [code]

text \<open>\<open>'0' + d\<close>, and the conditional of the bases above ten.\<close>

definition dec_char :: "int \<Rightarrow> char" where
  "dec_char d = char_of (48 + nat d)"

definition hex_char :: "int \<Rightarrow> char" where
  "hex_char d = (if d \<ge> 10 then char_of (65 + nat d - 10) else char_of (48 + nat d))"

definition digit_char :: "int \<Rightarrow> int \<Rightarrow> char" where
  "digit_char base d = (if base \<le> 10 then dec_char d else hex_char d)"

text \<open>The padding loop and the digit loop, which stores from the least significant digit down.\<close>

fun put_zeros :: "string \<Rightarrow> nat \<Rightarrow> nat \<Rightarrow> (string \<times> nat) res" where
  "put_zeros buff str_count 0 = Ok (buff, str_count)"
| "put_zeros buff str_count (Suc k) =
     bind_res (arr_set buff str_count CHR ''0'') (\<lambda>b. put_zeros b (Suc str_count) k)"

fun put_digits :: "int \<Rightarrow> string \<Rightarrow> nat \<Rightarrow> int \<Rightarrow> nat \<Rightarrow> nat \<Rightarrow> string res" where
  "put_digits base buff str_count val i 0 = Ok buff"
| "put_digits base buff str_count val i (Suc k) =
     bind_res (arr_set buff (str_count - i - 1) (digit_char base (val mod base)))
       (\<lambda>b. put_digits base b str_count (val div base) (Suc i) k)"

definition put_prefix :: "int \<Rightarrow> string \<Rightarrow> nat \<Rightarrow> (string \<times> nat) res" where
  "put_prefix base buff str_count =
     (if base = 2 \<or> base = 8 \<or> base = 16
      then bind_res (arr_set buff str_count CHR ''0'') (\<lambda>b.
           bind_res (arr_set b (str_count + 1)
               (if base = 2 then CHR ''b'' else if base = 8 then CHR ''o'' else CHR ''x''))
             (\<lambda>b'. Ok (b', str_count + 2)))
      else Ok (buff, str_count))"

definition put_sign :: "int \<Rightarrow> string \<Rightarrow> nat \<Rightarrow> (string \<times> nat) res" where
  "put_sign val buff str_count =
     (if val < 0
      then bind_res (arr_set buff str_count CHR ''-'') (\<lambda>b. Ok (b, str_count + 1))
      else Ok (buff, str_count))"

definition full_pad :: "nat \<Rightarrow> int \<Rightarrow> int \<Rightarrow> int" where
  "full_pad bits base pad =
     (if pad = - 1
      then if base = 2 then int bits else if base = 16 then int (bits div 4) else pad
      else pad)"

definition compose_integer ::
    "bool \<Rightarrow> nat \<Rightarrow> int \<Rightarrow> string \<Rightarrow> nat \<Rightarrow> int \<Rightarrow> int \<Rightarrow> (bool \<times> string) res" where
  "compose_integer sg bits val buff n base pad =
     (if n < bits + 4 then Ok (False, buff)
      else if base \<le> 0 then Ok (False, buff)
      else
        (case count_digits base (abs_T sg bits val) 0 of None \<Rightarrow> Fail Diverges | Some digits \<Rightarrow>
        bind_res (put_sign val buff 0) (\<lambda>(b1, c1).
        bind_res (put_prefix base b1 c1) (\<lambda>(b2, c2).
        let val' = (if val < 0 then abs_T sg bits val else val);
            pad' = min_of (int bits) (max_of 1 (full_pad bits base pad))
        in bind_res (put_zeros b2 c2 (nat (pad' - int digits))) (\<lambda>(b3, c3).
           if 2 \<le> base \<and> base \<le> 16
           then bind_res (put_digits base b3 (c3 + digits) val' 0 digits) (\<lambda>b4.
                bind_res (arr_set b4 (c3 + digits) NUL) (\<lambda>b5. Ok (True, b5)))
           else Ok (False, b3))))))"

text \<open>The overloads of \<open>compose\<close>.\<close>

definition compose_ptr :: "addr \<Rightarrow> string \<Rightarrow> nat \<Rightarrow> (bool \<times> string) res" where
  "compose_ptr val buff n = compose_integer False 64 (uint val) buff n 16 16"

definition compose_bool :: "bool \<Rightarrow> string \<Rightarrow> nat \<Rightarrow> (bool \<times> string) res" where
  "compose_bool val buff n =
     (if n < 6 then Ok (False, buff)
      else bind_res (str_cpy (lit (if val then ''true'' else ''false'')) buff) (\<lambda>b. Ok (True, b)))"

section \<open>The text of a number\<close>

function digits_of :: "int \<Rightarrow> int \<Rightarrow> string" where
  "digits_of base v =
     (if v > 0 \<and> base > 1 then digits_of base (v div base) @ [digit_char base (v mod base)] else [])"
  by pat_completeness auto
termination
proof (relation "measure (\<lambda>(base, v). nat v)")
  fix base v :: int
  assume "v > 0 \<and> base > 1"
  then have "v div base < v" by (intro int_div_less_self) auto
  then show "((base, v div base), base, v) \<in> measure (\<lambda>(base, v). nat v)"
    using \<open>v > 0 \<and> base > 1\<close> by simp
qed simp

declare digits_of.simps [simp del]

definition base_prefix :: "int \<Rightarrow> string" where
  "base_prefix base =
     (if base = 2 then ''0b'' else if base = 8 then ''0o'' else if base = 16 then ''0x'' else [])"

definition int_text :: "nat \<Rightarrow> int \<Rightarrow> int \<Rightarrow> int \<Rightarrow> string" where
  "int_text bits v base pad =
     (if v < 0 then ''-'' else []) @ base_prefix base @
     replicate (nat (min (int bits) (max 1 (full_pad bits base pad)) -
       int (length (digits_of base \<bar>v\<bar>)))) CHR ''0'' @
     digits_of base \<bar>v\<bar>"

text \<open>The sign and the digits of two values: what the routine writes for the sign of one and the magnitude of another.\<close>

definition raw_text :: "nat \<Rightarrow> bool \<Rightarrow> int \<Rightarrow> int \<Rightarrow> int \<Rightarrow> string" where
  "raw_text bits neg av base pad =
     (if neg then ''-'' else []) @ base_prefix base @
     replicate (nat (min (int bits) (max 1 (full_pad bits base pad)) - int (length (digits_of base av)))) CHR ''0'' @
     digits_of base av"

lemma int_text_raw: "int_text bits v base pad = raw_text bits (v < 0) \<bar>v\<bar> base pad"
  by (simp add: int_text_def raw_text_def)

text \<open>Reading a digit string back, most significant digit first.\<close>

definition digit_val :: "char \<Rightarrow> int" where
  "digit_val c = (if of_char c \<ge> (65 :: int) then of_char c - 55 else of_char c - 48)"

definition parse_digits :: "int \<Rightarrow> string \<Rightarrow> int" where
  "parse_digits base s = foldl (\<lambda>a c. a * base + digit_val c) 0 s"

lemma digits_of_0 [simp]: "digits_of base 0 = []"
  by (simp add: digits_of.simps)

lemma digits_of_pos:
  "v > 0 \<Longrightarrow> base > 1 \<Longrightarrow> digits_of base v = digits_of base (v div base) @ [digit_char base (v mod base)]"
  by (simp add: digits_of.simps [of base v])

lemma digit_val_char:
  assumes "0 \<le> d" "d < base" "base \<le> 16"
  shows "digit_val (digit_char base d) = d" "digit_char base d \<noteq> NUL"
proof -
  have "nat d < 16" using assms by simp
  then have lt: "48 + nat d < 256" "55 + nat d < 256" by simp_all
  have "digit_char base d = (if d \<ge> 10 then char_of (55 + nat d) else char_of (48 + nat d))"
    using assms by (auto simp: digit_char_def dec_char_def hex_char_def)
  moreover have "(of_char (char_of (k::nat)) :: int) = int k" if "k < 256" for k
  proof -
    have "(of_char (char_of k) :: int) = of_nat (of_char (char_of k))" by (simp only: of_nat_of_char)
    then show ?thesis using that by (simp only: of_char_of) simp
  qed
  ultimately show "digit_val (digit_char base d) = d"
    using assms lt by (auto simp: digit_val_def)
  have "(of_char (digit_char base d) :: nat) \<noteq> of_char NUL"
    using \<open>digit_char base d = _\<close> lt assms by (auto simp: of_char_of)
  then show "digit_char base d \<noteq> NUL" by metis
qed

lemma parse_digits_snoc [simp]: "parse_digits base (s @ [c]) = parse_digits base s * base + digit_val c"
  by (simp add: parse_digits_def)

lemma parse_digits_of:
  assumes "2 \<le> base" "base \<le> 16" "0 \<le> v"
  shows "parse_digits base (digits_of base v) = v"
  using assms
proof (induction base v rule: digits_of.induct)
  case (1 base v)
  show ?case
  proof (cases "v = 0")
    case True
    then show ?thesis by (simp add: parse_digits_def)
  next
    case False
    then have v: "v > 0" using "1.prems" by simp
    have "digit_val (digit_char base (v mod base)) = v mod base"
      using "1.prems" by (intro digit_val_char) simp_all
    moreover have "parse_digits base (digits_of base (v div base)) = v div base"
      using 1 v by (simp add: pos_imp_zdiv_nonneg_iff)
    ultimately show ?thesis using v "1.prems" by (simp add: digits_of_pos)
  qed
qed

lemma parse_zeros: "parse_digits base (replicate k CHR ''0'' @ s) = parse_digits base s"
  by (induction k) (simp_all add: parse_digits_def digit_val_def)

lemma digits_of_no_NUL:
  "2 \<le> base \<Longrightarrow> base \<le> 16 \<Longrightarrow> NUL \<notin> set (digits_of base v)"
proof (induction base v rule: digits_of.induct)
  case (1 base v)
  show ?case
  proof (cases "v > 0")
    case True
    then show ?thesis
      using 1 digit_val_char(2) [of "v mod base" base] by (simp add: digits_of_pos)
  next
    case False
    then show ?thesis by (simp add: digits_of.simps)
  qed
qed

text \<open>A number below \<open>2 ^ k\<close> has at most \<open>k\<close> digits in any base.\<close>

lemma length_digits_of: "2 \<le> base \<Longrightarrow> v < 2 ^ k \<Longrightarrow> length (digits_of base v) \<le> k"
proof (induction k arbitrary: v)
  case 0
  then show ?case by (simp add: digits_of.simps)
next
  case (Suc k)
  show ?case
  proof (cases "v > 0")
    case True
    have "v div base \<le> v div 2" using True Suc.prems by (intro zdiv_mono2) auto
    also have "\<dots> < 2 ^ k" using Suc.prems(2) by (simp add: div_less_iff_less_mult)
    finally show ?thesis using True Suc by (simp add: digits_of_pos)
  next
    case False
    then show ?thesis by (simp add: digits_of.simps)
  qed
qed

section \<open>What the loops write\<close>

text \<open>The first \<open>length s\<close> characters of the buffer are \<open>s\<close>.\<close>

definition holds :: "string \<Rightarrow> string \<Rightarrow> bool" where
  "holds buff s \<longleftrightarrow> length s \<le> length buff \<and> take (length s) buff = s"

lemma holds_Nil [simp]: "holds buff []"
  by (simp add: holds_def)

lemma holds_put:
  "holds buff s \<Longrightarrow> length s < length buff \<Longrightarrow> holds (buff[length s := c]) (s @ [c])"
  by (simp add: holds_def take_Suc_conv_app_nth)

lemma holds_cstr:
  assumes "holds buff (s @ [NUL])" "NUL \<notin> set s"
  shows "cstr buff = s \<and> is_cstr buff"
proof -
  have "buff = (s @ [NUL]) @ drop (length (s @ [NUL])) buff"
    using assms(1) unfolding holds_def by (metis append_take_drop_id)
  then have "buff = s @ NUL # drop (length (s @ [NUL])) buff" by simp
  then show ?thesis using cstr_append_NUL [OF assms(2)] by (metis in_set_conv_decomp is_cstr_def)
qed

lemma count_digits_spec:
  "2 \<le> base \<Longrightarrow> count_digits base v d = Some (d + length (digits_of base v))"
proof (induction base v arbitrary: d rule: digits_of.induct)
  case (1 base v)
  show ?case
  proof (cases "v > 0")
    case True
    then show ?thesis using 1 by (subst count_digits.simps) (simp add: digits_of_pos)
  next
    case False
    then show ?thesis by (subst count_digits.simps) (simp add: digits_of.simps)
  qed
qed

text \<open>Dividing by one leaves a positive value positive: the loop has no last round.\<close>

lemma count_digits_one: "0 < v \<Longrightarrow> count_digits 1 v d = None"
proof (rule ccontr)
  assume "0 < v" "count_digits 1 v d \<noteq> None"
  then obtain y where y: "count_digits 1 v d = Some y" by blast
  have "base = 1 \<longrightarrow> test \<le> 0" if "count_digits base test e = Some r" for base test e r
    using that
    by (rule count_digits.raw_induct [where P = "\<lambda>base test e r. base = 1 \<longrightarrow> test \<le> 0", rotated])
      (fastforce split: if_splits)
  from this [OF y] show False using \<open>0 < v\<close> by simp
qed

lemma put_zeros_spec:
  assumes "holds buff s" "length s + k \<le> length buff"
  shows "\<exists>b. put_zeros buff (length s) k = Ok (b, length s + k) \<and> length b = length buff \<and>
    holds b (s @ replicate k CHR ''0'')"
  using assms
proof (induction k arbitrary: buff s)
  case (Suc k)
  let ?b = "buff[length s := CHR ''0'']"
  have "holds ?b (s @ ''0'')" using Suc.prems by (intro holds_put) auto
  then obtain b where "put_zeros ?b (length (s @ ''0'')) k = Ok (b, length (s @ ''0'') + k)"
      "length b = length ?b" "holds b ((s @ ''0'') @ replicate k CHR ''0'')"
    using Suc.IH [of ?b "s @ ''0''"] Suc.prems(2) by auto
  then show ?case using Suc.prems(2) by simp
qed simp

lemma put_digits_spec:
  assumes "2 \<le> base" "length (digits_of base val) = k" "i + k \<le> sc" "sc \<le> length buff"
  shows "put_digits base buff sc val i k =
    Ok (take (sc - i - k) buff @ digits_of base val @ drop (sc - i) buff)"
  using assms
proof (induction k arbitrary: buff val i)
  case 0
  then show ?case by simp
next
  case (Suc k)
  have pos: "val > 0" using Suc.prems(2) digits_of.simps [of base val] by (auto split: if_splits)
  let ?c = "digit_char base (val mod base)" and ?p = "sc - i - 1"
  have dig: "digits_of base val = digits_of base (val div base) @ [?c]"
    using pos Suc.prems(1) by (simp add: digits_of_pos)
  have p: "?p < length buff" "sc - i = Suc ?p" using Suc.prems(3,4) by linarith+
  have "put_digits base (buff[?p := ?c]) sc (val div base) (Suc i) k =
      Ok (take (sc - Suc i - k) (buff[?p := ?c]) @ digits_of base (val div base) @
        drop (sc - Suc i) (buff[?p := ?c]))"
    using Suc.prems pos dig by (intro Suc.IH) (auto simp: pos_imp_zdiv_nonneg_iff)
  moreover have "drop ?p (buff[?p := ?c]) = ?c # drop (Suc ?p) buff"
    using p by (simp add: Cons_nth_drop_Suc [symmetric])
  moreover have "take (sc - Suc i - k) (buff[?p := ?c]) = take (sc - i - Suc k) buff"
    by simp
  ultimately show ?case using p dig by simp
qed

lemma put_sign_spec:
  assumes "0 < length buff"
  shows "\<exists>b. put_sign v buff 0 = Ok (b, length (if v < 0 then ''-'' else [])) \<and>
    length b = length buff \<and> holds b (if v < 0 then ''-'' else [])"
  using assms holds_put [of buff "[]" "CHR ''-''"] by (simp add: put_sign_def)

lemma put_prefix_spec:
  assumes "holds buff s" "length s + 2 \<le> length buff"
  shows "\<exists>b. put_prefix base buff (length s) = Ok (b, length (s @ base_prefix base)) \<and>
    length b = length buff \<and> holds b (s @ base_prefix base)"
proof (cases "base = 2 \<or> base = 8 \<or> base = 16")
  case True
  let ?b1 = "buff[length s := CHR ''0'']"
  let ?c = "if base = 2 then CHR ''b'' else if base = 8 then CHR ''o'' else CHR ''x''"
  have "holds ?b1 (s @ ''0'')" using assms by (intro holds_put) auto
  then have "holds (?b1[length (s @ ''0'') := ?c]) ((s @ ''0'') @ [?c])"
    by (rule holds_put) (use assms(2) in simp)
  moreover have "base_prefix base = [CHR ''0'', ?c]" using True by (auto simp: base_prefix_def)
  ultimately show ?thesis using True assms(2) by (simp add: put_prefix_def)
next
  case False
  then show ?thesis using assms by (simp add: put_prefix_def base_prefix_def)
qed

lemma abs_T_exact:
  assumes "in_range sg bits v" "sg \<longrightarrow> v \<noteq> - (2 ^ (bits - 1))" "0 < bits"
  shows "abs_T sg bits v = \<bar>v\<bar>" "\<bar>v\<bar> < 2 ^ bits"
proof -
  have "\<bar>v\<bar> < 2 ^ (if sg then bits - 1 else bits)"
    using assms(1,2) by (auto simp: in_range_def split: if_splits)
  moreover have "(2::int) ^ (if sg then bits - 1 else bits) \<le> 2 ^ bits" by (simp add: power_increasing)
  ultimately show lt: "\<bar>v\<bar> < 2 ^ bits" by linarith
  show "abs_T sg bits v = \<bar>v\<bar>"
  proof (cases sg)
    case True
    then have "\<bar>v\<bar> < 2 ^ (bits - 1)" using \<open>\<bar>v\<bar> < 2 ^ (if sg then bits - 1 else bits)\<close> by simp
    then have "signed_take_bit (bits - 1) \<bar>v\<bar> = \<bar>v\<bar>"
      by (subst signed_take_bit_int_eq_self_iff) (auto intro: order_trans [of _ 0])
    then show ?thesis using True by (simp add: abs_T_def wrap_int_def abs_if)
  next
    case False
    then show ?thesis using lt by (simp add: abs_T_def wrap_int_def abs_if take_bit_int_eq_self)
  qed
qed

text \<open>Within the size it tests for, the routine stays inside the buffer and leaves the text of the value it counts.\<close>

lemma raw_text_length:
  assumes "2 \<le> base" "av < 2 ^ bits"
  shows "length (raw_text bits neg av base pad) < bits + 4"
proof (cases "av > 0")
  case True
  then show ?thesis using length_digits_of [OF assms(1), of av bits] assms(2) by (auto simp: raw_text_def base_prefix_def)
next
  case False
  then show ?thesis by (auto simp: raw_text_def base_prefix_def digits_of.simps)
qed

lemma raw_text_no_NUL: "2 \<le> base \<Longrightarrow> base \<le> 16 \<Longrightarrow> NUL \<notin> set (raw_text bits neg av base pad)"
  by (auto simp: raw_text_def base_prefix_def digits_of_no_NUL split: if_splits)

lemma compose_integer_raw:
  assumes "2 \<le> base" "base \<le> 16" "abs_T sg bits v = av" "0 \<le> v \<longrightarrow> v = av" "av < 2 ^ bits"
    "bits + 4 \<le> n" "n \<le> length buff"
  shows "\<exists>b. compose_integer sg bits v buff n base pad = Ok (True, b) \<and>
    length b = length buff \<and> is_cstr b \<and> cstr b = raw_text bits (v < 0) av base pad"
proof -
  have val: "(if v < 0 then abs_T sg bits v else v) = av" using assms(3,4) by simp
  define ds where "ds = digits_of base av"
  define sign where "sign = (if v < 0 then ''-'' else [])"
  define pre where "pre = sign @ base_prefix base"
  define z where "z = nat (min (int bits) (max 1 (full_pad bits base pad)) - int (length ds))"
  define s where "s = pre @ replicate z CHR ''0'' @ ds"
  have shape: "raw_text bits (v < 0) av base pad = s"
    by (simp add: raw_text_def s_def pre_def sign_def z_def ds_def)
  have len: "length s < length buff"
    using raw_text_length [OF assms(1,5), of "v < 0" pad] assms(6,7) shape by simp
  have sign: "length sign + 2 \<le> length buff" "0 < length buff"
    using assms(6,7) by (auto simp: sign_def)
  obtain b1 where b1: "put_sign v buff 0 = Ok (b1, length sign)" "length b1 = length buff"
      "holds b1 sign"
    using put_sign_spec [OF sign(2), of v] unfolding sign_def by blast
  obtain b2 where b2: "put_prefix base b1 (length sign) = Ok (b2, length pre)"
      "length b2 = length buff" "holds b2 pre"
    using put_prefix_spec [OF b1(3), of base] b1(2) sign(1) unfolding pre_def by auto
  obtain b3 where b3: "put_zeros b2 (length pre) z = Ok (b3, length pre + z)"
      "length b3 = length buff" "holds b3 (pre @ replicate z CHR ''0'')"
    using put_zeros_spec [OF b2(3), of z] b2(2) len by (auto simp: s_def)
  define sc where "sc = length pre + z + length ds"
  define b4 where "b4 = take (length pre + z) b3 @ ds @ drop sc b3"
  have sc: "sc = length s" "sc \<le> length b3" using len b3(2) by (simp_all add: sc_def s_def)
  have dig: "put_digits base b3 sc av 0 (length ds) = Ok b4"
  proof -
    have "length (digits_of base av) = length ds" "0 + length ds \<le> sc" "sc - 0 - length ds = length pre + z"
      by (simp_all add: ds_def sc_def)
    then show ?thesis using put_digits_spec [OF assms(1) _ _ sc(2), of av "length ds" 0]
      by (simp add: b4_def ds_def)
  qed
  have "take (length pre + z) b3 = pre @ replicate z CHR ''0''" using b3(3) by (simp add: holds_def)
  then have "b4 = s @ drop sc b3" by (simp add: b4_def s_def)
  then have l4: "length b4 = length buff" "holds b4 s" "sc < length b4"
    using sc b3(2) len by (simp_all add: holds_def)
  then have b5: "holds (b4[sc := NUL]) (s @ [NUL])" using holds_put [OF l4(2), of NUL] sc by simp
  have "compose_integer sg bits v buff n base pad = Ok (True, b4[sc := NUL])"
    using assms(1-3,6) b1(1) b2(1) b3(1) dig l4(3) val
    by (simp add: compose_integer_def count_digits_spec Let_def ds_def [symmetric] z_def [symmetric] sc_def)
  moreover have "NUL \<notin> set s" using raw_text_no_NUL [OF assms(1,2)] shape by metis
  ultimately show ?thesis using holds_cstr [OF b5] l4(1) shape by auto
qed

lemma compose_integer_text:
  assumes "2 \<le> base" "base \<le> 16" "0 < bits" "in_range sg bits v"
    "sg \<longrightarrow> v \<noteq> - (2 ^ (bits - 1))" "bits + 4 \<le> n" "n \<le> length buff"
  shows "\<exists>b. compose_integer sg bits v buff n base pad = Ok (True, b) \<and>
    length b = length buff \<and> is_cstr b \<and> cstr b = int_text bits v base pad"
proof -
  have "abs_T sg bits v = \<bar>v\<bar>" "\<bar>v\<bar> < 2 ^ bits" using abs_T_exact assms by blast+
  from compose_integer_raw [OF assms(1,2) this(1) _ this(2) assms(6,7), of pad]
  show ?thesis by (simp add: int_text_raw)
qed

text \<open>Stripping the sign and the prefix and reading the rest in the same base gives the value back.\<close>

definition int_value :: "int \<Rightarrow> string \<Rightarrow> int" where
  "int_value base s =
     (let neg = (s \<noteq> [] \<and> hd s = CHR ''-'');
          body = drop (length (base_prefix base)) (if neg then tl s else s)
      in if neg then - parse_digits base body else parse_digits base body)"

lemma digit_not_minus: "0 \<le> d \<Longrightarrow> d < base \<Longrightarrow> base \<le> 16 \<Longrightarrow> digit_char base d \<noteq> CHR ''-''"
  using digit_val_char(1) [of d base] by (auto simp: digit_val_def)

lemma digits_of_no_minus: "2 \<le> base \<Longrightarrow> base \<le> 16 \<Longrightarrow> CHR ''-'' \<notin> set (digits_of base v)"
proof (induction base v rule: digits_of.induct)
  case (1 base v)
  show ?case
  proof (cases "v > 0")
    case True
    then show ?thesis using 1 digit_not_minus [of "v mod base" base] by (simp add: digits_of_pos)
  next
    case False
    then show ?thesis by (simp add: digits_of.simps)
  qed
qed

lemma int_value_neg: "int_value base (CHR ''-'' # base_prefix base @ body) = - parse_digits base body"
  by (simp add: int_value_def)

lemma int_value_pos:
  assumes "CHR ''-'' \<notin> set (base_prefix base @ body)"
  shows "int_value base (base_prefix base @ body) = parse_digits base body"
proof -
  have "\<not> (base_prefix base @ body \<noteq> [] \<and> hd (base_prefix base @ body) = CHR ''-'')"
    using assms by (metis hd_in_set)
  then show ?thesis unfolding int_value_def Let_def by (simp only: if_False) simp
qed

lemma int_value_text:
  assumes "2 \<le> base" "base \<le> 16"
  shows "int_value base (int_text bits v base pad) = v"
proof -
  define body where "body = replicate (nat (min (int bits) (max 1 (full_pad bits base pad)) -
       int (length (digits_of base \<bar>v\<bar>)))) CHR ''0'' @ digits_of base \<bar>v\<bar>"
  have shape: "int_text bits v base pad = (if v < 0 then ''-'' else []) @ base_prefix base @ body"
    by (simp add: int_text_def body_def)
  have body: "parse_digits base body = \<bar>v\<bar>"
    unfolding body_def using assms by (simp only: parse_zeros) (simp add: parse_digits_of)
  have "CHR ''-'' \<notin> set (base_prefix base @ body)"
    using digits_of_no_minus [OF assms] by (auto simp: base_prefix_def body_def)
  then show ?thesis using shape body by (simp add: int_value_neg int_value_pos)
qed

text \<open>The most negative value of a signed type has no absolute value in the type: no digits come out.\<close>

lemma abs_T_min: "0 < bits \<Longrightarrow> abs_T True bits (- (2 ^ (bits - 1))) = - (2 ^ (bits - 1))"
  by (cases bits) (simp_all add: abs_T_def wrap_int_def signed_take_bit_eq_if_negative bit_exp_iff
      mask_eq_exp_minus_1 not_int_def)

lemma compose_min:
  assumes "2 \<le> base" "base \<le> 16" "0 < bits" "bits + 4 \<le> n" "n \<le> length buff"
  shows "\<exists>b. compose_integer True bits (- (2 ^ (bits - 1))) buff n base pad = Ok (True, b) \<and> is_cstr b \<and>
    cstr b = ''-'' @ base_prefix base @ replicate (nat (min (int bits) (max 1 (full_pad bits base pad)))) CHR ''0'' \<and>
    int_value base (cstr b) = 0"
proof -
  let ?v = "- (2 ^ (bits - 1)) :: int" and ?z = "replicate (nat (min (int bits) (max 1 (full_pad bits base pad)))) CHR ''0''"
  have neg: "?v < 0" by simp
  then have "raw_text bits (?v < 0) ?v base pad = ''-'' @ base_prefix base @ ?z" by (simp add: raw_text_def digits_of.simps)
  moreover have "?v < 2 ^ bits" using neg by (rule less_le_trans) simp
  moreover have "parse_digits base ?z = 0"
    using parse_zeros [of base _ "[]"] by (simp add: parse_digits_def)
  then have "int_value base (''-'' @ base_prefix base @ ?z) = 0" using int_value_neg [of base ?z] by simp
  ultimately show ?thesis
    using compose_integer_raw [OF assms(1,2) abs_T_min [OF assms(3)] _ _ assms(4,5), of pad] neg by auto
qed

lemma compose_base_one:
  assumes "0 < v" "in_range sg bits v" "bits + 4 \<le> n" "0 < bits"
  shows "compose_integer sg bits v buff n 1 pad = Fail Diverges"
proof -
  have "sg \<longrightarrow> v \<noteq> - (2 ^ (bits - 1))" using assms(1) by (auto simp: not_less intro: order_trans [of _ 0])
  then have "abs_T sg bits v = v" using abs_T_exact(1) [OF assms(2) _ assms(4)] assms(1) by simp
  then show ?thesis using assms(1,3) by (simp add: compose_integer_def count_digits_one)
qed

end
