(* ===== verification/Fmt.thy ===== *)
theory Fmt
  imports Conv
begin

text \<open>
  The formatter: \<open>include/tupai/util/fmt.hpp\<close>. The overloads of \<open>__fmt_arg\<close> are one function over a
  data type of arguments; every one of them hands single characters to the output stream, so an
  argument is described by the characters it writes. A stream is anything with a \<open>write\<close>: the locale
  \<open>char_sink\<close> states what a stream promises and what a whole call then leaves in it. It is
  interpreted here for \<open>__fmt_ostream\<close>, which writes into a bounded buffer; the log's stream
  provides the same interface.
\<close>

section \<open>Arguments\<close>

datatype fmt_arg =
    Str string
  | Chr char
  | Num bool nat int int int
  | Boolean bool
  | Ptr addr

text \<open>
  The integer overloads compose into a local array of \<open>bits + 4\<close> characters and write it as a string;
  the success flag is not looked at, so after a failure the array is read uninitialised.
\<close>

definition fmt_int_text :: "bool \<Rightarrow> nat \<Rightarrow> int \<Rightarrow> int \<Rightarrow> int \<Rightarrow> string res" where
  "fmt_int_text sg bits i base pad =
     bind_res (compose_integer sg bits i (replicate (bits + 4) NUL) (bits + 4) base pad)
       (\<lambda>(composed, buff). if composed then Ok (cstr buff) else Fail Uninit)"

fun fmt_arg_text :: "fmt_arg \<Rightarrow> string res" where
  "fmt_arg_text (Str s) = (if is_cstr s then Ok (cstr s) else Fail OutOfBounds)"
| "fmt_arg_text (Chr c) = Ok [c]"
| "fmt_arg_text (Num sg bits i base pad) = fmt_int_text sg bits i base pad"
| "fmt_arg_text (Boolean b) =
     bind_res (compose_bool b (replicate 6 NUL) 6) (\<lambda>(composed, buff). Ok (cstr buff))"
| "fmt_arg_text (Ptr p) =
     bind_res (compose_ptr p (replicate 68 NUL) 68) (\<lambda>(composed, buff). Ok (cstr buff))"

text \<open>The pack expansion: every argument in turn, character by character.\<close>

fun write_chars :: "(char \<Rightarrow> 's \<Rightarrow> 's) \<Rightarrow> string \<Rightarrow> 's \<Rightarrow> 's" where
  "write_chars put [] s = s"
| "write_chars put (c # cs) s = write_chars put cs (put c s)"

fun fmt_args :: "(char \<Rightarrow> 's \<Rightarrow> 's) \<Rightarrow> fmt_arg list \<Rightarrow> 's \<Rightarrow> 's res" where
  "fmt_args put [] s = Ok s"
| "fmt_args put (a # as) s =
     bind_res (fmt_arg_text a) (\<lambda>t. fmt_args put as (write_chars put t s))"

fun args_text :: "fmt_arg list \<Rightarrow> string res" where
  "args_text [] = Ok []"
| "args_text (a # as) =
     bind_res (fmt_arg_text a) (\<lambda>t. bind_res (args_text as) (\<lambda>u. Ok (t @ u)))"

section \<open>The bounded stream\<close>

record fmt_ostream =
  os_buff :: string
  os_pos :: nat
  os_size :: nat

definition fmt_write :: "char \<Rightarrow> fmt_ostream \<Rightarrow> fmt_ostream res" where
  "fmt_write c os =
     (if os_pos os + 1 \<ge> os_size os then Ok os
      else bind_res (arr_set (os_buff os) (os_pos os) c) (\<lambda>b.
           Ok (os\<lparr>os_buff := b, os_pos := os_pos os + 1\<rparr>)))"

text \<open>The stream as the formatter threads it: after a fault nothing more is written.\<close>

definition fmt_put :: "char \<Rightarrow> fmt_ostream res \<Rightarrow> fmt_ostream res" where
  "fmt_put c r = bind_res r (fmt_write c)"

definition fmt :: "nat \<Rightarrow> fmt_arg list \<Rightarrow> string res" where
  "fmt siz args =
     bind_res (fmt_args fmt_put args (Ok \<lparr>os_buff = replicate siz NUL, os_pos = 0, os_size = siz\<rparr>))
       (\<lambda>r. bind_res r (\<lambda>os. Ok (os_buff os)))"

section \<open>What a stream promises\<close>

fun clip :: "nat option \<Rightarrow> string \<Rightarrow> string" where
  "clip None s = s"
| "clip (Some n) s = take n s"

lemma clip_clip_append [simp]: "clip r (clip r s @ t) = clip r (s @ t)"
  by (cases r) (simp_all add: min_def)

locale char_sink =
  fixes put :: "char \<Rightarrow> 's \<Rightarrow> 's"
    and out :: "'s \<Rightarrow> string"
    and room :: "'s \<Rightarrow> nat option"
    and sound :: "'s \<Rightarrow> bool"
  assumes write_out: "sound s \<Longrightarrow> out (put c s) = clip (room s) (out s @ [c])"
    and write_room: "sound s \<Longrightarrow> room (put c s) = room s"
    and write_sound: "sound s \<Longrightarrow> sound (put c s)"
    and out_clipped: "sound s \<Longrightarrow> clip (room s) (out s) = out s"
begin

lemma write_chars_out:
  "sound s \<Longrightarrow> sound (write_chars put cs s) \<and> room (write_chars put cs s) = room s \<and>
     out (write_chars put cs s) = clip (room s) (out s @ cs)"
proof (induction cs arbitrary: s)
  case Nil
  then show ?case by (simp add: out_clipped)
next
  case (Cons c cs)
  then show ?case using Cons.IH [of "put c s"] by (simp add: write_out write_room write_sound)
qed

text \<open>A call writes the texts of its arguments one after the other, cut where the stream ends.\<close>

lemma fmt_args_out:
  "sound s \<Longrightarrow> args_text as = Ok t \<Longrightarrow>
     \<exists>s'. fmt_args put as s = Ok s' \<and> sound s' \<and> room s' = room s \<and> out s' = clip (room s) (out s @ t)"
proof (induction as arbitrary: s t)
  case Nil
  then show ?case by (simp add: out_clipped)
next
  case (Cons a as)
  then obtain u v where t: "fmt_arg_text a = Ok u" "args_text as = Ok v" "t = u @ v" by auto
  let ?s = "write_chars put u s"
  have s: "sound ?s" "room ?s = room s" "out ?s = clip (room s) (out s @ u)"
    using write_chars_out [OF Cons.prems(1)] by simp_all
  obtain s' where "fmt_args put as ?s = Ok s'" "sound s'" "room s' = room s"
      "out s' = clip (room s) (out ?s @ v)"
    using Cons.IH [OF s(1) t(2)] s(2) by auto
  then show ?case using t s(3) by simp
qed

end

definition os_inv :: "fmt_ostream \<Rightarrow> bool" where
  "os_inv os \<longleftrightarrow> 0 < os_size os \<and> length (os_buff os) = os_size os \<and> os_pos os \<le> os_size os - 1 \<and>
     (\<forall>i. os_pos os \<le> i \<and> i < os_size os \<longrightarrow> os_buff os ! i = NUL)"

definition os_text :: "fmt_ostream \<Rightarrow> string" where
  "os_text os = take (os_pos os) (os_buff os)"

lemma os_write_keeps:
  assumes "os_inv os"
  shows "\<exists>os'. fmt_write c os = Ok os' \<and> os_inv os' \<and> os_size os' = os_size os \<and>
    os_text os' = take (os_size os - 1) (os_text os @ [c])"
proof -
  have len: "length (os_buff os) = os_size os" and pos: "os_pos os \<le> os_size os - 1" "0 < os_size os"
    using assms by (simp_all add: os_inv_def)
  show ?thesis
  proof (cases "os_pos os + 1 \<ge> os_size os")
    case True
    then have "os_text os = take (os_size os - 1) (os_text os @ [c])" using len pos by (simp add: os_text_def min_def)
    then show ?thesis using True assms by (simp add: fmt_write_def)
  next
    case False
    let ?os = "os\<lparr>os_buff := (os_buff os)[os_pos os := c], os_pos := os_pos os + 1\<rparr>"
    have "os_inv ?os" using False assms unfolding os_inv_def by auto
    moreover have "os_text ?os = take (os_size os - 1) (os_text os @ [c])"
      using False len by (auto simp: os_text_def take_Suc_conv_app_nth min_def)
    ultimately show ?thesis using False len by (simp add: fmt_write_def)
  qed
qed

fun sink_inv :: "fmt_ostream res \<Rightarrow> bool" where
  "sink_inv (Ok os) = os_inv os"
| "sink_inv (Fail e) = False"

fun sink_text :: "fmt_ostream res \<Rightarrow> string" where
  "sink_text (Ok os) = os_text os"
| "sink_text (Fail e) = []"

fun sink_room :: "fmt_ostream res \<Rightarrow> nat option" where
  "sink_room (Ok os) = Some (os_size os - 1)"
| "sink_room (Fail e) = None"

interpretation buf_out: char_sink fmt_put sink_text sink_room sink_inv
proof unfold_locales
  fix s c assume "sink_inv s"
  then obtain os where s: "s = Ok os" "os_inv os" by (cases s) simp_all
  obtain os' where os': "fmt_write c os = Ok os'" "os_inv os'" "os_size os' = os_size os"
      "os_text os' = take (os_size os - 1) (os_text os @ [c])"
    using os_write_keeps [OF s(2)] by blast
  then show "sink_text (fmt_put c s) = clip (sink_room s) (sink_text s @ [c])" "sink_room (fmt_put c s) = sink_room s"
      "sink_inv (fmt_put c s)"
    by (simp_all add: s(1) fmt_put_def)
  show "clip (sink_room s) (sink_text s) = sink_text s" using s by (simp add: os_text_def os_inv_def)
qed

text \<open>
  \<open>fmt\<close> leaves in its buffer the texts of its arguments, cut to the size of the buffer less one, with
  a terminator behind them.
\<close>

lemma fmt_text:
  assumes "0 < siz" "args_text as = Ok t" "NUL \<notin> set t"
  shows "\<exists>b. fmt siz as = Ok b \<and> length b = siz \<and> is_cstr b \<and> cstr b = take (siz - 1) t"
proof -
  let ?s = "\<lparr>os_buff = replicate siz NUL, os_pos = 0, os_size = siz\<rparr>"
  have inv: "os_inv ?s" using assms(1) by (simp add: os_inv_def)
  have si: "sink_inv (Ok ?s)" "sink_room (Ok ?s) = Some (siz - 1)" "sink_text (Ok ?s) = []"
    using inv by (simp_all add: os_text_def)
  obtain r where r: "fmt_args fmt_put as (Ok ?s) = Ok r" "sink_inv r" "sink_room r = Some (siz - 1)"
      "sink_text r = take (siz - 1) t"
    using buf_out.fmt_args_out [OF si(1) assms(2)] si(2,3) by auto
  then obtain s' where s': "r = Ok s'" "os_inv s'" "os_size s' = siz" "os_text s' = take (siz - 1) t"
    using assms(1) by (cases r) (auto simp: os_inv_def)
  have len: "length (os_buff s') = siz" "os_pos s' < siz"
    using s'(2,3) assms(1) by (auto simp: os_inv_def)
  have fin: "os_buff s' ! os_pos s' = NUL" using s'(2,3) len by (auto simp: os_inv_def)
  have pos: "length (take (siz - 1) t) = os_pos s'"
    unfolding s'(4) [symmetric] using len by (simp add: os_text_def)
  have "cstr (os_buff s') = take (siz - 1) t"
  proof (rule cstr_eqI)
    show "NUL \<notin> set (take (siz - 1) t)" using assms(3) by (auto dest: in_set_takeD)
    fix i assume "i < length (take (siz - 1) t)"
    then show "os_buff s' ! i = take (siz - 1) t ! i"
      unfolding s'(4) [symmetric] using len by (simp add: os_text_def)
  qed (use len pos fin in auto)
  moreover have "is_cstr (os_buff s')" using len fin by (intro is_cstrI) auto
  ultimately show ?thesis using s'(1) r(1) len by (simp add: fmt_def)
qed

text \<open>The integer overloads never overrun their local array.\<close>

lemma fmt_int_text_ok:
  assumes "2 \<le> base" "base \<le> 16" "0 < bits" "in_range sg bits v" "sg \<longrightarrow> v \<noteq> - (2 ^ (bits - 1))"
  shows "fmt_arg_text (Num sg bits v base pad) = Ok (int_text bits v base pad)"
  using compose_integer_text [OF assms, of "bits + 4" "replicate (bits + 4) NUL" pad]
  by (auto simp: fmt_int_text_def)

lemma fmt_ptr_ok: "fmt_arg_text (Ptr p) = Ok (int_text 64 (uint p) 16 16)"
proof -
  have "in_range False 64 (uint p)"
    using unsigned_less [of p, where 'a = int] by (simp add: in_range_def)
  then obtain b where "compose_integer False 64 (uint p) (replicate 68 NUL) 68 16 16 = Ok (True, b)"
      "cstr b = int_text 64 (uint p) 16 16"
    using compose_integer_text [of 16 64 False "uint p" 68 "replicate 68 NUL" 16] by auto
  then show ?thesis by (simp add: compose_ptr_def)
qed

end
