(* ===== verification/Pool.thy ===== *)
theory Pool
  imports Util_Mem Locks Fmt
begin

text \<open>
  The block allocator: \<open>kernel/sys/pool.cpp\<close>. A pool is a body of equal blocks followed by a map with
  two bits per block, in the machine's own memory; \<open>pool_get\<close> and \<open>pool_set\<close> are the only accesses to
  the map. A run of blocks handed out is a \<open>HEAD\<close> followed by \<open>TAIL\<close>s.

  \<open>owner\<close> reads from the map which run a block belongs to. Over that view allocation and
  deallocation are the obvious operations on a finite map, and the lemmas show that the bit
  twiddling implements them: first fit, no run handed out twice, nothing else touched.
\<close>

section \<open>Blocks and the map\<close>

datatype block_status = ERROR | UNUSED | TAIL | HEAD

fun status_code :: "block_status \<Rightarrow> u8" where
  "status_code ERROR = 0"
| "status_code UNUSED = 1"
| "status_code TAIL = 2"
| "status_code HEAD = 3"

definition status_of :: "u8 \<Rightarrow> block_status" where
  "status_of b = (if b = 0 then ERROR else if b = 1 then UNUSED else if b = 2 then TAIL else HEAD)"

record pool_t =
  pmap :: size_t
  body :: size_t
  block_size :: size_t
  block_count :: size_t
  plock :: spinlock_t

text \<open>Block indices are below \<open>block_count\<close> and so fit a \<open>size_t\<close>; they are kept as \<open>nat\<close>.\<close>

definition pool_get :: "pool_t \<Rightarrow> memory \<Rightarrow> nat \<Rightarrow> block_status" where
  "pool_get pool m index =
     (let byte_index = index div 4; bit_offset = (index mod 4) * 2
      in status_of (drop_bit bit_offset (m (pmap pool + of_nat byte_index)) AND 3))"

definition pool_set :: "pool_t \<Rightarrow> memory \<Rightarrow> nat \<Rightarrow> block_status \<Rightarrow> memory" where
  "pool_set pool m index status =
     (let byte_index = index div 4; bit_offset = (index mod 4) * 2;
          byte = m (pmap pool + of_nat byte_index);
          byte' = byte AND NOT (push_bit bit_offset 3);
          byte'' = byte' OR push_bit bit_offset (status_code status)
      in m(pmap pool + of_nat byte_index := byte''))"

section \<open>The operations\<close>

type_synonym heap = "pool_t \<times> memory"

definition heap_lock :: "heap \<Rightarrow> heap res" where
  "heap_lock h = bind_res (spinlock_lock (plock (fst h))) (\<lambda>l. Ok ((fst h)\<lparr>plock := l\<rparr>, snd h))"

definition heap_unlock :: "heap \<Rightarrow> heap" where
  "heap_unlock h = ((fst h)\<lparr>plock := spinlock_unlock (plock (fst h))\<rparr>, snd h)"

definition UNUSED_BYTE :: u8 where
  "UNUSED_BYTE = push_bit 0 (status_code UNUSED) OR push_bit 2 (status_code UNUSED) OR
     push_bit 4 (status_code UNUSED) OR push_bit 6 (status_code UNUSED)"

text \<open>One byte per block is cleared, although the map takes a quarter of that.\<close>

definition pool_construct :: "addr \<Rightarrow> size_t \<Rightarrow> size_t \<Rightarrow> heap \<Rightarrow> (bool \<times> heap) res" where
  "pool_construct start0 siz0 bsize =
     with_lock heap_lock heap_unlock (\<lambda>(pool, m).
       let diff = start0 - align_ceiling start0 16;
           start = start0 + diff;
           siz = siz0 - diff;
           pool1 = pool\<lparr>block_size := bsize, body := start\<rparr>;
           count = (4 * (siz + start - body pool1)) div (4 * bsize + 1);
           pool2 = pool1\<lparr>block_count := count, pmap := body pool1 + bsize * count\<rparr>;
           m' = memset_loop (pmap pool2) UNUSED_BYTE 0 (unat count) m
       in Ok (count > 0, (pool2, m')))"

text \<open>
  The scan of \<open>pool_alloc\<close>. \<open>pool_run\<close> is the inner loop, which shares the index with the outer one: it
  returns where it stopped and whether the run was too small.
\<close>

function pool_run :: "pool_t \<Rightarrow> memory \<Rightarrow> nat \<Rightarrow> nat \<Rightarrow> (bool \<times> nat) res" where
  "pool_run pool m stop i =
     (if i < stop
      then if i = unat (block_count pool)
           then Fail (Panic ''Cannot find space to allocate kernel memory'')
           else if pool_get pool m i \<noteq> UNUSED then Ok (True, i)
           else pool_run pool m stop (Suc i)
      else Ok (False, i))"
  by pat_completeness auto
termination
  by (relation "measure (\<lambda>(pool, m, stop, i). stop - i)") auto

declare pool_run.simps [simp del]

lemma pool_run_ge: "pool_run pool m stop i = Ok (b, j) \<Longrightarrow> i \<le> j"
proof (induction pool m stop i rule: pool_run.induct)
  case (1 pool m stop i)
  from "1.prems" show ?case
    using "1.IH" by (subst (asm) pool_run.simps) (auto split: if_splits)
qed

function pool_scan :: "pool_t \<Rightarrow> memory \<Rightarrow> nat \<Rightarrow> nat \<Rightarrow> nat option res" where
  "pool_scan pool m blocks_needed i =
     (if i < unat (block_count pool)
      then if pool_get pool m i = UNUSED
           then bind_res (pool_run pool m ((i + blocks_needed) mod SIZE_MOD) i) (\<lambda>(tosmall, j).
                  if tosmall then pool_scan pool m blocks_needed (Suc j) else Ok (Some i))
           else pool_scan pool m blocks_needed (Suc i)
      else Ok None)"
  by pat_completeness auto
termination
  by (relation "measure (\<lambda>(pool, m, k, i). unat (block_count pool) - i)")
    (auto dest!: pool_run_ge)

declare pool_scan.simps [simp del]

fun mark_tails :: "pool_t \<Rightarrow> memory \<Rightarrow> nat \<Rightarrow> nat \<Rightarrow> nat \<Rightarrow> memory" where
  "mark_tails pool m start i 0 = m"
| "mark_tails pool m start i (Suc k) =
     mark_tails pool (pool_set pool m (start + i) TAIL) start (Suc i) k"

definition blocks_for :: "pool_t \<Rightarrow> size_t \<Rightarrow> size_t" where
  "blocks_for pool n = align_ceiling n (block_size pool) div block_size pool"

definition pool_alloc :: "size_t \<Rightarrow> heap \<Rightarrow> (addr \<times> heap) res" where
  "pool_alloc n =
     with_lock heap_lock heap_unlock (\<lambda>(pool, m).
       if block_size pool = 0 then Fail DivByZero
       else
         let blocks_needed = unat (blocks_for pool n)
         in bind_res (pool_scan pool m blocks_needed 0) (\<lambda>found.
            case found of
              None \<Rightarrow> Ok (0, (pool, m))
            | Some start \<Rightarrow>
                let m1 = pool_set pool m start HEAD;
                    m2 = mark_tails pool m1 start 1 (blocks_needed - 1)
                in Ok (body pool + of_nat start * block_size pool, (pool, m2))))"

function clear_tails :: "pool_t \<Rightarrow> memory \<Rightarrow> nat \<Rightarrow> memory" where
  "clear_tails pool m i =
     (if pool_get pool m i = TAIL \<and> i < unat (block_count pool)
      then clear_tails pool (pool_set pool m i UNUSED) (Suc i)
      else m)"
  by pat_completeness auto
termination
  by (relation "measure (\<lambda>(pool, m, i). unat (block_count pool) - i)") auto

declare clear_tails.simps [simp del]

definition pool_dealloc :: "addr \<Rightarrow> heap \<Rightarrow> (unit \<times> heap) res" where
  "pool_dealloc ptr =
     with_lock heap_lock heap_unlock (\<lambda>(pool, m).
       if block_size pool = 0 then Fail DivByZero
       else
         let off = ptr - body pool
         in if off mod block_size pool \<noteq> 0
            then Fail (Panic ''Attempting to deallocate invalid unaligned pointer'')
            else
              let index = unat (off div block_size pool)
              in if pool_get pool m index \<noteq> HEAD
                 then Fail (Panic ''Attempting to deallocate invalid unallocated pointer'')
                 else Ok ((), (pool, clear_tails pool (pool_set pool m index UNUSED) (Suc index))))"

text \<open>\<open>pool_display\<close> logs one character per block, up to the last block in use (not included).\<close>

fun status_char :: "block_status \<Rightarrow> char" where
  "status_char HEAD = CHR ''H''"
| "status_char TAIL = CHR ''T''"
| "status_char UNUSED = CHR ''.''"
| "status_char ERROR = CHR ''?''"

fun display_max :: "pool_t \<Rightarrow> memory \<Rightarrow> nat \<Rightarrow> nat" where
  "display_max pool m 0 = 0"
| "display_max pool m (Suc i) =
     (if pool_get pool m i = HEAD \<or> pool_get pool m i = TAIL then i else display_max pool m i)"

definition pool_display :: "nat \<Rightarrow> heap \<Rightarrow> (fmt_arg list list \<times> heap) res" where
  "pool_display n =
     with_lock heap_lock heap_unlock (\<lambda>(pool, m).
       Ok ([Str (lit ''--- Memory pool map ---''), Chr (CHR 0x0A)] #
           map (\<lambda>i. [Chr (status_char (pool_get pool m i))]) [0..<min n (display_max pool m n)] @
           [[Chr (CHR 0x0A)]], (pool, m)))"

section \<open>The two-bit map\<close>

lemma status_of_code [simp]: "status_of (status_code s AND 3) = s" "status_of (status_code s) = s"
  by (cases s; simp add: status_of_def)+

lemma bit_3_int: "bit (3 :: int) n \<longleftrightarrow> n < 2"
proof -
  have "(3 :: int) = mask 2" by (simp add: mask_eq_exp_minus_1)
  then show ?thesis by (simp only: bit_mask_iff) auto
qed

lemma bit_status_code: "bit (status_code s) n \<Longrightarrow> n < 2"
proof -
  have "status_code s AND 3 = status_code s" by (cases s) simp_all
  then show "bit (status_code s) n \<Longrightarrow> n < 2" by (metis bit_and_iff bit_3_int bit_numeral_word_iff)
qed

lemma field_same:
  "k \<le> 6 \<Longrightarrow> drop_bit k ((b AND NOT (push_bit k 3)) OR push_bit k (status_code s)) AND 3 =
    (status_code s :: 8 word)"
  by (rule bit_word_eqI)
    (auto simp: bit_simps bit_3_int dest: bit_status_code)

lemma field_other:
  fixes b :: "8 word"
  assumes "k + 2 \<le> l \<or> l + 2 \<le> k"
  shows "drop_bit l ((b AND NOT (push_bit k 3)) OR push_bit k (status_code s)) AND 3 =
    drop_bit l b AND 3"
  by (rule bit_word_eqI)
    (use assms in \<open>auto simp: bit_simps bit_3_int dest: bit_status_code bit_imp_le_length\<close>)

lemma index_lt: "i < 2 ^ 64 \<Longrightarrow> i div 4 < (2 ^ 64 :: nat)"
  using div_le_dividend [of i 4] by linarith

lemma pool_get_set:
  assumes "i < 2 ^ 64" "j < 2 ^ 64"
  shows "pool_get pool (pool_set pool m i s) j = (if i = j then s else pool_get pool m j)"
proof (cases "i div 4 = j div 4")
  case False
  then have "pmap pool + of_nat (i div 4) \<noteq> pmap pool + of_nat (j div 4)"
    using of_nat_add_inj64 [OF index_lt [OF assms(1)] index_lt [OF assms(2)]] by blast
  then show ?thesis using False by (auto simp: pool_get_def pool_set_def Let_def)
next
  case same: True
  show ?thesis
  proof (cases "i = j")
    case True
    have "(j mod 4) * 2 \<le> 6" using mod_less_divisor [of 4 j] by linarith
    then show ?thesis using True
      by (simp only: pool_get_def pool_set_def Let_def fun_upd_same field_same) simp
  next
    case False
    then have "i mod 4 \<noteq> j mod 4" using same by (metis div_mult_mod_eq)
    then have "(i mod 4) * 2 + 2 \<le> (j mod 4) * 2 \<or> (j mod 4) * 2 + 2 \<le> (i mod 4) * 2" by linarith
    then show ?thesis using same False
      by (simp only: pool_get_def pool_set_def Let_def fun_upd_same field_other) simp
  qed
qed

text \<open>Writing the map touches only the byte of the block.\<close>

lemma pool_set_frame:
  "a \<noteq> pmap pool + of_nat (i div 4) \<Longrightarrow> pool_set pool m i s a = m a"
  by (simp add: pool_set_def Let_def)

section \<open>Runs of blocks\<close>

abbreviation blocks :: "pool_t \<Rightarrow> nat" where
  "blocks pool \<equiv> unat (block_count pool)"

text \<open>The index of the first block of the run that block \<open>i\<close> belongs to.\<close>

fun owner :: "pool_t \<Rightarrow> memory \<Rightarrow> nat \<Rightarrow> nat option" where
  "owner pool m 0 = (if pool_get pool m 0 = HEAD then Some 0 else None)"
| "owner pool m (Suc i) =
     (case pool_get pool m (Suc i) of
        HEAD \<Rightarrow> Some (Suc i) | TAIL \<Rightarrow> owner pool m i | UNUSED \<Rightarrow> None | ERROR \<Rightarrow> None)"

text \<open>No run without a head: a \<open>TAIL\<close> follows a block in use.\<close>

definition runs_ok :: "pool_t \<Rightarrow> memory \<Rightarrow> bool" where
  "runs_ok pool m \<longleftrightarrow> (\<forall>i<blocks pool. pool_get pool m i \<noteq> ERROR \<and>
     (pool_get pool m i = TAIL \<longrightarrow> 0 < i \<and> pool_get pool m (i - 1) \<in> {HEAD, TAIL}))"

lemma owner_Some_iff:
  "owner pool m j = Some h \<longleftrightarrow>
     h \<le> j \<and> pool_get pool m h = HEAD \<and> (\<forall>l. h < l \<and> l \<le> j \<longrightarrow> pool_get pool m l = TAIL)"
proof (induction j)
  case 0
  then show ?case by auto
next
  case (Suc j)
  show ?case
  proof (cases "pool_get pool m (Suc j) = TAIL")
    case True
    then show ?thesis using Suc by (auto simp: le_Suc_eq)
  next
    case False
    then have "owner pool m (Suc j) = Some h \<longleftrightarrow> h = Suc j \<and> pool_get pool m (Suc j) = HEAD"
      by (auto split: block_status.splits)
    then show ?thesis using False by (auto simp: le_Suc_eq)
  qed
qed

lemma owner_cong:
  "(\<And>l. l \<le> j \<Longrightarrow> pool_get pool m l = pool_get pool m' l) \<Longrightarrow> owner pool m j = owner pool m' j"
  by (induction j) (auto split: block_status.splits)

lemma owner_unused: "pool_get pool m j = UNUSED \<Longrightarrow> owner pool m j = None"
  by (cases j) auto

lemma owner_None_unused:
  "runs_ok pool m \<Longrightarrow> j < blocks pool \<Longrightarrow> owner pool m j = None \<longleftrightarrow> pool_get pool m j = UNUSED"
proof (induction j)
  case 0
  then show ?case by (cases "pool_get pool m 0") (auto simp: runs_ok_def)
next
  case (Suc j)
  have "pool_get pool m j \<noteq> UNUSED" if "pool_get pool m (Suc j) = TAIL"
    using Suc.prems that by (auto simp: runs_ok_def)
  moreover have "pool_get pool m (Suc j) \<noteq> ERROR" using Suc.prems by (simp add: runs_ok_def)
  ultimately show ?case using Suc by (cases "pool_get pool m (Suc j)") auto
qed

section \<open>First fit\<close>

definition fits :: "pool_t \<Rightarrow> memory \<Rightarrow> nat \<Rightarrow> nat \<Rightarrow> bool" where
  "fits pool m k s \<longleftrightarrow> s + k \<le> blocks pool \<and> (\<forall>l. s \<le> l \<and> l < s + k \<longrightarrow> pool_get pool m l = UNUSED)"

lemma pool_run_spec:
  assumes "i \<le> blocks pool"
  shows "case pool_run pool m stop i of
      Ok (tosmall, j) \<Rightarrow>
        (if tosmall
         then i \<le> j \<and> j < stop \<and> j < blocks pool \<and> pool_get pool m j \<noteq> UNUSED
         else \<forall>l. i \<le> l \<and> l < stop \<longrightarrow> l < blocks pool \<and> pool_get pool m l = UNUSED)
    | Fail e \<Rightarrow> e = Panic ''Cannot find space to allocate kernel memory'' \<and> blocks pool < stop"
  using assms
proof (induction pool m stop i rule: pool_run.induct)
  case (1 pool m stop i)
  show ?case
  proof (cases "i < stop \<and> i \<noteq> blocks pool \<and> pool_get pool m i = UNUSED")
    case False
    then show ?thesis using "1.prems" by (subst pool_run.simps) auto
  next
    case True
    then have step: "pool_run pool m stop i = pool_run pool m stop (Suc i)"
      by (subst pool_run.simps) simp
    have IH: "case pool_run pool m stop (Suc i) of
      Ok (tosmall, j) \<Rightarrow>
        (if tosmall
         then Suc i \<le> j \<and> j < stop \<and> j < blocks pool \<and> pool_get pool m j \<noteq> UNUSED
         else \<forall>l. Suc i \<le> l \<and> l < stop \<longrightarrow> l < blocks pool \<and> pool_get pool m l = UNUSED)
    | Fail e \<Rightarrow> e = Panic ''Cannot find space to allocate kernel memory'' \<and> blocks pool < stop"
      using True "1.prems" by (intro "1.IH") auto
    show ?thesis
    proof (cases "pool_run pool m stop (Suc i)")
      case (Ok r)
      obtain tosmall j where r: "r = (tosmall, j)" by (cases r)
      show ?thesis
      proof (cases tosmall)
        case False
        have "l < blocks pool \<and> pool_get pool m l = UNUSED" if "i \<le> l" "l < stop" for l
          using IH Ok r False that True "1.prems" by (cases "l = i") auto
        then show ?thesis using Ok r False step by simp
      qed (use IH Ok r step in auto)
    qed (use IH step in auto)
  qed
qed

text \<open>The scan returns the least fitting start, or reports that there is none.\<close>

lemma pool_scan_spec:
  assumes "1 \<le> k" "blocks pool + k < SIZE_MOD"
  shows "case pool_scan pool m k i of
      Ok (Some s) \<Rightarrow> i \<le> s \<and> fits pool m k s \<and> (\<forall>s'. i \<le> s' \<and> s' < s \<longrightarrow> \<not> fits pool m k s')
    | Ok None \<Rightarrow> \<forall>s'. i \<le> s' \<longrightarrow> \<not> fits pool m k s'
    | Fail e \<Rightarrow> e = Panic ''Cannot find space to allocate kernel memory'' \<and>
        (\<forall>s'. i \<le> s' \<longrightarrow> \<not> fits pool m k s')"
  using assms
proof (induction pool m k i rule: pool_scan.induct)
  case (1 pool m k i)
  let ?S = "\<lambda>i. case pool_scan pool m k i of
      Ok (Some s) \<Rightarrow> i \<le> s \<and> fits pool m k s \<and> (\<forall>s'. i \<le> s' \<and> s' < s \<longrightarrow> \<not> fits pool m k s')
    | Ok None \<Rightarrow> \<forall>s'. i \<le> s' \<longrightarrow> \<not> fits pool m k s'
    | Fail e \<Rightarrow> e = Panic ''Cannot find space to allocate kernel memory'' \<and>
        (\<forall>s'. i \<le> s' \<longrightarrow> \<not> fits pool m k s')"
  have skip: "?S i" if "?S j" "pool_scan pool m k i = pool_scan pool m k j" "i \<le> j"
      "\<And>s'. i \<le> s' \<Longrightarrow> s' < j \<Longrightarrow> \<not> fits pool m k s'" for j
    using that by (auto split: res.splits option.splits) (metis le_less_trans not_le)+
  consider (over) "\<not> i < blocks pool" | (used) "i < blocks pool" "pool_get pool m i \<noteq> UNUSED"
    | (free) "i < blocks pool" "pool_get pool m i = UNUSED" by blast
  then show ?case
  proof cases
    case over
    then have "pool_scan pool m k i = Ok None" by (subst pool_scan.simps) simp
    then show ?thesis using over "1.prems" by (auto simp: fits_def)
  next
    case used
    have "pool_scan pool m k i = pool_scan pool m k (Suc i)"
      using used by (subst pool_scan.simps) simp
    moreover have "\<not> fits pool m k i" using used "1.prems" by (auto simp: fits_def)
    ultimately show ?thesis
      using "1.IH"(2) [OF used "1.prems"] by (intro skip [of "Suc i"]) (auto simp: less_Suc_eq)
  next
    case free
    have stop: "(i + k) mod SIZE_MOD = i + k" using free "1.prems" by simp
    note run = pool_run_spec [where i = i and pool = pool and m = m and stop = "i + k"]
    show ?thesis
    proof (cases "pool_run pool m (i + k) i")
      case (Fail e)
      then have "pool_scan pool m k i = Fail e" using free stop by (subst pool_scan.simps) simp
      moreover have "\<not> fits pool m k s'" if "i \<le> s'" for s'
        using that run Fail free by (auto simp: fits_def)
      ultimately show ?thesis using run Fail free by simp
    next
      case (Ok r)
      obtain tosmall j where r: "r = (tosmall, j)" by (cases r)
      show ?thesis
      proof (cases tosmall)
        case False
        then have "pool_scan pool m k i = Ok (Some i)"
          using Ok r free stop by (subst pool_scan.simps) simp
        moreover have all: "\<forall>l. i \<le> l \<and> l < i + k \<longrightarrow> l < blocks pool \<and> pool_get pool m l = UNUSED"
          using run Ok r False free by simp
        moreover have "i + k \<le> blocks pool"
          using all [rule_format, of "i + k - 1"] "1.prems"(1) by linarith
        ultimately show ?thesis by (simp add: fits_def)
      next
        case True
        have j: "i \<le> j" "j < i + k" "pool_get pool m j \<noteq> UNUSED" using run Ok r True free by simp_all
        have step: "pool_scan pool m k i = pool_scan pool m k (Suc j)"
          using Ok r True free stop by (subst pool_scan.simps) simp
        have none: "\<not> fits pool m k s'" if "i \<le> s'" "s' < Suc j" for s'
          using that j by (auto simp: fits_def intro!: exI [of _ j])
        have "?S (Suc j)"
          using "1.IH"(1) [OF free, of r tosmall j] Ok r True "1.prems" stop by simp
        then show ?thesis using step none j(1) by (intro skip [of "Suc j"]) auto
      qed
    qed
  qed
qed

section \<open>Marking and clearing a run\<close>

lemma mark_tails_get:
  assumes "start + i + k < 2 ^ 64" "j < 2 ^ 64"
  shows "pool_get pool (mark_tails pool m start i k) j =
    (if start + i \<le> j \<and> j < start + i + k then TAIL else pool_get pool m j)"
  using assms(1)
proof (induction k arbitrary: i m)
  case (Suc k)
  then show ?case using pool_get_set [of "start + i" j pool m TAIL] assms(2) by auto
qed auto

lemma alloc_marks_get:
  assumes "start + k < 2 ^ 64" "1 \<le> k" "j < 2 ^ 64"
  shows "pool_get pool (mark_tails pool (pool_set pool m start HEAD) start 1 (k - 1)) j =
    (if j = start then HEAD else if start < j \<and> j < start + k then TAIL else pool_get pool m j)"
  using assms mark_tails_get [of start 1 "k - 1" j] by (auto simp: pool_get_set)

lemma owner_alloc:
  assumes "runs_ok pool m" "fits pool m k s" "1 \<le> k" "j < blocks pool"
    and "\<And>l. l < blocks pool \<Longrightarrow> pool_get pool m' l =
      (if l = s then HEAD else if s < l \<and> l < s + k then TAIL else pool_get pool m l)"
  shows "owner pool m' j = (if s \<le> j \<and> j < s + k then Some s else owner pool m j)"
  using assms(4)
proof (induction j)
  case 0
  then show ?case using assms(3,5) by auto
next
  case (Suc j)
  then have j: "j < blocks pool" by simp
  have IH: "owner pool m' j = (if s \<le> j \<and> j < s + k then Some s else owner pool m j)"
    using Suc.IH j by simp
  have get: "pool_get pool m' (Suc j) = (if Suc j = s then HEAD
      else if s < Suc j \<and> Suc j < s + k then TAIL else pool_get pool m (Suc j))"
    using assms(5) Suc.prems by simp
  consider "Suc j = s" | "s < Suc j" "Suc j < s + k" | "Suc j < s \<or> s + k < Suc j" | "Suc j = s + k"
    by linarith
  then show ?case
  proof cases
    case 4
    have "pool_get pool m j = UNUSED" using assms(2,3) 4 by (auto simp: fits_def)
    then have "pool_get pool m (Suc j) \<noteq> TAIL" using assms(1) Suc.prems by (auto simp: runs_ok_def)
    moreover have "\<not> Suc j < s + k" "Suc j \<noteq> s" using 4 assms(3) by simp_all
    ultimately show ?thesis using get by (auto split: block_status.splits)
  qed (use get IH assms(3) in \<open>auto split: block_status.splits\<close>)
qed

lemma runs_ok_alloc:
  assumes "runs_ok pool m" "fits pool m k s" "1 \<le> k"
    and "\<And>l. l < blocks pool \<Longrightarrow> pool_get pool m' l =
      (if l = s then HEAD else if s < l \<and> l < s + k then TAIL else pool_get pool m l)"
  shows "runs_ok pool m'"
  unfolding runs_ok_def
proof (intro allI impI)
  fix i assume i: "i < blocks pool"
  have old: "pool_get pool m i \<noteq> ERROR"
      "pool_get pool m i = TAIL \<Longrightarrow> 0 < i \<and> pool_get pool m (i - 1) \<in> {HEAD, TAIL}"
    using assms(1) i by (auto simp: runs_ok_def)
  have un: "pool_get pool m l = UNUSED" if "s \<le> l" "l < s + k" for l
    using assms(2) that by (simp add: fits_def)
  have new: "pool_get pool m' i =
      (if i = s then HEAD else if s < i \<and> i < s + k then TAIL else pool_get pool m i)"
    using assms(4) i by simp
  have prev: "pool_get pool m' (i - 1) =
      (if i - 1 = s then HEAD else if s < i - 1 \<and> i - 1 < s + k then TAIL else pool_get pool m (i - 1))"
    using assms(4) i by simp
  show "pool_get pool m' i \<noteq> ERROR \<and>
      (pool_get pool m' i = TAIL \<longrightarrow> 0 < i \<and> pool_get pool m' (i - 1) \<in> {HEAD, TAIL})"
    using old new prev un [of "i - 1"] by (auto split: if_splits)
qed

lemma clear_tails_get:
  assumes "i \<le> blocks pool"
  shows "\<exists>e. i \<le> e \<and> e \<le> blocks pool \<and> (\<forall>l. i \<le> l \<and> l < e \<longrightarrow> pool_get pool m l = TAIL) \<and>
    (e < blocks pool \<longrightarrow> pool_get pool m e \<noteq> TAIL) \<and>
    (\<forall>j<2 ^ 64. pool_get pool (clear_tails pool m i) j =
      (if i \<le> j \<and> j < e then UNUSED else pool_get pool m j))"
  using assms
proof (induction pool m i rule: clear_tails.induct)
  case (1 pool m i)
  show ?case
  proof (cases "pool_get pool m i = TAIL \<and> i < blocks pool")
    case False
    then show ?thesis using "1.prems" by (intro exI [of _ i]) (auto simp: clear_tails.simps)
  next
    case True
    let ?m = "pool_set pool m i UNUSED"
    have lt: "l < 2 ^ 64" if "l \<le> blocks pool" for l
      using that unat_lt64 [of "block_count pool"] by simp
    have get: "pool_get pool ?m j = (if i = j then UNUSED else pool_get pool m j)" if "j < 2 ^ 64" for j
      using pool_get_set [OF lt that, of i] True by simp
    obtain e where e: "Suc i \<le> e" "e \<le> blocks pool" "\<forall>l. Suc i \<le> l \<and> l < e \<longrightarrow> pool_get pool ?m l = TAIL"
        "e < blocks pool \<longrightarrow> pool_get pool ?m e \<noteq> TAIL"
        "\<forall>j<2 ^ 64. pool_get pool (clear_tails pool ?m (Suc i)) j =
          (if Suc i \<le> j \<and> j < e then UNUSED else pool_get pool ?m j)"
      using "1.IH" True by auto
    have "\<forall>l. i \<le> l \<and> l < e \<longrightarrow> pool_get pool m l = TAIL"
    proof (intro allI impI)
      fix l assume "i \<le> l \<and> l < e"
      then show "pool_get pool m l = TAIL" using e(2,3) get [OF lt, of l] True by (cases "l = i") auto
    qed
    moreover have "e < blocks pool \<longrightarrow> pool_get pool m e \<noteq> TAIL" using e(1,4) get [OF lt, of e] by auto
    moreover have "\<forall>j<2 ^ 64. pool_get pool (clear_tails pool m i) j =
        (if i \<le> j \<and> j < e then UNUSED else pool_get pool m j)"
      using e(1,5) get True by (subst clear_tails.simps) auto
    ultimately show ?thesis using e(1,2) by (intro exI [of _ e]) auto
  qed
qed

lemma owner_dealloc:
  assumes "pool_get pool m idx = HEAD" "idx < e" "e \<le> blocks pool"
    "\<forall>l. idx < l \<and> l < e \<longrightarrow> pool_get pool m l = TAIL" "e < blocks pool \<longrightarrow> pool_get pool m e \<noteq> TAIL"
    "\<And>l. l < blocks pool \<Longrightarrow>
      pool_get pool m' l = (if idx \<le> l \<and> l < e then UNUSED else pool_get pool m l)"
    "j < blocks pool"
  shows "owner pool m' j = (if owner pool m j = Some idx then None else owner pool m j)"
proof -
  have mine: "owner pool m j = Some idx \<longleftrightarrow> idx \<le> j \<and> j < e" if "j < blocks pool" for j
    using assms(1-5) that unfolding owner_Some_iff by (metis le_less_trans not_le order_le_less)
  have "owner pool m' j = (if idx \<le> j \<and> j < e then None else owner pool m j)"
    using assms(7)
  proof (induction j)
    case 0
    then show ?case using assms(6) [of 0] by auto
  next
    case (Suc j)
    show ?case
    proof (cases "Suc j = e")
      case True
      then have "pool_get pool m' (Suc j) = pool_get pool m (Suc j)" "pool_get pool m (Suc j) \<noteq> TAIL"
        using assms(5,6) Suc.prems by auto
      then show ?thesis using True by (auto split: block_status.splits)
    next
      case False
      then show ?thesis using Suc assms(6) [OF Suc.prems] assms(2) by (auto split: block_status.splits)
    qed
  qed
  then show ?thesis using mine [OF assms(7)] by auto
qed

lemma runs_ok_dealloc:
  assumes "runs_ok pool m" "idx < e" "e < blocks pool \<longrightarrow> pool_get pool m e \<noteq> TAIL"
    "\<And>l. l < blocks pool \<Longrightarrow>
      pool_get pool m' l = (if idx \<le> l \<and> l < e then UNUSED else pool_get pool m l)"
  shows "runs_ok pool m'"
  unfolding runs_ok_def
proof (intro allI impI)
  fix i assume i: "i < blocks pool"
  have old: "pool_get pool m i \<noteq> ERROR"
      "pool_get pool m i = TAIL \<Longrightarrow> 0 < i \<and> pool_get pool m (i - 1) \<in> {HEAD, TAIL}"
    using assms(1) i by (auto simp: runs_ok_def)
  have new: "pool_get pool m' i = (if idx \<le> i \<and> i < e then UNUSED else pool_get pool m i)"
      "pool_get pool m' (i - 1) = (if idx \<le> i - 1 \<and> i - 1 < e then UNUSED else pool_get pool m (i - 1))"
    using assms(4) i by simp_all
  have "i \<noteq> e" if "pool_get pool m i = TAIL" using assms(3) i that by auto
  then show "pool_get pool m' i \<noteq> ERROR \<and>
      (pool_get pool m' i = TAIL \<longrightarrow> 0 < i \<and> pool_get pool m' (i - 1) \<in> {HEAD, TAIL})"
    using old new assms(2) by (auto split: if_splits)
qed

section \<open>Inside the critical section\<close>

text \<open>Nothing but the lock itself reads the lock.\<close>

lemma pool_get_plock [simp]: "pool_get (pool\<lparr>plock := l\<rparr>) = pool_get pool"
  by (intro ext) (simp add: pool_get_def)

lemma pool_set_plock [simp]: "pool_set (pool\<lparr>plock := l\<rparr>) = pool_set pool"
  by (intro ext) (simp add: pool_set_def)

lemma pool_run_plock [simp]: "pool_run (pool\<lparr>plock := l\<rparr>) m stop i = pool_run pool m stop i"
proof (induction pool m stop i rule: pool_run.induct)
  case (1 pool m stop i)
  then show ?case
    by (subst pool_run.simps, subst (2) pool_run.simps) simp
qed

lemma pool_scan_plock [simp]: "pool_scan (pool\<lparr>plock := l\<rparr>) m k i = pool_scan pool m k i"
proof (induction pool m k i rule: pool_scan.induct)
  case (1 pool m k i)
  then show ?case
    by (subst pool_scan.simps, subst (2) pool_scan.simps) (auto intro!: bind_res_cong split: prod.splits)
qed

lemma mark_tails_plock [simp]:
  "mark_tails (pool\<lparr>plock := l\<rparr>) m start i k = mark_tails pool m start i k"
  by (induction k arbitrary: i m) simp_all

lemma clear_tails_plock [simp]: "clear_tails (pool\<lparr>plock := l\<rparr>) m i = clear_tails pool m i"
proof (induction pool m i rule: clear_tails.induct)
  case (1 pool m i)
  then show ?case
    by (subst clear_tails.simps, subst (2) clear_tails.simps) simp
qed

lemma blocks_for_plock [simp]: "blocks_for (pool\<lparr>plock := l\<rparr>) n = blocks_for pool n"
  by (simp add: blocks_for_def)

interpretation heap: lock_discipline heap_lock heap_unlock "\<lambda>h. spin_held (plock (fst h))"
    "\<lambda>h. ((fst h)\<lparr>plock := spinlock_new\<rparr>, snd h)"
  by unfold_locales
    (auto simp: heap_lock_def heap_unlock_def spinlock_lock_def spinlock_unlock_def spin_held_def)

abbreviation free_pool :: "pool_t \<Rightarrow> bool" where
  "free_pool pool \<equiv> \<not> spin_held (plock pool)"

lemma heap_section:
  assumes "free_pool pool"
  shows "with_lock heap_lock heap_unlock bdy (pool, m) =
    bind_res (bdy (pool\<lparr>plock := (plock pool)\<lparr>lock_val := 1\<rparr>\<rparr>, m)) (\<lambda>(x, h). Ok (x, heap_unlock h))"
  using assms by (simp add: with_lock_def heap_lock_def spinlock_lock_def spin_held_def)

lemma heap_unlock_locked:
  "free_pool pool \<Longrightarrow> heap_unlock (pool\<lparr>plock := (plock pool)\<lparr>lock_val := 1\<rparr>\<rparr>, m) = (pool, m)"
  by (simp add: heap_unlock_def spin_held_def spinlock_unlock_def)

lemmas heap_run = heap_section heap_unlock_locked

lemma pool_alloc_unlocked:
  assumes "free_pool pool" "block_size pool \<noteq> 0"
  shows "pool_alloc n (pool, m) =
    bind_res (pool_scan pool m (unat (blocks_for pool n)) 0) (\<lambda>found.
      case found of
        None \<Rightarrow> Ok (0, (pool, m))
      | Some start \<Rightarrow> Ok (body pool + of_nat start * block_size pool,
          (pool, mark_tails pool (pool_set pool m start HEAD) start 1 (unat (blocks_for pool n) - 1))))"
  using assms
  by (simp add: pool_alloc_def heap_run Let_def bind_res_assoc cong: option.case_cong)
    (auto intro!: bind_res_cong simp: heap_run split: option.splits)

lemma pool_dealloc_unlocked:
  assumes "free_pool pool" "block_size pool \<noteq> 0"
  shows "pool_dealloc ptr (pool, m) =
    (if (ptr - body pool) mod block_size pool \<noteq> 0
     then Fail (Panic ''Attempting to deallocate invalid unaligned pointer'')
     else let index = unat ((ptr - body pool) div block_size pool)
       in if pool_get pool m index \<noteq> HEAD
          then Fail (Panic ''Attempting to deallocate invalid unallocated pointer'')
          else Ok ((), (pool, clear_tails pool (pool_set pool m index UNUSED) (Suc index))))"
  using assms by (simp add: pool_dealloc_def heap_run Let_def)

section \<open>The layout of a pool\<close>

text \<open>The body and the map do not wrap around the address space, and no block has address \<open>0\<close>.\<close>

definition layout_ok :: "pool_t \<Rightarrow> bool" where
  "layout_ok pool \<longleftrightarrow> body pool \<noteq> 0 \<and> block_size pool \<noteq> 0 \<and> unat (block_size pool) < 2 ^ 62 \<and>
     blocks pool < 2 ^ 62 \<and>
     unat (pmap pool) = unat (body pool) + unat (block_size pool) * blocks pool \<and>
     unat (pmap pool) + (blocks pool + 3) div 4 < 2 ^ 64"

definition heap_inv :: "heap \<Rightarrow> bool" where
  "heap_inv h \<longleftrightarrow> layout_ok (fst h) \<and> free_pool (fst h) \<and> runs_ok (fst h) (snd h)"

definition block_addr :: "pool_t \<Rightarrow> nat \<Rightarrow> addr" where
  "block_addr pool i = body pool + of_nat i * block_size pool"

lemma unat_block_addr:
  assumes "layout_ok pool" "i \<le> blocks pool"
  shows "unat (block_addr pool i) = unat (body pool) + i * unat (block_size pool)"
proof -
  have le: "i * unat (block_size pool) \<le> unat (block_size pool) * blocks pool"
    using assms(2) by (simp add: mult.commute)
  have lt: "unat (body pool) + unat (block_size pool) * blocks pool < 2 ^ 64"
    using assms(1) unat_lt64 [of "pmap pool"] by (simp add: layout_ok_def)
  have i: "unat (of_nat i :: 64 word) = i"
    using assms(2) unat_lt64 [of "block_count pool"] by (simp add: unat_of_nat)
  have prod: "i * unat (block_size pool) < 2 ^ 64" "unat (body pool) + i * unat (block_size pool) < 2 ^ 64"
    using le lt by linarith+
  have m: "unat (of_nat i * block_size pool) = i * unat (block_size pool)"
    using prod(1) i by (subst unat_mult_lem [THEN iffD1]) (simp_all del: mult_le_cancel2)
  show ?thesis unfolding block_addr_def
    using prod(2) m by (subst unat_add_lem [THEN iffD1]) simp_all
qed

lemma block_addr_inj:
  assumes "layout_ok pool" "i \<le> blocks pool" "j \<le> blocks pool" "block_addr pool i = block_addr pool j"
  shows "i = j"
proof -
  have "0 < unat (block_size pool)" using assms(1) by (simp add: layout_ok_def unat_gt_0)
  moreover have "i * unat (block_size pool) = j * unat (block_size pool)"
    using unat_block_addr [OF assms(1,2)] unat_block_addr [OF assms(1,3)] assms(4)
    by (metis add_left_cancel)
  ultimately show ?thesis by simp
qed

lemma block_addr_nonzero: "layout_ok pool \<Longrightarrow> i \<le> blocks pool \<Longrightarrow> block_addr pool i \<noteq> 0"
proof
  assume l: "layout_ok pool" "i \<le> blocks pool" and "block_addr pool i = 0"
  then have "unat (body pool) = 0" using unat_block_addr [OF l] by simp
  then show False using l by (simp add: layout_ok_def unat_eq_0)
qed

text \<open>The block a byte of the body lies in.\<close>

definition block_of :: "pool_t \<Rightarrow> addr \<Rightarrow> nat" where
  "block_of pool a = (unat a - unat (body pool)) div unat (block_size pool)"

definition in_body :: "pool_t \<Rightarrow> addr \<Rightarrow> bool" where
  "in_body pool a \<longleftrightarrow> unat (body pool) \<le> unat a \<and> unat a < unat (pmap pool)"

lemma block_of_lt:
  assumes "layout_ok pool" "in_body pool a"
  shows "block_of pool a < blocks pool"
proof -
  have "unat a - unat (body pool) < blocks pool * unat (block_size pool)"
    using assms unfolding in_body_def layout_ok_def by (simp only: mult.commute) linarith
  then show ?thesis unfolding block_of_def by (rule less_mult_imp_div_less)
qed

lemma block_of_addr:
  assumes "layout_ok pool" "i < blocks pool"
  shows "block_of pool (block_addr pool i) = i" "in_body pool (block_addr pool i)"
proof -
  have bs: "0 < unat (block_size pool)" using assms(1) by (simp add: layout_ok_def unat_gt_0)
  have u: "unat (block_addr pool i) = unat (body pool) + i * unat (block_size pool)"
    using assms by (intro unat_block_addr) auto
  show "block_of pool (block_addr pool i) = i" using bs by (simp add: block_of_def u)
  show "in_body pool (block_addr pool i)"
    using assms bs by (simp add: in_body_def u layout_ok_def mult.commute)
qed

lemma block_of_iff:
  assumes "layout_ok pool" "in_body pool a"
  shows "block_of pool a = i \<longleftrightarrow> unat (body pool) + i * unat (block_size pool) \<le> unat a \<and>
    unat a < unat (body pool) + Suc i * unat (block_size pool)"
proof -
  let ?d = "unat a - unat (body pool)" and ?b = "unat (block_size pool)"
  have "0 < ?b" using assms(1) by (simp add: layout_ok_def unat_gt_0)
  then have "?d div ?b = i \<longleftrightarrow> i * ?b \<le> ?d \<and> ?d < Suc i * ?b"
    by (metis div_nat_eqI less_mult_imp_div_less mult.commute less_Suc_eq_le div_times_less_eq_dividend
        dividend_less_times_div mult_Suc_right add.commute mult_Suc)
  moreover have "unat (body pool) \<le> unat a" using assms(2) by (simp add: in_body_def)
  ultimately show ?thesis unfolding block_of_def by linarith
qed

text \<open>The allocation a byte belongs to, named by the pointer that was returned for it.\<close>

definition live :: "heap \<Rightarrow> addr \<Rightarrow> addr option" where
  "live h a = (if in_body (fst h) a
     then map_option (block_addr (fst h)) (owner (fst h) (snd h) (block_of (fst h) a)) else None)"

section \<open>Allocation and deallocation over the layout\<close>

text \<open>The number of blocks of a request is at least one and covers it.\<close>

lemma blocks_for_nat:
  assumes "layout_ok pool" "unat n < 2 ^ 63"
  shows "unat (blocks_for pool n) = ceil_nat (unat n) (unat (block_size pool)) div unat (block_size pool)"
    "1 \<le> unat (blocks_for pool n)" "unat n \<le> unat (blocks_for pool n) * unat (block_size pool)"
    "blocks pool + unat (blocks_for pool n) < SIZE_MOD"
proof -
  let ?b = "unat (block_size pool)" and ?c = "ceil_nat (unat n) (unat (block_size pool))"
  have b: "0 < ?b" "?b < 2 ^ 62" "blocks pool < 2 ^ 62"
    using assms(1) by (simp_all add: layout_ok_def unat_gt_0)
  have c: "?c < 2 ^ 64 - 2 ^ 62"
  proof (cases "unat n = 0")
    case True
    then show ?thesis using b by (simp add: ceil_nat_def)
  next
    case False
    then show ?thesis using ceil_nat_less [of "unat n" ?b] b assms(2) by simp
  qed
  then have "unat (align_ceiling n (block_size pool)) = ?c" by (intro unat_align_ceiling) simp
  then show eq: "unat (blocks_for pool n) = ?c div ?b" by (simp add: blocks_for_def unat_div_distrib)
  have mult: "?c div ?b * ?b = ?c" using ceil_nat_dvd [of ?b "unat n"] by simp
  have "?b \<le> ?c" by (simp add: ceil_nat_def)
  then have "0 < ?c div ?b" using b(1) by (simp add: div_greater_zero_iff)
  then show "1 \<le> unat (blocks_for pool n)" using eq by simp
  show "unat n \<le> unat (blocks_for pool n) * ?b"
    using ceil_nat_ge [OF b(1), of "unat n"] eq mult by simp
  have "?c div ?b \<le> ?c" by (rule div_le_dividend)
  then have "unat (blocks_for pool n) < 2 ^ 64 - 2 ^ 62" using eq c by linarith
  then show "blocks pool + unat (blocks_for pool n) < SIZE_MOD"
    using b(3) by (simp add: SIZE_MOD_def)
qed

lemma fits_lt: "fits pool m k s \<Longrightarrow> 1 \<le> k \<Longrightarrow> s < blocks pool \<and> s + k \<le> blocks pool"
  by (simp add: fits_def)

lemma pool_alloc_first_fit:
  assumes "heap_inv (pool, m)" "unat n < 2 ^ 63"
  defines "k \<equiv> unat (blocks_for pool n)"
  shows "(\<exists>s m'. fits pool m k s \<and> (\<forall>s' < s. \<not> fits pool m k s') \<and>
      pool_alloc n (pool, m) = Ok (block_addr pool s, (pool, m')) \<and>
      (\<forall>l<2 ^ 64. pool_get pool m' l =
        (if l = s then HEAD else if s < l \<and> l < s + k then TAIL else pool_get pool m l))) \<or>
    ((\<forall>s. \<not> fits pool m k s) \<and> (pool_alloc n (pool, m) = Ok (0, (pool, m)) \<or>
      pool_alloc n (pool, m) = Fail (Panic ''Cannot find space to allocate kernel memory'')))"
proof -
  have inv: "layout_ok pool" "free_pool pool" using assms(1) by (simp_all add: heap_inv_def)
  have k: "1 \<le> k" "blocks pool + k < SIZE_MOD"
    using blocks_for_nat [OF inv(1) assms(2)] by (simp_all add: k_def)
  have bs: "block_size pool \<noteq> 0" using inv(1) by (simp add: layout_ok_def)
  note run = pool_alloc_unlocked [OF inv(2) bs, of n m, folded k_def]
  note scan = pool_scan_spec [OF k, where m = m and i = 0]
  show ?thesis
  proof (cases "pool_scan pool m k 0")
    case (Fail e)
    then show ?thesis using run scan by simp
  next
    case (Ok found)
    show ?thesis
    proof (cases found)
      case None
      then show ?thesis using Ok run scan by simp
    next
      case (Some s)
      then have s: "fits pool m k s" "\<forall>s' < s. \<not> fits pool m k s'" using Ok scan by simp_all
      let ?m = "mark_tails pool (pool_set pool m s HEAD) s 1 (k - 1)"
      have "s + k < 2 ^ 64" using s(1) unat_lt64 [of "block_count pool"] by (simp add: fits_def)
      then have "\<forall>l<2 ^ 64. pool_get pool ?m l =
          (if l = s then HEAD else if s < l \<and> l < s + k then TAIL else pool_get pool m l)"
        using alloc_marks_get [OF _ k(1)] by blast
      then show ?thesis using s run Ok Some by (auto simp: block_addr_def)
    qed
  qed
qed

text \<open>The map lies outside the body, so marking blocks changes no allocated byte.\<close>

lemma pool_set_body:
  assumes "layout_ok pool" "in_body pool a" "i \<le> blocks pool"
  shows "pool_set pool m i s a = m a"
proof -
  have le: "i div 4 \<le> (blocks pool + 3) div 4" using assms(3) by (intro div_le_mono) simp
  have lt: "unat (pmap pool) + (blocks pool + 3) div 4 < 2 ^ 64" using assms(1) by (simp add: layout_ok_def)
  have i: "unat (of_nat (i div 4) :: 64 word) = i div 4" using le lt by (simp add: unat_of_nat)
  have "unat (pmap pool + of_nat (i div 4)) = unat (pmap pool) + i div 4"
    using le lt i by (subst unat_add_lem [THEN iffD1]) simp_all
  then have "a \<noteq> pmap pool + of_nat (i div 4)" using assms(2) by (auto simp: in_body_def)
  then show ?thesis by (rule pool_set_frame)
qed

lemma mark_tails_body:
  "layout_ok pool \<Longrightarrow> in_body pool a \<Longrightarrow> start + i + k \<le> blocks pool \<Longrightarrow>
     mark_tails pool m start i k a = m a"
  by (induction k arbitrary: i m) (auto simp: pool_set_body)

lemma clear_tails_body:
  "layout_ok pool \<Longrightarrow> in_body pool a \<Longrightarrow> clear_tails pool m i a = m a"
proof (induction pool m i rule: clear_tails.induct)
  case (1 pool m i)
  then show ?case by (subst clear_tails.simps) (auto simp: pool_set_body)
qed

lemma owner_le: "owner pool m j = Some h \<Longrightarrow> h \<le> j"
  by (simp add: owner_Some_iff)

lemma live_block:
  assumes "layout_ok pool" "live (pool, m) a = Some p"
  obtains h where "in_body pool a" "owner pool m (block_of pool a) = Some h" "p = block_addr pool h"
    "h < blocks pool"
  using assms block_of_lt [OF assms(1), of a] owner_le [of pool m "block_of pool a"]
  by (auto simp: live_def split: if_splits intro: le_less_trans)

lemma live_head:
  assumes "layout_ok pool" "live (pool, m) a = Some p"
  shows "live (pool, m) p = Some p"
proof -
  obtain h where h: "owner pool m (block_of pool a) = Some h" "p = block_addr pool h" "h < blocks pool"
    using assms by (rule live_block)
  have "owner pool m h = Some h" using h(1) by (auto simp: owner_Some_iff)
  then show ?thesis using h block_of_addr [OF assms(1) h(3)] by (simp add: live_def)
qed

text \<open>The bytes of the blocks \<open>s, \<dots>, s + k - 1\<close>.\<close>

definition span :: "pool_t \<Rightarrow> nat \<Rightarrow> nat \<Rightarrow> addr set" where
  "span pool s k = {a. in_body pool a \<and> s \<le> block_of pool a \<and> block_of pool a < s + k}"

lemma span_covers:
  assumes "layout_ok pool" "s + k \<le> blocks pool" "i < k * unat (block_size pool)"
  shows "block_addr pool s + of_nat i \<in> span pool s k"
proof -
  let ?b = "unat (block_size pool)"
  have b: "0 < ?b" using assms(1) by (simp add: layout_ok_def unat_gt_0)
  have le: "(s + k) * ?b \<le> ?b * blocks pool" using assms(2) by (simp add: mult.commute)
  have top: "unat (pmap pool) = unat (body pool) + ?b * blocks pool" "unat (pmap pool) < 2 ^ 64"
    using assms(1) unat_lt64 [of "pmap pool"] by (simp_all add: layout_ok_def)
  have u: "unat (block_addr pool s) = unat (body pool) + s * ?b"
    using assms by (intro unat_block_addr) auto
  have sum: "unat (body pool) + s * ?b + i < unat (pmap pool)"
    using assms(3) le top(1) unfolding add_mult_distrib by linarith
  then have i: "unat (of_nat i :: 64 word) = i" using top(2) by (simp add: unat_of_nat)
  have a: "unat (block_addr pool s + of_nat i) = unat (body pool) + s * ?b + i"
    using u i sum top(2) by (subst unat_add_lem [THEN iffD1]) simp_all
  have "block_of pool (block_addr pool s + of_nat i) = s + i div ?b"
    using b by (simp add: block_of_def a)
  moreover have "i div ?b < k" using assms(3) by (rule less_mult_imp_div_less)
  ultimately show ?thesis using sum a by (simp add: span_def in_body_def)
qed

lemma pool_alloc_live:
  assumes inv: "heap_inv (pool, m)" and n: "unat n < 2 ^ 63"
    and alloc: "pool_alloc n (pool, m) = Ok (p, h')" and p: "p \<noteq> 0"
  shows "\<exists>s k m'. h' = (pool, m') \<and> p = block_addr pool s \<and> s + k \<le> blocks pool \<and>
    unat n \<le> k * unat (block_size pool) \<and> 1 \<le> k \<and> heap_inv h' \<and> (\<forall>a\<in>span pool s k. live (pool, m) a = None) \<and>
    live h' = (\<lambda>a. if a \<in> span pool s k then Some p else live (pool, m) a) \<and>
    (\<forall>a. in_body pool a \<longrightarrow> m' a = m a)"
proof -
  have lay: "layout_ok pool" "free_pool pool" "runs_ok pool m" using inv by (simp_all add: heap_inv_def)
  define k where "k = unat (blocks_for pool n)"
  have k: "1 \<le> k" "unat n \<le> k * unat (block_size pool)" "blocks pool + k < SIZE_MOD"
    using blocks_for_nat [OF lay(1) n] by (simp_all add: k_def)
  have bs: "block_size pool \<noteq> 0" using lay(1) by (simp add: layout_ok_def)
  obtain s where scan: "pool_scan pool m k 0 = Ok (Some s)" and h': "p = block_addr pool s"
      "h' = (pool, mark_tails pool (pool_set pool m s HEAD) s 1 (k - 1))"
    using alloc p pool_alloc_unlocked [OF lay(2) bs, of n m]
    by (auto simp: k_def block_addr_def split: option.splits)
  have fit: "fits pool m k s" using pool_scan_spec [OF k(1,3), where m = m and i = 0] scan by simp
  have lt: "s < blocks pool" "s + k \<le> blocks pool" using fits_lt [OF fit k(1)] by simp_all
  define m' where "m' = mark_tails pool (pool_set pool m s HEAD) s 1 (k - 1)"
  have "s + k < 2 ^ 64" using lt unat_lt64 [of "block_count pool"] by linarith
  then have get: "pool_get pool m' l =
      (if l = s then HEAD else if s < l \<and> l < s + k then TAIL else pool_get pool m l)"
    if "l < blocks pool" for l
    unfolding m'_def using alloc_marks_get [OF _ k(1)] that unat_lt64 [of "block_count pool"] by simp
  have runs: "runs_ok pool m'" using runs_ok_alloc [OF lay(3) fit k(1) get] .
  have live': "live (pool, m') a = (if a \<in> span pool s k then Some p else live (pool, m) a)" for a
    using owner_alloc [OF lay(3) fit k(1) block_of_lt [OF lay(1)] get, of a] h'(1)
    by (auto simp: live_def span_def)
  have none: "live (pool, m) a = None" if "a \<in> span pool s k" for a
  proof -
    have "pool_get pool m (block_of pool a) = UNUSED" using that fit by (simp add: span_def fits_def)
    then show ?thesis by (simp add: live_def owner_unused)
  qed
  have keep: "m' a = m a" if "in_body pool a" for a
    unfolding m'_def using that lay(1) lt k(1) by (simp add: mark_tails_body pool_set_body)
  show ?thesis
    using h' lt(2) k lay runs live' none keep
    by (intro exI [of _ s] exI [of _ k] exI [of _ m']) (auto simp: m'_def heap_inv_def)
qed

lemma pool_dealloc_live:
  assumes inv: "heap_inv (pool, m)" and p: "live (pool, m) p = Some p"
  shows "\<exists>m'. pool_dealloc p (pool, m) = Ok ((), (pool, m')) \<and> heap_inv (pool, m') \<and>
    live (pool, m') = (\<lambda>a. if live (pool, m) a = Some p then None else live (pool, m) a) \<and>
    (\<forall>a. in_body pool a \<longrightarrow> m' a = m a)"
proof -
  have lay: "layout_ok pool" "free_pool pool" "runs_ok pool m" using inv by (simp_all add: heap_inv_def)
  obtain h where h: "owner pool m (block_of pool p) = Some h" "p = block_addr pool h" "h < blocks pool"
    using lay(1) p by (rule live_block)
  have "owner pool m h = Some h" using h(1) by (auto simp: owner_Some_iff)
  then have head: "pool_get pool m h = HEAD" by (simp add: owner_Some_iff)
  have bs: "block_size pool \<noteq> 0" "0 < unat (block_size pool)"
    using lay(1) by (simp_all add: layout_ok_def unat_gt_0)
  have off: "p - body pool = of_nat h * block_size pool" using h(2) by (simp add: block_addr_def)
  have u: "unat (p - body pool) = h * unat (block_size pool)"
  proof -
    have "body pool \<le> p" using unat_block_addr [OF lay(1), of h] h(2,3) by (simp add: word_le_nat_alt)
    then show ?thesis using unat_block_addr [OF lay(1), of h] h(2,3) by (simp add: unat_sub)
  qed
  have "unat ((p - body pool) mod block_size pool) = 0" using u by (simp add: unat_mod_distrib)
  then have aligned: "(p - body pool) mod block_size pool = 0" by (simp add: unat_eq_0)
  have idx: "unat ((p - body pool) div block_size pool) = h"
    using u bs(2) by (simp add: unat_div_distrib)
  define m1 where "m1 = pool_set pool m h UNUSED"
  define m' where "m' = clear_tails pool m1 (Suc h)"
  have run: "pool_dealloc p (pool, m) = Ok ((), (pool, m'))"
    using pool_dealloc_unlocked [OF lay(2) bs(1), of p m] aligned idx head by (simp add: m'_def m1_def)
  have lt64: "l < 2 ^ 64" if "l \<le> blocks pool" for l
    using that unat_lt64 [of "block_count pool"] by simp
  have get1: "pool_get pool m1 l = (if h = l then UNUSED else pool_get pool m l)" if "l \<le> blocks pool" for l
    unfolding m1_def using pool_get_set [OF lt64 lt64] that h(3) by simp
  obtain e where e: "Suc h \<le> e" "e \<le> blocks pool" "\<forall>l. Suc h \<le> l \<and> l < e \<longrightarrow> pool_get pool m1 l = TAIL"
      "e < blocks pool \<longrightarrow> pool_get pool m1 e \<noteq> TAIL"
      "\<forall>j<2 ^ 64. pool_get pool m' j = (if Suc h \<le> j \<and> j < e then UNUSED else pool_get pool m1 j)"
    using clear_tails_get [of "Suc h" pool m1] h(3) unfolding m'_def by auto
  have tails: "\<forall>l. h < l \<and> l < e \<longrightarrow> pool_get pool m l = TAIL"
    using e(2,3) get1 by (metis Suc_leI less_imp_le_nat less_irrefl less_le_trans)
  have stop: "e < blocks pool \<longrightarrow> pool_get pool m e \<noteq> TAIL" using e(1,4) get1 [of e] by auto
  have get: "pool_get pool m' l = (if h \<le> l \<and> l < e then UNUSED else pool_get pool m l)"
    if "l < blocks pool" for l
    using e(1,5) lt64 [of l] get1 [of l] that by (auto simp: Suc_le_eq)
  have he: "h < e" using e(1) by simp
  have runs: "runs_ok pool m'" using lay(3) he stop get by (rule runs_ok_dealloc)
  have "live (pool, m') a = (if live (pool, m) a = Some p then None else live (pool, m) a)" for a
  proof (cases "in_body pool a")
    case True
    note lt = block_of_lt [OF lay(1) True]
    have "owner pool m' (block_of pool a) =
        (if owner pool m (block_of pool a) = Some h then None else owner pool m (block_of pool a))"
      using head he e(2) tails stop get lt by (rule owner_dealloc)
    moreover have "block_addr pool g = p \<longleftrightarrow> g = h" if "owner pool m (block_of pool a) = Some g" for g
      using owner_le [OF that] lt h block_addr_inj [OF lay(1)] by auto
    ultimately show ?thesis using True by (auto simp: live_def)
  qed (simp add: live_def)
  moreover have "m' a = m a" if "in_body pool a" for a
    using that lay(1) h(3) by (simp add: m'_def m1_def clear_tails_body pool_set_body)
  ultimately show ?thesis using run runs lay by (intro exI [of _ m']) (auto simp: heap_inv_def)
qed

section \<open>What a client of an allocator relies on\<close>

locale allocator =
  fixes alloc :: "size_t \<Rightarrow> 's \<Rightarrow> (addr \<times> 's) res"
    and free :: "addr \<Rightarrow> 's \<Rightarrow> (unit \<times> 's) res"
    and owns :: "'s \<Rightarrow> addr \<Rightarrow> addr option"
    and bytes :: "'s \<Rightarrow> memory"
    and good :: "'s \<Rightarrow> bool"
    and small :: "size_t \<Rightarrow> bool"
  assumes alloc_owns: "good s \<Longrightarrow> small n \<Longrightarrow> alloc n s = Ok (p, s') \<Longrightarrow> p \<noteq> 0 \<Longrightarrow>
      good s' \<and> (\<exists>A. (\<forall>i<unat n. p + of_nat i \<in> A) \<and> p \<in> A \<and> (\<forall>a\<in>A. owns s a = None) \<and>
        owns s' = (\<lambda>a. if a \<in> A then Some p else owns s a))"
    and alloc_bytes: "good s \<Longrightarrow> small n \<Longrightarrow> alloc n s = Ok (p, s') \<Longrightarrow> p \<noteq> 0 \<Longrightarrow>
      owns s a \<noteq> None \<Longrightarrow> bytes s' a = bytes s a"
    and free_owns: "good s \<Longrightarrow> owns s p = Some p \<Longrightarrow> \<exists>s'. free p s = Ok ((), s') \<and> good s' \<and>
      owns s' = (\<lambda>a. if owns s a = Some p then None else owns s a) \<and>
      (\<forall>a. owns s a \<noteq> None \<longrightarrow> bytes s' a = bytes s a)"
    and owner_first: "good s \<Longrightarrow> owns s a = Some p \<Longrightarrow> owns s p = Some p"
begin

lemma alloc_fresh:
  assumes "good s" "small n" "alloc n s = Ok (p, s')" "p \<noteq> 0"
  shows "owns s a \<noteq> Some p" "owns s' p = Some p"
proof -
  obtain A where A: "p \<in> A" "\<forall>a\<in>A. owns s a = None" "owns s' = (\<lambda>a. if a \<in> A then Some p else owns s a)"
    using alloc_owns [OF assms] by blast
  show "owns s' p = Some p" using A by simp
  show "owns s a \<noteq> Some p" using A(1,2) owner_first [OF assms(1), of a p] by fastforce
qed

text \<open>Freeing what was just allocated gives back exactly the old ownership.\<close>

lemma alloc_free:
  assumes "good s" "small n" "alloc n s = Ok (p, s')" "p \<noteq> 0"
  shows "\<exists>s''. free p s' = Ok ((), s'') \<and> good s'' \<and> owns s'' = owns s"
proof -
  obtain A where A: "good s'" "\<forall>a\<in>A. owns s a = None" "owns s' = (\<lambda>a. if a \<in> A then Some p else owns s a)"
    using alloc_owns [OF assms] by blast
  obtain s'' where s'': "free p s' = Ok ((), s'')" "good s''"
      "owns s'' = (\<lambda>a. if owns s' a = Some p then None else owns s' a)"
    using free_owns [OF A(1) alloc_fresh(2) [OF assms]] by blast
  have "owns s'' = owns s"
    using s''(3) A(2,3) alloc_fresh(1) [OF assms] by (auto simp: fun_eq_iff)
  then show ?thesis using s'' by blast
qed

end

interpretation pool: allocator pool_alloc pool_dealloc live snd heap_inv "\<lambda>n. unat n < 2 ^ 63"
proof unfold_locales
  fix s s' :: heap and n p a
  obtain pool m where s: "s = (pool, m)" by (cases s)
  assume inv: "heap_inv s"
  then have lay: "layout_ok pool" by (simp add: s heap_inv_def)
  show "live s p = Some p" if "live s a = Some p" using live_head [OF lay] that s by simp
  show "\<exists>s'. pool_dealloc p s = Ok ((), s') \<and> heap_inv s' \<and>
      live s' = (\<lambda>a. if live s a = Some p then None else live s a) \<and>
      (\<forall>a. live s a \<noteq> None \<longrightarrow> snd s' a = snd s a)" if "live s p = Some p"
    using pool_dealloc_live [of pool m p] inv that unfolding s live_def by (auto split: if_splits)
  assume n: "unat n < 2 ^ 63" and alloc: "pool_alloc n s = Ok (p, s')" "p \<noteq> 0"
  obtain k b m' where r: "s' = (pool, m')" "p = block_addr pool b" "b + k \<le> blocks pool"
      "unat n \<le> k * unat (block_size pool)" "1 \<le> k" "heap_inv s'" "\<forall>a\<in>span pool b k. live s a = None"
      "live s' = (\<lambda>a. if a \<in> span pool b k then Some p else live s a)"
      "\<forall>a. in_body pool a \<longrightarrow> m' a = m a"
    using pool_alloc_live [of pool m n p s'] inv n alloc unfolding s by blast
  show "snd s' a = snd s a" if "live s a \<noteq> None"
    using that r(1,9) by (auto simp: s live_def split: if_splits)
  have "p + of_nat i \<in> span pool b k" if "i < unat n" for i
    using span_covers [OF lay r(3), of i] that r(2,4) by simp
  moreover have "p \<in> span pool b k"
    using span_covers [OF lay r(3), of 0] r(2,5) lay by (simp add: layout_ok_def unat_gt_0)
  ultimately show "heap_inv s' \<and> (\<exists>A. (\<forall>i<unat n. p + of_nat i \<in> A) \<and> p \<in> A \<and>
      (\<forall>a\<in>A. live s a = None) \<and> live s' = (\<lambda>a. if a \<in> A then Some p else live s a))"
    using r(6-8) by blast
qed

text \<open>The invariant looks at the bytes of the map only.\<close>

lemma heap_inv_cong:
  assumes "heap_inv (pool, m)" "\<And>j. j < (blocks pool + 3) div 4 \<Longrightarrow> m' (pmap pool + of_nat j) = m (pmap pool + of_nat j)"
  shows "heap_inv (pool, m')"
proof -
  have "pool_get pool m' i = pool_get pool m i" if "i < blocks pool" for i
  proof -
    have "i div 4 < (blocks pool + 3) div 4" using that by linarith
    then show ?thesis using assms(2) by (simp add: pool_get_def)
  qed
  moreover have "i - 1 < blocks pool" if "i < blocks pool" for i using that by simp
  ultimately show ?thesis using assms(1) by (simp add: heap_inv_def runs_ok_def)
qed

end
