(* ===== verification/Pool_Trace.thy ===== *)
theory Pool_Trace
  imports Pool
begin

text \<open>
  The pool as its clients see it. The abstract state maps the address of every outstanding allocation to the bytes its
  owner put there. \<open>heap_step\<close> has the calls of \<open>pool.cpp\<close> and the stores clients make inside their own allocations, in
  any order; \<open>heap_view\<close> is the simulation between the two, kept by every step.
\<close>

type_synonym clients = "addr \<rightharpoonup> u8 list"

inductive heap_step :: "heap \<times> clients \<Rightarrow> heap \<times> clients \<Rightarrow> bool" where
  hs_alloc: "unat n < 2 ^ 63 \<Longrightarrow> pool_alloc n s = Ok (p, s') \<Longrightarrow> p \<noteq> 0 \<Longrightarrow>
    heap_step (s, L) (s', L(p \<mapsto> bytes_at (snd s') p (unat n)))"
| hs_none: "unat n < 2 ^ 63 \<Longrightarrow> pool_alloc n s = Ok (0, s') \<Longrightarrow> heap_step (s, L) (s', L)"
| hs_write: "L p = Some cs \<Longrightarrow> i < length cs \<Longrightarrow>
    heap_step ((pool, m), L) ((pool, m(p + of_nat i := b)), L(p \<mapsto> cs[i := b]))"
| hs_free: "L p = Some cs \<Longrightarrow> pool_dealloc p s = Ok ((), s') \<Longrightarrow> heap_step (s, L) (s', L(p := None))"

definition owned :: "heap \<Rightarrow> addr \<Rightarrow> u8 list \<Rightarrow> bool" where
  "owned s p cs \<longleftrightarrow> length cs < 2 ^ 63 \<and> live s p = Some p \<and> (\<forall>i<length cs. live s (p + of_nat i) = Some p) \<and>
     bytes_at (snd s) p (length cs) = cs"

fun heap_view :: "heap \<times> clients \<Rightarrow> bool" where
  "heap_view (s, L) \<longleftrightarrow> heap_inv s \<and> (\<forall>p cs. L p = Some cs \<longrightarrow> owned s p cs)"

section \<open>Stores of clients\<close>

lemma live_in_body: "live (pool, m) a \<noteq> None \<Longrightarrow> in_body pool a"
  by (auto simp: live_def split: if_splits)

lemma body_not_map:
  assumes "layout_ok pool" "in_body pool a" "j < (blocks pool + 3) div 4"
  shows "a \<noteq> pmap pool + of_nat j"
proof -
  have lt: "unat (pmap pool) + (blocks pool + 3) div 4 < 2 ^ 64" using assms(1) by (simp add: layout_ok_def)
  have j: "unat (of_nat j :: 64 word) = j" using assms(3) lt by (simp add: unat_of_nat)
  have "unat (pmap pool + of_nat j) = unat (pmap pool) + j"
    using assms(3) lt j by (subst unat_add_lem [THEN iffD1]) simp_all
  then show ?thesis using assms(2) by (auto simp: in_body_def)
qed

lemma body_store_get:
  assumes "layout_ok pool" "in_body pool a" "i < blocks pool"
  shows "pool_get pool (m(a := b)) i = pool_get pool m i"
proof -
  have "i div 4 < (blocks pool + 3) div 4" using assms(3) by linarith
  from body_not_map [OF assms(1,2) this] show ?thesis by (auto simp: pool_get_def)
qed

text \<open>The map is no part of the body: a store inside a live allocation changes neither the invariant nor ownership.\<close>

lemma body_store:
  assumes "heap_inv (pool, m)" "in_body pool a"
  shows "heap_inv (pool, m(a := b))" "live (pool, m(a := b)) = live (pool, m)"
proof -
  have lay: "layout_ok pool" using assms(1) by (simp add: heap_inv_def)
  show "heap_inv (pool, m(a := b))"
    using assms(1) body_not_map [OF lay assms(2)] by (elim heap_inv_cong) auto
  have "owner pool (m(a := b)) (block_of pool c) = owner pool m (block_of pool c)" if "in_body pool c" for c
    using block_of_lt [OF lay that] by (intro owner_cong body_store_get [OF lay assms(2)]) simp
  then show "live (pool, m(a := b)) = live (pool, m)" by (auto simp: fun_eq_iff live_def)
qed

lemma store_own:
  assumes "owned (pool, m) p cs" "i < length cs" "live (pool, m(p + of_nat i := b)) = live (pool, m)"
  shows "owned (pool, m(p + of_nat i := b)) p (cs[i := b])"
proof -
  have small: "length cs < 2 ^ 63" and cs: "bytes_at m p (length cs) = cs" using assms(1) by (simp_all add: owned_def)
  have eq: "p + of_nat j = p + of_nat i \<longleftrightarrow> j = i" if "j < length cs" for j
    using that assms(2) small by (intro of_nat_add_inj64) simp_all
  have "bytes_at (m(p + of_nat i := b)) p (length cs) = cs[i := b]"
  proof (rule nth_equalityI)
    fix j assume "j < length (bytes_at (m(p + of_nat i := b)) p (length cs))"
    then have j: "j < length cs" by simp
    have "cs ! j = m (p + of_nat j)" using arg_cong [OF cs, of "\<lambda>xs. xs ! j"] j by (simp add: bytes_at_def)
    then show "bytes_at (m(p + of_nat i := b)) p (length cs) ! j = cs[i := b] ! j"
      using j eq [OF j] by (auto simp: bytes_at_def nth_list_update)
  qed simp
  then show ?thesis using assms(1,3) by (simp add: owned_def)
qed

section \<open>Steps keep the view\<close>

lemma pool_alloc_none:
  assumes "heap_inv s" "unat n < 2 ^ 63" "pool_alloc n s = Ok (0, s')"
  shows "s' = s"
proof -
  obtain pool m where s: "s = (pool, m)" by (cases s)
  have lay: "layout_ok pool" using assms(1) by (simp add: s heap_inv_def)
  have "block_addr pool b \<noteq> 0" if "fits pool m k b" for b k
  proof -
    have "b \<le> blocks pool" using that by (simp add: fits_def)
    then have "0 < unat (block_addr pool b)" using unat_block_addr [OF lay] lay by (simp add: layout_ok_def unat_gt_0)
    then show ?thesis by auto
  qed
  then show ?thesis using pool_alloc_first_fit [of pool m n] assms unfolding s by (metis prod.inject res.inject(1) res.distinct(1))
qed

lemma owned_frame:
  assumes "owned s p cs" "\<And>a. live s a = Some p \<Longrightarrow> live s' a = Some p \<and> snd s' a = snd s a"
  shows "owned s' p cs"
proof -
  have "bytes_at (snd s') p (length cs) = bytes_at (snd s) p (length cs)"
    using assms by (intro bytes_at_cong) (simp add: owned_def)
  then show ?thesis using assms by (simp add: owned_def)
qed

lemma heap_step_view: "heap_step x y \<Longrightarrow> heap_view x \<Longrightarrow> heap_view y"
proof (induction rule: heap_step.induct)
  case (hs_alloc n s p s' L)
  have inv: "heap_inv s" using hs_alloc.prems by simp
  note call = hs_alloc.hyps
  obtain A where A: "heap_inv s'" "\<forall>i<unat n. p + of_nat i \<in> A" "p \<in> A" "\<forall>a\<in>A. live s a = None"
      "live s' = (\<lambda>a. if a \<in> A then Some p else live s a)"
    using pool.alloc_owns [OF inv call] by blast
  have "owned s' p (bytes_at (snd s') p (unat n))" using A(2,3,5) call(1) by (simp add: owned_def)
  moreover have "owned s' q cs" if "L q = Some cs" for q cs
  proof (rule owned_frame)
    show "owned s q cs" using that hs_alloc.prems by simp
    show "live s' a = Some q \<and> snd s' a = snd s a" if "live s a = Some q" for a
      using that A(4,5) pool.alloc_bytes [OF inv call, of a] by auto
  qed
  ultimately show ?case using A(1) by simp
next
  case (hs_none n s s' L)
  then show ?case using pool_alloc_none [of s n s'] by simp
next
  case (hs_write L p cs i pool m b)
  have own: "owned (pool, m) p cs" and inv: "heap_inv (pool, m)" using hs_write by simp_all
  let ?a = "p + of_nat i"
  have lp: "live (pool, m) ?a = Some p" using own hs_write.hyps(2) by (simp add: owned_def)
  have body: "in_body pool ?a" using lp by (intro live_in_body [of pool m]) simp
  note st = body_store [OF inv body, of b]
  have "owned (pool, m(?a := b)) q ds" if "L q = Some ds" "q \<noteq> p" for q ds
  proof (rule owned_frame)
    show "owned (pool, m) q ds" using that hs_write.prems by simp
    show "live (pool, m(?a := b)) a = Some q \<and> snd (pool, m(?a := b)) a = snd (pool, m) a" if "live (pool, m) a = Some q" for a
      using that lp \<open>q \<noteq> p\<close> st(2) by auto
  qed
  then show ?case using st(1) store_own [OF own hs_write.hyps(2) st(2)] by simp
next
  case (hs_free L p cs s s')
  have inv: "heap_inv s" and lp: "live s p = Some p" using hs_free by (simp_all add: owned_def)
  have s': "heap_inv s'" "live s' = (\<lambda>a. if live s a = Some p then None else live s a)"
      "\<forall>a. live s a \<noteq> None \<longrightarrow> snd s' a = snd s a"
    using pool.free_owns [OF inv lp] hs_free.hyps(2) by auto
  have "owned s' q ds" if "L q = Some ds" "q \<noteq> p" for q ds
  proof (rule owned_frame)
    show "owned s q ds" using that hs_free.prems by simp
    show "live s' a = Some q \<and> snd s' a = snd s a" if "live s a = Some q" for a
      using that \<open>q \<noteq> p\<close> s'(2,3) by simp
  qed
  then show ?case using s'(1) by simp
qed

section \<open>What every client may rely on\<close>

interpretation heapsys: invariant_system "\<lambda>(s, L). heap_inv s \<and> L = Map.empty" heap_step heap_view
proof unfold_locales
  fix x :: "heap \<times> clients"
  show "heap_view x" if "(\<lambda>(s, L). heap_inv s \<and> L = Map.empty) x" using that by (cases x) simp
qed (rule heap_step_view)

lemma view_disjoint:
  assumes "heap_view (s, L)" "L p = Some cs" "L q = Some ds" "p \<noteq> q" "i < length cs" "j < length ds"
  shows "p + of_nat i \<noteq> q + of_nat j"
proof -
  have "live s (p + of_nat i) = Some p" "live s (q + of_nat j) = Some q" using assms by (auto simp: owned_def)
  then show ?thesis using assms(4) by auto
qed

lemma view_free:
  assumes "heap_view (s, L)" "L p = Some cs"
  shows "\<exists>s'. pool_dealloc p s = Ok ((), s')"
proof -
  have "heap_inv s" "live s p = Some p" using assms by (auto simp: owned_def)
  then show ?thesis using pool.free_owns by blast
qed

end
