(* ===== verification/Kmem.thy ===== *)
theory Kmem
  imports Pool
begin

text \<open>
  The kernel heap: \<open>kernel/arch.cpp\<close> (space behind the kernel image), \<open>kernel/sys/kmem.cpp\<close> (one pool
  guarded by the hardware lock) and the allocation operators of \<open>kernel/cpp.cpp\<close>. \<open>kernel_end\<close>, the
  address the linker gives the end of the image, is a parameter.
\<close>

section \<open>Space behind the image\<close>

definition ARCH_PAGE_SIZE :: size_t where
  "ARCH_PAGE_SIZE = 0x1000"

definition arch_get_offset :: size_t where
  "arch_get_offset = 0xFFFFFFFF80000000"

text \<open>\<open>kernel_end_offset\<close> is the only state.\<close>

definition arch_get_kernel_end :: "addr \<Rightarrow> size_t \<Rightarrow> size_t" where
  "arch_get_kernel_end kernel_end offset = kernel_end + offset"

definition arch_kernel_alloc :: "addr \<Rightarrow> size_t \<Rightarrow> size_t \<Rightarrow> addr \<times> size_t" where
  "arch_kernel_alloc kernel_end bytes offset =
     (let fin = align_ceiling (kernel_end + offset) ARCH_PAGE_SIZE;
          offset1 = offset + (fin - kernel_end);
          bytes' = align_ceiling bytes ARCH_PAGE_SIZE;
          old_end = kernel_end + offset1
      in (old_end + arch_get_offset, offset1 + bytes'))"

section \<open>The heap\<close>

definition KMEM_SIZE :: size_t where
  "KMEM_SIZE = 4096 * 4096"

definition KMEM_BLOCK_SIZE :: size_t where
  "KMEM_BLOCK_SIZE = 64"

record kmem =
  km_hw :: hw_state
  km_heap :: heap
  km_end_offset :: size_t

definition kmem_init :: "addr \<Rightarrow> kmem \<Rightarrow> (unit \<times> kmem) res" where
  "kmem_init kernel_end s =
     (let s1 = s\<lparr>km_hw := hwlock_lock (km_hw s)\<rparr>;
          (pool, off) = arch_kernel_alloc kernel_end KMEM_SIZE (km_end_offset s1);
          s2 = s1\<lparr>km_end_offset := off\<rparr>
      in if pool = 0 then Fail (Panic ''Could not allocate kernel memory pool'')
         else bind_res (pool_construct pool KMEM_SIZE KMEM_BLOCK_SIZE (km_heap s2)) (\<lambda>(result, h).
           if \<not> result then Fail (Panic ''Could not construct kernel memory pool'')
           else Ok ((), s2\<lparr>km_heap := h, km_hw := hwlock_unlock (km_hw s2)\<rparr>)))"

definition kmem_alloc :: "size_t \<Rightarrow> kmem \<Rightarrow> (addr \<times> kmem) res" where
  "kmem_alloc n s =
     (let s1 = s\<lparr>km_hw := hwlock_lock (km_hw s)\<rparr>
      in bind_res (pool_alloc n (km_heap s1)) (\<lambda>(ptr, h).
         if ptr = 0 then Fail (Panic ''Failed to allocate kernel blocks'')
         else Ok (ptr, s1\<lparr>km_heap := h, km_hw := hwlock_unlock (km_hw s1)\<rparr>)))"

definition kmem_dealloc :: "addr \<Rightarrow> kmem \<Rightarrow> (unit \<times> kmem) res" where
  "kmem_dealloc ptr s =
     (let s1 = s\<lparr>km_hw := hwlock_lock (km_hw s)\<rparr>
      in bind_res (pool_dealloc ptr (km_heap s1)) (\<lambda>(u, h).
         Ok (u, s1\<lparr>km_heap := h, km_hw := hwlock_unlock (km_hw s1)\<rparr>)))"

text \<open>What \<open>kmem_info\<close> and \<open>kmem_log\<close> log.\<close>

definition NL :: char where
  "NL = CHR 0x0A"

definition kmem_info :: "kmem \<Rightarrow> fmt_arg list" where
  "kmem_info s =
     (let p = fst (km_heap s)
      in [Str (lit (''Kernel memory info:'' @ [NL])),
          Str (lit ''  blocks     -> ''), Num True 64 (sint (block_count p)) 10 0, Chr NL,
          Str (lit ''  pool_map   -> ''), Ptr (pmap p), Chr NL,
          Str (lit ''  pool_body  -> ''), Ptr (body p), Chr NL,
          Str (lit ''  block_size -> ''), Ptr (block_size p), Chr NL])"

definition kmem_log :: "kmem \<Rightarrow> (fmt_arg list list \<times> kmem) res" where
  "kmem_log s =
     (let s1 = s\<lparr>km_hw := hwlock_lock (km_hw s)\<rparr>
      in bind_res (pool_display (unat (KMEM_SIZE div KMEM_BLOCK_SIZE)) (km_heap s1)) (\<lambda>(t, h).
         Ok (t, s1\<lparr>km_heap := h, km_hw := hwlock_unlock (km_hw s1)\<rparr>)))"

text \<open>\<open>operator new\<close>, \<open>new[]\<close> and the four forms of \<open>delete\<close>.\<close>

definition operator_new :: "size_t \<Rightarrow> kmem \<Rightarrow> (addr \<times> kmem) res" where
  "operator_new n = kmem_alloc n"

definition operator_delete :: "addr \<Rightarrow> kmem \<Rightarrow> (unit \<times> kmem) res" where
  "operator_delete ptr = kmem_dealloc ptr"

section \<open>Construction\<close>

lemma UNUSED_BYTE_val: "UNUSED_BYTE = 0x55"
  by (simp add: UNUSED_BYTE_def)

lemma pool_get_unused_byte:
  assumes "m (pmap pool + of_nat (i div 4)) = UNUSED_BYTE"
  shows "pool_get pool m i = UNUSED"
proof -
  have "i mod 4 \<in> {0, 1, 2, 3}" by auto
  then show ?thesis using assms by (auto simp: pool_get_def Let_def UNUSED_BYTE_val status_of_def)
qed

text \<open>
  A region that starts on a 16-byte boundary and lies within the address space: the pool keeps its
  invariant and every block is free.
\<close>

lemma pool_construct_ok:
  assumes "free_pool p" "16 dvd unat start" "start \<noteq> 0" "unat bsize \<noteq> 0" "unat bsize < 2 ^ 62"
    "unat siz < 2 ^ 61" "unat start + 2 * unat siz < 2 ^ 64"
  defines "c \<equiv> (4 * unat siz) div (4 * unat bsize + 1)"
  shows "\<exists>p' m'. pool_construct start siz bsize (p, m) = Ok (0 < c, (p', m')) \<and> heap_inv (p', m') \<and>
    body p' = start \<and> block_size p' = bsize \<and> blocks p' = c \<and>
    (\<forall>i<c. pool_get p' m' i = UNUSED) \<and>
    (\<forall>i<c. m' (pmap p' + of_nat i) = UNUSED_BYTE) \<and> live (p', m') = Map.empty"
proof -
  let ?b = "unat bsize" and ?s = "unat siz"
  have "unat (align_ceiling start 16) = unat start"
    using assms(2,3,7) ceil_nat_id [of 16 "unat start"] unat_align_ceiling [of start 16]
    by (simp add: unat_gt_0)
  then have al: "align_ceiling start 16 = start" by (simp add: word_unat_eq_iff)
  have "c * (4 * ?b + 1) \<le> 4 * ?s" unfolding c_def by (rule div_times_less_eq_dividend)
  then have "4 * (?b * c) + c \<le> 4 * ?s" by (simp add: algebra_simps)
  then have c: "?b * c \<le> ?s" "c \<le> 4 * ?s" by linarith+
  have "1 * c \<le> ?b * c" using assms(4) by (intro mult_le_mono1) simp
  then have cs: "c \<le> ?s" using c(1) by linarith
  define count where "count = (4 * siz) div (4 * bsize + 1)"
  have u4: "unat (4 * siz) = 4 * ?s" using assms(6) by (subst unat_mult_lem [THEN iffD1]) simp_all
  have "unat (4 * bsize) = 4 * ?b" using assms(5) by (subst unat_mult_lem [THEN iffD1]) simp_all
  then have "unat (4 * bsize + 1) = 4 * ?b + 1"
    using assms(5) by (subst unat_add_lem [THEN iffD1]) simp_all
  then have uc: "unat count = c" using u4 by (simp add: count_def c_def unat_div_distrib)
  have "unat (bsize * count) = ?b * c"
    using uc c(1) assms(6) by (subst unat_mult_lem [THEN iffD1]) simp_all
  then have um: "unat (start + bsize * count) = unat start + ?b * c"
    using c(1) assms(7) by (subst unat_add_lem [THEN iffD1]) simp_all
  define p' where "p' = p\<lparr>block_size := bsize, body := start, block_count := count,
    pmap := start + bsize * count\<rparr>"
  define m' where "m' = memset_loop (pmap p') UNUSED_BYTE 0 c m"
  have run: "pool_construct start siz bsize (p, m) = Ok (0 < c, (p', m'))"
    using assms(1) al uc
    by (simp add: pool_construct_def heap_section Let_def heap_unlock_def spinlock_unlock_def spin_held_def
        p'_def m'_def count_def word_less_nat_alt)
  have byte: "\<forall>i<c. m' (pmap p' + of_nat i) = UNUSED_BYTE"
    unfolding m'_def using memset_loop_in [of 0 c] cs assms(6) by simp
  have unused: "\<forall>i<c. pool_get p' m' i = UNUSED"
    using byte pool_get_unused_byte by (metis div_le_dividend le_less_trans)
  have blk: "blocks p' = c" using uc by (simp add: p'_def)
  have "(c + 3) div 4 \<le> c" by (cases c) simp_all
  moreover have "(c + 3) div 4 + ?b * c \<le> 2 * ?s" using c(1) cs \<open>(c + 3) div 4 \<le> c\<close> by linarith
  ultimately have lay: "layout_ok p'"
    using assms(3-7) um uc cs by (simp add: layout_ok_def p'_def unat_eq_0)
  have inv: "heap_inv (p', m')"
    using lay unused blk assms(1) by (simp add: heap_inv_def runs_ok_def p'_def)
  have "live (p', m') a = None" for a
    using block_of_lt [OF lay, of a] unused blk by (simp add: live_def owner_unused)
  then have "live (p', m') = Map.empty" by (simp add: fun_eq_iff)
  then show ?thesis using run inv byte unused blk by (auto simp: p'_def)
qed

text \<open>
  The map of \<open>c\<close> blocks needs \<open>(c + 3) div 4\<close> bytes, which is what the division leaves room for; the
  loop clears \<open>c\<close> bytes. With the sizes of the kernel heap it writes past the end of the region.
\<close>

lemma kmem_blocks: "(4 * unat KMEM_SIZE) div (4 * unat KMEM_BLOCK_SIZE + 1) = 261123"
  by (simp add: KMEM_SIZE_def KMEM_BLOCK_SIZE_def)

lemma kmem_overrun:
  assumes "free_pool p" "16 dvd unat start" "start \<noteq> 0" "unat start + 2 * 16777216 < 2 ^ 64"
  shows "\<exists>p' m'. pool_construct start KMEM_SIZE KMEM_BLOCK_SIZE (p, m) = Ok (True, (p', m')) \<and>
    (\<forall>i<195779. m' (start + KMEM_SIZE + of_nat i) = UNUSED_BYTE)"
proof -
  have sz: "unat KMEM_SIZE = 16777216" "unat KMEM_BLOCK_SIZE = 64"
    by (simp_all add: KMEM_SIZE_def KMEM_BLOCK_SIZE_def)
  obtain p' m' where r: "pool_construct start KMEM_SIZE KMEM_BLOCK_SIZE (p, m) = Ok (True, (p', m'))"
      "heap_inv (p', m')" "body p' = start" "block_size p' = KMEM_BLOCK_SIZE" "blocks p' = 261123"
      "\<forall>i<261123. m' (pmap p' + of_nat i) = UNUSED_BYTE"
    using pool_construct_ok [OF assms(1-3), of KMEM_BLOCK_SIZE KMEM_SIZE m] assms(4) sz kmem_blocks by auto
  have "unat (pmap p') = unat start + 64 * 261123"
    using r(2-5) sz by (simp add: heap_inv_def layout_ok_def)
  also have "\<dots> = unat (start + 16711872)"
    using assms(4) by (subst unat_add_lem [THEN iffD1]) simp_all
  finally have map: "pmap p' = start + 16711872" by (simp add: word_unat_eq_iff)
  have "m' (start + KMEM_SIZE + of_nat i) = UNUSED_BYTE" if "i < 195779" for i
  proof -
    have "start + KMEM_SIZE + of_nat i = pmap p' + of_nat (65344 + i)"
      by (simp add: map KMEM_SIZE_def add.assoc)
    moreover have "65344 + i < 261123" using that by simp
    ultimately show ?thesis using r(6) by metis
  qed
  then show ?thesis using r(1) by blast
qed

text \<open>
  A request within \<open>64\<close> bytes of the end of the address range wraps to zero blocks: one block is marked
  and returned for it.
\<close>

lemma blocks_for_wraps:
  "block_size pool = 64 \<Longrightarrow> blocks_for pool (- 1) = 0"
  by (simp add: blocks_for_def align_ceiling_def)

section \<open>The heap of the kernel\<close>

definition kmem_inv :: "kmem \<Rightarrow> bool" where
  "kmem_inv s \<longleftrightarrow> heap_inv (km_heap s) \<and> \<not> hw_locked (km_hw s)"

lemma km_unlocked: "\<not> hw_locked h \<Longrightarrow> \<not> hw_locked (hwlock_unlock (hwlock_lock h))"
  by (rule hwlock_balanced)

interpretation kmem: allocator kmem_alloc kmem_dealloc "\<lambda>s. live (km_heap s)" "\<lambda>s. snd (km_heap s)"
    kmem_inv "\<lambda>n. unat n < 2 ^ 63"
proof unfold_locales
  fix s s' :: kmem and n p a
  assume inv: "kmem_inv s"
  then have h: "heap_inv (km_heap s)" "\<not> hw_locked (km_hw s)" by (simp_all add: kmem_inv_def)
  show "live (km_heap s) p = Some p" if "live (km_heap s) a = Some p"
    using pool.owner_first [OF h(1) that] .
  show "\<exists>s'. kmem_dealloc p s = Ok ((), s') \<and> kmem_inv s' \<and>
      live (km_heap s') = (\<lambda>a. if live (km_heap s) a = Some p then None else live (km_heap s) a) \<and>
      (\<forall>a. live (km_heap s) a \<noteq> None \<longrightarrow> snd (km_heap s') a = snd (km_heap s) a)"
    if live_p: "live (km_heap s) p = Some p"
  proof -
    obtain g where "pool_dealloc p (km_heap s) = Ok ((), g)" "heap_inv g"
        "live g = (\<lambda>a. if live (km_heap s) a = Some p then None else live (km_heap s) a)"
        "\<forall>a. live (km_heap s) a \<noteq> None \<longrightarrow> snd g a = snd (km_heap s) a"
      using pool.free_owns [OF h(1) live_p] by blast
    then show ?thesis using h by (simp add: kmem_dealloc_def kmem_inv_def km_unlocked Let_def)
  qed
  assume n: "unat n < 2 ^ 63" and alloc: "kmem_alloc n s = Ok (p, s')" "p \<noteq> 0"
  then have g: "pool_alloc n (km_heap s) = Ok (p, km_heap s')" "\<not> hw_locked (km_hw s')"
    using h(2) by (auto simp: kmem_alloc_def Let_def km_unlocked split: if_splits)
  show "snd (km_heap s') a = snd (km_heap s) a" if "live (km_heap s) a \<noteq> None"
    using pool.alloc_bytes [OF h(1) n g(1) alloc(2) that] .
  show "kmem_inv s' \<and> (\<exists>A. (\<forall>i<unat n. p + of_nat i \<in> A) \<and> p \<in> A \<and>
      (\<forall>a\<in>A. live (km_heap s) a = None) \<and>
      live (km_heap s') = (\<lambda>a. if a \<in> A then Some p else live (km_heap s) a))"
    using pool.alloc_owns [OF h(1) n g(1) alloc(2)] g(2) by (simp add: kmem_inv_def)
qed

section \<open>Space behind the image, in numbers\<close>

text \<open>
  The first call starts at the page boundary behind the image. From then on the padding is added
  again although the offset already includes it, so a second call leaves the space of the first
  unused and starts past it.
\<close>

lemma arch_kernel_alloc_first:
  "fst (arch_kernel_alloc kernel_end bytes 0) =
     align_ceiling kernel_end ARCH_PAGE_SIZE + arch_get_offset"
  by (simp add: arch_kernel_alloc_def Let_def)

lemma arch_kernel_alloc_doubles:
  "fst (arch_kernel_alloc 0x200000 0x1000 (snd (arch_kernel_alloc 0x200000 0x1000 0))) =
     0x202000 + arch_get_offset"
  by (simp add: arch_kernel_alloc_def Let_def align_ceiling_def ARCH_PAGE_SIZE_def)

end
