(* ===== verification/Path.thy ===== *)
theory Path
  imports Util_Str
begin

text \<open>
  Path parsing: \<open>kernel/vfs/path.cpp\<close>. The two routines scan the path anew for every element; the
  reference \<open>path_elems\<close> is the list of its non-empty components, and the lemmas show that counting
  and indexing agree with it, components longer than \<open>FILENAME_MAX - 1\<close> being cut.
\<close>

definition FILENAME_MAX :: nat where
  "FILENAME_MAX = 256"

abbreviation SLASH :: char where
  "SLASH \<equiv> CHR ''/''"

section \<open>The routines\<close>

function path_element_count_from :: "string \<Rightarrow> nat \<Rightarrow> nat \<Rightarrow> bool \<Rightarrow> nat res" where
  "path_element_count_from path i count separator =
     bind_res (arr_get path i) (\<lambda>c.
       if c = NUL then Ok count
       else if c = SLASH then path_element_count_from path (Suc i) count True
       else path_element_count_from path (Suc i) (if separator then Suc count else count) False)"
  by pat_completeness auto
termination
  by (relation "measure (\<lambda>(path, i, count, separator). length path - i)") (auto simp: arr_get_eq_Ok)

definition path_element_count :: "string \<Rightarrow> nat res" where
  "path_element_count path = path_element_count_from path 0 0 True"

text \<open>The inner loop: copy from \<open>path[i]\<close> until a separator, the terminator or the bound.\<close>

function path_copy_from :: "string \<Rightarrow> nat \<Rightarrow> string \<Rightarrow> nat \<Rightarrow> string res" where
  "path_copy_from path i buff j =
     (if j < FILENAME_MAX - 1
      then bind_res (arr_get path (i + j)) (\<lambda>c.
             if c = SLASH \<or> c = NUL then arr_set buff j NUL
             else bind_res (arr_set buff j c) (\<lambda>buff'. path_copy_from path i buff' (Suc j)))
      else arr_set buff j NUL)"
  by pat_completeness auto
termination
  by (relation "measure (\<lambda>(path, i, buff, j). FILENAME_MAX - j)") auto

function path_element_get_from ::
    "string \<Rightarrow> string \<Rightarrow> nat \<Rightarrow> nat \<Rightarrow> nat \<Rightarrow> bool \<Rightarrow> (bool \<times> string) res" where
  "path_element_get_from path buff index i count separator =
     bind_res (arr_get path i) (\<lambda>c.
       if c = NUL then Ok (False, buff)
       else if c = SLASH then path_element_get_from path buff index (Suc i) count True
       else if separator \<and> count = index
            then bind_res (path_copy_from path i buff 0) (\<lambda>b. Ok (True, b))
            else path_element_get_from path buff index (Suc i)
                   (if separator then Suc count else count) False)"
  by pat_completeness auto
termination
  by (relation "measure (\<lambda>(path, buff, index, i, count, separator). length path - i)")
    (auto simp: arr_get_eq_Ok)

definition path_element_get :: "string \<Rightarrow> string \<Rightarrow> nat \<Rightarrow> (bool \<times> string) res" where
  "path_element_get path buff index = path_element_get_from path buff index 0 0 True"

declare path_element_count_from.simps [simp del] path_copy_from.simps [simp del]
  path_element_get_from.simps [simp del]

section \<open>The components of a path\<close>

function path_elems :: "string \<Rightarrow> string list" where
  "path_elems s =
     (case dropWhile (\<lambda>c. c = SLASH) s of
        [] \<Rightarrow> []
      | c # cs \<Rightarrow> takeWhile (\<lambda>c. c \<noteq> SLASH) (c # cs) #
                   path_elems (dropWhile (\<lambda>c. c \<noteq> SLASH) (c # cs)))"
  by pat_completeness auto
termination
proof (relation "measure length")
  fix s :: string and c cs
  assume eq: "dropWhile (\<lambda>c. c = SLASH) s = c # cs"
  then have "c \<noteq> SLASH" using hd_dropWhile [of "\<lambda>c. c = SLASH" s] by auto
  then have "length (dropWhile (\<lambda>c. c \<noteq> SLASH) (c # cs)) \<le> length cs"
    by (simp add: length_dropWhile_le)
  moreover have "Suc (length cs) \<le> length s"
    using eq length_dropWhile_le [of "\<lambda>c. c = SLASH" s] by simp
  ultimately show "(dropWhile (\<lambda>c. c \<noteq> SLASH) (c # cs), s) \<in> measure length" by simp
qed auto

declare path_elems.simps [simp del]

lemma path_elems_Nil [simp]: "path_elems [] = []"
  by (simp add: path_elems.simps)

lemma path_elems_slash [simp]: "path_elems (SLASH # s) = path_elems s"
  by (subst (1 2) path_elems.simps) simp

lemma path_elems_char:
  "c \<noteq> SLASH \<Longrightarrow> path_elems (c # s) =
     (c # takeWhile (\<lambda>c. c \<noteq> SLASH) s) # path_elems (dropWhile (\<lambda>c. c \<noteq> SLASH) s)"
  by (subst path_elems.simps) simp

text \<open>The components still to come when the scan stands before \<open>rest\<close>.\<close>

definition pending :: "bool \<Rightarrow> string \<Rightarrow> string list" where
  "pending separator rest =
     path_elems (if separator then rest else dropWhile (\<lambda>c. c \<noteq> SLASH) rest)"

lemma pending_simps [simp]:
  "pending sep [] = []"
  "pending sep (SLASH # s) = pending True s"
  "c \<noteq> SLASH \<Longrightarrow> pending False (c # s) = pending False s"
  "c \<noteq> SLASH \<Longrightarrow> pending True (c # s) = (c # takeWhile (\<lambda>c. c \<noteq> SLASH) s) # pending False s"
  by (simp_all add: pending_def path_elems_char)

text \<open>One step of a scan of a terminated array.\<close>

lemma cstr_scan:
  assumes "is_cstr path" "i \<le> length (cstr path)"
  obtains (stop) "i < length path" "path ! i = NUL" "drop i (cstr path) = []"
  | (more) "i < length path" "path ! i \<noteq> NUL" "Suc i \<le> length (cstr path)"
      "drop i (cstr path) = path ! i # drop (Suc i) (cstr path)"
proof (cases "i = length (cstr path)")
  case True
  then show ?thesis using stop assms by (simp add: cstr_nth_end length_cstr_less)
next
  case False
  then have "i < length (cstr path)" using assms by simp
  then show ?thesis using more assms length_cstr_less [of path] cstr_nth_neq [of i path]
    by (simp add: cstr_nth Cons_nth_drop_Suc)
qed

lemma path_element_count_from_spec:
  assumes "is_cstr path" "i \<le> length (cstr path)"
  shows "path_element_count_from path i count sep =
    Ok (count + length (pending sep (drop i (cstr path))))"
  using assms
proof (induction path i count sep rule: path_element_count_from.induct)
  case (1 path i count sep)
  from "1.prems" show ?case
  proof (cases rule: cstr_scan)
    case stop
    then show ?thesis by (subst path_element_count_from.simps) simp
  next
    case more
    show ?thesis
    proof (cases "path ! i = SLASH")
      case True
      then show ?thesis using more "1.IH"(1) [of "path ! i"] "1.prems"
        by (subst path_element_count_from.simps) simp
    next
      case False
      then show ?thesis using more "1.IH"(2) [of "path ! i"] "1.prems"
        by (subst path_element_count_from.simps) (cases sep, simp_all)
    qed
  qed
qed

lemma path_element_count_spec:
  "is_cstr path \<Longrightarrow> path_element_count path = Ok (length (path_elems (cstr path)))"
  by (simp add: path_element_count_def path_element_count_from_spec pending_def)

text \<open>The inner loop stores the next component, cut to \<open>FILENAME_MAX - 1\<close> characters.\<close>

lemma path_copy_from_spec:
  assumes "is_cstr path" "i + j \<le> length (cstr path)" "j \<le> FILENAME_MAX - 1"
    "length buff = FILENAME_MAX"
  shows "\<exists>b k. path_copy_from path i buff j = Ok b \<and> length b = FILENAME_MAX \<and>
    k = min (FILENAME_MAX - 1 - j) (length (takeWhile (\<lambda>c. c \<noteq> SLASH) (drop (i + j) (cstr path)))) \<and>
    b ! (j + k) = NUL \<and> (\<forall>l<j. b ! l = buff ! l) \<and> (\<forall>l<k. b ! (j + l) = cstr path ! (i + j + l))"
  using assms
proof (induction path i buff j rule: path_copy_from.induct)
  case (1 path i buff j)
  have F: "FILENAME_MAX = 256" by (simp add: FILENAME_MAX_def)
  from "1.prems"(1,2) consider
      (stop) "path ! (i + j) = NUL" "drop (i + j) (cstr path) = []" "i + j < length path"
    | (more) "path ! (i + j) \<noteq> NUL" "Suc (i + j) \<le> length (cstr path)" "i + j < length path"
        "drop (i + j) (cstr path) = path ! (i + j) # drop (Suc (i + j)) (cstr path)"
    by (cases rule: cstr_scan) auto
  then show ?case
  proof cases
    case stop
    then have "path_copy_from path i buff j = Ok (buff[j := NUL])"
      using "1.prems" F by (subst path_copy_from.simps) simp
    then show ?thesis using stop "1.prems" F by simp
  next
    case more
    show ?thesis
    proof (cases "j < FILENAME_MAX - 1 \<and> path ! (i + j) \<noteq> SLASH")
      case False
      then have "path_copy_from path i buff j = Ok (buff[j := NUL])"
        using more "1.prems" F by (subst path_copy_from.simps) auto
      moreover have "min (FILENAME_MAX - 1 - j)
          (length (takeWhile (\<lambda>c. c \<noteq> SLASH) (drop (i + j) (cstr path)))) = 0"
        using False more "1.prems" by auto
      ultimately show ?thesis using "1.prems" F by (auto simp del: drop_eq_Nil)
    next
      case True
      let ?b = "buff[j := path ! (i + j)]"
      have "j < length buff" using True "1.prems"(4) by linarith
      then have set: "arr_set buff j (path ! (i + j)) = Ok ?b" by simp
      have step: "path_copy_from path i buff j = path_copy_from path i ?b (Suc j)"
        using True more set by (subst path_copy_from.simps) simp
      obtain b k where b: "path_copy_from path i ?b (Suc j) = Ok b" "length b = FILENAME_MAX"
          "k = min (FILENAME_MAX - 1 - Suc j)
            (length (takeWhile (\<lambda>c. c \<noteq> SLASH) (drop (i + Suc j) (cstr path))))"
          "b ! (Suc j + k) = NUL" "\<forall>l<Suc j. b ! l = ?b ! l"
          "\<forall>l<k. b ! (Suc j + l) = cstr path ! (i + Suc j + l)"
        using "1.IH" [OF _ arr_get_Ok [OF more(3)] _ set] True more "1.prems" by auto
      have k: "Suc k = min (FILENAME_MAX - 1 - j)
          (length (takeWhile (\<lambda>c. c \<noteq> SLASH) (drop (i + j) (cstr path))))"
      proof -
        have "FILENAME_MAX - 1 - j = Suc (FILENAME_MAX - 1 - Suc j)" using True by linarith
        then show ?thesis using True more(4) b(3) by (simp only: add_Suc_right) simp
      qed
      have copied: "\<forall>l<Suc k. b ! (j + l) = cstr path ! (i + j + l)"
      proof (intro allI impI)
      fix l assume that: "l < Suc k"
      show "b ! (j + l) = cstr path ! (i + j + l)"
      proof (cases l)
        case 0
        then show ?thesis using b(5) \<open>j < length buff\<close> more(2) by (simp add: cstr_nth)
      next
        case (Suc m)
        then show ?thesis using b(6) that by simp
      qed
      qed
      have kept: "\<forall>l<j. b ! l = buff ! l" using b(5) by simp
      have "path_copy_from path i buff j = Ok b" "b ! (j + Suc k) = NUL"
        using step b(1,4) by simp_all
      then show ?thesis using b(2) k kept copied by blast
    qed
  qed
qed

lemma path_copy_spec:
  assumes "is_cstr path" "i \<le> length (cstr path)" "length buff = FILENAME_MAX"
  shows "\<exists>b. path_copy_from path i buff 0 = Ok b \<and> length b = FILENAME_MAX \<and> is_cstr b \<and>
    cstr b = take (FILENAME_MAX - 1) (takeWhile (\<lambda>c. c \<noteq> SLASH) (drop i (cstr path)))"
proof -
  let ?w = "takeWhile (\<lambda>c. c \<noteq> SLASH) (drop i (cstr path))"
  let ?k = "min (FILENAME_MAX - 1) (length ?w)"
  obtain b where b: "path_copy_from path i buff 0 = Ok b" "length b = FILENAME_MAX" "b ! ?k = NUL"
      "\<forall>l<?k. b ! l = cstr path ! (i + l)"
    using path_copy_from_spec [OF assms(1), of i 0 buff] assms(2,3) by auto
  have lw: "length ?w \<le> length (cstr path) - i"
    using length_takeWhile_le [of "\<lambda>c. c \<noteq> SLASH" "drop i (cstr path)"] by simp
  have "cstr b = take (FILENAME_MAX - 1) ?w"
  proof (rule cstr_eqI)
    show "length (take (FILENAME_MAX - 1) ?w) < length b" using b(2) by (simp add: FILENAME_MAX_def)
    show "b ! length (take (FILENAME_MAX - 1) ?w) = NUL" using b(3) by (simp add: min.commute)
    show "NUL \<notin> set (take (FILENAME_MAX - 1) ?w)"
      using NUL_notin_cstr [of path] by (auto dest!: in_set_takeD set_takeWhileD in_set_dropD)
    fix l assume l: "l < length (take (FILENAME_MAX - 1) ?w)"
    then have "?w ! l = drop i (cstr path) ! l" by (simp add: takeWhile_nth)
    moreover have "drop i (cstr path) ! l = cstr path ! (i + l)" using assms(2) by (rule nth_drop)
    ultimately show "b ! l = take (FILENAME_MAX - 1) ?w ! l" using l b(4) by simp
  qed
  moreover have "is_cstr b" using b(2,3) by (intro is_cstrI [of ?k]) (auto simp: FILENAME_MAX_def)
  ultimately show ?thesis using b by blast
qed

lemma path_element_get_from_spec:
  assumes "is_cstr path" "i \<le> length (cstr path)" "length buff = FILENAME_MAX" "count \<le> index"
  shows "if index - count < length (pending sep (drop i (cstr path)))
    then \<exists>b. path_element_get_from path buff index i count sep = Ok (True, b) \<and>
      length b = FILENAME_MAX \<and> is_cstr b \<and>
      cstr b = take (FILENAME_MAX - 1) (pending sep (drop i (cstr path)) ! (index - count))
    else path_element_get_from path buff index i count sep = Ok (False, buff)"
  using assms
proof (induction path buff index i count sep rule: path_element_get_from.induct)
  case (1 path buff index i count sep)
  from "1.prems"(1,2) show ?case
  proof (cases rule: cstr_scan)
    case stop
    then show ?thesis by (subst path_element_get_from.simps) simp
  next
    case more
    show ?thesis
    proof (cases "path ! i = SLASH")
      case True
      then have step: "path_element_get_from path buff index i count sep =
          path_element_get_from path buff index (Suc i) count True"
        using more by (subst path_element_get_from.simps) simp
      have pend: "pending sep (drop i (cstr path)) = pending True (drop (Suc i) (cstr path))"
        using more(4) True by simp
      show ?thesis unfolding step pend
        using "1.IH"(1) [OF arr_get_Ok [OF more(1)] more(2) True] more(3) "1.prems" by blast
    next
      case False
      show ?thesis
      proof (cases "sep \<and> count = index")
        case True
        obtain b where b: "path_copy_from path i buff 0 = Ok b" "length b = FILENAME_MAX" "is_cstr b"
            "cstr b = take (FILENAME_MAX - 1) (takeWhile (\<lambda>c. c \<noteq> SLASH) (drop i (cstr path)))"
          using path_copy_spec "1.prems" by blast
        then have "path_element_get_from path buff index i count sep = Ok (True, b)"
          using True False more by (subst path_element_get_from.simps) simp
        moreover have "pending sep (drop i (cstr path)) =
            takeWhile (\<lambda>c. c \<noteq> SLASH) (drop i (cstr path)) # pending False (drop (Suc i) (cstr path))"
          using True False more(4) by simp
        ultimately show ?thesis using True b by simp
      next
        case no: False
        then have step: "path_element_get_from path buff index i count sep =
            path_element_get_from path buff index (Suc i) (if sep then Suc count else count) False"
          using False more by (subst path_element_get_from.simps) auto
        have le: "(if sep then Suc count else count) \<le> index" using no "1.prems"(4) by auto
        note IH = "1.IH"(2) [OF arr_get_Ok [OF more(1)] more(2) False no "1.prems"(1) more(3) "1.prems"(3) le]
        show ?thesis
        proof (cases sep)
          case True
          then obtain d where d: "index - count = Suc d" "index - Suc count = d"
            using le by (cases "index - count") auto
          have pend: "pending sep (drop i (cstr path)) =
              takeWhile (\<lambda>c. c \<noteq> SLASH) (drop i (cstr path)) # pending False (drop (Suc i) (cstr path))"
            using True False more(4) by simp
          show ?thesis unfolding step pend using IH True d by (simp split: if_splits)
        next
          case sep: False
          have pend: "pending sep (drop i (cstr path)) = pending False (drop (Suc i) (cstr path))"
            using sep False more(4) by simp
          show ?thesis unfolding step pend using IH sep by (simp split: if_splits)
        qed
      qed
    qed
  qed
qed

lemma path_element_get_spec:
  assumes "is_cstr path" "length buff = FILENAME_MAX"
  shows "index < length (path_elems (cstr path)) \<Longrightarrow>
      \<exists>b. path_element_get path buff index = Ok (True, b) \<and> length b = FILENAME_MAX \<and> is_cstr b \<and>
        cstr b = take (FILENAME_MAX - 1) (path_elems (cstr path) ! index)"
    and "\<not> index < length (path_elems (cstr path)) \<Longrightarrow>
      path_element_get path buff index = Ok (False, buff)"
  using path_element_get_from_spec [OF assms(1) _ assms(2), of 0 0 index True]
  by (auto simp: path_element_get_def pending_def)

lemma path_elems_not_Nil: "e \<in> set (path_elems s) \<Longrightarrow> e \<noteq> [] \<and> SLASH \<notin> set e"
proof (induction "length s" arbitrary: s rule: less_induct)
  case less
  show ?case
  proof (cases s)
    case (Cons c cs)
    show ?thesis
    proof (cases "c = SLASH")
      case True
      then show ?thesis using less.hyps [of cs] less.prems Cons by simp
    next
      case False
      have "length (dropWhile (\<lambda>c. c \<noteq> SLASH) cs) < length s"
        using Cons length_dropWhile_le [of "\<lambda>c. c \<noteq> SLASH" cs] by simp
      then show ?thesis
        using less.hyps [of "dropWhile (\<lambda>c. c \<noteq> SLASH) cs"] less.prems False Cons
        by (auto simp: path_elems_char dest: set_takeWhileD)
    qed
  qed (use less in simp)
qed

end
