(* ===== verification/Hashtable.thy ===== *)
theory Hashtable
  imports Prelude
begin

text \<open>
  The kernel's open-addressing table, \<open>include/tupai/util/hashtable.hpp\<close>: every object the kernel
  names by an id (file systems, inodes, descriptors, processes, threads, pipes) lives in one.
  The three arrays of the struct are functions on the slot index, which the code keeps below
  \<open>HASHTABLE_CAPACITY\<close> by reducing it; \<open>ht_data t i = None\<close> is a slot whose bytes were never
  written. A \<open>T*\<close> into the table is the slot index.

  The locale \<open>keyed_table\<close> states what the kernel relies on, over a partial map; its client lemmas
  are about ids drawn from a counter, the way every kernel table is filled. The interpretation
  \<open>ht\<close> discharges its laws for the code's table.
\<close>

section \<open>The table\<close>

definition HASHTABLE_CAPACITY :: nat where
  "HASHTABLE_CAPACITY = 256"

record 'a hashtable =
  ht_data :: "nat \<Rightarrow> 'a option"
  ht_used :: "nat \<Rightarrow> bool"
  ht_keys :: "nat \<Rightarrow> id_t"
  item_count :: nat

definition hash :: "id_t \<Rightarrow> size_t" where
  "hash x = x"

text \<open>A zero-initialised table, as the kernel's static tables are.\<close>

definition ht_empty :: "'a hashtable" where
  "ht_empty = \<lparr>ht_data = (\<lambda>_. None), ht_used = (\<lambda>_. False), ht_keys = (\<lambda>_. 0), item_count = 0\<rparr>"

text \<open>
  The loop the three operations share: \<open>index = (offset + i) % HASHTABLE_CAPACITY\<close> for
  \<open>i = 0, 1, \<dots>\<close>, stopping at the first index that passes the test.
\<close>

function probe :: "(nat \<Rightarrow> bool) \<Rightarrow> nat \<Rightarrow> nat \<Rightarrow> nat option" where
  "probe test offset i =
     (if i < HASHTABLE_CAPACITY
      then (let index = (offset + i) mod HASHTABLE_CAPACITY
            in if test index then Some index else probe test offset (Suc i))
      else None)"
  by pat_completeness auto
termination
  by (relation "measure (\<lambda>(test, offset, i). HASHTABLE_CAPACITY - i)") auto

declare probe.simps [simp del]

definition ht_offset :: "id_t \<Rightarrow> nat" where
  "ht_offset key = unat (hash key) mod HASHTABLE_CAPACITY"

definition ht_size :: "'a hashtable \<Rightarrow> nat" where
  "ht_size t = item_count t"

definition ht_add :: "'a hashtable \<Rightarrow> id_t \<Rightarrow> 'a \<Rightarrow> bool \<times> 'a hashtable" where
  "ht_add t key item =
     (case probe (\<lambda>index. \<not> ht_used t index) (ht_offset key) 0 of
        Some index \<Rightarrow>
          (True, t\<lparr>ht_used := (ht_used t)(index := True),
                   ht_keys := (ht_keys t)(index := key),
                   ht_data := (ht_data t)(index := Some item),
                   item_count := size_inc (item_count t)\<rparr>)
      | None \<Rightarrow> (False, t))"

definition ht_matches :: "'a hashtable \<Rightarrow> id_t \<Rightarrow> nat \<Rightarrow> bool" where
  "ht_matches t key index \<longleftrightarrow> ht_keys t index = key \<and> ht_used t index"

text \<open>\<open>remove\<close> clears the flag and destroys the item; the key and the bytes stay behind.\<close>

definition ht_remove :: "'a hashtable \<Rightarrow> id_t \<Rightarrow> bool \<times> 'a hashtable" where
  "ht_remove t key =
     (case probe (ht_matches t key) (ht_offset key) 0 of
        Some index \<Rightarrow>
          (True, t\<lparr>ht_used := (ht_used t)(index := False),
                   item_count := size_dec (item_count t)\<rparr>)
      | None \<Rightarrow> (False, t))"

definition ht_get :: "'a hashtable \<Rightarrow> id_t \<Rightarrow> nat option" where
  "ht_get t key = probe (ht_matches t key) (ht_offset key) 0"

text \<open>Reading and writing through the pointer that \<open>get\<close> (or \<open>operator[]\<close>) returns.\<close>

definition ht_lookup :: "'a hashtable \<Rightarrow> id_t \<Rightarrow> 'a option" where
  "ht_lookup t key = (case ht_get t key of None \<Rightarrow> None | Some index \<Rightarrow> ht_data t index)"

definition ht_modify :: "'a hashtable \<Rightarrow> id_t \<Rightarrow> ('a \<Rightarrow> 'a) \<Rightarrow> 'a hashtable" where
  "ht_modify t key f =
     (case ht_get t key of
        None \<Rightarrow> t
      | Some index \<Rightarrow> t\<lparr>ht_data := (ht_data t)(index := map_option f (ht_data t index))\<rparr>)"

function ht_nth_from :: "'a hashtable \<Rightarrow> nat \<Rightarrow> nat \<Rightarrow> nat \<Rightarrow> nat option" where
  "ht_nth_from t index count i =
     (if i < HASHTABLE_CAPACITY
      then if ht_used t i
           then if count = index then Some i else ht_nth_from t index (Suc count) (Suc i)
           else ht_nth_from t index count (Suc i)
      else None)"
  by pat_completeness auto
termination
  by (relation "measure (\<lambda>(t, index, count, i). HASHTABLE_CAPACITY - i)") auto

declare ht_nth_from.simps [simp del]

definition ht_nth :: "'a hashtable \<Rightarrow> nat \<Rightarrow> nat option" where
  "ht_nth t index = ht_nth_from t index 0 0"

section \<open>Probing\<close>

lemma CAP_pos [simp]: "0 < HASHTABLE_CAPACITY"
  by (simp add: HASHTABLE_CAPACITY_def)

lemma CAP_size [simp]: "HASHTABLE_CAPACITY < SIZE_MOD"
  by (simp add: HASHTABLE_CAPACITY_def SIZE_MOD_def)

lemma probe_SomeD:
  "probe P off i = Some index \<Longrightarrow> index < HASHTABLE_CAPACITY \<and> P index"
proof (induction P off i rule: probe.induct)
  case (1 P off i)
  then show ?case
    by (subst (asm) probe.simps) (auto simp: Let_def split: if_splits)
qed

lemma probe_NoneD:
  "probe P off i = None \<Longrightarrow> i \<le> k \<Longrightarrow> k < HASHTABLE_CAPACITY \<Longrightarrow>
     \<not> P ((off + k) mod HASHTABLE_CAPACITY)"
proof (induction P off i rule: probe.induct)
  case (1 P off i)
  from "1.prems" have i: "i < HASHTABLE_CAPACITY" by simp
  with "1.prems"(1) have nP: "\<not> P ((off + i) mod HASHTABLE_CAPACITY)"
      and rest: "probe P off (Suc i) = None"
    by (subst (asm) probe.simps; simp add: Let_def split: if_splits)+
  show ?case
  proof (cases "k = i")
    case False
    then show ?thesis using "1.IH" [OF i refl nP rest] "1.prems" by simp
  qed (use nP in simp)
qed

text \<open>A probe from the first step finds an index exactly when one passes the test.\<close>

lemma probe_None_iff: "probe P off 0 = None \<longleftrightarrow> (\<forall>index<HASHTABLE_CAPACITY. \<not> P index)"
proof
  assume none: "probe P off 0 = None"
  show "\<forall>index<HASHTABLE_CAPACITY. \<not> P index"
  proof (intro allI impI)
    fix index assume "index < HASHTABLE_CAPACITY"
    then obtain k where "k < HASHTABLE_CAPACITY" "(off + k) mod HASHTABLE_CAPACITY = index"
      using mod_probe_surj by blast
    then show "\<not> P index" using probe_NoneD [OF none, of k] by simp
  qed
next
  assume "\<forall>index<HASHTABLE_CAPACITY. \<not> P index"
  then show "probe P off 0 = None" using probe_SomeD by (metis not_None_eq)
qed

lemma probe_unique:
  assumes "index < HASHTABLE_CAPACITY" "P index"
    "\<And>j. j < HASHTABLE_CAPACITY \<Longrightarrow> P j \<Longrightarrow> j = index"
  shows "probe P off 0 = Some index"
proof -
  obtain j where j: "probe P off 0 = Some j" using assms(1,2) probe_None_iff [of P off] by auto
  then show ?thesis using probe_SomeD [OF j] assms(3) by simp
qed

section \<open>The contract\<close>

locale keyed_table =
  fixes empty :: 't
    and add :: "'t \<Rightarrow> id_t \<Rightarrow> 'v \<Rightarrow> bool \<times> 't"
    and remove :: "'t \<Rightarrow> id_t \<Rightarrow> bool \<times> 't"
    and lookup :: "'t \<Rightarrow> id_t \<Rightarrow> 'v option"
    and modify :: "'t \<Rightarrow> id_t \<Rightarrow> ('v \<Rightarrow> 'v) \<Rightarrow> 't"
    and size_of :: "'t \<Rightarrow> nat"
    and capacity :: nat
    and invar :: "'t \<Rightarrow> bool"
  assumes invar_empty: "invar empty"
    and lookup_empty: "lookup empty = Map.empty"
    and invar_add: "invar t \<Longrightarrow> lookup t k = None \<Longrightarrow> invar (snd (add t k v))"
    and lookup_add: "invar t \<Longrightarrow> lookup t k = None \<Longrightarrow> size_of t < capacity \<Longrightarrow>
      lookup (snd (add t k v)) = (lookup t)(k \<mapsto> v)"
    and add_result: "invar t \<Longrightarrow> fst (add t k v) \<longleftrightarrow> size_of t < capacity"
    and add_full: "invar t \<Longrightarrow> \<not> size_of t < capacity \<Longrightarrow> snd (add t k v) = t"
    and invar_remove: "invar t \<Longrightarrow> invar (snd (remove t k))"
    and lookup_remove: "invar t \<Longrightarrow> lookup (snd (remove t k)) = (lookup t)(k := None)"
    and remove_result: "invar t \<Longrightarrow> fst (remove t k) \<longleftrightarrow> lookup t k \<noteq> None"
    and invar_modify: "invar t \<Longrightarrow> invar (modify t k f)"
    and lookup_modify: "invar t \<Longrightarrow>
      lookup (modify t k f) = (lookup t)(k := map_option f (lookup t k))"
    and size_card: "invar t \<Longrightarrow> finite (dom (lookup t)) \<and> size_of t = card (dom (lookup t))"
    and size_bound: "invar t \<Longrightarrow> size_of t \<le> capacity"
begin

text \<open>
  Ids from a counter: as long as every stored id is below the counter, the next id is fresh, an
  insertion under it keeps the bound, and looking it up returns what was stored.
\<close>

definition below :: "'t \<Rightarrow> nat \<Rightarrow> bool" where
  "below t c \<longleftrightarrow> (\<forall>k. lookup t k \<noteq> None \<longrightarrow> unat k < c)"

lemma below_empty: "below empty c"
  by (simp add: below_def lookup_empty)

lemma below_mono: "below t c \<Longrightarrow> c \<le> d \<Longrightarrow> below t d"
  by (meson below_def order_less_le_trans)

lemma below_fresh: "below t (unat c) \<Longrightarrow> lookup t c = None"
  by (metis below_def less_irrefl)

lemma below_add: "invar t \<Longrightarrow> below t (unat c) \<Longrightarrow> below (snd (add t c v)) (Suc (unat c))"
proof (cases "size_of t < capacity")
  case True
  assume "invar t" "below t (unat c)"
  then show ?thesis using True lookup_add [of t c v] below_fresh [of t c]
    by (auto simp: below_def fun_upd_apply less_Suc_eq split: if_splits)
next
  case False
  assume "invar t" "below t (unat c)"
  then show ?thesis using False add_full [of t c v] below_mono [of t "unat c"] by simp
qed

lemma below_remove: "invar t \<Longrightarrow> below t c \<Longrightarrow> below (snd (remove t k)) c"
  by (simp add: below_def lookup_remove)

lemma below_modify: "invar t \<Longrightarrow> below t c \<Longrightarrow> below (modify t k f) c"
  by (simp add: below_def lookup_modify)

lemma fresh_add_lookup:
  "invar t \<Longrightarrow> below t (unat c) \<Longrightarrow> size_of t < capacity \<Longrightarrow>
     lookup (snd (add t c v)) = (lookup t)(c \<mapsto> v)"
  by (simp add: lookup_add below_fresh)

lemma fresh_add_full_lost:
  "invar t \<Longrightarrow> below t (unat c) \<Longrightarrow> \<not> size_of t < capacity \<Longrightarrow> lookup (snd (add t c v)) c = None"
  by (simp add: add_full below_fresh)

lemma add_size:
  assumes "invar t" "lookup t k = None" "size_of t < capacity"
  shows "size_of (snd (add t k v)) = Suc (size_of t)"
  using assms size_card [OF invar_add [OF assms(1,2)], of v] size_card [OF assms(1)]
  by (auto simp: lookup_add domIff)

end

section \<open>The invariant of the code's table\<close>

definition ht_inv :: "'a hashtable \<Rightarrow> bool" where
  "ht_inv t \<longleftrightarrow>
     (\<forall>i<HASHTABLE_CAPACITY. ht_used t i \<longrightarrow> ht_data t i \<noteq> None) \<and>
     (\<forall>i<HASHTABLE_CAPACITY. \<forall>j<HASHTABLE_CAPACITY.
        ht_used t i \<and> ht_used t j \<and> ht_keys t i = ht_keys t j \<longrightarrow> i = j) \<and>
     item_count t = card {i. i < HASHTABLE_CAPACITY \<and> ht_used t i}"

lemma ht_invI:
  assumes "\<And>i. i < HASHTABLE_CAPACITY \<Longrightarrow> ht_used t i \<Longrightarrow> ht_data t i \<noteq> None"
    and "\<And>i j. i < HASHTABLE_CAPACITY \<Longrightarrow> j < HASHTABLE_CAPACITY \<Longrightarrow> ht_used t i \<Longrightarrow> ht_used t j \<Longrightarrow>
      ht_keys t i = ht_keys t j \<Longrightarrow> i = j"
    and "item_count t = card {i. i < HASHTABLE_CAPACITY \<and> ht_used t i}"
  shows "ht_inv t"
  unfolding ht_inv_def using assms by blast

lemma ht_inv_data: "ht_inv t \<Longrightarrow> i < HASHTABLE_CAPACITY \<Longrightarrow> ht_used t i \<Longrightarrow> ht_data t i \<noteq> None"
  unfolding ht_inv_def by blast

lemma ht_inv_uniq: "ht_inv t \<Longrightarrow> i < HASHTABLE_CAPACITY \<Longrightarrow> j < HASHTABLE_CAPACITY \<Longrightarrow>
    ht_used t i \<Longrightarrow> ht_used t j \<Longrightarrow> ht_keys t i = ht_keys t j \<Longrightarrow> i = j"
  unfolding ht_inv_def by blast

lemma ht_inv_count: "ht_inv t \<Longrightarrow> item_count t = card {i. i < HASHTABLE_CAPACITY \<and> ht_used t i}"
  unfolding ht_inv_def by blast

lemma ht_get_Some_iff:
  assumes "ht_inv t"
  shows "ht_get t k = Some i \<longleftrightarrow> i < HASHTABLE_CAPACITY \<and> ht_used t i \<and> ht_keys t i = k"
proof
  assume "ht_get t k = Some i"
  then show "i < HASHTABLE_CAPACITY \<and> ht_used t i \<and> ht_keys t i = k"
    unfolding ht_get_def by (auto dest: probe_SomeD simp: ht_matches_def)
next
  assume "i < HASHTABLE_CAPACITY \<and> ht_used t i \<and> ht_keys t i = k"
  then show "ht_get t k = Some i"
    unfolding ht_get_def using assms
    by (intro probe_unique) (auto simp: ht_matches_def ht_inv_def)
qed

lemma ht_get_None_iff:
  "ht_get t k = None \<longleftrightarrow> (\<forall>i<HASHTABLE_CAPACITY. ht_used t i \<longrightarrow> ht_keys t i \<noteq> k)"
  unfolding ht_get_def by (auto simp: probe_None_iff ht_matches_def)

lemma ht_lookup_Some_iff:
  assumes "ht_inv t"
  shows "ht_lookup t k = Some v \<longleftrightarrow>
    (\<exists>i<HASHTABLE_CAPACITY. ht_used t i \<and> ht_keys t i = k \<and> ht_data t i = Some v)"
proof (cases "ht_get t k")
  case None
  then have "ht_lookup t k = None" by (simp add: ht_lookup_def)
  moreover have "\<forall>i<HASHTABLE_CAPACITY. ht_used t i \<longrightarrow> ht_keys t i \<noteq> k"
    using None by (simp add: ht_get_None_iff)
  ultimately show ?thesis by auto
next
  case (Some i)
  then have i: "i < HASHTABLE_CAPACITY" "ht_used t i" "ht_keys t i = k"
    using ht_get_Some_iff [OF assms] by simp_all
  have uniq: "j = i" if "j < HASHTABLE_CAPACITY" "ht_used t j" "ht_keys t j = k" for j
    using that i ht_inv_uniq [OF assms, of j i] by simp
  have "ht_lookup t k = ht_data t i" using Some by (simp add: ht_lookup_def)
  then show ?thesis using i uniq by metis
qed

lemma ht_lookup_None_iff:
  assumes "ht_inv t"
  shows "ht_lookup t k = None \<longleftrightarrow> ht_get t k = None"
proof (cases "ht_get t k")
  case (Some i)
  then have "i < HASHTABLE_CAPACITY" "ht_used t i" using ht_get_Some_iff [OF assms] by simp_all
  then have "ht_data t i \<noteq> None" using assms unfolding ht_inv_def by blast
  then show ?thesis using Some by (simp add: ht_lookup_def)
qed (simp add: ht_lookup_def)

lemma ht_lookup_eqI:
  assumes "ht_inv t" "\<And>v. m k = Some v \<longleftrightarrow>
    (\<exists>i<HASHTABLE_CAPACITY. ht_used t i \<and> ht_keys t i = k \<and> ht_data t i = Some v)"
  shows "ht_lookup t k = m k"
  using assms ht_lookup_Some_iff [OF assms(1), of k] by (metis option.exhaust)

lemma ht_dom: "ht_inv t \<Longrightarrow> dom (ht_lookup t) = ht_keys t ` {i. i < HASHTABLE_CAPACITY \<and> ht_used t i}"
  by (auto simp: dom_def ht_lookup_Some_iff image_def ht_inv_def) blast

lemma ht_inj: "ht_inv t \<Longrightarrow> inj_on (ht_keys t) {i. i < HASHTABLE_CAPACITY \<and> ht_used t i}"
  by (auto simp: inj_on_def ht_inv_def)

lemma ht_size_card: "ht_inv t \<Longrightarrow> finite (dom (ht_lookup t)) \<and> ht_size t = card (dom (ht_lookup t))"
  using ht_inj [of t] by (auto simp: ht_dom card_image ht_size_def ht_inv_def)

lemma ht_used_finite: "finite {i. i < HASHTABLE_CAPACITY \<and> ht_used t i}"
  by simp

lemma ht_size_bound: "ht_inv t \<Longrightarrow> ht_size t \<le> HASHTABLE_CAPACITY"
  using card_mono [of "{..<HASHTABLE_CAPACITY}" "{i. i < HASHTABLE_CAPACITY \<and> ht_used t i}"]
  by (auto simp: ht_size_def ht_inv_def)

text \<open>A free slot exists exactly when the count is below the capacity.\<close>

lemma ht_free_slot:
  assumes "ht_inv t"
  shows "(\<exists>i<HASHTABLE_CAPACITY. \<not> ht_used t i) \<longleftrightarrow> ht_size t < HASHTABLE_CAPACITY"
proof
  assume "\<exists>i<HASHTABLE_CAPACITY. \<not> ht_used t i"
  then have "{i. i < HASHTABLE_CAPACITY \<and> ht_used t i} \<subset> {..<HASHTABLE_CAPACITY}" by auto
  from psubset_card_mono [OF _ this] show "ht_size t < HASHTABLE_CAPACITY"
    using assms by (simp add: ht_size_def ht_inv_def)
next
  assume "ht_size t < HASHTABLE_CAPACITY"
  then show "\<exists>i<HASHTABLE_CAPACITY. \<not> ht_used t i"
  proof (rule contrapos_pp)
    assume "\<not> (\<exists>i<HASHTABLE_CAPACITY. \<not> ht_used t i)"
    then have "{i. i < HASHTABLE_CAPACITY \<and> ht_used t i} = {..<HASHTABLE_CAPACITY}" by auto
    then show "\<not> ht_size t < HASHTABLE_CAPACITY" using assms by (simp add: ht_size_def ht_inv_def)
  qed
qed

section \<open>Each operation\<close>

lemma ht_inv_empty: "ht_inv ht_empty"
  by (simp add: ht_inv_def ht_empty_def)

lemma ht_lookup_empty: "ht_lookup ht_empty = Map.empty"
proof (rule ext)
  fix k
  have "ht_get (ht_empty :: 'a hashtable) k = None" by (simp add: ht_get_None_iff ht_empty_def)
  then show "ht_lookup ht_empty k = (None :: 'a option)" by (simp add: ht_lookup_def)
qed

lemma ht_add_cases:
  obtains (full) "\<forall>i<HASHTABLE_CAPACITY. ht_used t i" "ht_add t k v = (False, t)"
  | (slot) i where "i < HASHTABLE_CAPACITY" "\<not> ht_used t i"
      "ht_add t k v = (True, t\<lparr>ht_used := (ht_used t)(i := True), ht_keys := (ht_keys t)(i := k),
         ht_data := (ht_data t)(i := Some v), item_count := size_inc (item_count t)\<rparr>)"
proof (cases "probe (\<lambda>index. \<not> ht_used t index) (ht_offset k) 0")
  case None
  moreover from None have "\<forall>i<HASHTABLE_CAPACITY. ht_used t i" by (simp add: probe_None_iff)
  ultimately show ?thesis using full by (simp add: ht_add_def)
next
  case (Some i)
  then show ?thesis using slot [of i] probe_SomeD [OF Some] by (simp add: ht_add_def)
qed

lemma ht_add_result:
  assumes "ht_inv t"
  shows "fst (ht_add t k v) \<longleftrightarrow> ht_size t < HASHTABLE_CAPACITY"
proof (cases rule: ht_add_cases [of t k v])
  case full
  then show ?thesis using ht_free_slot [OF assms] by auto
next
  case (slot i)
  then show ?thesis using ht_free_slot [OF assms] by auto
qed

lemma ht_add_full:
  assumes "ht_inv t" "\<not> ht_size t < HASHTABLE_CAPACITY"
  shows "snd (ht_add t k v) = t"
proof (cases rule: ht_add_cases [of t k v])
  case (slot i)
  then show ?thesis using assms ht_free_slot [OF assms(1)] by auto
qed simp

lemma ht_inv_add:
  assumes "ht_inv t" "ht_lookup t k = None"
  shows "ht_inv (snd (ht_add t k v))"
proof (cases rule: ht_add_cases [of t k v])
  case full
  then show ?thesis using assms by simp
next
  case (slot i)
  have fresh: "\<And>j. j < HASHTABLE_CAPACITY \<Longrightarrow> ht_used t j \<Longrightarrow> ht_keys t j \<noteq> k"
    using assms by (simp add: ht_lookup_None_iff ht_get_None_iff)
  have "{j. j < HASHTABLE_CAPACITY \<and> (j = i \<or> ht_used t j)} =
      insert i {j. j < HASHTABLE_CAPACITY \<and> ht_used t j}"
    using slot(1) by auto
  then have card: "card {j. j < HASHTABLE_CAPACITY \<and> (j = i \<or> ht_used t j)} = Suc (item_count t)"
    using slot(2) assms(1) by (simp add: ht_inv_def)
  have "card {j. j < HASHTABLE_CAPACITY \<and> (j = i \<or> ht_used t j)} \<le> HASHTABLE_CAPACITY"
    using card_mono [of "{..<HASHTABLE_CAPACITY}" "{j. j < HASHTABLE_CAPACITY \<and> (j = i \<or> ht_used t j)}"]
    by auto
  then have "Suc (item_count t) < SIZE_MOD" using card CAP_size by linarith
  then have inc: "size_inc (item_count t) = Suc (item_count t)" by simp
  have used: "{j. j < HASHTABLE_CAPACITY \<and> ((ht_used t)(i := True)) j} =
      {j. j < HASHTABLE_CAPACITY \<and> (j = i \<or> ht_used t j)}" by auto
  show ?thesis
  proof (rule ht_invI)
    show "item_count (snd (ht_add t k v)) =
        card {j. j < HASHTABLE_CAPACITY \<and> ht_used (snd (ht_add t k v)) j}"
      using slot(3) inc card used by simp
    fix j l assume "j < HASHTABLE_CAPACITY" "l < HASHTABLE_CAPACITY"
      "ht_used (snd (ht_add t k v)) j" "ht_used (snd (ht_add t k v)) l"
      "ht_keys (snd (ht_add t k v)) j = ht_keys (snd (ht_add t k v)) l"
    then show "j = l"
      using slot(3) fresh [of j] fresh [of l] ht_inv_uniq [OF assms(1), of j l]
      by (auto split: if_splits)
  next
    fix j assume "j < HASHTABLE_CAPACITY" "ht_used (snd (ht_add t k v)) j"
    then show "ht_data (snd (ht_add t k v)) j \<noteq> None"
      using slot(3) ht_inv_data [OF assms(1), of j] by (auto split: if_splits)
  qed
qed

lemma ht_lookup_add:
  assumes "ht_inv t" "ht_lookup t k = None" "ht_size t < HASHTABLE_CAPACITY"
  shows "ht_lookup (snd (ht_add t k v)) = (ht_lookup t)(k \<mapsto> v)"
proof (cases rule: ht_add_cases [of t k v])
  case full
  then show ?thesis using assms ht_free_slot [OF assms(1)] by auto
next
  case (slot i)
  have fresh: "\<And>j. j < HASHTABLE_CAPACITY \<Longrightarrow> ht_used t j \<Longrightarrow> ht_keys t j \<noteq> k"
    using assms by (simp add: ht_lookup_None_iff ht_get_None_iff)
  show ?thesis
  proof (rule ext, rule ht_lookup_eqI [OF ht_inv_add [OF assms(1,2)]])
    fix k' v'
    show "((ht_lookup t)(k \<mapsto> v)) k' = Some v' \<longleftrightarrow> (\<exists>j<HASHTABLE_CAPACITY.
        ht_used (snd (ht_add t k v)) j \<and> ht_keys (snd (ht_add t k v)) j = k' \<and>
        ht_data (snd (ht_add t k v)) j = Some v')"
    proof (cases "k' = k")
      case True
      then show ?thesis using slot fresh by auto
    next
      case False
      have "(\<exists>j<HASHTABLE_CAPACITY. ht_used t j \<and> ht_keys t j = k' \<and> ht_data t j = Some v') \<longleftrightarrow>
          (\<exists>j<HASHTABLE_CAPACITY. j \<noteq> i \<and> ht_used t j \<and> ht_keys t j = k' \<and> ht_data t j = Some v')"
        using slot(2) by metis
      also have "\<dots> \<longleftrightarrow> (\<exists>j<HASHTABLE_CAPACITY. ht_used (snd (ht_add t k v)) j \<and>
          ht_keys (snd (ht_add t k v)) j = k' \<and> ht_data (snd (ht_add t k v)) j = Some v')"
        using slot(3) False by (intro ex_cong1) auto
      finally show ?thesis using False ht_lookup_Some_iff [OF assms(1), of k' v'] by simp
    qed
  qed
qed

lemma ht_remove_cases:
  assumes "ht_inv t"
  obtains (absent) "ht_get t k = None" "ht_remove t k = (False, t)"
  | (slot) i where "i < HASHTABLE_CAPACITY" "ht_used t i" "ht_keys t i = k" "ht_get t k = Some i"
      "ht_remove t k = (True, t\<lparr>ht_used := (ht_used t)(i := False),
         item_count := size_dec (item_count t)\<rparr>)"
proof (cases "ht_get t k")
  case None
  then show ?thesis using absent by (simp add: ht_remove_def ht_get_def)
next
  case (Some i)
  then have "i < HASHTABLE_CAPACITY" "ht_used t i" "ht_keys t i = k"
    using ht_get_Some_iff [OF assms] by simp_all
  moreover have "ht_remove t k = (True, t\<lparr>ht_used := (ht_used t)(i := False),
      item_count := size_dec (item_count t)\<rparr>)"
    using Some by (simp add: ht_remove_def ht_get_def)
  ultimately show ?thesis using slot Some by blast
qed

lemma ht_remove_result: "ht_inv t \<Longrightarrow> fst (ht_remove t k) \<longleftrightarrow> ht_lookup t k \<noteq> None"
  by (cases rule: ht_remove_cases [of t k]) (simp_all add: ht_lookup_None_iff)

lemma ht_inv_remove:
  assumes "ht_inv t"
  shows "ht_inv (snd (ht_remove t k))"
proof (cases rule: ht_remove_cases [OF assms, of k])
  case 1
  then show ?thesis using assms by simp
next
  case (2 i)
  let ?U = "{j. j < HASHTABLE_CAPACITY \<and> ht_used t j}"
  have "{j. j < HASHTABLE_CAPACITY \<and> j \<noteq> i \<and> ht_used t j} = ?U - {i}" by auto
  then have c: "card {j. j < HASHTABLE_CAPACITY \<and> j \<noteq> i \<and> ht_used t j} = item_count t - 1"
    using 2(1,2) assms by (simp add: ht_inv_def)
  have "i \<in> ?U" using 2(1,2) by simp
  then have "0 < item_count t" using assms card_gt_0_iff [of ?U] by (auto simp: ht_inv_def)
  then have "size_dec (item_count t) = item_count t - 1" by simp
  moreover have "{j. j < HASHTABLE_CAPACITY \<and> ((ht_used t)(i := False)) j} =
      {j. j < HASHTABLE_CAPACITY \<and> j \<noteq> i \<and> ht_used t j}" by (auto simp: fun_upd_apply)
  ultimately have cnt: "item_count (snd (ht_remove t k)) =
      card {j. j < HASHTABLE_CAPACITY \<and> ht_used (snd (ht_remove t k)) j}"
    using 2(5) c by simp
  have sub: "ht_used t j" if "ht_used (snd (ht_remove t k)) j" for j
    using that 2(5) by (auto split: if_splits)
  have same: "ht_keys (snd (ht_remove t k)) = ht_keys t" "ht_data (snd (ht_remove t k)) = ht_data t"
    using 2(5) by simp_all
  show ?thesis
    by (rule ht_invI) (use sub same cnt ht_inv_uniq [OF assms] ht_inv_data [OF assms] in auto)
qed

lemma ht_lookup_remove:
  assumes "ht_inv t"
  shows "ht_lookup (snd (ht_remove t k)) = (ht_lookup t)(k := None)"
proof (cases rule: ht_remove_cases [OF assms, of k])
  case 1
  then show ?thesis by (simp add: ht_lookup_def fun_eq_iff)
next
  case (2 i)
  have uniq: "j = i" if "j < HASHTABLE_CAPACITY" "ht_used t j" "ht_keys t j = k" for j
    using that 2(1-3) ht_inv_uniq [OF assms, of j i] by simp
  show ?thesis
  proof (rule ext, rule ht_lookup_eqI [OF ht_inv_remove [OF assms]])
    fix k' v'
    show "((ht_lookup t)(k := None)) k' = Some v' \<longleftrightarrow> (\<exists>j<HASHTABLE_CAPACITY.
        ht_used (snd (ht_remove t k)) j \<and> ht_keys (snd (ht_remove t k)) j = k' \<and>
        ht_data (snd (ht_remove t k)) j = Some v')"
    proof (cases "k' = k")
      case True
      then show ?thesis using 2(5) uniq by auto
    next
      case False
      then have "(\<exists>j<HASHTABLE_CAPACITY. ht_used t j \<and> ht_keys t j = k' \<and> ht_data t j = Some v') \<longleftrightarrow>
          (\<exists>j<HASHTABLE_CAPACITY. ht_used (snd (ht_remove t k)) j \<and>
          ht_keys (snd (ht_remove t k)) j = k' \<and> ht_data (snd (ht_remove t k)) j = Some v')"
        using 2(3,5) by (intro ex_cong1) auto
      then show ?thesis using False ht_lookup_Some_iff [OF assms, of k' v'] by simp
    qed
  qed
qed

lemma ht_inv_modify:
  assumes "ht_inv t"
  shows "ht_inv (ht_modify t k f)"
proof (cases "ht_get t k")
  case (Some i)
  show ?thesis
    by (rule ht_invI)
      (use Some ht_inv_count [OF assms] ht_inv_uniq [OF assms] ht_inv_data [OF assms]
       in \<open>auto simp: ht_modify_def\<close>)
qed (use assms in \<open>simp add: ht_modify_def\<close>)

lemma ht_get_modify [simp]: "ht_get (ht_modify t k f) k' = ht_get t k'"
  by (simp add: ht_get_def ht_modify_def ht_matches_def [abs_def] split: option.splits)

lemma ht_lookup_modify:
  assumes "ht_inv t"
  shows "ht_lookup (ht_modify t k f) = (ht_lookup t)(k := map_option f (ht_lookup t k))"
proof (rule ext)
  fix k'
  show "ht_lookup (ht_modify t k f) k' = ((ht_lookup t)(k := map_option f (ht_lookup t k))) k'"
  proof (cases "ht_get t k")
    case None
    then show ?thesis by (simp add: ht_lookup_def ht_modify_def)
  next
    case (Some i)
    then have d: "ht_data (ht_modify t k f) = (ht_data t)(i := map_option f (ht_data t i))"
      by (simp add: ht_modify_def)
    have "ht_get t k' = Some i \<longleftrightarrow> k' = k"
      using Some ht_get_Some_iff [OF assms] by auto
    then show ?thesis using Some d
      by (auto simp: ht_lookup_def fun_upd_apply split: option.splits)
  qed
qed

interpretation ht: keyed_table ht_empty ht_add ht_remove ht_lookup ht_modify ht_size
  HASHTABLE_CAPACITY ht_inv
  by (unfold_locales;
      fact ht_inv_empty ht_lookup_empty ht_inv_add ht_lookup_add ht_add_result ht_add_full
        ht_inv_remove ht_lookup_remove ht_remove_result ht_inv_modify ht_lookup_modify
        ht_size_card ht_size_bound)

end
