(* ===== verification/Vector.thy ===== *)
theory Vector
  imports Prelude Util_Mem
begin

text \<open>
  The growable array of \<open>include/tupai/util/vector.hpp\<close>: the children of an inode, the log lines. The
  storage \<open>arr\<close> is a raw buffer of \<open>ccapacity\<close> cells, \<open>None\<close> for \<open>nullptr\<close>, a cell is \<open>None\<close> until
  it is assigned. \<open>operator new\<close> either returns a buffer or panics, so an operation here is the
  execution in which the allocations return. No access is bounds-checked by the code; the model
  makes an access outside the buffer a fault.

  The locale \<open>growable\<close> is the contract over the list of elements; the interpretation \<open>vec\<close>
  discharges it, and with it that \<open>push\<close> and \<open>pop\<close> never leave the buffer.
\<close>

section \<open>The operations\<close>

record 'a vector =
  arr :: "'a option list option"
  ccapacity :: nat
  csize :: nat

definition vec_buf :: "'a vector \<Rightarrow> 'a option list" where
  "vec_buf v = (case arr v of None \<Rightarrow> [] | Some b \<Rightarrow> b)"

definition vec_new :: "'a vector" where
  "vec_new = \<lparr>arr = None, ccapacity = 0, csize = 0\<rparr>"

text \<open>\<open>for (size_t i = 0; i < n; i ++) dst[i] = src[i];\<close>\<close>

function copy_cells :: "'a option list \<Rightarrow> 'a option list \<Rightarrow> nat \<Rightarrow> nat \<Rightarrow> 'a option list res" where
  "copy_cells src dst i n =
     (if i < n
      then bind_res (arr_get src i) (\<lambda>x. bind_res (arr_set dst i x) (\<lambda>dst'.
             copy_cells src dst' (Suc i) n))
      else Ok dst)"
  by pat_completeness auto
termination
  by (relation "measure (\<lambda>(src, dst, i, n). n - i)") auto

declare copy_cells.simps [simp del]

text \<open>\<open>__copy\<close>, shared by the copy constructor and the copy assignment.\<close>

definition vec_copy :: "'a vector \<Rightarrow> 'a vector res" where
  "vec_copy other =
     (let this = (if csize other > 0
                  then \<lparr>arr = Some (replicate (ccapacity other) None),
                        ccapacity = ccapacity other, csize = csize other\<rparr>
                  else vec_new)
      in if csize this = 0 then Ok this
         else bind_res (copy_cells (vec_buf other) (vec_buf this) 0 (csize this)) (\<lambda>b.
                Ok (this\<lparr>arr := Some b\<rparr>)))"

text \<open>The move constructor and assignment: the new value of \<open>*this\<close> and of \<open>other\<close>.\<close>

definition vec_move :: "'a vector \<Rightarrow> 'a vector \<times> 'a vector" where
  "vec_move other = (other, \<lparr>arr = None, ccapacity = 0, csize = 0\<rparr>)"

definition vec_size :: "'a vector \<Rightarrow> nat" where
  "vec_size v = csize v"

definition vec_capacity :: "'a vector \<Rightarrow> nat" where
  "vec_capacity v = ccapacity v"

definition vec_resize :: "'a vector \<Rightarrow> nat \<Rightarrow> 'a vector res" where
  "vec_resize v n =
     bind_res (copy_cells (vec_buf v) (replicate n None) 0 (csize v)) (\<lambda>b.
       Ok (v\<lparr>arr := Some b, ccapacity := n\<rparr>))"

definition vec_get :: "'a vector \<Rightarrow> nat \<Rightarrow> 'a res" where
  "vec_get v i =
     bind_res (arr_get (vec_buf v) i) (\<lambda>x. case x of None \<Rightarrow> Fail Uninit | Some y \<Rightarrow> Ok y)"

definition vec_push :: "'a vector \<Rightarrow> 'a \<Rightarrow> 'a vector res" where
  "vec_push v item =
     bind_res (if csize v \<ge> ccapacity v then vec_resize v (max_of (ccapacity v * 2) 1) else Ok v)
       (\<lambda>v1. bind_res (arr_set (vec_buf v1) (csize v1) (Some item)) (\<lambda>b.
          Ok (v1\<lparr>arr := Some b, csize := csize v1 + 1\<rparr>)))"

definition vec_pop :: "'a vector \<Rightarrow> ('a \<times> 'a vector) res" where
  "vec_pop v =
     (if csize v = 0 then Fail (Panic ''Attempted to pop from empty vector'')
      else bind_res (vec_get v (csize v - 1)) (\<lambda>item.
        let v1 = v\<lparr>csize := csize v - 1\<rparr>
        in bind_res (if csize v1 \<le> ccapacity v1 div 2 then vec_resize v1 (ccapacity v1 div 2) else Ok v1)
             (\<lambda>v2. Ok (item, v2))))"

section \<open>The contract\<close>

locale growable =
  fixes new :: 'v
    and push :: "'v \<Rightarrow> 'a \<Rightarrow> 'v res"
    and pop :: "'v \<Rightarrow> ('a \<times> 'v) res"
    and nth_of :: "'v \<Rightarrow> nat \<Rightarrow> 'a res"
    and copy_of :: "'v \<Rightarrow> 'v res"
    and size_of :: "'v \<Rightarrow> nat"
    and elems :: "'v \<Rightarrow> 'a list"
    and invar :: "'v \<Rightarrow> bool"
  assumes invar_new: "invar new" and elems_new: "elems new = []"
    and push_ok: "invar v \<Longrightarrow> \<exists>v'. push v x = Ok v' \<and> invar v' \<and> elems v' = elems v @ [x]"
    and pop_ok: "invar v \<Longrightarrow> elems v \<noteq> [] \<Longrightarrow>
      \<exists>v'. pop v = Ok (last (elems v), v') \<and> invar v' \<and> elems v' = butlast (elems v)"
    and pop_empty: "invar v \<Longrightarrow> elems v = [] \<Longrightarrow>
      pop v = Fail (Panic ''Attempted to pop from empty vector'')"
    and nth_ok: "invar v \<Longrightarrow> i < length (elems v) \<Longrightarrow> nth_of v i = Ok (elems v ! i)"
    and copy_ok: "invar v \<Longrightarrow> \<exists>v'. copy_of v = Ok v' \<and> invar v' \<and> elems v' = elems v"
    and size_ok: "invar v \<Longrightarrow> size_of v = length (elems v)"
begin

lemma push_elems: "invar v \<Longrightarrow> elems (the_ok (push v x)) = elems v @ [x]"
  using push_ok [of v x] by auto

lemma push_invar: "invar v \<Longrightarrow> invar (the_ok (push v x))"
  using push_ok [of v x] by auto

lemma push_result: "invar v \<Longrightarrow> push v x = Ok (the_ok (push v x))"
  using push_ok [of v x] by auto

text \<open>A push followed by a pop gives the element back and the old contents.\<close>

lemma pop_push:
  assumes "invar v"
  shows "\<exists>v1 v2. push v x = Ok v1 \<and> pop v1 = Ok (x, v2) \<and> invar v2 \<and> elems v2 = elems v"
proof -
  obtain v1 where v1: "push v x = Ok v1" "invar v1" "elems v1 = elems v @ [x]"
    using push_ok [OF assms] by blast
  then obtain v2 where "pop v1 = Ok (last (elems v1), v2)" "invar v2" "elems v2 = butlast (elems v1)"
    using pop_ok [of v1] by auto
  then show ?thesis using v1 by auto
qed

end

section \<open>The code's vector implements it\<close>

definition vec_inv :: "'a vector \<Rightarrow> bool" where
  "vec_inv v \<longleftrightarrow> length (vec_buf v) = ccapacity v \<and> csize v \<le> ccapacity v \<and>
     (\<forall>i<csize v. vec_buf v ! i \<noteq> None)"

definition vec_list :: "'a vector \<Rightarrow> 'a list" where
  "vec_list v = map the (take (csize v) (vec_buf v))"

lemma vec_buf_simps [simp]:
  "vec_buf (v\<lparr>arr := Some b\<rparr>) = b"
  "vec_buf (v\<lparr>arr := Some b, csize := n\<rparr>) = b"
  "vec_buf (v\<lparr>arr := Some b, ccapacity := m\<rparr>) = b"
  "vec_buf (v\<lparr>csize := n\<rparr>) = vec_buf v"
  "vec_buf \<lparr>arr = Some b, ccapacity = m, csize = n\<rparr> = b"
  by (simp_all add: vec_buf_def)

lemma length_vec_list: "vec_inv v \<Longrightarrow> length (vec_list v) = csize v"
  by (simp add: vec_list_def vec_inv_def)

lemma vec_list_nth: "vec_inv v \<Longrightarrow> i < csize v \<Longrightarrow> vec_buf v ! i = Some (vec_list v ! i)"
  by (auto simp: vec_list_def vec_inv_def)

lemma copy_cells_ok:
  assumes "n \<le> length src" "n \<le> length dst" "i \<le> n"
  shows "\<exists>d. copy_cells src dst i n = Ok d \<and> length d = length dst \<and>
    (\<forall>j. i \<le> j \<and> j < n \<longrightarrow> d ! j = src ! j) \<and> (\<forall>j. j < i \<or> n \<le> j \<longrightarrow> d ! j = dst ! j)"
  using assms
proof (induction src dst i n rule: copy_cells.induct)
  case (1 src dst i n)
  show ?case
  proof (cases "i < n")
    case True
    then obtain d where d: "copy_cells src (dst[i := src ! i]) (Suc i) n = Ok d"
        "length d = length dst" "\<forall>j. Suc i \<le> j \<and> j < n \<longrightarrow> d ! j = src ! j"
        "\<forall>j. j < Suc i \<or> n \<le> j \<longrightarrow> d ! j = dst[i := src ! i] ! j"
      using "1.IH" [OF True, of "src ! i" "dst[i := src ! i]"] "1.prems" by auto
    have "d ! i = src ! i" using d(4) True "1.prems" by simp
    then have "\<forall>j. i \<le> j \<and> j < n \<longrightarrow> d ! j = src ! j" using d(3) by (metis Suc_leI nat_less_le)
    moreover have "\<forall>j. j < i \<or> n \<le> j \<longrightarrow> d ! j = dst ! j" using d(4) True by auto
    moreover have "copy_cells src dst i n = Ok d"
      using True d(1) "1.prems" by (subst copy_cells.simps) simp
    ultimately show ?thesis using d(2) by blast
  next
    case False
    then show ?thesis using "1.prems" by (subst copy_cells.simps) auto
  qed
qed

lemma copy_cells_0:
  assumes "n \<le> length src" "n \<le> length dst"
  obtains d where "copy_cells src dst 0 n = Ok d" "length d = length dst"
    "take n d = take n src"
proof -
  obtain d where d: "copy_cells src dst 0 n = Ok d" "length d = length dst" "\<forall>j<n. d ! j = src ! j"
    using copy_cells_ok [OF assms, of 0] by auto
  then have "take n d = take n src" using assms by (intro nth_equalityI) auto
  then show ?thesis using d that by blast
qed

lemma vec_resize_ok:
  assumes "vec_inv v" "csize v \<le> n"
  shows "\<exists>v'. vec_resize v n = Ok v' \<and> vec_inv v' \<and> vec_list v' = vec_list v \<and>
    csize v' = csize v \<and> ccapacity v' = n"
proof -
  obtain d where d: "copy_cells (vec_buf v) (replicate n None) 0 (csize v) = Ok d"
      "length d = n" "take (csize v) d = take (csize v) (vec_buf v)"
    using copy_cells_0 [of "csize v" "vec_buf v" "replicate n None"] assms
    by (auto simp: vec_inv_def)
  have "\<forall>i<csize v. d ! i = vec_buf v ! i" using d(3) by (metis nth_take)
  then show ?thesis
    using d assms by (simp add: vec_resize_def vec_inv_def vec_list_def)
qed

lemma vec_push_ok:
  assumes "vec_inv v"
  shows "\<exists>v'. vec_push v x = Ok v' \<and> vec_inv v' \<and> vec_list v' = vec_list v @ [x]"
proof -
  have "\<exists>v1. (if csize v \<ge> ccapacity v then vec_resize v (max_of (ccapacity v * 2) 1) else Ok v) = Ok v1
      \<and> vec_inv v1 \<and> vec_list v1 = vec_list v \<and> csize v1 = csize v \<and> csize v1 < ccapacity v1"
  proof (cases "csize v \<ge> ccapacity v")
    case True
    then have "csize v = ccapacity v" using assms by (simp add: vec_inv_def)
    moreover have "ccapacity v \<le> max (ccapacity v * 2) 1" "ccapacity v < max (ccapacity v * 2) 1"
      by linarith+
    ultimately show ?thesis
      using True vec_resize_ok [OF assms, of "max (ccapacity v * 2) 1"] by fastforce
  qed (use assms in auto)
  then obtain v1 where v1: "(if csize v \<ge> ccapacity v then vec_resize v (max_of (ccapacity v * 2) 1)
      else Ok v) = Ok v1" "vec_inv v1" "vec_list v1 = vec_list v" "csize v1 = csize v"
      "csize v1 < ccapacity v1" by blast
  let ?b = "(vec_buf v1)[csize v1 := Some x]"
  let ?v = "v1\<lparr>arr := Some ?b, csize := csize v1 + 1\<rparr>"
  have len: "csize v1 < length (vec_buf v1)" using v1(2,5) by (simp add: vec_inv_def)
  have "vec_push v x = Ok ?v" using v1(1) len by (simp add: vec_push_def)
  moreover have "vec_inv ?v"
    using v1(2,5) by (auto simp: vec_inv_def nth_list_update less_Suc_eq)
  moreover have "vec_list ?v = vec_list v @ [x]"
    using len v1(3) [symmetric]
    by (simp add: vec_list_def take_Suc_conv_app_nth)
  ultimately show ?thesis by blast
qed

lemma vec_get_ok: "vec_inv v \<Longrightarrow> i < csize v \<Longrightarrow> vec_get v i = Ok (vec_list v ! i)"
  by (simp add: vec_get_def vec_list_nth vec_inv_def)

lemma vec_pop_ok:
  assumes "vec_inv v" "vec_list v \<noteq> []"
  shows "\<exists>v'. vec_pop v = Ok (last (vec_list v), v') \<and> vec_inv v' \<and> vec_list v' = butlast (vec_list v)"
proof -
  have pos: "0 < csize v" using assms length_vec_list [OF assms(1)] by (cases "csize v") auto
  let ?v1 = "v\<lparr>csize := csize v - 1\<rparr>"
  have buf: "vec_buf ?v1 = vec_buf v" by (simp add: vec_buf_def)
  have inv1: "vec_inv ?v1" using assms(1) by (auto simp: vec_inv_def)
  have "take (csize v - 1) (vec_buf v) = butlast (take (csize v) (vec_buf v))"
    using assms(1) by (simp add: butlast_take vec_inv_def)
  then have list1: "vec_list ?v1 = butlast (vec_list v)"
    using buf by (simp add: vec_list_def map_butlast)
  have item: "vec_get v (csize v - 1) = Ok (last (vec_list v))"
    using pos assms vec_get_ok [OF assms(1), of "csize v - 1"] length_vec_list [OF assms(1)]
    by (simp add: last_conv_nth)
  show ?thesis
  proof (cases "csize ?v1 \<le> ccapacity ?v1 div 2")
    case True
    then obtain v2 where "vec_resize ?v1 (ccapacity ?v1 div 2) = Ok v2" "vec_inv v2"
        "vec_list v2 = vec_list ?v1"
      using vec_resize_ok [OF inv1] by blast
    then show ?thesis using True pos item list1 by (simp add: vec_pop_def Let_def)
  next
    case False
    then show ?thesis using pos item list1 inv1 by (simp add: vec_pop_def Let_def)
  qed
qed

lemma vec_copy_ok:
  assumes "vec_inv v"
  shows "\<exists>v'. vec_copy v = Ok v' \<and> vec_inv v' \<and> vec_list v' = vec_list v"
proof (cases "csize v = 0")
  case True
  then show ?thesis by (simp add: vec_copy_def vec_new_def vec_inv_def vec_list_def vec_buf_def)
next
  case False
  let ?t = "\<lparr>arr = Some (replicate (ccapacity v) None), ccapacity = ccapacity v, csize = csize v\<rparr>"
  obtain d where d: "copy_cells (vec_buf v) (vec_buf ?t) 0 (csize v) = Ok d"
      "length d = ccapacity v" "take (csize v) d = take (csize v) (vec_buf v)"
    using copy_cells_0 [of "csize v" "vec_buf v" "vec_buf ?t"] assms
    by (auto simp: vec_inv_def vec_buf_def)
  have "\<forall>i<csize v. d ! i = vec_buf v ! i" using d(3) by (metis nth_take)
  then show ?thesis
    using d False assms by (auto simp: vec_copy_def Let_def vec_inv_def vec_list_def)
qed

interpretation vec: growable vec_new vec_push vec_pop vec_get vec_copy vec_size vec_list vec_inv
proof unfold_locales
  show "vec_inv vec_new" "vec_list vec_new = []"
    by (simp_all add: vec_inv_def vec_new_def vec_buf_def vec_list_def)
  fix v :: "'a vector" and i
  assume inv: "vec_inv v"
  show "vec_list v = [] \<Longrightarrow> vec_pop v = Fail (Panic ''Attempted to pop from empty vector'')"
    using inv length_vec_list [OF inv] by (simp add: vec_pop_def)
  show "i < length (vec_list v) \<Longrightarrow> vec_get v i = Ok (vec_list v ! i)"
    using inv by (simp add: vec_get_ok length_vec_list)
  show "vec_size v = length (vec_list v)"
    using inv by (simp add: vec_size_def length_vec_list)
qed (auto intro: vec_push_ok vec_pop_ok vec_copy_ok)

end
