(* ===== verification/Vfs.thy ===== *)
theory Vfs
  imports Path Hashtable Vector Locks Fmt
begin

text \<open>
  The virtual file system: \<open>kernel/vfs/vfs.cpp\<close> with the structures of \<open>include/tupai/vfs/\<close>. Three
  tables (file systems, inodes, descriptors), three id counters and the root, all behind one
  spinlock; the objects \<open>fs_ptr_t\<close>, \<open>inode_ptr_t\<close> and \<open>fd_ptr_t\<close> are ids, and their methods look the id
  up. Every routine is one critical section (\<open>with_lock\<close>), except the ones the source composes from
  others. A local buffer that was never filled is \<open>None\<close>; reading it is \<open>Fail Uninit\<close>.
\<close>

section \<open>Structures\<close>

text \<open>The handles of \<open>vfs.hpp\<close> wrap an id, convert from and to it, and are invalid unless one is given.\<close>

type_synonym fs_ptr_t = id_t

type_synonym inode_ptr_t = id_t

type_synonym fd_ptr_t = id_t

type_synonym fd_mode_t = u8

type_synonym fd_offset = u64

datatype inode_type =
  NORMAL_FILE | HARD_LINK | SYM_LINK | CHAR_DEVICE | BLOCK_DEVICE | DIRECTORY | PIPE

text \<open>The static tables a \<open>vtable_t*\<close> can point to.\<close>

datatype vtable_ref = Initrd_vtable | Pipe_vtable

record inode_mode_t =
  owner_flags :: u8
  group_flags :: u8
  other_flags :: u8

record inode_child_t =
  ic_inode :: inode_ptr_t
  ic_name :: string

record inode_t =
  i_id :: id_t
  i_fs :: fs_ptr_t
  children :: "inode_child_t vector"
  i_type :: inode_type
  i_vtable :: "vtable_ref option"
  i_owner :: id_t
  i_group :: id_t
  i_mode :: inode_mode_t
  last_access :: u64
  last_modify :: u64
  refc :: size_t

definition FS_NAME_MAX :: nat where
  "FS_NAME_MAX = 256"

record fs_t =
  f_id :: id_t
  f_name :: string
  f_root :: inode_ptr_t

record fd_t =
  d_id :: id_t
  d_inode :: inode_ptr_t
  d_mode :: fd_mode_t
  d_offset :: fd_offset

record vfs =
  v_lock :: spinlock_t
  fs_table :: "fs_t hashtable"
  inode_table :: "inode_t hashtable"
  fd_table :: "fd_t hashtable"
  fs_counter :: id_t
  inode_counter :: id_t
  fd_counter :: id_t
  vfs_root :: inode_ptr_t

definition vfs_start :: vfs where
  "vfs_start = \<lparr>v_lock = spinlock_new, fs_table = ht_empty, inode_table = ht_empty, fd_table = ht_empty,
     fs_counter = 0, inode_counter = 0, fd_counter = 0, vfs_root = ID_INVALID\<rparr>"

text \<open>The member initialisers of \<open>inode_t\<close>; \<open>type\<close> has none.\<close>

definition inode_default :: "inode_type \<Rightarrow> inode_t" where
  "inode_default type = \<lparr>i_id = ID_INVALID, i_fs = ID_INVALID, children = vec_new, i_type = type,
     i_vtable = None, i_owner = ID_INVALID, i_group = ID_INVALID,
     i_mode = \<lparr>owner_flags = 0xFF, group_flags = 0xFF, other_flags = 0xFF\<rparr>,
     last_access = 0, last_modify = 0, refc = 0\<rparr>"

section \<open>The lock\<close>

definition vfs_lock :: "vfs \<Rightarrow> vfs res" where
  "vfs_lock v = bind_res (spinlock_lock (v_lock v)) (\<lambda>l. Ok (v\<lparr>v_lock := l\<rparr>))"

definition vfs_unlock :: "vfs \<Rightarrow> vfs" where
  "vfs_unlock v = v\<lparr>v_lock := spinlock_unlock (v_lock v)\<rparr>"

abbreviation vfs_section :: "(vfs \<Rightarrow> ('a \<times> vfs) res) \<Rightarrow> vfs \<Rightarrow> ('a \<times> vfs) res" where
  "vfs_section \<equiv> with_lock vfs_lock vfs_unlock"

section \<open>Walking the tree\<close>

text \<open>The loop over \<open>inode->children\<close> that compares names and stops at the first match.\<close>

function find_child_from :: "inode_child_t vector \<Rightarrow> string option \<Rightarrow> nat \<Rightarrow> id_t res" where
  "find_child_from ch element i =
     (if i < vec_size ch
      then bind_res (vec_get ch i) (\<lambda>c.
           case element of
             None \<Rightarrow> Fail Uninit
           | Some name \<Rightarrow> bind_res (str_equal (ic_name c) name) (\<lambda>eq.
               if eq then Ok (ic_inode c) else find_child_from ch element (Suc i)))
      else Ok ID_INVALID)"
  by pat_completeness auto
termination
  by (relation "measure (\<lambda>(ch, element, i). vec_size ch - i)") auto

declare find_child_from.simps [simp del]

text \<open>One buffer per iteration: when \<open>path_element_get\<close> finds no element it stays uninitialised.\<close>

definition element_at :: "string \<Rightarrow> nat \<Rightarrow> string option res" where
  "element_at path i =
     bind_res (path_element_get path (replicate FILENAME_MAX NUL) i) (\<lambda>(found, buff).
       Ok (if found then Some buff else None))"

function vfs_walk :: "inode_t hashtable \<Rightarrow> string \<Rightarrow> nat \<Rightarrow> nat \<Rightarrow> id_t \<Rightarrow> id_t res" where
  "vfs_walk tab path limit i cinode =
     (if i < limit
      then bind_res (element_at path i) (\<lambda>element.
           bind_res (case ht_lookup tab cinode of
                       None \<Rightarrow> Ok ID_INVALID
                     | Some inode \<Rightarrow> find_child_from (children inode) element 0) (\<lambda>c.
             if c = ID_INVALID then Ok c else vfs_walk tab path limit (Suc i) c))
      else Ok cinode)"
  by pat_completeness auto
termination
  by (relation "measure (\<lambda>(tab, path, limit, i, cinode). limit - i)") auto

declare vfs_walk.simps [simp del]

definition get_root :: "vfs \<Rightarrow> (inode_ptr_t \<times> vfs) res" where
  "get_root = vfs_section (\<lambda>v. Ok (vfs_root v, v))"

definition get_inode :: "string \<Rightarrow> vfs \<Rightarrow> (inode_ptr_t \<times> vfs) res" where
  "get_inode path = vfs_section (\<lambda>v.
     bind_res (path_element_count path) (\<lambda>element_count.
     bind_res (vfs_walk (inode_table v) path element_count 0 (vfs_root v)) (\<lambda>cinode.
     Ok (cinode, v))))"

definition set_root :: "inode_ptr_t \<Rightarrow> vfs \<Rightarrow> (int \<times> vfs) res" where
  "set_root root = vfs_section (\<lambda>v. Ok (0, v\<lparr>vfs_root := root\<rparr>))"

text \<open>Appending a child; \<open>name\<close> is the uninitialised buffer when it is \<open>None\<close>.\<close>

definition push_child :: "id_t \<Rightarrow> string option \<Rightarrow> id_t \<Rightarrow> inode_t \<Rightarrow> vfs \<Rightarrow> vfs res" where
  "push_child child name dir inode v =
     (case name of
        None \<Rightarrow> Fail Uninit
      | Some nm \<Rightarrow>
          bind_res (str_cpy_n nm (replicate FILENAME_MAX NUL) FILENAME_MAX) (\<lambda>nm'.
          bind_res (vec_push (children inode) \<lparr>ic_inode = child, ic_name = nm'\<rparr>) (\<lambda>ch.
          Ok (v\<lparr>inode_table := ht_modify (inode_table v) dir (\<lambda>n. n\<lparr>children := ch\<rparr>)\<rparr>))))"

text \<open>\<open>element_count - 1\<close> is a \<open>size_t\<close>: with no element the loop bound is the largest one.\<close>

definition mount :: "inode_ptr_t \<Rightarrow> string \<Rightarrow> vfs \<Rightarrow> (int \<times> vfs) res" where
  "mount inode path = vfs_section (\<lambda>v.
     bind_res (path_element_count path) (\<lambda>element_count.
     bind_res (vfs_walk (inode_table v) path (size_dec element_count) 0 (vfs_root v)) (\<lambda>cinode.
     if cinode \<noteq> ID_INVALID
     then bind_res (element_at path (size_dec element_count)) (\<lambda>filename.
          case ht_lookup (inode_table v) cinode of
            None \<Rightarrow> Ok (1, v)
          | Some dir \<Rightarrow> bind_res (push_child inode filename cinode dir v) (\<lambda>v'. Ok (0, v')))
     else Ok (1, v))))"

definition vfs_init :: "vfs \<Rightarrow> (unit \<times> vfs) res" where
  "vfs_init = vfs_section (\<lambda>v. Ok ((), v))"

section \<open>Creating and deleting\<close>

definition create_inode :: "inode_type \<Rightarrow> vfs \<Rightarrow> (inode_ptr_t \<times> vfs) res" where
  "create_inode type = vfs_section (\<lambda>v.
     let nid = inode_counter v;
         v1 = v\<lparr>inode_counter := inode_counter v + 1\<rparr>;
         ninode = (inode_default type)\<lparr>i_id := nid, i_vtable := None\<rparr>
     in Ok (nid, v1\<lparr>inode_table := snd (ht_add (inode_table v1) nid ninode)\<rparr>))"

definition create_fd :: "inode_ptr_t \<Rightarrow> vfs \<Rightarrow> (fd_ptr_t \<times> vfs) res" where
  "create_fd inode = vfs_section (\<lambda>v.
     let nid = fd_counter v;
         v1 = v\<lparr>fd_counter := fd_counter v + 1\<rparr>;
         nfd = \<lparr>d_id = nid, d_inode = inode, d_mode = 0xFF, d_offset = 0\<rparr>
     in Ok (nid, v1\<lparr>fd_table := snd (ht_add (fd_table v1) nid nfd)\<rparr>))"

definition delete_fs :: "fs_ptr_t \<Rightarrow> vfs \<Rightarrow> (int \<times> vfs) res" where
  "delete_fs fs = vfs_section (\<lambda>v.
     let (removed, t) = ht_remove (fs_table v) fs
     in Ok (if removed then 0 else 1, v\<lparr>fs_table := t\<rparr>))"

definition delete_inode :: "inode_ptr_t \<Rightarrow> vfs \<Rightarrow> (int \<times> vfs) res" where
  "delete_inode inode = vfs_section (\<lambda>v.
     let (removed, t) = ht_remove (inode_table v) inode
     in Ok (if removed then 0 else 1, v\<lparr>inode_table := t\<rparr>))"

definition delete_fd :: "fd_ptr_t \<Rightarrow> vfs \<Rightarrow> (int \<times> vfs) res" where
  "delete_fd fd = vfs_section (\<lambda>v.
     let (removed, t) = ht_remove (fd_table v) fd
     in Ok (if removed then 0 else 1, v\<lparr>fd_table := t\<rparr>))"

section \<open>File systems\<close>

definition fs_get_name :: "fs_ptr_t \<Rightarrow> string \<Rightarrow> nat \<Rightarrow> vfs \<Rightarrow> ((int \<times> string) \<times> vfs) res" where
  "fs_get_name fs buff n = vfs_section (\<lambda>v.
     case ht_lookup (fs_table v) fs of
       None \<Rightarrow> Ok ((1, buff), v)
     | Some f \<Rightarrow> bind_res (str_cpy_n (f_name f) buff n) (\<lambda>b. Ok ((0, b), v)))"

definition fs_get_root :: "fs_ptr_t \<Rightarrow> vfs \<Rightarrow> (inode_ptr_t \<times> vfs) res" where
  "fs_get_root fs = vfs_section (\<lambda>v.
     case ht_lookup (fs_table v) fs of
       None \<Rightarrow> Ok (ID_INVALID, v)
     | Some f \<Rightarrow> Ok (f_root f, v))"

definition fs_set_name :: "fs_ptr_t \<Rightarrow> string \<Rightarrow> vfs \<Rightarrow> (int \<times> vfs) res" where
  "fs_set_name fs name = vfs_section (\<lambda>v.
     case ht_lookup (fs_table v) fs of
       None \<Rightarrow> Ok (1, v)
     | Some f \<Rightarrow> bind_res (str_cpy_n name (f_name f) FS_NAME_MAX) (\<lambda>b.
         Ok (0, v\<lparr>fs_table := ht_modify (fs_table v) fs (\<lambda>f. f\<lparr>f_name := b\<rparr>)\<rparr>)))"

definition fs_set_root :: "fs_ptr_t \<Rightarrow> inode_ptr_t \<Rightarrow> vfs \<Rightarrow> (int \<times> vfs) res" where
  "fs_set_root fs root = vfs_section (\<lambda>v.
     case ht_lookup (fs_table v) fs of
       None \<Rightarrow> Ok (1, v)
     | Some f \<Rightarrow> Ok (0, v\<lparr>fs_table := ht_modify (fs_table v) fs (\<lambda>f. f\<lparr>f_root := root\<rparr>)\<rparr>))"

section \<open>Inodes\<close>

definition inode_get_type :: "inode_ptr_t \<Rightarrow> vfs \<Rightarrow> ((int \<times> inode_type) \<times> vfs) res" where
  "inode_get_type ino = vfs_section (\<lambda>v.
     case ht_lookup (inode_table v) ino of
       None \<Rightarrow> Ok ((1, NORMAL_FILE), v)
     | Some n \<Rightarrow> Ok ((0, i_type n), v))"

definition inode_get_vtable :: "inode_ptr_t \<Rightarrow> vfs \<Rightarrow> ((int \<times> vtable_ref option) \<times> vfs) res" where
  "inode_get_vtable ino = vfs_section (\<lambda>v.
     case ht_lookup (inode_table v) ino of
       None \<Rightarrow> Ok ((1, None), v)
     | Some n \<Rightarrow> Ok ((0, i_vtable n), v))"

definition inode_get_children :: "inode_ptr_t \<Rightarrow> vfs \<Rightarrow> (nat \<times> vfs) res" where
  "inode_get_children ino = vfs_section (\<lambda>v.
     case ht_lookup (inode_table v) ino of
       None \<Rightarrow> Ok (0, v)
     | Some n \<Rightarrow> Ok (vec_size (children n), v))"

definition inode_get_child :: "inode_ptr_t \<Rightarrow> string \<Rightarrow> vfs \<Rightarrow> (inode_ptr_t \<times> vfs) res" where
  "inode_get_child ino name = vfs_section (\<lambda>v.
     case ht_lookup (inode_table v) ino of
       None \<Rightarrow> Ok (ID_INVALID, v)
     | Some n \<Rightarrow> bind_res (find_child_from (children n) (Some name) 0) (\<lambda>c. Ok (c, v)))"

definition inode_get_nth_child :: "inode_ptr_t \<Rightarrow> nat \<Rightarrow> vfs \<Rightarrow> (inode_ptr_t \<times> vfs) res" where
  "inode_get_nth_child ino i = vfs_section (\<lambda>v.
     case ht_lookup (inode_table v) ino of
       None \<Rightarrow> Ok (ID_INVALID, v)
     | Some n \<Rightarrow> bind_res (vec_get (children n) i) (\<lambda>c. Ok (ic_inode c, v)))"

function child_name_from ::
    "inode_child_t vector \<Rightarrow> id_t \<Rightarrow> string \<Rightarrow> nat \<Rightarrow> nat \<Rightarrow> (int \<times> string) res" where
  "child_name_from ch child rname n i =
     (if i < vec_size ch
      then bind_res (vec_get ch i) (\<lambda>c.
           if ic_inode c = child
           then bind_res (str_cpy_n (ic_name c) rname n) (\<lambda>b. Ok (0, b))
           else child_name_from ch child rname n (Suc i))
      else Ok (1, rname))"
  by pat_completeness auto
termination
  by (relation "measure (\<lambda>(ch, child, rname, n, i). vec_size ch - i)") auto

declare child_name_from.simps [simp del]

definition inode_get_child_name ::
    "inode_ptr_t \<Rightarrow> inode_ptr_t \<Rightarrow> string \<Rightarrow> nat \<Rightarrow> vfs \<Rightarrow> ((int \<times> string) \<times> vfs) res" where
  "inode_get_child_name ino child rname n = vfs_section (\<lambda>v.
     bind_res (arr_set rname 0 NUL) (\<lambda>rname'.
     case ht_lookup (inode_table v) ino of
       None \<Rightarrow> Ok ((1, rname'), v)
     | Some nd \<Rightarrow> bind_res (child_name_from (children nd) child rname' n 0) (\<lambda>r. Ok (r, v))))"

text \<open>The setters share their shape: find the inode, store a field.\<close>

definition inode_update :: "id_t \<Rightarrow> (inode_t \<Rightarrow> inode_t) \<Rightarrow> vfs \<Rightarrow> (int \<times> vfs) res" where
  "inode_update ino f = vfs_section (\<lambda>v.
     case ht_lookup (inode_table v) ino of
       None \<Rightarrow> Ok (1, v)
     | Some n \<Rightarrow> Ok (0, v\<lparr>inode_table := ht_modify (inode_table v) ino f\<rparr>))"

definition inode_set_type :: "inode_ptr_t \<Rightarrow> inode_type \<Rightarrow> vfs \<Rightarrow> (int \<times> vfs) res" where
  "inode_set_type ino type = inode_update ino (\<lambda>n. n\<lparr>i_type := type\<rparr>)"

definition inode_set_vtable :: "inode_ptr_t \<Rightarrow> vtable_ref option \<Rightarrow> vfs \<Rightarrow> (int \<times> vfs) res" where
  "inode_set_vtable ino vt = inode_update ino (\<lambda>n. n\<lparr>i_vtable := vt\<rparr>)"

definition inode_set_fs :: "inode_ptr_t \<Rightarrow> fs_ptr_t \<Rightarrow> vfs \<Rightarrow> (int \<times> vfs) res" where
  "inode_set_fs ino fs = inode_update ino (\<lambda>n. n\<lparr>i_fs := fs\<rparr>)"

definition inode_mount_child :: "inode_ptr_t \<Rightarrow> inode_ptr_t \<Rightarrow> string \<Rightarrow> vfs \<Rightarrow> (int \<times> vfs) res" where
  "inode_mount_child ino child name = vfs_section (\<lambda>v.
     case ht_lookup (inode_table v) ino of
       None \<Rightarrow> Ok (1, v)
     | Some n \<Rightarrow> bind_res (push_child child (Some name) ino n v) (\<lambda>v'. Ok (0, v')))"

text \<open>\<open>create_fs\<close> makes the root inode, enters the file system, and links the inode back to it.\<close>

definition create_fs :: "string \<Rightarrow> vfs \<Rightarrow> (fs_ptr_t \<times> vfs) res" where
  "create_fs name v0 =
     bind_res (create_inode DIRECTORY v0) (\<lambda>(fsroot, v1).
     bind_res (vfs_section (\<lambda>v.
         let nid = fs_counter v; v' = v\<lparr>fs_counter := fs_counter v + 1\<rparr>
         in bind_res (str_cpy_n name (replicate FS_NAME_MAX NUL) FS_NAME_MAX) (\<lambda>nm.
            let nfs = \<lparr>f_id = nid, f_name = nm, f_root = fsroot\<rparr>
            in Ok (nid, v'\<lparr>fs_table := snd (ht_add (fs_table v') nid nfs)\<rparr>))) v1) (\<lambda>(nid, v2).
     bind_res (inode_set_fs fsroot nid v2) (\<lambda>(_, v3). Ok (nid, v3))))"

section \<open>Descriptors\<close>

definition fd_get_inode :: "fd_ptr_t \<Rightarrow> vfs \<Rightarrow> (inode_ptr_t \<times> vfs) res" where
  "fd_get_inode fd = vfs_section (\<lambda>v.
     case ht_lookup (fd_table v) fd of
       None \<Rightarrow> Ok (ID_INVALID, v)
     | Some d \<Rightarrow> Ok (d_inode d, v))"

definition fd_get_mode :: "fd_ptr_t \<Rightarrow> vfs \<Rightarrow> ((int \<times> fd_mode_t) \<times> vfs) res" where
  "fd_get_mode fd = vfs_section (\<lambda>v.
     case ht_lookup (fd_table v) fd of
       None \<Rightarrow> Ok ((1, 0xFF), v)
     | Some d \<Rightarrow> Ok ((0, d_mode d), v))"

definition fd_get_offset :: "fd_ptr_t \<Rightarrow> vfs \<Rightarrow> (fd_offset \<times> vfs) res" where
  "fd_get_offset fd = vfs_section (\<lambda>v.
     case ht_lookup (fd_table v) fd of
       None \<Rightarrow> Ok (0, v)
     | Some d \<Rightarrow> Ok (d_offset d, v))"

definition fd_update :: "id_t \<Rightarrow> (fd_t \<Rightarrow> fd_t) \<Rightarrow> vfs \<Rightarrow> (int \<times> vfs) res" where
  "fd_update fd f = vfs_section (\<lambda>v.
     case ht_lookup (fd_table v) fd of
       None \<Rightarrow> Ok (1, v)
     | Some d \<Rightarrow> Ok (0, v\<lparr>fd_table := ht_modify (fd_table v) fd f\<rparr>))"

definition fd_set_inode :: "fd_ptr_t \<Rightarrow> inode_ptr_t \<Rightarrow> vfs \<Rightarrow> (int \<times> vfs) res" where
  "fd_set_inode fd inode = fd_update fd (\<lambda>d. d\<lparr>d_inode := inode\<rparr>)"

definition fd_set_mode :: "fd_ptr_t \<Rightarrow> fd_mode_t \<Rightarrow> vfs \<Rightarrow> (int \<times> vfs) res" where
  "fd_set_mode fd mode = fd_update fd (\<lambda>d. d\<lparr>d_mode := mode\<rparr>)"

definition fd_set_offset :: "fd_ptr_t \<Rightarrow> fd_offset \<Rightarrow> vfs \<Rightarrow> (int \<times> vfs) res" where
  "fd_set_offset fd offset = fd_update fd (\<lambda>d. d\<lparr>d_offset := offset\<rparr>)"

section \<open>The tree as the callers see it\<close>

text \<open>Entries of a directory in the order they were mounted.\<close>

definition entries :: "inode_t hashtable \<Rightarrow> id_t \<Rightarrow> (string \<times> id_t) list" where
  "entries tab d =
     (case ht_lookup tab d of
        None \<Rightarrow> []
      | Some n \<Rightarrow> map (\<lambda>c. (cstr (ic_name c), ic_inode c)) (vec_list (children n)))"

definition child_of :: "inode_t hashtable \<Rightarrow> id_t \<Rightarrow> string \<Rightarrow> id_t" where
  "child_of tab d name =
     (case map_of (entries tab d) (take (FILENAME_MAX - 1) name) of None \<Rightarrow> ID_INVALID | Some c \<Rightarrow> c)"

fun resolve :: "inode_t hashtable \<Rightarrow> id_t \<Rightarrow> string list \<Rightarrow> id_t" where
  "resolve tab d [] = d"
| "resolve tab d (e # es) =
     (let c = child_of tab d e in if c = ID_INVALID then ID_INVALID else resolve tab c es)"

text \<open>
  What every routine keeps: the lock is free, the tables are well formed and keyed by ids below
  their counters, and every directory is a well-formed vector of terminated names.
\<close>

definition names_ok :: "inode_t \<Rightarrow> bool" where
  "names_ok n \<longleftrightarrow> vec_inv (children n) \<and> (\<forall>c\<in>set (vec_list (children n)). is_cstr (ic_name c))"

definition inodes_ok :: "inode_t hashtable \<Rightarrow> bool" where
  "inodes_ok tab \<longleftrightarrow> ht_inv tab \<and> (\<forall>k n. ht_lookup tab k = Some n \<longrightarrow> names_ok n)"

definition fs_names_ok :: "fs_t hashtable \<Rightarrow> bool" where
  "fs_names_ok tab \<longleftrightarrow> ht_inv tab \<and>
     (\<forall>k f. ht_lookup tab k = Some f \<longrightarrow> length (f_name f) = FS_NAME_MAX \<and> is_cstr (f_name f))"

definition vfs_inv :: "vfs \<Rightarrow> bool" where
  "vfs_inv v \<longleftrightarrow> \<not> spin_held (v_lock v) \<and> inodes_ok (inode_table v) \<and> fs_names_ok (fs_table v) \<and>
     ht_inv (fd_table v) \<and>
     ht.below (inode_table v) (unat (inode_counter v)) \<and> ht.below (fs_table v) (unat (fs_counter v)) \<and>
     ht.below (fd_table v) (unat (fd_counter v))"

lemma vfs_inv_start: "vfs_inv vfs_start"
  by (simp add: vfs_inv_def vfs_start_def inodes_ok_def fs_names_ok_def spin_held_def spinlock_new_def
      ht.invar_empty ht.below_empty ht.lookup_empty)

subsection \<open>Critical sections\<close>

interpretation vfs: lock_discipline vfs_lock vfs_unlock "\<lambda>v. spin_held (v_lock v)"
    "\<lambda>v. v\<lparr>v_lock := spinlock_new\<rparr>"
  by unfold_locales
    (auto simp: vfs_lock_def vfs_unlock_def spinlock_lock_def spinlock_unlock_def spin_held_def)

abbreviation locked_vfs :: "vfs \<Rightarrow> vfs" where
  "locked_vfs v \<equiv> v\<lparr>v_lock := (v_lock v)\<lparr>lock_val := 1\<rparr>\<rparr>"

lemma vfs_section_run:
  "\<not> spin_held (v_lock v) \<Longrightarrow>
     vfs_section f v = bind_res (f (locked_vfs v)) (\<lambda>(x, w). Ok (x, vfs_unlock w))"
  by (simp add: with_lock_def vfs_lock_def spinlock_lock_def spin_held_def)

lemma vfs_unlock_locked: "\<not> spin_held (v_lock v) \<Longrightarrow> vfs_unlock (locked_vfs v) = v"
  by (simp add: vfs_unlock_def spin_held_def spinlock_unlock_def)

lemma vfs_unlock_upd [simp]:
  "vfs_unlock (v\<lparr>inode_table := t\<rparr>) = (vfs_unlock v)\<lparr>inode_table := t\<rparr>"
  "vfs_unlock (v\<lparr>fs_table := u\<rparr>) = (vfs_unlock v)\<lparr>fs_table := u\<rparr>"
  "vfs_unlock (v\<lparr>fd_table := w\<rparr>) = (vfs_unlock v)\<lparr>fd_table := w\<rparr>"
  "vfs_unlock (v\<lparr>inode_counter := c\<rparr>) = (vfs_unlock v)\<lparr>inode_counter := c\<rparr>"
  "vfs_unlock (v\<lparr>fs_counter := c\<rparr>) = (vfs_unlock v)\<lparr>fs_counter := c\<rparr>"
  "vfs_unlock (v\<lparr>fd_counter := c\<rparr>) = (vfs_unlock v)\<lparr>fd_counter := c\<rparr>"
  "vfs_unlock (v\<lparr>vfs_root := c\<rparr>) = (vfs_unlock v)\<lparr>vfs_root := c\<rparr>"
  by (simp_all add: vfs_unlock_def)

lemma vfs_inv_unlocked: "vfs_inv v \<Longrightarrow> \<not> spin_held (v_lock v)"
  by (simp add: vfs_inv_def)

lemmas vfs_run = vfs_section_run [OF vfs_inv_unlocked] vfs_unlock_locked [OF vfs_inv_unlocked]

subsection \<open>Lookup\<close>

lemma find_child_from_spec:
  assumes "vec_inv ch" "\<forall>c\<in>set (vec_list ch). is_cstr (ic_name c)" "is_cstr name" "cstr name \<noteq> []"
    "i \<le> vec_size ch"
  shows "find_child_from ch (Some name) i =
    Ok (case map_of (map (\<lambda>c. (cstr (ic_name c), ic_inode c)) (drop i (vec_list ch))) (cstr name) of
          None \<Rightarrow> ID_INVALID | Some c \<Rightarrow> c)"
  using assms(5)
proof (induction "vec_size ch - i" arbitrary: i)
  case 0
  then have "drop i (vec_list ch) = []" using assms(1) by (simp add: vec.size_ok)
  then show ?case using 0 by (simp add: find_child_from.simps)
next
  case (Suc k)
  let ?c = "vec_list ch ! i"
  have i: "i < vec_size ch" using Suc.hyps(2) by simp
  then have len: "i < length (vec_list ch)" using assms(1) by (simp add: vec.size_ok)
  have get: "vec_get ch i = Ok ?c" using assms(1) len by (rule vec.nth_ok)
  have eq: "str_equal (ic_name ?c) name = Ok (cstr (ic_name ?c) = cstr name)"
    using assms(2-4) len by (intro str_equal_cstr) auto
  have drop: "drop i (vec_list ch) = ?c # drop (Suc i) (vec_list ch)"
    using len by (simp add: Cons_nth_drop_Suc)
  show ?case
  proof (cases "cstr (ic_name ?c) = cstr name")
    case True
    then show ?thesis using i get eq drop by (subst find_child_from.simps) simp
  next
    case False
    have "find_child_from ch (Some name) i = find_child_from ch (Some name) (Suc i)"
      using i get eq False by (subst find_child_from.simps) simp
    then show ?thesis using Suc.hyps(1) [of "Suc i"] Suc.hyps(2) i drop False by simp
  qed
qed

lemma child_of_found:
  assumes "inodes_ok tab" "is_cstr name" "cstr name = take (FILENAME_MAX - 1) e" "cstr name \<noteq> []"
  shows "(case ht_lookup tab d of None \<Rightarrow> Ok ID_INVALID
      | Some n \<Rightarrow> find_child_from (children n) (Some name) 0) = Ok (child_of tab d e)"
proof (cases "ht_lookup tab d")
  case None
  then show ?thesis by (simp add: child_of_def entries_def)
next
  case (Some n)
  then have "names_ok n" using assms(1) by (simp add: inodes_ok_def)
  then show ?thesis
    using Some assms(2-4) find_child_from_spec [of "children n" name 0]
    by (simp add: names_ok_def child_of_def entries_def)
qed

lemma element_at_spec:
  assumes "is_cstr path"
  shows "i < length (path_elems (cstr path)) \<Longrightarrow>
      \<exists>b. element_at path i = Ok (Some b) \<and> is_cstr b \<and> length b = FILENAME_MAX \<and>
        cstr b = take (FILENAME_MAX - 1) (path_elems (cstr path) ! i) \<and> cstr b \<noteq> []"
    and "\<not> i < length (path_elems (cstr path)) \<Longrightarrow> element_at path i = Ok None"
proof -
  assume i: "i < length (path_elems (cstr path))"
  then have ne: "path_elems (cstr path) ! i \<noteq> []" using path_elems_not_Nil nth_mem by blast
  have F: "0 < FILENAME_MAX - 1" by (simp add: FILENAME_MAX_def)
  show "\<exists>b. element_at path i = Ok (Some b) \<and> is_cstr b \<and> length b = FILENAME_MAX \<and>
        cstr b = take (FILENAME_MAX - 1) (path_elems (cstr path) ! i) \<and> cstr b \<noteq> []"
    using path_element_get_spec(1) [OF assms, of "replicate FILENAME_MAX NUL" i] i ne F
    by (auto simp: element_at_def)
next
  assume "\<not> i < length (path_elems (cstr path))"
  then show "element_at path i = Ok None"
    using path_element_get_spec(2) [OF assms, of "replicate FILENAME_MAX NUL" i]
    by (simp add: element_at_def)
qed

text \<open>The loop of \<open>get_inode\<close> and \<open>mount\<close> follows the components of the path.\<close>

lemma vfs_walk_spec:
  assumes "inodes_ok tab" "is_cstr path" "limit \<le> length (path_elems (cstr path))" "i \<le> limit"
  shows "vfs_walk tab path limit i c =
    Ok (resolve tab c (drop i (take limit (path_elems (cstr path)))))"
  using assms(4)
proof (induction "limit - i" arbitrary: i c)
  case 0
  then show ?case using assms(3) by (simp add: vfs_walk.simps)
next
  case (Suc k)
  let ?es = "path_elems (cstr path)"
  have i: "i < limit" "i < length ?es" using Suc.hyps(2) assms(3) by simp_all
  obtain b where b: "element_at path i = Ok (Some b)" "is_cstr b"
      "cstr b = take (FILENAME_MAX - 1) (?es ! i)" "cstr b \<noteq> []"
    using element_at_spec(1) [OF assms(2) i(2)] by blast
  note found = child_of_found [OF assms(1) b(2,3,4), of c]
  have drop: "drop i (take limit ?es) = ?es ! i # drop (Suc i) (take limit ?es)"
    using i assms(3) by (subst Cons_nth_drop_Suc [symmetric]) auto
  show ?case
  proof (cases "child_of tab c (?es ! i) = ID_INVALID")
    case True
    then show ?thesis using i(1) b(1) found drop by (subst vfs_walk.simps) (simp add: Let_def)
  next
    case False
    then have "vfs_walk tab path limit i c = vfs_walk tab path limit (Suc i) (child_of tab c (?es ! i))"
      using i(1) b(1) found by (subst vfs_walk.simps) simp
    then show ?thesis using Suc.hyps(1) [of "Suc i"] Suc.hyps(2) i drop False by (simp add: Let_def)
  qed
qed

lemma get_inode_resolve:
  assumes "vfs_inv v" "is_cstr path"
  shows "get_inode path v = Ok (resolve (inode_table v) (vfs_root v) (path_elems (cstr path)), v)"
proof -
  have "inodes_ok (inode_table v)" using assms(1) by (simp add: vfs_inv_def)
  then show ?thesis
    using assms vfs_walk_spec [of "inode_table v" path "length (path_elems (cstr path))" 0 "vfs_root v"]
    by (simp add: get_inode_def vfs_run path_element_count_spec)
qed

subsection \<open>Mounting\<close>

lemma FILENAME_MAX_pos [simp]: "0 < FILENAME_MAX"
  by (simp add: FILENAME_MAX_def)

lemma ht_modify_Some:
  "ht_inv tab \<Longrightarrow> ht_lookup tab d = Some n \<Longrightarrow> ht_lookup (ht_modify tab d f) = (ht_lookup tab)(d \<mapsto> f n)"
  by (simp add: ht.lookup_modify)

lemma inodes_ok_modify:
  assumes "inodes_ok tab" "ht_lookup tab d = Some n" "names_ok (f n)"
  shows "inodes_ok (ht_modify tab d f)"
  using assms by (auto simp: inodes_ok_def ht.invar_modify ht_modify_Some split: if_splits)

lemma push_child_spec:
  assumes "inodes_ok (inode_table v)" "ht_lookup (inode_table v) d = Some n" "is_cstr nm"
  shows "\<exists>tab. push_child c (Some nm) d n v = Ok (v\<lparr>inode_table := tab\<rparr>) \<and> inodes_ok tab \<and>
    (\<forall>b. ht.below (inode_table v) b \<longrightarrow> ht.below tab b) \<and>
    entries tab = (entries (inode_table v))
      (d := entries (inode_table v) d @ [(take (FILENAME_MAX - 1) (cstr nm), c)]) \<and>
    (\<exists>ch. tab = ht_modify (inode_table v) d (\<lambda>n. n\<lparr>children := ch\<rparr>))"
proof -
  have inv: "ht_inv (inode_table v)" and nm: "names_ok n"
    using assms(1,2) by (auto simp: inodes_ok_def)
  obtain nm' where nm': "str_cpy_n nm (replicate FILENAME_MAX NUL) FILENAME_MAX = Ok nm'" "is_cstr nm'"
      "cstr nm' = take (FILENAME_MAX - 1) (cstr nm)"
    using str_cpy_n_ok [OF assms(3), of FILENAME_MAX "replicate FILENAME_MAX NUL"] by auto
  obtain ch where ch: "vec_push (children n) \<lparr>ic_inode = c, ic_name = nm'\<rparr> = Ok ch" "vec_inv ch"
      "vec_list ch = vec_list (children n) @ [\<lparr>ic_inode = c, ic_name = nm'\<rparr>]"
    using vec.push_ok nm by (metis names_ok_def)
  let ?tab = "ht_modify (inode_table v) d (\<lambda>n. n\<lparr>children := ch\<rparr>)"
  have "inodes_ok ?tab"
    using nm ch nm'(2) by (intro inodes_ok_modify [OF assms(1,2)]) (auto simp: names_ok_def)
  moreover have "entries ?tab = (entries (inode_table v))
      (d := entries (inode_table v) d @ [(take (FILENAME_MAX - 1) (cstr nm), c)])"
    using ht_modify_Some [OF inv assms(2)] ch(3) nm'(3) assms(2)
    by (intro ext) (simp add: entries_def)
  ultimately show ?thesis
    using nm'(1) ch(1) inv by (auto simp: push_child_def ht.below_modify)
qed

text \<open>Appending a name that was not there changes no path that resolved before.\<close>

lemma child_of_append:
  assumes "entries tab' = (entries tab)(d := entries tab d @ [(nm, c)])" "child_of tab x e \<noteq> ID_INVALID"
  shows "child_of tab' x e = child_of tab x e"
proof -
  obtain k where "map_of (entries tab x) (take (FILENAME_MAX - 1) e) = Some k"
    using assms(2) by (auto simp: child_of_def split: option.splits)
  then show ?thesis using assms(1) by (auto simp: child_of_def map_add_def)
qed

lemma resolve_append:
  assumes "entries tab' = (entries tab)(d := entries tab d @ [(nm, c)])" "resolve tab x es \<noteq> ID_INVALID"
  shows "resolve tab' x es = resolve tab x es"
  using assms(2)
proof (induction es arbitrary: x)
  case (Cons e es)
  then have "child_of tab x e \<noteq> ID_INVALID" by (auto simp: Let_def)
  then show ?case using Cons child_of_append [OF assms(1), of x e] by (simp add: Let_def)
qed simp

lemma resolve_snoc:
  "resolve tab x (es @ [e]) =
     (if resolve tab x es = ID_INVALID \<and> es \<noteq> [] then ID_INVALID else child_of tab (resolve tab x es) e)"
  by (induction es arbitrary: x) (auto simp: Let_def)

lemma child_of_fresh:
  assumes "entries tab' = (entries tab)(d := entries tab d @ [(take (FILENAME_MAX - 1) e, c)])"
    "take (FILENAME_MAX - 1) e \<notin> fst ` set (entries tab d)"
  shows "child_of tab' d e = c"
proof -
  have "map_of (entries tab d) (take (FILENAME_MAX - 1) e) = None"
    using assms(2) by (simp add: map_of_eq_None_iff)
  then show ?thesis using assms(1) by (simp add: child_of_def map_add_def)
qed

lemma mount_spec:
  assumes inv: "vfs_inv v" and path: "is_cstr path" "path_elems (cstr path) = es @ [e]"
  defines "d \<equiv> resolve (inode_table v) (vfs_root v) es"
  shows "d = ID_INVALID \<or> ht_lookup (inode_table v) d = None \<Longrightarrow> mount n path v = Ok (1, v)"
    and "d \<noteq> ID_INVALID \<Longrightarrow> ht_lookup (inode_table v) d = Some dir \<Longrightarrow>
      \<exists>tab. mount n path v = Ok (0, v\<lparr>inode_table := tab\<rparr>) \<and> vfs_inv (v\<lparr>inode_table := tab\<rparr>) \<and>
        entries tab = (entries (inode_table v))
          (d := entries (inode_table v) d @ [(take (FILENAME_MAX - 1) e, n)])"
proof -
  have tab: "inodes_ok (inode_table v)" using inv by (simp add: vfs_inv_def)
  have cnt: "path_element_count path = Ok (Suc (length es))" "size_dec (Suc (length es)) = length es"
    using path by (simp_all add: path_element_count_spec)
  have walk: "vfs_walk (inode_table v) path (length es) 0 (vfs_root v) = Ok d"
    using vfs_walk_spec [OF tab path(1), of "length es" 0] path(2) by (simp add: d_def)
  obtain b where b: "element_at path (length es) = Ok (Some b)" "is_cstr b"
      "cstr b = take (FILENAME_MAX - 1) e"
    using element_at_spec(1) [OF path(1), of "length es"] path(2) by auto
  show "mount n path v = Ok (1, v)" if "d = ID_INVALID \<or> ht_lookup (inode_table v) d = None"
    using that inv cnt walk b(1) by (auto simp: mount_def vfs_run)
  show "\<exists>tab. mount n path v = Ok (0, v\<lparr>inode_table := tab\<rparr>) \<and> vfs_inv (v\<lparr>inode_table := tab\<rparr>) \<and>
      entries tab = (entries (inode_table v))
        (d := entries (inode_table v) d @ [(take (FILENAME_MAX - 1) e, n)])"
    if d: "d \<noteq> ID_INVALID" "ht_lookup (inode_table v) d = Some dir"
  proof -
    obtain t where t: "push_child n (Some b) d dir (locked_vfs v) = Ok ((locked_vfs v)\<lparr>inode_table := t\<rparr>)"
        "inodes_ok t" "\<forall>b. ht.below (inode_table v) b \<longrightarrow> ht.below t b"
        "entries t = (entries (inode_table v))
          (d := entries (inode_table v) d @ [(take (FILENAME_MAX - 1) (cstr b), n)])"
      using push_child_spec [of "locked_vfs v" d dir b n] tab d(2) b(2) by auto
    have "mount n path v = Ok (0, v\<lparr>inode_table := t\<rparr>)"
      using inv cnt walk b(1) d t(1) by (simp add: mount_def vfs_run)
    moreover have "vfs_inv (v\<lparr>inode_table := t\<rparr>)" using inv t(2,3) by (simp add: vfs_inv_def)
    ultimately show ?thesis using t(4) b(3) by auto
  qed
qed

text \<open>
  Mounting under an existing directory and a fresh name: the path then leads to the mounted inode,
  and every path that led somewhere still leads there.
\<close>

lemma mount_then_get:
  assumes "vfs_inv v" "is_cstr path" "path_elems (cstr path) = es @ [e]"
    and "resolve (inode_table v) (vfs_root v) es = d" "d \<noteq> ID_INVALID"
    and "ht_lookup (inode_table v) d = Some dir"
    and "take (FILENAME_MAX - 1) e \<notin> fst ` set (entries (inode_table v) d)"
  shows "\<exists>v' tab. mount n path v = Ok (0, v') \<and> vfs_inv v' \<and> get_inode path v' = Ok (n, v') \<and>
    v' = v\<lparr>inode_table := tab\<rparr> \<and>
    entries tab = (entries (inode_table v))(d := entries (inode_table v) d @ [(take (FILENAME_MAX - 1) e, n)]) \<and>
    (\<forall>q x. is_cstr q \<and> get_inode q v = Ok (x, v) \<and> x \<noteq> ID_INVALID \<longrightarrow> get_inode q v' = Ok (x, v'))"
proof -
  obtain tab where t: "mount n path v = Ok (0, v\<lparr>inode_table := tab\<rparr>)" "vfs_inv (v\<lparr>inode_table := tab\<rparr>)"
      "entries tab = (entries (inode_table v))
        (d := entries (inode_table v) d @ [(take (FILENAME_MAX - 1) e, n)])"
    using mount_spec(2) [OF assms(1-3), of dir n] assms(4-6) by auto
  have "resolve tab (vfs_root v) es = d"
    using resolve_append [OF t(3), of "vfs_root v" es] assms(4,5) by simp
  then have "resolve tab (vfs_root v) (es @ [e]) = n"
    using assms(5) child_of_fresh [OF t(3) assms(7)] by (simp add: resolve_snoc)
  then have "get_inode path (v\<lparr>inode_table := tab\<rparr>) = Ok (n, v\<lparr>inode_table := tab\<rparr>)"
    using get_inode_resolve [OF t(2) assms(2)] assms(3) by simp
  moreover have "\<forall>q x. is_cstr q \<and> get_inode q v = Ok (x, v) \<and> x \<noteq> ID_INVALID \<longrightarrow>
      get_inode q (v\<lparr>inode_table := tab\<rparr>) = Ok (x, v\<lparr>inode_table := tab\<rparr>)"
    using get_inode_resolve [OF t(2)] get_inode_resolve [OF assms(1)] resolve_append [OF t(3)] by auto
  ultimately show ?thesis using t by blast
qed

text \<open>
  With an empty path the loop bound wraps around: once the root has an entry, its name is compared
  with a buffer nothing was written to.
\<close>

lemma mount_empty_path:
  assumes inv: "vfs_inv v" and path: "is_cstr path" "path_elems (cstr path) = []"
    and root: "ht_lookup (inode_table v) (vfs_root v) = Some dir" "vec_list (children dir) \<noteq> []"
  shows "mount n path v = Fail Uninit"
proof -
  have "names_ok dir" using inv root(1) by (auto simp: vfs_inv_def inodes_ok_def)
  then have size: "0 < vec_size (children dir)"
      "vec_get (children dir) 0 = Ok (vec_list (children dir) ! 0)"
    using root(2) by (simp_all add: names_ok_def vec.size_ok vec.nth_ok)
  have "element_at path 0 = Ok None" using element_at_spec(2) [OF path(1), of 0] path(2) by simp
  moreover have "find_child_from (children dir) None 0 = Fail Uninit"
    using size by (simp add: find_child_from.simps)
  moreover have "0 < size_dec 0" by (simp add: size_dec_def SIZE_MOD_def)
  ultimately have "vfs_walk (inode_table v) path (size_dec 0) 0 (vfs_root v) = Fail Uninit"
    using root(1) by (subst vfs_walk.simps) simp
  then show ?thesis using inv path by (simp add: mount_def vfs_run path_element_count_spec)
qed

subsection \<open>Creating and deleting\<close>

lemma unat_succ: "Suc (unat c) < 2 ^ 64 \<Longrightarrow> unat (c + 1 :: 64 word) = Suc (unat c)"
  by (subst unat_add_lem [THEN iffD1]) simp_all

lemma names_ok_default: "names_ok ((inode_default ty)\<lparr>i_id := c, i_vtable := None\<rparr>)"
  by (simp add: names_ok_def inode_default_def vec.invar_new vec.elems_new)

lemma create_inode_run:
  assumes "vfs_inv v"
  shows "create_inode ty v = Ok (inode_counter v,
    v\<lparr>inode_counter := inode_counter v + 1,
      inode_table := snd (ht_add (inode_table v) (inode_counter v)
        ((inode_default ty)\<lparr>i_id := inode_counter v, i_vtable := None\<rparr>))\<rparr>)"
  using assms by (simp add: create_inode_def vfs_run Let_def)

lemma inodes_ok_add:
  assumes "inodes_ok tab" "ht_lookup tab k = None" "names_ok n"
  shows "inodes_ok (snd (ht_add tab k n))"
proof (cases "ht_size tab < HASHTABLE_CAPACITY")
  case True
  then show ?thesis using assms
    by (auto simp: inodes_ok_def ht.invar_add ht.lookup_add split: if_splits)
next
  case False
  then show ?thesis using assms by (simp add: inodes_ok_def ht.add_full)
qed

lemma create_inode_inv:
  assumes "vfs_inv v" "Suc (unat (inode_counter v)) < 2 ^ 64"
  shows "\<exists>v'. create_inode ty v = Ok (inode_counter v, v') \<and> vfs_inv v'"
proof -
  have fresh: "ht_lookup (inode_table v) (inode_counter v) = None"
    using assms(1) by (intro ht.below_fresh) (simp add: vfs_inv_def)
  have tab: "inodes_ok (inode_table v)" using assms(1) by (simp add: vfs_inv_def)
  then show ?thesis
    using create_inode_run [OF assms(1), of ty] assms inodes_ok_add [OF tab fresh names_ok_default]
    by (auto simp: vfs_inv_def unat_succ inodes_ok_def ht.below_add)
qed

text \<open>
  The new inode is found under the returned id as long as the table has a free slot; in a full table
  the id is returned all the same and nothing is stored.
\<close>

lemma create_inode_lookup:
  assumes "vfs_inv v" "create_inode ty v = Ok (nid, v')"
  shows "ht_size (inode_table v) < HASHTABLE_CAPACITY \<Longrightarrow>
      ht_lookup (inode_table v') = (ht_lookup (inode_table v))
        (nid \<mapsto> (inode_default ty)\<lparr>i_id := nid, i_vtable := None\<rparr>)"
    and "\<not> ht_size (inode_table v) < HASHTABLE_CAPACITY \<Longrightarrow> ht_lookup (inode_table v') nid = None"
proof -
  have t: "ht_inv (inode_table v)" "ht.below (inode_table v) (unat (inode_counter v))"
    using assms(1) by (simp_all add: vfs_inv_def inodes_ok_def)
  have r: "nid = inode_counter v" "inode_table v' = snd (ht_add (inode_table v) nid
      ((inode_default ty)\<lparr>i_id := nid, i_vtable := None\<rparr>))"
    using create_inode_run [OF assms(1), of ty] assms(2) by auto
  show "ht_size (inode_table v) < HASHTABLE_CAPACITY \<Longrightarrow>
      ht_lookup (inode_table v') = (ht_lookup (inode_table v))
        (nid \<mapsto> (inode_default ty)\<lparr>i_id := nid, i_vtable := None\<rparr>)"
    using t r by (simp add: ht.fresh_add_lookup)
  show "\<not> ht_size (inode_table v) < HASHTABLE_CAPACITY \<Longrightarrow> ht_lookup (inode_table v') nid = None"
    using t r by (simp add: ht.fresh_add_full_lost)
qed

lemma create_fd_run:
  assumes "vfs_inv v"
  shows "create_fd ino v = Ok (fd_counter v,
    v\<lparr>fd_counter := fd_counter v + 1,
      fd_table := snd (ht_add (fd_table v) (fd_counter v)
        \<lparr>d_id = fd_counter v, d_inode = ino, d_mode = 0xFF, d_offset = 0\<rparr>)\<rparr>)"
  using assms by (simp add: create_fd_def vfs_run Let_def)

lemma create_fd_inv:
  assumes "vfs_inv v" "Suc (unat (fd_counter v)) < 2 ^ 64"
  shows "\<exists>v'. create_fd ino v = Ok (fd_counter v, v') \<and> vfs_inv v' \<and>
    (ht_size (fd_table v) < HASHTABLE_CAPACITY \<longrightarrow> ht_lookup (fd_table v') = (ht_lookup (fd_table v))
      (fd_counter v \<mapsto> \<lparr>d_id = fd_counter v, d_inode = ino, d_mode = 0xFF, d_offset = 0\<rparr>)) \<and>
    inode_table v' = inode_table v \<and> vfs_root v' = vfs_root v"
proof -
  have t: "ht_inv (fd_table v)" "ht.below (fd_table v) (unat (fd_counter v))"
    using assms(1) by (simp_all add: vfs_inv_def)
  have "ht_inv (snd (ht_add (fd_table v) (fd_counter v) x))" for x
    using t by (simp add: ht.invar_add ht.below_fresh)
  then show ?thesis
    using create_fd_run [OF assms(1), of ino] assms t
    by (simp add: vfs_inv_def unat_succ ht.below_add ht.fresh_add_lookup)
qed

lemma delete_inode_inv:
  "vfs_inv v \<Longrightarrow> \<exists>v'. delete_inode k v = Ok (if ht_lookup (inode_table v) k \<noteq> None then 0 else 1, v') \<and>
     vfs_inv v' \<and> ht_lookup (inode_table v') = (ht_lookup (inode_table v))(k := None)"
  by (auto simp: delete_inode_def vfs_run vfs_inv_def inodes_ok_def ht.invar_remove ht.lookup_remove
      ht.remove_result ht.below_remove case_prod_unfold split: if_splits)

lemma delete_fs_inv:
  "vfs_inv v \<Longrightarrow> \<exists>v'. delete_fs k v = Ok (if ht_lookup (fs_table v) k \<noteq> None then 0 else 1, v') \<and>
     vfs_inv v' \<and> ht_lookup (fs_table v') = (ht_lookup (fs_table v))(k := None)"
  by (auto simp: delete_fs_def vfs_run vfs_inv_def fs_names_ok_def ht.invar_remove ht.lookup_remove
      ht.remove_result ht.below_remove case_prod_unfold split: if_splits)

lemma delete_fd_inv:
  "vfs_inv v \<Longrightarrow> \<exists>v'. delete_fd k v = Ok (if ht_lookup (fd_table v) k \<noteq> None then 0 else 1, v') \<and>
     vfs_inv v' \<and> ht_lookup (fd_table v') = (ht_lookup (fd_table v))(k := None) \<and> (\<exists>t. v' = v\<lparr>fd_table := t\<rparr>)"
  by (auto simp: delete_fd_def vfs_run vfs_inv_def ht.invar_remove ht.lookup_remove
      ht.remove_result ht.below_remove case_prod_unfold split: if_splits)

subsection \<open>Setters and getters\<close>

lemma inode_update_inv:
  assumes "vfs_inv v" "\<And>n. children (f n) = children n"
  shows "\<exists>v'. inode_update k f v = Ok (if ht_lookup (inode_table v) k = None then 1 else 0, v') \<and>
    vfs_inv v' \<and> ht_lookup (inode_table v') =
      (ht_lookup (inode_table v))(k := map_option f (ht_lookup (inode_table v) k)) \<and>
    entries (inode_table v') = entries (inode_table v) \<and> vfs_root v' = vfs_root v \<and>
    fd_table v' = fd_table v \<and> fs_table v' = fs_table v \<and> (\<exists>tab. v' = v\<lparr>inode_table := tab\<rparr>)"
proof (cases "ht_lookup (inode_table v) k")
  case None
  have "\<exists>tab. v = v\<lparr>inode_table := tab\<rparr>" by (rule exI [of _ "inode_table v"]) simp
  then show ?thesis using None assms(1) by (simp add: inode_update_def vfs_run fun_upd_idem)
next
  case (Some n)
  have tab: "inodes_ok (inode_table v)" "ht_inv (inode_table v)"
    using assms(1) by (simp_all add: vfs_inv_def inodes_ok_def)
  let ?t = "ht_modify (inode_table v) k f"
  have look: "ht_lookup ?t = (ht_lookup (inode_table v))(k \<mapsto> f n)"
    using tab(2) Some by (rule ht_modify_Some)
  have "names_ok (f n)" using tab(1) Some assms(2) by (simp add: inodes_ok_def names_ok_def)
  then have "inodes_ok ?t" using inodes_ok_modify [OF tab(1) Some] by blast
  then have "vfs_inv (v\<lparr>inode_table := ?t\<rparr>)"
    using assms(1) tab(2) by (simp add: vfs_inv_def ht.below_modify)
  moreover have "entries ?t = entries (inode_table v)"
    using look Some assms(2) by (intro ext) (simp add: entries_def)
  ultimately show ?thesis
    using assms(1) Some look
    by (intro exI [of _ "v\<lparr>inode_table := ?t\<rparr>"]) (auto simp: inode_update_def vfs_run)
qed

lemma fd_update_inv:
  assumes "vfs_inv v"
  shows "\<exists>v'. fd_update k f v = Ok (if ht_lookup (fd_table v) k = None then 1 else 0, v') \<and>
    vfs_inv v' \<and> ht_lookup (fd_table v') =
      (ht_lookup (fd_table v))(k := map_option f (ht_lookup (fd_table v) k)) \<and>
    inode_table v' = inode_table v \<and> fs_table v' = fs_table v \<and> vfs_root v' = vfs_root v"
proof (cases "ht_lookup (fd_table v) k")
  case None
  then show ?thesis using assms by (auto simp: fd_update_def vfs_run fun_upd_idem)
next
  case (Some d)
  then show ?thesis
    using assms by (auto simp: fd_update_def vfs_run vfs_inv_def ht.invar_modify ht.below_modify
        ht.lookup_modify)
qed

lemma fs_set_root_inv:
  assumes "vfs_inv v"
  shows "\<exists>v'. fs_set_root k r v = Ok (if ht_lookup (fs_table v) k = None then 1 else 0, v') \<and> vfs_inv v'"
  using assms
  by (auto simp: fs_set_root_def vfs_run vfs_inv_def fs_names_ok_def ht.invar_modify ht.below_modify
      ht.lookup_modify split: option.splits if_splits)

lemma fs_set_name_inv:
  assumes "vfs_inv v" "is_cstr name"
  shows "\<exists>v'. fs_set_name k name v = Ok (if ht_lookup (fs_table v) k = None then 1 else 0, v') \<and>
    vfs_inv v'"
proof (cases "ht_lookup (fs_table v) k")
  case None
  then show ?thesis using assms by (simp add: fs_set_name_def vfs_run)
next
  case (Some f)
  then have "length (f_name f) = FS_NAME_MAX" using assms(1) by (auto simp: vfs_inv_def fs_names_ok_def)
  then obtain b where b: "str_cpy_n name (f_name f) FS_NAME_MAX = Ok b" "length b = FS_NAME_MAX" "is_cstr b"
    using str_cpy_n_ok [OF assms(2), of FS_NAME_MAX "f_name f"] by (auto simp: FS_NAME_MAX_def)
  then show ?thesis
    using Some assms(1)
    by (auto simp: fs_set_name_def vfs_run vfs_inv_def fs_names_ok_def ht.invar_modify ht.below_modify
        ht.lookup_modify split: if_splits)
qed

lemma set_root_run: "vfs_inv v \<Longrightarrow> set_root r v = Ok (0, v\<lparr>vfs_root := r\<rparr>)"
  by (simp add: set_root_def vfs_run)

lemma get_root_run: "vfs_inv v \<Longrightarrow> get_root v = Ok (vfs_root v, v)"
  by (simp add: get_root_def vfs_run)

lemma inode_getters_run:
  assumes "vfs_inv v"
  shows "inode_get_type k v = Ok (case ht_lookup (inode_table v) k of
      None \<Rightarrow> (1, NORMAL_FILE) | Some n \<Rightarrow> (0, i_type n), v)"
    "inode_get_vtable k v = Ok (case ht_lookup (inode_table v) k of
      None \<Rightarrow> (1, None) | Some n \<Rightarrow> (0, i_vtable n), v)"
    "inode_get_children k v = Ok (length (entries (inode_table v) k), v)"
proof -
  have "vec_size (children n) = length (vec_list (children n))" if "ht_lookup (inode_table v) k = Some n" for n
    using assms that vec.size_ok by (metis vfs_inv_def inodes_ok_def names_ok_def)
  then show "inode_get_children k v = Ok (length (entries (inode_table v) k), v)"
    using assms by (auto simp: inode_get_children_def vfs_run entries_def split: option.splits)
qed (use assms in \<open>auto simp: inode_get_type_def inode_get_vtable_def vfs_run split: option.splits\<close>)

lemma fd_getters_run:
  assumes "vfs_inv v"
  shows "fd_get_inode k v = Ok (case ht_lookup (fd_table v) k of None \<Rightarrow> ID_INVALID | Some d \<Rightarrow> d_inode d, v)"
    "fd_get_offset k v = Ok (case ht_lookup (fd_table v) k of None \<Rightarrow> 0 | Some d \<Rightarrow> d_offset d, v)"
  using assms by (auto simp: fd_get_inode_def fd_get_offset_def vfs_run split: option.splits)

lemma inode_get_child_run:
  assumes "vfs_inv v" "is_cstr name" "cstr name \<noteq> []" "length (cstr name) < FILENAME_MAX"
  shows "inode_get_child k name v = Ok (child_of (inode_table v) k (cstr name), v)"
proof -
  have tab: "inodes_ok (inode_table v)" using assms(1) by (simp add: vfs_inv_def)
  have "cstr name = take (FILENAME_MAX - 1) (cstr name)" using assms(4) by simp
  note child_of_found [OF tab assms(2) this assms(3), of k]
  then show ?thesis using assms(1)
    by (cases "ht_lookup (inode_table v) k") (simp_all add: inode_get_child_def vfs_run)
qed

lemma inode_mount_child_spec:
  assumes "vfs_inv v" "is_cstr name" "ht_lookup (inode_table v) k = Some n"
  shows "\<exists>tab. inode_mount_child k c name v = Ok (0, v\<lparr>inode_table := tab\<rparr>) \<and>
    vfs_inv (v\<lparr>inode_table := tab\<rparr>) \<and>
    entries tab = (entries (inode_table v))
      (k := entries (inode_table v) k @ [(take (FILENAME_MAX - 1) (cstr name), c)]) \<and>
    (\<exists>ch. tab = ht_modify (inode_table v) k (\<lambda>n. n\<lparr>children := ch\<rparr>))"
proof -
  obtain t where t: "push_child c (Some name) k n (locked_vfs v) = Ok ((locked_vfs v)\<lparr>inode_table := t\<rparr>)"
      "inodes_ok t" "\<forall>b. ht.below (inode_table v) b \<longrightarrow> ht.below t b"
      "entries t = (entries (inode_table v))
        (k := entries (inode_table v) k @ [(take (FILENAME_MAX - 1) (cstr name), c)])"
      "\<exists>ch. t = ht_modify (inode_table v) k (\<lambda>n. n\<lparr>children := ch\<rparr>)"
    using push_child_spec [of "locked_vfs v" k n name c] assms by (auto simp: vfs_inv_def)
  moreover have "vfs_inv (v\<lparr>inode_table := t\<rparr>)" using assms(1) t(2,3) by (simp add: vfs_inv_def)
  ultimately show ?thesis using assms(1,3) by (auto simp: inode_mount_child_def vfs_run)
qed

lemma inode_mount_child_none:
  "vfs_inv v \<Longrightarrow> ht_lookup (inode_table v) k = None \<Longrightarrow> inode_mount_child k c name v = Ok (1, v)"
  by (simp add: inode_mount_child_def vfs_run)

subsection \<open>File systems\<close>

lemma create_fs_spec:
  assumes "vfs_inv v" "is_cstr name" "Suc (unat (inode_counter v)) < 2 ^ 64"
    "Suc (unat (fs_counter v)) < 2 ^ 64"
  shows "\<exists>v'. create_fs name v = Ok (fs_counter v, v') \<and> vfs_inv v' \<and> vfs_root v' = vfs_root v \<and>
    (ht_size (fs_table v) < HASHTABLE_CAPACITY \<longrightarrow> (\<exists>f. ht_lookup (fs_table v') (fs_counter v) = Some f \<and>
       f_root f = inode_counter v \<and> cstr (f_name f) = take (FS_NAME_MAX - 1) (cstr name))) \<and>
    inode_counter v' = inode_counter v + 1 \<and> fd_table v' = fd_table v \<and> fd_counter v' = fd_counter v \<and>
    (ht_size (inode_table v) < HASHTABLE_CAPACITY \<longrightarrow> entries (inode_table v') = entries (inode_table v) \<and>
      (\<exists>n. ht_lookup (inode_table v') = (ht_lookup (inode_table v))(inode_counter v \<mapsto> n)))"
proof -
  obtain v1 where v1: "create_inode DIRECTORY v = Ok (inode_counter v, v1)" "vfs_inv v1"
    using create_inode_inv [OF assms(1,3)] by blast
  have v1_eq: "fs_table v1 = fs_table v" "fs_counter v1 = fs_counter v" "vfs_root v1 = vfs_root v"
      "inode_counter v1 = inode_counter v + 1" "fd_table v1 = fd_table v" "fd_counter v1 = fd_counter v"
    using create_inode_run [OF assms(1), of DIRECTORY] v1(1) by auto
  obtain nm where nm: "str_cpy_n name (replicate FS_NAME_MAX NUL) FS_NAME_MAX = Ok nm"
      "length nm = FS_NAME_MAX" "is_cstr nm" "cstr nm = take (FS_NAME_MAX - 1) (cstr name)"
    using str_cpy_n_ok [OF assms(2), of FS_NAME_MAX "replicate FS_NAME_MAX NUL"]
    by (auto simp: FS_NAME_MAX_def)
  let ?nfs = "\<lparr>f_id = fs_counter v, f_name = nm, f_root = inode_counter v\<rparr>"
  define v2 where "v2 = v1\<lparr>fs_counter := fs_counter v + 1,
    fs_table := snd (ht_add (fs_table v) (fs_counter v) ?nfs)\<rparr>"
  have fst_ok: "fs_names_ok (fs_table v)" "ht_inv (fs_table v)" "ht.below (fs_table v) (unat (fs_counter v))"
    using assms(1) by (simp_all add: vfs_inv_def fs_names_ok_def)
  have fresh: "ht_lookup (fs_table v) (fs_counter v) = None" using fst_ok(3) by (rule ht.below_fresh)
  have "fs_names_ok (snd (ht_add (fs_table v) (fs_counter v) ?nfs))"
  proof (cases "ht_size (fs_table v) < HASHTABLE_CAPACITY")
    case True
    then show ?thesis using fst_ok fresh nm
      by (auto simp: fs_names_ok_def ht.invar_add ht.lookup_add split: if_splits)
  next
    case False
    then show ?thesis using fst_ok by (simp add: ht.add_full)
  qed
  then have inv2: "vfs_inv v2"
    using v1(2) v1_eq fst_ok assms(4) by (simp add: v2_def vfs_inv_def unat_succ ht.below_add)
  obtain v3 where v3: "inode_set_fs (inode_counter v) (fs_counter v) v2 =
      Ok (if ht_lookup (inode_table v2) (inode_counter v) = None then 1 else 0, v3)"
      "vfs_inv v3" "vfs_root v3 = vfs_root v2" "fs_table v3 = fs_table v2" "inode_counter v3 = inode_counter v2"
      "fd_table v3 = fd_table v2" "fd_counter v3 = fd_counter v2" "entries (inode_table v3) = entries (inode_table v2)" "ht_lookup (inode_table v3) = (ht_lookup (inode_table v2))
        (inode_counter v := map_option (\<lambda>n. n\<lparr>i_fs := fs_counter v\<rparr>) (ht_lookup (inode_table v2) (inode_counter v)))"
    using inode_update_inv [OF inv2, of "\<lambda>n. n\<lparr>i_fs := fs_counter v\<rparr>" "inode_counter v"]
    unfolding inode_set_fs_def by auto
  have tab: "entries (inode_table v3) = entries (inode_table v) \<and>
      (\<exists>n. ht_lookup (inode_table v3) = (ht_lookup (inode_table v))(inode_counter v \<mapsto> n))"
    if "ht_size (inode_table v) < HASHTABLE_CAPACITY"
  proof -
    have "ht_lookup (inode_table v) (inode_counter v) = None"
      using assms(1) by (intro ht.below_fresh) (simp add: vfs_inv_def)
    moreover note l1 = create_inode_lookup(1) [OF assms(1) v1(1) that]
    ultimately have "entries (inode_table v1) = entries (inode_table v)"
      by (intro ext) (simp add: entries_def inode_default_def vec.elems_new)
    then show ?thesis using l1 v3(8,9) by (auto simp: v2_def)
  qed
  have "create_fs name v = Ok (fs_counter v, v3)"
    using v1 v1_eq nm(1) v3(1) by (simp add: create_fs_def vfs_run Let_def v2_def)
  moreover have "\<exists>f. ht_lookup (fs_table v3) (fs_counter v) = Some f \<and> f_root f = inode_counter v \<and>
      cstr (f_name f) = take (FS_NAME_MAX - 1) (cstr name)" if "ht_size (fs_table v) < HASHTABLE_CAPACITY"
    using that v3(4) fst_ok nm(4) by (simp add: v2_def ht.fresh_add_lookup)
  ultimately show ?thesis using v3(2,3,5-7) v1_eq tab by (auto simp: v2_def)
qed

end
