(* ===== verification/Queue.thy ===== *)
theory Queue
  imports Prelude
begin

text \<open>
  The ring buffer of \<open>include/tupai/util/queue.hpp\<close> (\<open>_queue_t<T, S, N>\<close>), used for the scheduler's
  run queue and inside every FIFO and pipe. \<open>N\<close> is the length of \<open>items\<close>; \<open>head\<close> is the index of the
  newest item and \<open>tail\<close> that of the oldest. \<open>qlen\<close> is a \<open>size_t\<close>: popping an empty queue wraps it.
  The volatile and the plain overloads of \<open>push\<close> and \<open>pop\<close> have the same text and one model.

  The locale \<open>bounded_fifo\<close> is the contract over the list of stored items: a push appends and, when
  the buffer is full, drops the oldest item; a pop takes the oldest.
\<close>

section \<open>The ring\<close>

record 'a queue =
  items :: "'a list"
  head :: nat
  tail :: nat
  qlen :: nat

definition q_empty :: "'a list \<Rightarrow> 'a queue" where
  "q_empty raw = \<lparr>items = raw, head = 0, tail = 0, qlen = 0\<rparr>"

definition q_push :: "'a queue \<Rightarrow> 'a \<Rightarrow> 'a queue" where
  "q_push q item =
     (let N = length (items q);
          q1 = (if qlen q \<noteq> 0
                then let q' = q\<lparr>head := (head q + 1) mod N\<rparr>
                     in if head q' = tail q' then q'\<lparr>tail := (tail q' + 1) mod N\<rparr> else q'
                else q);
          q2 = q1\<lparr>items := (items q1)[head q1 := item]\<rparr>
      in if qlen q2 < N then q2\<lparr>qlen := qlen q2 + 1\<rparr> else q2)"

definition q_pop :: "'a queue \<Rightarrow> 'a \<times> 'a queue" where
  "q_pop q =
     (let N = length (items q);
          q1 = q\<lparr>qlen := size_dec (qlen q)\<rparr>;
          item = items q1 ! tail q1
      in (item, if qlen q1 \<noteq> 0 then q1\<lparr>tail := (tail q1 + 1) mod N\<rparr> else q1))"

definition q_len :: "'a queue \<Rightarrow> nat" where
  "q_len q = qlen q"

section \<open>The contract\<close>

locale bounded_fifo =
  fixes push :: "'q \<Rightarrow> 'a \<Rightarrow> 'q"
    and pop :: "'q \<Rightarrow> 'a \<times> 'q"
    and len :: "'q \<Rightarrow> nat"
    and cap :: "'q \<Rightarrow> nat"
    and contents :: "'q \<Rightarrow> 'a list"
    and invar :: "'q \<Rightarrow> bool"
  assumes invar_push: "invar q \<Longrightarrow> invar (push q x)"
    and invar_pop: "invar q \<Longrightarrow> contents q \<noteq> [] \<Longrightarrow> invar (snd (pop q))"
    and push_room: "invar q \<Longrightarrow> len q < cap q \<Longrightarrow> contents (push q x) = contents q @ [x]"
    and push_full: "invar q \<Longrightarrow> len q = cap q \<Longrightarrow> contents (push q x) = tl (contents q) @ [x]"
    and pop_item: "invar q \<Longrightarrow> contents q \<noteq> [] \<Longrightarrow> fst (pop q) = hd (contents q)"
    and pop_rest: "invar q \<Longrightarrow> contents q \<noteq> [] \<Longrightarrow> contents (snd (pop q)) = tl (contents q)"
    and len_contents: "invar q \<Longrightarrow> len q = length (contents q)"
    and len_cap: "invar q \<Longrightarrow> len q \<le> cap q"
    and cap_push: "cap (push q x) = cap q"
    and cap_pop: "cap (snd (pop q)) = cap q"
    and cap_pos: "invar q \<Longrightarrow> 0 < cap q"
begin

text \<open>Pushing a sequence keeps its last \<open>cap\<close> items, in order.\<close>

definition push_all :: "'q \<Rightarrow> 'a list \<Rightarrow> 'q" where
  "push_all q xs = foldl push q xs"

definition last_n :: "nat \<Rightarrow> 'b list \<Rightarrow> 'b list" where
  "last_n n xs = drop (length xs - n) xs"

lemma push_contents:
  assumes "invar q"
  shows "contents (push q x) = last_n (cap q) (contents q @ [x])"
proof (cases "len q < cap q")
  case True
  then show ?thesis using assms by (simp add: push_room last_n_def len_contents)
next
  case False
  then have eq: "len q = cap q" using len_cap [OF assms] by simp
  then have l: "length (contents q) = cap q" using len_contents [OF assms] by simp
  then show ?thesis
    using push_full [OF assms eq] cap_pos [OF assms] by (simp add: last_n_def drop_Suc)
qed

lemma last_n_append_last_n: "last_n n (last_n n xs @ ys) = last_n n (xs @ ys)"
  by (cases "n \<le> length xs") (auto simp: last_n_def add.commute)

lemma push_all_contents:
  assumes "invar q"
  shows "invar (push_all q xs) \<and> cap (push_all q xs) = cap q \<and>
    contents (push_all q xs) = last_n (cap q) (contents q @ xs)"
  using assms
proof (induction xs rule: rev_induct)
  case Nil
  then show ?case using len_cap [OF assms] len_contents [OF assms] by (simp add: push_all_def last_n_def)
next
  case (snoc x xs)
  then have IH: "invar (push_all q xs)" "cap (push_all q xs) = cap q"
      "contents (push_all q xs) = last_n (cap q) (contents q @ xs)" by auto
  have "push_all q (xs @ [x]) = push (push_all q xs) x" by (simp add: push_all_def)
  then show ?case
    using IH push_contents [OF IH(1), of x] invar_push [OF IH(1)] cap_push
    by (simp add: last_n_append_last_n)
qed

text \<open>Taking the oldest item and pushing it back rotates the queue.\<close>

lemma rotate1_contents:
  assumes "invar q" "contents q \<noteq> []"
  shows "contents (push (snd (pop q)) (fst (pop q))) = rotate1 (contents q)"
proof -
  have inv: "invar (snd (pop q))" using assms by (rule invar_pop)
  have "len (snd (pop q)) < cap (snd (pop q))"
    using assms len_contents [OF inv] pop_rest [OF assms] len_contents [OF assms(1)] len_cap [OF assms(1)]
    by (cases "contents q") (auto simp: cap_pop)
  then show ?thesis
    using push_room [OF inv] pop_rest [OF assms] pop_item [OF assms] assms(2)
    by (cases "contents q") auto
qed

end

section \<open>The ring implements it\<close>

definition q_cap :: "'a queue \<Rightarrow> nat" where
  "q_cap q = length (items q)"

definition q_inv :: "'a queue \<Rightarrow> bool" where
  "q_inv q \<longleftrightarrow> 0 < q_cap q \<and> q_cap q < SIZE_MOD \<and> tail q < q_cap q \<and> qlen q \<le> q_cap q \<and>
     head q = (if qlen q = 0 then tail q else (tail q + (qlen q - 1)) mod q_cap q)"

definition q_list :: "'a queue \<Rightarrow> 'a list" where
  "q_list q = map (\<lambda>i. items q ! ((tail q + i) mod q_cap q)) [0..<qlen q]"

lemma length_q_list [simp]: "length (q_list q) = qlen q"
  by (simp add: q_list_def)

lemma q_list_Nil [simp]: "q_list q = [] \<longleftrightarrow> qlen q = 0"
  by (simp add: q_list_def)

lemma q_cap_push [simp]: "q_cap (q_push q x) = q_cap q"
  by (simp add: q_cap_def q_push_def Let_def)

lemma q_cap_pop [simp]: "q_cap (snd (q_pop q)) = q_cap q"
  by (simp add: q_cap_def q_pop_def Let_def)

text \<open>The three situations of a push: empty, with room, and full.\<close>

lemma q_push_empty:
  assumes "q_inv q" "qlen q = 0"
  shows "q_push q x = q\<lparr>items := (items q)[tail q := x], qlen := 1\<rparr>"
  using assms by (simp add: q_push_def q_inv_def q_cap_def Let_def)

lemma q_push_room:
  assumes "q_inv q" "0 < qlen q" "qlen q < q_cap q"
  shows "q_push q x = q\<lparr>items := (items q)[(tail q + qlen q) mod q_cap q := x],
    head := (tail q + qlen q) mod q_cap q, qlen := Suc (qlen q)\<rparr>"
proof -
  have h: "(head q + 1) mod q_cap q = (tail q + qlen q) mod q_cap q"
    using assms by (simp add: q_inv_def mod_Suc_eq)
  have "(tail q + qlen q) mod q_cap q \<noteq> (tail q + 0) mod q_cap q"
    using assms mod_add_left_inj [of "tail q" "qlen q" "q_cap q" 0] by auto
  then have "(tail q + qlen q) mod q_cap q \<noteq> tail q" using assms by (simp add: q_inv_def)
  then show ?thesis using assms h by (simp add: q_push_def q_cap_def Let_def)
qed

lemma q_push_full:
  assumes "q_inv q" "qlen q = q_cap q"
  shows "q_push q x = q\<lparr>items := (items q)[tail q := x], head := tail q,
    tail := (tail q + 1) mod q_cap q\<rparr>"
proof -
  have "(head q + 1) mod q_cap q = (tail q + q_cap q) mod q_cap q"
    using assms by (simp add: q_inv_def mod_Suc_eq)
  then have "(head q + 1) mod q_cap q = tail q" using assms by (simp add: q_inv_def)
  then show ?thesis using assms by (simp add: q_push_def q_cap_def q_inv_def Let_def)
qed

lemma mod_Suc_shift: "(Suc t mod N + k) mod N = (t + Suc k) mod (N::nat)"
  by (simp add: mod_simps)

lemma q_inv_push:
  assumes "q_inv q"
  shows "q_inv (q_push q x)"
proof -
  consider "qlen q = 0" | "0 < qlen q" "qlen q < q_cap q" | "qlen q = q_cap q"
    using assms by (force simp: q_inv_def)
  then show ?thesis
  proof cases
    case 1
    then show ?thesis using assms by (simp add: q_push_empty q_inv_def q_cap_def)
  next
    case 2
    then show ?thesis using assms by (simp add: q_push_room) (simp add: q_inv_def q_cap_def)
  next
    case 3
    have "(Suc (tail q) mod q_cap q + (q_cap q - 1)) mod q_cap q = (tail q + q_cap q) mod q_cap q"
      using assms mod_Suc_shift [of "tail q" "q_cap q" "q_cap q - 1"] by (simp add: q_inv_def)
    then have "tail q = (Suc (tail q) mod q_cap q + (q_cap q - 1)) mod q_cap q"
      using assms by (simp add: q_inv_def)
    then show ?thesis using assms 3 by (simp add: q_push_full) (simp add: q_inv_def q_cap_def)
  qed
qed

lemma q_list_push_room:
  assumes "q_inv q" "qlen q < q_cap q"
  shows "q_list (q_push q x) = q_list q @ [x]"
proof -
  let ?N = "q_cap q"
  let ?q = "q\<lparr>items := (items q)[(tail q + qlen q) mod ?N := x], head := (tail q + qlen q) mod ?N,
    qlen := Suc (qlen q)\<rparr>"
  have eq: "q_push q x = ?q"
    using assms q_push_room [OF assms(1) _ assms(2)] q_push_empty [OF assms(1)]
    by (cases "qlen q = 0") (auto simp: q_inv_def)
  have N: "0 < ?N" "length (items q) = ?N" using assms by (simp_all add: q_inv_def q_cap_def)
  have old: "(tail q + qlen q) mod ?N \<noteq> (tail q + i) mod ?N" if "i < qlen q" for i
    using that assms(2) mod_add_left_inj [of "tail q" "qlen q" ?N i] by auto
  have "q_cap ?q = ?N" by (simp add: q_cap_def)
  then have "q_list ?q = q_list q @ [x]"
    using N old by (simp add: q_list_def nth_list_update)
  then show ?thesis using eq by simp
qed

lemma q_list_push_full:
  assumes "q_inv q" "qlen q = q_cap q"
  shows "q_list (q_push q x) = tl (q_list q) @ [x]"
proof -
  let ?N = "q_cap q"
  let ?q = "q\<lparr>items := (items q)[tail q := x], head := tail q, tail := (tail q + 1) mod ?N\<rparr>"
  have N: "0 < ?N" "length (items q) = ?N" "tail q < ?N"
    using assms by (simp_all add: q_inv_def q_cap_def)
  have cap: "q_cap ?q = ?N" by (simp add: q_cap_def)
  have old: "(tail q + Suc i) mod ?N \<noteq> tail q" if "Suc i < ?N" for i
    using that N mod_add_left_inj [of "tail q" "Suc i" ?N 0] by auto
  have "q_list ?q = tl (q_list q) @ [x]"
  proof (rule nth_equalityI)
    show "length (q_list ?q) = length (tl (q_list q) @ [x])" using assms(2) N by simp
    fix i assume "i < length (q_list ?q)"
    then have i: "i < ?N" using assms(2) by simp
    have idx: "((tail q + 1) mod ?N + i) mod ?N = (tail q + Suc i) mod ?N"
      by (simp add: mod_simps)
    have lhs: "q_list ?q ! i = (items q)[tail q := x] ! ((tail q + Suc i) mod ?N)"
      using i assms(2) cap idx by (simp add: q_list_def)
    show "q_list ?q ! i = (tl (q_list q) @ [x]) ! i"
    proof (cases "Suc i < ?N")
      case True
      have "(tl (q_list q) @ [x]) ! i = q_list q ! Suc i"
        using True assms(2) by (simp add: nth_append nth_tl less_diff_conv)
      also have "\<dots> = items q ! ((tail q + Suc i) mod ?N)"
        using True assms(2) by (simp add: q_list_def)
      finally show ?thesis using lhs old [OF True] by simp
    next
      case False
      then have "Suc i = ?N" using i by simp
      then have "(tail q + Suc i) mod ?N = tail q" using N by simp
      moreover have "\<not> i < ?N - 1" "i - (?N - 1) = 0" using \<open>Suc i = ?N\<close> by linarith+
      ultimately show ?thesis using lhs N assms(2) by (simp add: nth_append)
    qed
  qed
  then show ?thesis using q_push_full [OF assms] by simp
qed

lemma q_pop_item: "q_inv q \<Longrightarrow> q_list q \<noteq> [] \<Longrightarrow> fst (q_pop q) = hd (q_list q)"
  by (simp add: q_pop_def Let_def q_list_def hd_map q_inv_def)

lemma q_list_pop:
  assumes "q_inv q" "q_list q \<noteq> []"
  shows "q_list (snd (q_pop q)) = tl (q_list q)"
proof (rule nth_equalityI)
  have pos: "0 < qlen q" using assms(2) by simp
  then have len: "qlen (snd (q_pop q)) = qlen q - 1" by (simp add: q_pop_def Let_def)
  then show "length (q_list (snd (q_pop q))) = length (tl (q_list q))" by simp
  fix i assume "i < length (q_list (snd (q_pop q)))"
  then have i: "Suc i < qlen q" using len by simp
  have "((tail q + 1) mod q_cap q + i) mod q_cap q = (tail q + Suc i) mod q_cap q"
    by (simp add: mod_simps)
  then show "q_list (snd (q_pop q)) ! i = tl (q_list q) ! i"
    using i pos by (simp add: q_list_def nth_tl q_pop_def Let_def q_cap_def)
qed

lemma q_inv_pop:
  assumes "q_inv q" "q_list q \<noteq> []"
  shows "q_inv (snd (q_pop q))"
proof -
  have pos: "0 < qlen q" using assms(2) by simp
  have "(Suc (tail q) mod q_cap q + (qlen q - 2)) mod q_cap q = (tail q + (qlen q - 1)) mod q_cap q"
    if "1 < qlen q"
    using that mod_Suc_shift [of "tail q" "q_cap q" "qlen q - 2"]
    by (simp add: Suc_diff_Suc numeral_2_eq_2)
  moreover have "qlen q = 1 \<Longrightarrow> head q = tail q" using assms(1) by (simp add: q_inv_def)
  ultimately show ?thesis
    using assms(1) pos by (auto simp: q_inv_def q_pop_def Let_def q_cap_def numeral_2_eq_2)
qed

interpretation ring: bounded_fifo q_push q_pop q_len q_cap q_list q_inv
proof unfold_locales
  fix q :: "'a queue" and x
  assume "q_inv q"
  then show "0 < q_cap q" "q_len q \<le> q_cap q" by (simp_all add: q_inv_def q_len_def)
qed (auto simp: q_inv_push q_inv_pop q_list_push_room q_list_push_full q_pop_item q_list_pop q_len_def)

lemma q_inv_empty: "0 < length raw \<Longrightarrow> length raw < SIZE_MOD \<Longrightarrow> q_inv (q_empty raw)"
  by (simp add: q_inv_def q_empty_def q_cap_def)

lemma q_list_empty [simp]: "q_list (q_empty raw) = []"
  by (simp add: q_list_def q_empty_def)

end
