(* ===== verification/Fifo.thy ===== *)
theory Fifo
  imports Queue Locks Hashtable
begin

text \<open>
  FIFOs (\<open>include/tupai/util/fifo.hpp\<close>), the buffers behind every pipe, and the locked table wrapper
  (\<open>include/tupai/util/table.hpp\<close>). A reader of an empty FIFO spins until a writer appears; for one
  caller that is \<open>Fail Diverges\<close>. The locale \<open>blocking_stream\<close> is the contract of the readers and
  writers over the sequence of items in flight.
\<close>

record 'a fifo =
  internal :: "'a queue"
  f_mutex :: mutex_t

definition fifo_new :: "'a list \<Rightarrow> 'a fifo" where
  "fifo_new raw = \<lparr>internal = q_empty raw, f_mutex = \<lparr>locked = False\<rparr>\<rparr>"

definition write_unsafe :: "'a fifo \<Rightarrow> 'a \<Rightarrow> 'a fifo" where
  "write_unsafe f item = f\<lparr>internal := q_push (internal f) item\<rparr>"

definition fifo_write :: "'a fifo \<Rightarrow> 'a \<Rightarrow> 'a fifo" where
  "fifo_write f item =
     (let f1 = f\<lparr>f_mutex := mutex_lock (f_mutex f)\<rparr>;
          f2 = f1\<lparr>internal := q_push (internal f1) item\<rparr>
      in f2\<lparr>f_mutex := mutex_unlock (f_mutex f2)\<rparr>)"

definition read_unsafe :: "'a fifo \<Rightarrow> ('a \<times> 'a fifo) res" where
  "read_unsafe f =
     (if q_len (internal f) = 0 then Fail Diverges
      else let (item, q) = q_pop (internal f) in Ok (item, f\<lparr>internal := q\<rparr>))"

definition fifo_read :: "'a fifo \<Rightarrow> ('a \<times> 'a fifo) res" where
  "fifo_read f =
     (if q_len (internal f) = 0 then Fail Diverges
      else let f1 = f\<lparr>f_mutex := mutex_lock (f_mutex f)\<rparr>;
               (item, q) = q_pop (internal f1);
               f2 = f1\<lparr>internal := q\<rparr>
           in Ok (item, f2\<lparr>f_mutex := mutex_unlock (f_mutex f2)\<rparr>))"

definition len_unsafe :: "'a fifo \<Rightarrow> nat" where
  "len_unsafe f = q_len (internal f)"

definition fifo_len :: "'a fifo \<Rightarrow> nat \<times> 'a fifo" where
  "fifo_len f =
     (let f1 = f\<lparr>f_mutex := mutex_lock (f_mutex f)\<rparr>; n = q_len (internal f1)
      in (n, f1\<lparr>f_mutex := mutex_unlock (f_mutex f1)\<rparr>))"

section \<open>The locked table\<close>

text \<open>
  \<open>table_t\<close> wraps the five operations of the hash table in its lock; \<open>operator[]\<close> and \<open>nth\<close> dereference
  the pointer they get. (\<open>contains\<close> calls a member the hash table does not have, and nothing
  instantiates it.)
\<close>

record 'a table =
  tb_hash :: "'a hashtable"
  tb_lock :: spinlock_t

definition tb_lock_it :: "'a table \<Rightarrow> 'a table res" where
  "tb_lock_it t = bind_res (spinlock_lock (tb_lock t)) (\<lambda>l. Ok (t\<lparr>tb_lock := l\<rparr>))"

definition tb_unlock_it :: "'a table \<Rightarrow> 'a table" where
  "tb_unlock_it t = t\<lparr>tb_lock := spinlock_unlock (tb_lock t)\<rparr>"

definition table_size :: "'a table \<Rightarrow> (nat \<times> 'a table) res" where
  "table_size = with_lock tb_lock_it tb_unlock_it (\<lambda>t. Ok (ht_size (tb_hash t), t))"

definition table_add :: "id_t \<Rightarrow> 'a \<Rightarrow> 'a table \<Rightarrow> (bool \<times> 'a table) res" where
  "table_add key item = with_lock tb_lock_it tb_unlock_it (\<lambda>t.
     let (ok, h) = ht_add (tb_hash t) key item in Ok (ok, t\<lparr>tb_hash := h\<rparr>))"

definition table_remove :: "id_t \<Rightarrow> 'a table \<Rightarrow> (bool \<times> 'a table) res" where
  "table_remove key = with_lock tb_lock_it tb_unlock_it (\<lambda>t.
     let (ok, h) = ht_remove (tb_hash t) key in Ok (ok, t\<lparr>tb_hash := h\<rparr>))"

definition table_get :: "id_t \<Rightarrow> 'a table \<Rightarrow> ('a \<times> 'a table) res" where
  "table_get key = with_lock tb_lock_it tb_unlock_it (\<lambda>t.
     case ht_lookup (tb_hash t) key of None \<Rightarrow> Fail NullDeref | Some v \<Rightarrow> Ok (v, t))"

definition table_nth :: "nat \<Rightarrow> 'a table \<Rightarrow> ('a \<times> 'a table) res" where
  "table_nth i = with_lock tb_lock_it tb_unlock_it (\<lambda>t.
     case ht_nth (tb_hash t) i of
       None \<Rightarrow> Fail NullDeref
     | Some slot \<Rightarrow> (case ht_data (tb_hash t) slot of None \<Rightarrow> Fail Uninit | Some v \<Rightarrow> Ok (v, t)))"

interpretation tb: lock_discipline tb_lock_it tb_unlock_it "\<lambda>t. spin_held (tb_lock t)" tb_hash
  by unfold_locales
    (auto simp: tb_lock_it_def tb_unlock_it_def spinlock_lock_def spinlock_unlock_def spin_held_def)

text \<open>A stored item is read back through the wrapper.\<close>

lemma table_add_get:
  assumes "\<not> spin_held (tb_lock t)" "ht_inv (tb_hash t)" "ht_lookup (tb_hash t) k = None"
    "ht_size (tb_hash t) < HASHTABLE_CAPACITY"
  shows "\<exists>t'. table_add k x t = Ok (True, t') \<and> table_get k t' = Ok (x, t')"
proof -
  have l: "ht_lookup (snd (ht_add (tb_hash t) k x)) k = Some x" "fst (ht_add (tb_hash t) k x)"
    using assms(2-4) by (simp_all add: ht.lookup_add ht.add_result)
  then show ?thesis using assms(1)
    by (auto simp: table_add_def table_get_def with_lock_def tb_lock_it_def tb_unlock_it_def
        spinlock_lock_def spinlock_unlock_def spin_held_def case_prod_unfold)
qed

section \<open>What readers and writers rely on\<close>

locale blocking_stream =
  fixes put :: "'s \<Rightarrow> 'a \<Rightarrow> 's"
    and take_one :: "'s \<Rightarrow> ('a \<times> 's) res"
    and pending_items :: "'s \<Rightarrow> 'a list"
    and limit :: "'s \<Rightarrow> nat"
    and good :: "'s \<Rightarrow> bool"
  assumes put_room: "good s \<Longrightarrow> length (pending_items s) < limit s \<Longrightarrow>
      good (put s x) \<and> pending_items (put s x) = pending_items s @ [x] \<and> limit (put s x) = limit s"
    and put_full: "good s \<Longrightarrow> length (pending_items s) = limit s \<Longrightarrow>
      good (put s x) \<and> pending_items (put s x) = tl (pending_items s) @ [x] \<and> limit (put s x) = limit s"
    and take_some: "good s \<Longrightarrow> pending_items s = x # xs \<Longrightarrow>
      \<exists>s'. take_one s = Ok (x, s') \<and> good s' \<and> pending_items s' = xs \<and> limit s' = limit s"
    and take_none: "good s \<Longrightarrow> pending_items s = [] \<Longrightarrow> take_one s = Fail Diverges"
    and within: "good s \<Longrightarrow> length (pending_items s) \<le> limit s"
begin

fun put_all :: "'s \<Rightarrow> 'a list \<Rightarrow> 's" where
  "put_all s [] = s"
| "put_all s (x # xs) = put_all (put s x) xs"

fun take_n :: "nat \<Rightarrow> 's \<Rightarrow> ('a list \<times> 's) res" where
  "take_n 0 s = Ok ([], s)"
| "take_n (Suc n) s = bind_res (take_one s) (\<lambda>(x, s'). bind_res (take_n n s') (\<lambda>(xs, s''). Ok (x # xs, s'')))"

lemma put_all_room:
  "good s \<Longrightarrow> length (pending_items s) + length xs \<le> limit s \<Longrightarrow>
     good (put_all s xs) \<and> pending_items (put_all s xs) = pending_items s @ xs \<and> limit (put_all s xs) = limit s"
proof (induction xs arbitrary: s)
  case (Cons x xs)
  then show ?case using put_room [OF Cons.prems(1), of x] Cons.IH [of "put s x"] by simp
qed simp

lemma take_n_all:
  "good s \<Longrightarrow> pending_items s = xs @ ys \<Longrightarrow>
     \<exists>s'. take_n (length xs) s = Ok (xs, s') \<and> good s' \<and> pending_items s' = ys"
proof (induction xs arbitrary: s)
  case (Cons x xs)
  then obtain s1 where s1: "take_one s = Ok (x, s1)" "good s1" "pending_items s1 = xs @ ys"
    using take_some [of s x "xs @ ys"] by auto
  then show ?case using Cons.IH [OF s1(2,3)] by auto
qed simp

text \<open>What is written to an empty stream within its capacity is read back, in order.\<close>

lemma write_read_roundtrip:
  assumes "good s" "pending_items s = []" "length xs \<le> limit s"
  shows "\<exists>s'. take_n (length xs) (put_all s xs) = Ok (xs, s') \<and> good s' \<and> pending_items s' = []"
  using put_all_room [OF assms(1), of xs] take_n_all [of "put_all s xs" xs "[]"] assms(2,3) by simp

end

definition fifo_inv :: "'a fifo \<Rightarrow> bool" where
  "fifo_inv f \<longleftrightarrow> q_inv (internal f)"

definition fifo_list :: "'a fifo \<Rightarrow> 'a list" where
  "fifo_list f = q_list (internal f)"

definition fifo_cap :: "'a fifo \<Rightarrow> nat" where
  "fifo_cap f = q_cap (internal f)"

lemma fifo_write_eq: "fifo_write f x = write_unsafe f x"
  by (simp add: fifo_write_def write_unsafe_def mutex_lock_def mutex_unlock_def Let_def)

lemma fifo_read_eq: "fifo_read f = read_unsafe f"
  by (simp add: fifo_read_def read_unsafe_def mutex_lock_def mutex_unlock_def Let_def case_prod_unfold)

interpretation fifo: blocking_stream write_unsafe read_unsafe fifo_list fifo_cap fifo_inv
proof unfold_locales
  fix s :: "'a fifo" and x xs
  assume inv: "fifo_inv s"
  then have q: "q_inv (internal s)" by (simp add: fifo_inv_def)
  have len: "q_len (internal s) = length (fifo_list s)"
    using ring.len_contents [OF q] by (simp add: fifo_list_def)
  show "length (fifo_list s) \<le> fifo_cap s"
    using ring.len_cap [OF q] len by (simp add: fifo_cap_def)
  show "fifo_inv (write_unsafe s x) \<and> fifo_list (write_unsafe s x) = fifo_list s @ [x] \<and>
      fifo_cap (write_unsafe s x) = fifo_cap s" if "length (fifo_list s) < fifo_cap s"
    using ring.push_room [OF q] ring.invar_push [OF q] that len
    by (simp add: fifo_inv_def fifo_list_def fifo_cap_def write_unsafe_def)
  show "fifo_inv (write_unsafe s x) \<and> fifo_list (write_unsafe s x) = tl (fifo_list s) @ [x] \<and>
      fifo_cap (write_unsafe s x) = fifo_cap s" if "length (fifo_list s) = fifo_cap s"
    using ring.push_full [OF q] ring.invar_push [OF q] that len
    by (simp add: fifo_inv_def fifo_list_def fifo_cap_def write_unsafe_def)
  show "read_unsafe s = Fail Diverges" if "fifo_list s = []"
    using len that by (simp add: read_unsafe_def)
  show "\<exists>s'. read_unsafe s = Ok (x, s') \<and> fifo_inv s' \<and> fifo_list s' = xs \<and> fifo_cap s' = fifo_cap s"
    if c: "fifo_list s = x # xs"
  proof -
    have ne: "q_list (internal s) \<noteq> []" using c by (simp add: fifo_list_def)
    have "fst (q_pop (internal s)) = x" "q_list (snd (q_pop (internal s))) = xs"
      using ring.pop_item [OF q ne] ring.pop_rest [OF q ne] c by (simp_all add: fifo_list_def)
    moreover have "q_len (internal s) = Suc (length xs)" using len c by simp
    ultimately show ?thesis
      using ring.invar_pop [OF q ne] by (simp add: read_unsafe_def case_prod_unfold fifo_inv_def
          fifo_list_def fifo_cap_def)
  qed
qed

lemma put_all_foldl: "fifo.put_all f xs = foldl write_unsafe f xs"
  by (induction xs arbitrary: f) simp_all

lemma fifo_inv_foldl:
  assumes "fifo_inv f"
  shows "fifo_inv (foldl write_unsafe f xs)"
  using assms
proof (induction xs arbitrary: f)
  case (Cons x xs)
  have "fifo_inv (write_unsafe f x)"
    using Cons.prems ring.invar_push [of "internal f" x] by (simp add: fifo_inv_def write_unsafe_def)
  then show ?case using Cons.IH by simp
qed simp

end
