(* ===== verification/Kernel_State.thy ===== *)
theory Kernel_State
  imports Kmem Vfs Fifo
begin

text \<open>
  The state the kernel's subsystems share, as one record: the heap and the hardware lock
  (\<open>kmem\<close>), the file system, the static variables of \<open>kernel/proc/proc.cpp\<close>, \<open>kernel/proc/scheduler.cpp\<close>,
  \<open>kernel/sys/pipe.cpp\<close> and \<open>kernel/sys/initrd.cpp\<close>, with the structures they hold. Function pointers in a
  \<open>vtable_t\<close> are the names of the functions; a \<open>pipe_t*\<close> is a number in \<open>pipe_store\<close>.
\<close>

section \<open>Processes and threads\<close>

definition PROC_NAME_MAX :: nat where
  "PROC_NAME_MAX = 256"

text \<open>Handles of \<open>proc.hpp\<close>: an id that has no initial value.\<close>

type_synonym proc_ptr_t = id_t

type_synonym thread_ptr_t = id_t

datatype proc_state = P_ACTIVE | P_SUSPENDED | P_DEAD

datatype thread_state = NEW | ACTIVE | WAITING | DEAD

record proc_t =
  p_id :: id_t
  p_name :: string
  p_state :: proc_state
  p_dir :: inode_ptr_t
  p_thread_counter :: id_t
  threads :: "thread_ptr_t hashtable"
  lfd_counter :: id_t
  fds :: "fd_ptr_t hashtable"

record thread_t =
  th_id :: id_t
  th_lid :: id_t
  th_proc :: proc_ptr_t
  th_state :: thread_state
  th_entry :: size_t
  th_stack :: size_t
  th_stack_block :: size_t

record task_t =
  t_thread :: thread_ptr_t
  priority :: "16 word"
  cpriority :: "16 word"

definition task_default :: task_t where
  "task_default = \<lparr>t_thread = ID_INVALID, priority = - 1, cpriority = - 1\<rparr>"

section \<open>Devices behind inodes\<close>

datatype fnptr =
    Initrd_open_call | Initrd_close_call | Initrd_read_call
  | Pipe_open_call | Pipe_close_call | Pipe_read_call | Pipe_write_call

record vtable_t =
  vt_open :: "fnptr option"
  vt_close :: "fnptr option"
  vt_read :: "fnptr option"
  vt_write :: "fnptr option"

definition vtable_null :: vtable_t where
  "vtable_null = \<lparr>vt_open = None, vt_close = None, vt_read = None, vt_write = None\<rparr>"

definition PIPE_SIZE :: nat where
  "PIPE_SIZE = 4096"

type_synonym pipe_t = "u8 fifo"

definition pipe_new :: pipe_t where
  "pipe_new = fifo_new (replicate PIPE_SIZE 0)"

record initrd_t =
  rd_start :: addr
  rd_size :: size_t
  rd_args :: addr
  rd_fs :: id_t

definition INITRD_MAX :: nat where
  "INITRD_MAX = 32"

definition initrd_default :: initrd_t where
  "initrd_default = \<lparr>rd_start = 0, rd_size = 0, rd_args = 0, rd_fs = 0\<rparr>"

section \<open>The kernel\<close>

record kernel =
  k_mem :: kmem
  k_vfs :: vfs
  proc_table :: "proc_t hashtable"
  proc_counter :: id_t
  thread_table :: "thread_t hashtable"
  thread_counter :: id_t
  cproc :: proc_ptr_t
  kproc :: proc_ptr_t
  cthread :: thread_ptr_t
  schedule :: "task_t queue"
  ctask :: task_t
  vtables :: "vtable_ref \<Rightarrow> vtable_t"
  pipes :: "nat hashtable"
  pipe_store :: "nat \<Rightarrow> pipe_t"
  initrds :: "initrd_t list"
  rd_inodes :: "addr hashtable"

definition kernel_start :: "kmem \<Rightarrow> kernel" where
  "kernel_start m = \<lparr>k_mem = m, k_vfs = vfs_start, proc_table = ht_empty, proc_counter = 0,
     thread_table = ht_empty, thread_counter = 0, cproc = ID_INVALID, kproc = ID_INVALID,
     cthread = ID_INVALID, schedule = q_empty (replicate 256 task_default), ctask = task_default,
     vtables = (\<lambda>_. vtable_null), pipes = ht_empty, pipe_store = (\<lambda>_. pipe_new),
     initrds = replicate INITRD_MAX initrd_default, rd_inodes = ht_empty\<rparr>"

text \<open>The byte store and the hardware lock.\<close>

abbreviation hw :: "kernel \<Rightarrow> hw_state" where
  "hw k \<equiv> km_hw (k_mem k)"

definition ram :: "kernel \<Rightarrow> memory" where
  "ram k = snd (km_heap (k_mem k))"

definition set_ram :: "memory \<Rightarrow> kernel \<Rightarrow> kernel" where
  "set_ram m k = k\<lparr>k_mem := (k_mem k)\<lparr>km_heap := (fst (km_heap (k_mem k)), m)\<rparr>\<rparr>"

definition k_lock :: "kernel \<Rightarrow> kernel" where
  "k_lock k = k\<lparr>k_mem := (k_mem k)\<lparr>km_hw := hwlock_lock (hw k)\<rparr>\<rparr>"

definition k_unlock :: "kernel \<Rightarrow> kernel" where
  "k_unlock k = k\<lparr>k_mem := (k_mem k)\<lparr>km_hw := hwlock_unlock (hw k)\<rparr>\<rparr>"

text \<open>\<open>hwlock.lock(); body; hwlock.unlock();\<close> the lock is shared, so a section may sit inside another.\<close>

definition hw_section :: "(kernel \<Rightarrow> ('a \<times> kernel) res) \<Rightarrow> kernel \<Rightarrow> ('a \<times> kernel) res" where
  "hw_section f k = bind_res (f (k_lock k)) (\<lambda>(x, k'). Ok (x, k_unlock k'))"

text \<open>Calling into the file system and the heap.\<close>

definition on_vfs :: "(vfs \<Rightarrow> ('a \<times> vfs) res) \<Rightarrow> kernel \<Rightarrow> ('a \<times> kernel) res" where
  "on_vfs f k = bind_res (f (k_vfs k)) (\<lambda>(x, v). Ok (x, k\<lparr>k_vfs := v\<rparr>))"

definition on_mem :: "(kmem \<Rightarrow> ('a \<times> kmem) res) \<Rightarrow> kernel \<Rightarrow> ('a \<times> kernel) res" where
  "on_mem f k = bind_res (f (k_mem k)) (\<lambda>(x, m). Ok (x, k\<lparr>k_mem := m\<rparr>))"

text \<open>The string a \<open>const char*\<close> points to, with its terminator.\<close>

function mem_string_from :: "memory \<Rightarrow> addr \<Rightarrow> nat \<Rightarrow> string" where
  "mem_string_from m p i =
     (if i < 2 ^ 64
      then if m (p + of_nat i) = 0 then [NUL]
           else char_of (unat (m (p + of_nat i))) # mem_string_from m p (Suc i)
      else [])"
  by pat_completeness auto
termination
  by (relation "measure (\<lambda>(m, p, i). 2 ^ 64 - i)") auto

declare mem_string_from.simps [simp del]

definition mem_string :: "memory \<Rightarrow> addr \<Rightarrow> string" where
  "mem_string m p = mem_string_from m p 0"

section \<open>Facts about the shared state\<close>

lemma k_lock_fields [simp]:
  "k_vfs (k_lock k) = k_vfs k" "proc_table (k_lock k) = proc_table k" "proc_counter (k_lock k) = proc_counter k"
  "thread_table (k_lock k) = thread_table k" "thread_counter (k_lock k) = thread_counter k"
  "cproc (k_lock k) = cproc k" "kproc (k_lock k) = kproc k" "cthread (k_lock k) = cthread k"
  "schedule (k_lock k) = schedule k" "ctask (k_lock k) = ctask k" "vtables (k_lock k) = vtables k"
  "pipes (k_lock k) = pipes k" "pipe_store (k_lock k) = pipe_store k" "initrds (k_lock k) = initrds k"
  "rd_inodes (k_lock k) = rd_inodes k" "km_heap (k_mem (k_lock k)) = km_heap (k_mem k)"
  "km_end_offset (k_mem (k_lock k)) = km_end_offset (k_mem k)" "ram (k_lock k) = ram k"
  by (simp_all add: k_lock_def ram_def)

lemma k_unlock_fields [simp]:
  "k_vfs (k_unlock k) = k_vfs k" "proc_table (k_unlock k) = proc_table k" "proc_counter (k_unlock k) = proc_counter k"
  "thread_table (k_unlock k) = thread_table k" "thread_counter (k_unlock k) = thread_counter k"
  "cproc (k_unlock k) = cproc k" "kproc (k_unlock k) = kproc k" "cthread (k_unlock k) = cthread k"
  "schedule (k_unlock k) = schedule k" "ctask (k_unlock k) = ctask k" "vtables (k_unlock k) = vtables k"
  "pipes (k_unlock k) = pipes k" "pipe_store (k_unlock k) = pipe_store k" "initrds (k_unlock k) = initrds k"
  "rd_inodes (k_unlock k) = rd_inodes k" "km_heap (k_mem (k_unlock k)) = km_heap (k_mem k)"
  "km_end_offset (k_mem (k_unlock k)) = km_end_offset (k_mem k)" "ram (k_unlock k) = ram k"
  by (simp_all add: k_unlock_def ram_def)

lemma hw_lock_unlock:
  "hw (k_lock k) = hwlock_lock (hw k)" "hw (k_unlock k) = hwlock_unlock (hw k)"
  by (simp_all add: k_lock_def k_unlock_def)

lemma hw_section_Ok:
  "hw_section f k = Ok (x, k') \<longleftrightarrow> (\<exists>k1. f (k_lock k) = Ok (x, k1) \<and> k' = k_unlock k1)"
  by (auto simp: hw_section_def)

text \<open>Every section ends with the lock released, whatever the nesting inside did to it.\<close>

lemma hw_section_released: "hw_section f k = Ok (x, k') \<Longrightarrow> \<not> hw_locked (hw k')"
  by (auto simp: hw_section_Ok hw_lock_unlock hwlock_unlock_def Let_def split: if_splits)

lemma mem_string_from_cstr:
  assumes "i \<le> n" "n < 2 ^ 64" "m (p + of_nat n) = 0"
  shows "is_cstr (mem_string_from m p i)"
  using assms
proof (induction "n - i" arbitrary: i)
  case 0
  then show ?case by (subst mem_string_from.simps) (simp add: is_cstr_def)
next
  case (Suc d)
  then show ?case
    by (subst mem_string_from.simps) (auto simp: is_cstr_def)
qed

end
