(* ===== verification/Tar.thy ===== *)
theory Tar
  imports Kernel_State
begin

text \<open>
  Archives: \<open>kernel/util/tar.cpp\<close>. A \<open>tar_header_t*\<close> is the address of a 512-byte record in memory; the
  fields are at the offsets of the packed structure. The list of headers is found by walking from one
  record to the next, which only ends at a record with an empty name, so the walk carries fuel.
\<close>

definition TAR_SIZE_OFF :: addr where
  "TAR_SIZE_OFF = 124"

definition TAR_TYPE_OFF :: addr where
  "TAR_TYPE_OFF = 156"

text \<open>\<open>csize = csize * 8 + (size_t)(header->size[i] - '0')\<close>, the character being signed.\<close>

fun tar_size_loop :: "memory \<Rightarrow> addr \<Rightarrow> nat \<Rightarrow> nat \<Rightarrow> size_t \<Rightarrow> size_t" where
  "tar_size_loop m h i 0 acc = acc"
| "tar_size_loop m h i (Suc k) acc =
     (let c = m (h + TAR_SIZE_OFF + of_nat i)
      in if c \<noteq> 0 then tar_size_loop m h (Suc i) k (acc * 8 + (scast c - 48)) else acc)"

definition tar_size :: "memory \<Rightarrow> addr \<Rightarrow> size_t" where
  "tar_size m h = tar_size_loop m h 0 12 0"

definition tar_data :: "addr \<Rightarrow> addr" where
  "tar_data h = h + 512"

text \<open>The next header, \<open>0\<close> for \<open>nullptr\<close>.\<close>

definition tar_next :: "memory \<Rightarrow> addr \<Rightarrow> addr" where
  "tar_next m h =
     (let nh = h + align_ceiling (512 + tar_size m h) 512
      in if m nh = 0 then 0 else nh)"

definition tar_print :: "memory \<Rightarrow> addr \<Rightarrow> fmt_arg list" where
  "tar_print m h =
     [Str (lit ''File: filename = ''), Str (mem_string m h), Str (lit '' size = ''),
      Num True 64 (sint (tar_size m h)) 10 0, Str (lit '' type = ''),
      Chr (char_of (unat (m (h + TAR_TYPE_OFF)))), Chr (CHR 0x0A)]"

fun tar_headers :: "nat \<Rightarrow> memory \<Rightarrow> addr \<Rightarrow> addr list res" where
  "tar_headers 0 m h = Fail Diverges"
| "tar_headers (Suc fuel) m h =
     (if h = 0 then Ok []
      else bind_res (tar_headers fuel m (tar_next m h)) (\<lambda>hs. Ok (h # hs)))"

definition tar_print_all :: "nat \<Rightarrow> memory \<Rightarrow> addr \<Rightarrow> fmt_arg list list res" where
  "tar_print_all fuel m h =
     bind_res (tar_headers fuel m h) (\<lambda>hs.
       Ok ([Str (lit ''--- Tar ---''), Chr (CHR 0x0A)] # map (tar_print m) hs))"

section \<open>The size field\<close>

definition octal_value :: "nat list \<Rightarrow> nat" where
  "octal_value ds = foldl (\<lambda>a d. a * 8 + d) 0 ds"

lemma scast_digit: "d < 8 \<Longrightarrow> (scast (of_nat (48 + d) :: 8 word) - 48 :: 64 word) = of_nat d"
proof -
  assume "d < 8"
  then have "d \<in> {0, 1, 2, 3, 4, 5, 6, 7}" by auto
  then show ?thesis by auto
qed

lemma digit_byte_nonzero: "d < 8 \<Longrightarrow> (of_nat (48 + d) :: 8 word) \<noteq> 0"
proof -
  assume "d < 8"
  then have "d \<in> {0, 1, 2, 3, 4, 5, 6, 7}" by auto
  then show ?thesis by auto
qed

lemma tar_size_loop_digits:
  assumes "\<forall>j<length ds. ds ! j < 8 \<and> m (h + TAR_SIZE_OFF + of_nat (i + j)) = of_nat (48 + ds ! j)"
    "length ds \<le> k" "length ds < k \<longrightarrow> m (h + TAR_SIZE_OFF + of_nat (i + length ds)) = 0"
  shows "tar_size_loop m h i k (of_nat a) = of_nat (foldl (\<lambda>a d. a * 8 + d) a ds)"
  using assms
proof (induction ds arbitrary: i k a)
  case Nil
  then show ?case by (cases k) (simp_all add: Let_def)
next
  case (Cons d ds)
  then obtain k' where k: "k = Suc k'" by (cases k) auto
  have d: "d < 8" "m (h + TAR_SIZE_OFF + of_nat i) = of_nat (48 + d)"
    using Cons.prems(1) [rule_format, of 0] by simp_all
  have rest: "\<forall>j<length ds. ds ! j < 8 \<and> m (h + TAR_SIZE_OFF + of_nat (Suc i + j)) = of_nat (48 + ds ! j)"
  proof (intro allI impI)
    fix j assume "j < length ds"
    then show "ds ! j < 8 \<and> m (h + TAR_SIZE_OFF + of_nat (Suc i + j)) = of_nat (48 + ds ! j)"
      using Cons.prems(1) [rule_format, of "Suc j"] by simp
  qed
  have "tar_size_loop m h (Suc i) k' (of_nat (a * 8 + d)) = of_nat (foldl (\<lambda>a d. a * 8 + d) (a * 8 + d) ds)"
    using rest Cons.prems(2,3) k by (intro Cons.IH) (auto simp del: of_nat_add of_nat_Suc of_nat_mult)
  moreover have "tar_size_loop m h i k (of_nat a) = tar_size_loop m h (Suc i) k' (of_nat (a * 8 + d))"
    using d scast_digit [OF d(1)] digit_byte_nonzero [OF d(1)] k by (simp add: Let_def del: of_nat_add) simp
  ultimately show ?case by simp
qed

text \<open>A size field with octal digits, ended by a zero byte when it is not full, is read as their value.\<close>

lemma tar_size_octal:
  assumes "\<forall>j<length ds. ds ! j < 8 \<and> m (h + TAR_SIZE_OFF + of_nat j) = of_nat (48 + ds ! j)"
    "length ds \<le> 12" "length ds < 12 \<longrightarrow> m (h + TAR_SIZE_OFF + of_nat (length ds)) = 0"
  shows "tar_size m h = of_nat (octal_value ds)"
  using tar_size_loop_digits [of ds m h 0 12 0] assms by (simp add: tar_size_def octal_value_def)

lemma foldl_octal_bound: "\<forall>d\<in>set ds. d < 8 \<Longrightarrow> foldl (\<lambda>a d. a * 8 + d) a ds < (a + 1 :: nat) * 8 ^ length ds"
proof (induction ds arbitrary: a)
  case (Cons d ds)
  have "foldl (\<lambda>a d. a * 8 + d) (a * 8 + d) ds < (a * 8 + d + 1) * 8 ^ length ds" using Cons by simp
  also have "\<dots> \<le> ((a + 1) * 8) * 8 ^ length ds" using Cons.prems by (intro mult_le_mono1) simp
  finally show ?case by (simp add: algebra_simps)
qed simp

lemma octal_value_bound: "\<forall>d\<in>set ds. d < 8 \<Longrightarrow> octal_value ds < 8 ^ length ds"
  using foldl_octal_bound [of ds 0] by (simp add: octal_value_def)

section \<open>Walking an archive\<close>

text \<open>
  \<open>archive m h sizes\<close>: records of the given sizes stand one after the other from \<open>h\<close> on, each with a
  non-empty name, and an empty name follows the last.
\<close>

fun archive :: "memory \<Rightarrow> addr \<Rightarrow> size_t list \<Rightarrow> bool" where
  "archive m h [] \<longleftrightarrow> m h = 0"
| "archive m h (s # ss) \<longleftrightarrow> h \<noteq> 0 \<and> m h \<noteq> 0 \<and> tar_size m h = s \<and>
     archive m (h + align_ceiling (512 + s) 512) ss"

fun header_addrs :: "addr \<Rightarrow> size_t list \<Rightarrow> addr list" where
  "header_addrs h [] = []"
| "header_addrs h (s # ss) = h # header_addrs (h + align_ceiling (512 + s) 512) ss"

lemma tar_headers_archive:
  assumes "archive m h (s # ss)" "length (s # ss) < fuel"
  shows "tar_headers fuel m h = Ok (header_addrs h (s # ss))"
  using assms
proof (induction ss arbitrary: h s fuel)
  case Nil
  then obtain f where "fuel = Suc (Suc f)" by (cases fuel; cases "fuel - 1") auto
  then show ?case using Nil by (simp add: tar_next_def Let_def)
next
  case (Cons r ss)
  obtain f where f: "fuel = Suc f" using Cons.prems(2) by (cases fuel) auto
  let ?n = "h + align_ceiling (512 + s) 512"
  have "archive m ?n (r # ss)" using Cons.prems(1) by simp
  then have "tar_next m h = ?n" "tar_headers f m ?n = Ok (header_addrs ?n (r # ss))"
    using Cons.prems Cons.IH [of ?n r f] f by (simp_all add: tar_next_def Let_def)
  then show ?case using Cons.prems(1) f by simp
qed

end
