(* ===== verification/Proc.thy ===== *)
theory Proc
  imports Kernel_State
begin

text \<open>
  Processes and threads: \<open>kernel/proc/proc.cpp\<close>. Every routine is a hardware-locked section, as in the
  source; where one calls another the sections nest. \<open>proc_t\<close> in \<open>create\<close> is a local variable of which
  only some members are initialised: its other bytes are the argument \<open>stk\<close>.
\<close>

section \<open>Current process and thread\<close>

definition get_kernel :: "kernel \<Rightarrow> (proc_ptr_t \<times> kernel) res" where
  "get_kernel = hw_section (\<lambda>k. Ok (kproc k, k))"

definition get_current :: "kernel \<Rightarrow> (proc_ptr_t \<times> kernel) res" where
  "get_current = hw_section (\<lambda>k. Ok (cproc k, k))"

definition get_current_thread :: "kernel \<Rightarrow> (thread_ptr_t \<times> kernel) res" where
  "get_current_thread = hw_section (\<lambda>k. Ok (cthread k, k))"

definition set_current :: "proc_ptr_t \<Rightarrow> kernel \<Rightarrow> (unit \<times> kernel) res" where
  "set_current proc = hw_section (\<lambda>k. Ok ((), k\<lparr>cproc := proc\<rparr>))"

section \<open>Threads\<close>

definition thread_get :: "id_t \<Rightarrow> 'a \<Rightarrow> (thread_t \<Rightarrow> 'a) \<Rightarrow> kernel \<Rightarrow> ('a \<times> kernel) res" where
  "thread_get tid d f = hw_section (\<lambda>k.
     Ok (case ht_lookup (thread_table k) tid of None \<Rightarrow> d | Some th \<Rightarrow> f th, k))"

definition thread_get_lid :: "thread_ptr_t \<Rightarrow> kernel \<Rightarrow> (id_t \<times> kernel) res" where
  "thread_get_lid tid = thread_get tid ID_INVALID th_lid"

definition thread_get_state :: "thread_ptr_t \<Rightarrow> kernel \<Rightarrow> (thread_state \<times> kernel) res" where
  "thread_get_state tid = thread_get tid DEAD th_state"

definition thread_get_process :: "thread_ptr_t \<Rightarrow> kernel \<Rightarrow> (proc_ptr_t \<times> kernel) res" where
  "thread_get_process tid = thread_get tid ID_INVALID th_proc"

definition thread_get_entry :: "thread_ptr_t \<Rightarrow> kernel \<Rightarrow> (size_t \<times> kernel) res" where
  "thread_get_entry tid = thread_get tid 0 th_entry"

definition thread_get_stack :: "thread_ptr_t \<Rightarrow> kernel \<Rightarrow> (size_t \<times> kernel) res" where
  "thread_get_stack tid = thread_get tid 0 th_stack"

definition thread_set :: "id_t \<Rightarrow> (thread_t \<Rightarrow> thread_t) \<Rightarrow> kernel \<Rightarrow> (unit \<times> kernel) res" where
  "thread_set tid f = hw_section (\<lambda>k.
     Ok ((), case ht_lookup (thread_table k) tid of
               None \<Rightarrow> k
             | Some th \<Rightarrow> k\<lparr>thread_table := ht_modify (thread_table k) tid f\<rparr>))"

definition thread_set_lid :: "thread_ptr_t \<Rightarrow> id_t \<Rightarrow> kernel \<Rightarrow> (unit \<times> kernel) res" where
  "thread_set_lid tid lid = thread_set tid (\<lambda>th. th\<lparr>th_lid := lid\<rparr>)"

definition thread_set_state :: "thread_ptr_t \<Rightarrow> thread_state \<Rightarrow> kernel \<Rightarrow> (unit \<times> kernel) res" where
  "thread_set_state tid st = thread_set tid (\<lambda>th. th\<lparr>th_state := st\<rparr>)"

definition thread_set_stack :: "thread_ptr_t \<Rightarrow> size_t \<Rightarrow> kernel \<Rightarrow> (unit \<times> kernel) res" where
  "thread_set_stack tid stack = thread_set tid (\<lambda>th. th\<lparr>th_stack := stack\<rparr>)"

definition thread_kill :: "thread_ptr_t \<Rightarrow> kernel \<Rightarrow> (int \<times> kernel) res" where
  "thread_kill tid k = bind_res (thread_set_state tid DEAD k) (\<lambda>(_, k'). Ok (0, k'))"

definition set_current_thread :: "thread_ptr_t \<Rightarrow> kernel \<Rightarrow> (unit \<times> kernel) res" where
  "set_current_thread thread = hw_section (\<lambda>k.
     bind_res (thread_get_process thread (k\<lparr>cthread := thread\<rparr>)) (\<lambda>(p, k').
     Ok ((), k'\<lparr>cproc := p\<rparr>)))"

section \<open>Processes\<close>

text \<open>The two counters and the item counts have initialisers; flags, keys and slots have none.\<close>

definition fresh_proc :: "proc_t \<Rightarrow> proc_t" where
  "fresh_proc stk = stk\<lparr>p_thread_counter := 0, threads := (threads stk)\<lparr>item_count := 0\<rparr>,
     lfd_counter := 0, fds := (fds stk)\<lparr>item_count := 0\<rparr>\<rparr>"

text \<open>
  The size of the record in bytes, from its declaration: eight bytes for an id or a counter, four and their padding for the
  state, and per table its slots of eight bytes, its flags, its keys and its count. \<open>create\<close> keeps one record in its own
  frame and passes another by value.
\<close>

definition hashtable_bytes :: "nat \<Rightarrow> nat" where
  "hashtable_bytes item = HASHTABLE_CAPACITY * item + HASHTABLE_CAPACITY + HASHTABLE_CAPACITY * 8 + 8"

definition proc_t_bytes :: nat where
  "proc_t_bytes = 8 + PROC_NAME_MAX + 8 + 8 + (8 + hashtable_bytes 8) + (8 + hashtable_bytes 8)"

definition proc_create :: "proc_t \<Rightarrow> string \<Rightarrow> inode_ptr_t \<Rightarrow> kernel \<Rightarrow> (proc_ptr_t \<times> kernel) res" where
  "proc_create stk name dir = hw_section (\<lambda>k.
     let k1 = k\<lparr>proc_counter := proc_counter k + 1\<rparr>; nid = proc_counter k1
     in bind_res (str_cpy_arr name (p_name stk)) (\<lambda>nm.
        let nproc = (fresh_proc stk)\<lparr>p_id := nid, p_name := nm, p_dir := dir\<rparr>
        in Ok (nid, k1\<lparr>proc_table := snd (ht_add (proc_table k1) nid nproc)\<rparr>)))"

definition proc_init :: "proc_t \<Rightarrow> kernel \<Rightarrow> (unit \<times> kernel) res" where
  "proc_init stk = hw_section (\<lambda>k.
     bind_res (on_vfs get_root k) (\<lambda>(root, k1).
     bind_res (proc_create stk (lit ''kernel'') root k1) (\<lambda>(p, k2).
     Ok ((), k2\<lparr>kproc := p, cproc := p\<rparr>))))"

definition proc_get_name :: "proc_ptr_t \<Rightarrow> string \<Rightarrow> nat \<Rightarrow> kernel \<Rightarrow> ((int \<times> string) \<times> kernel) res" where
  "proc_get_name pid rbuff n = hw_section (\<lambda>k.
     case ht_lookup (proc_table k) pid of
       None \<Rightarrow> Ok ((1, rbuff), k)
     | Some p \<Rightarrow> bind_res (str_cpy_n (p_name p) rbuff n) (\<lambda>b. Ok ((0, b), k)))"

definition proc_get_fd :: "proc_ptr_t \<Rightarrow> id_t \<Rightarrow> kernel \<Rightarrow> (fd_ptr_t \<times> kernel) res" where
  "proc_get_fd pid lfd = hw_section (\<lambda>k.
     Ok (case ht_lookup (proc_table k) pid of
           None \<Rightarrow> ID_INVALID
         | Some p \<Rightarrow> if lfd = ID_INVALID then ID_INVALID
                     else (case ht_lookup (fds p) lfd of None \<Rightarrow> ID_INVALID | Some fd \<Rightarrow> fd), k))"

definition THREAD_STACK_SIZE :: size_t where
  "THREAD_STACK_SIZE = 2048"

definition create_thread :: "proc_ptr_t \<Rightarrow> size_t \<Rightarrow> kernel \<Rightarrow> (thread_ptr_t \<times> kernel) res" where
  "create_thread parent entry = hw_section (\<lambda>k.
     let nid = thread_counter k; k1 = k\<lparr>thread_counter := thread_counter k + 1\<rparr>
     in bind_res (on_mem (operator_new THREAD_STACK_SIZE) k1) (\<lambda>(nstack, k2).
        let nthread = \<lparr>th_id = nid, th_lid = ID_INVALID, th_proc = parent, th_state = NEW,
              th_entry = entry, th_stack = nstack + THREAD_STACK_SIZE, th_stack_block = nstack\<rparr>
        in Ok (nid, k2\<lparr>thread_table := snd (ht_add (thread_table k2) nid nthread)\<rparr>)))"

text \<open>\<open>scheduler_schedule\<close> (\<open>kernel/proc/scheduler.cpp\<close>): the priority is cut to a \<open>short\<close>.\<close>

definition scheduler_schedule :: "thread_ptr_t \<Rightarrow> int \<Rightarrow> kernel \<Rightarrow> (unit \<times> kernel) res" where
  "scheduler_schedule thread prio = hw_section (\<lambda>k.
     let ntask = \<lparr>t_thread = thread, priority = word_of_int prio, cpriority = word_of_int prio\<rparr>
     in Ok ((), k\<lparr>schedule := q_push (schedule k) ntask\<rparr>))"

text \<open>The result is the process-local id, although it is returned as a \<open>thread_ptr_t\<close>.\<close>

definition spawn_thread :: "proc_ptr_t \<Rightarrow> size_t \<Rightarrow> kernel \<Rightarrow> (thread_ptr_t \<times> kernel) res" where
  "spawn_thread pid entry = hw_section (\<lambda>k.
     case ht_lookup (proc_table k) pid of
       None \<Rightarrow> Ok (ID_INVALID, k)
     | Some p \<Rightarrow>
         let nid = p_thread_counter p;
             k1 = k\<lparr>proc_table := ht_modify (proc_table k) pid
                     (\<lambda>p. p\<lparr>p_thread_counter := p_thread_counter p + 1\<rparr>)\<rparr>
         in bind_res (create_thread pid entry k1) (\<lambda>(nthread, k2).
            bind_res (thread_set_lid nthread nid k2) (\<lambda>(_, k3).
            let k4 = k3\<lparr>proc_table := ht_modify (proc_table k3) pid
                       (\<lambda>p. p\<lparr>threads := snd (ht_add (threads p) nid nthread)\<rparr>)\<rparr>
            in bind_res (scheduler_schedule nthread 0 k4) (\<lambda>(_, k5). Ok (nid, k5)))))"

definition delete_thread :: "proc_ptr_t \<Rightarrow> thread_ptr_t \<Rightarrow> kernel \<Rightarrow> (int \<times> kernel) res" where
  "delete_thread pid thread = hw_section (\<lambda>k.
     case ht_lookup (proc_table k) pid of
       None \<Rightarrow> Ok (1, k)
     | Some p \<Rightarrow>
         bind_res (thread_get_lid thread k) (\<lambda>(lid, k1).
         let k2 = k1\<lparr>proc_table := ht_modify (proc_table k1) pid
                    (\<lambda>p. p\<lparr>threads := snd (ht_remove (threads p) lid)\<rparr>)\<rparr>
         in Ok (0, k2\<lparr>thread_table := snd (ht_remove (thread_table k2) thread)\<rparr>)))"

definition proc_create_fd :: "proc_ptr_t \<Rightarrow> inode_ptr_t \<Rightarrow> kernel \<Rightarrow> (id_t \<times> kernel) res" where
  "proc_create_fd pid inode = hw_section (\<lambda>k.
     case ht_lookup (proc_table k) pid of
       None \<Rightarrow> Ok (ID_INVALID, k)
     | Some p \<Rightarrow>
         let nid = lfd_counter p;
             k1 = k\<lparr>proc_table := ht_modify (proc_table k) pid
                     (\<lambda>p. p\<lparr>lfd_counter := lfd_counter p + 1\<rparr>)\<rparr>
         in bind_res (on_vfs (create_fd inode) k1) (\<lambda>(nfd, k2).
            Ok (nid, k2\<lparr>proc_table := ht_modify (proc_table k2) pid
                       (\<lambda>p. p\<lparr>fds := snd (ht_add (fds p) nid nfd)\<rparr>)\<rparr>)))"

definition proc_delete_fd :: "proc_ptr_t \<Rightarrow> id_t \<Rightarrow> kernel \<Rightarrow> (int \<times> kernel) res" where
  "proc_delete_fd pid lfd = hw_section (\<lambda>k.
     case ht_lookup (proc_table k) pid of
       None \<Rightarrow> Ok (1, k)
     | Some p \<Rightarrow>
         Ok (if fst (ht_remove (fds p) lfd) then 0 else 1,
             k\<lparr>proc_table := ht_modify (proc_table k) pid
                 (\<lambda>p. p\<lparr>fds := snd (ht_remove (fds p) lfd)\<rparr>)\<rparr>))"

text \<open>The lines \<open>display\<close> logs; \<open>nth\<close> walks the slots in order.\<close>

definition thread_line :: "kernel \<Rightarrow> proc_t \<Rightarrow> nat \<Rightarrow> fmt_arg list res" where
  "thread_line k p j =
     (case ht_nth (threads p) j of
        None \<Rightarrow> Fail NullDeref
      | Some slot \<Rightarrow>
          (case ht_data (threads p) slot of
             None \<Rightarrow> Fail Uninit
           | Some tid \<Rightarrow> bind_res (thread_get_lid tid k) (\<lambda>(lid, _).
               Ok [Str (lit ''    ''), Num True 64 (int j) 10 0, Str (lit '' -> Thread ''),
                   Num True 64 (sint lid) 10 0, Chr (CHR 0x0A)])))"

fun map_res :: "('a \<Rightarrow> 'b res) \<Rightarrow> 'a list \<Rightarrow> 'b list res" where
  "map_res f [] = Ok []"
| "map_res f (x # xs) = bind_res (f x) (\<lambda>y. bind_res (map_res f xs) (\<lambda>ys. Ok (y # ys)))"

definition proc_lines :: "kernel \<Rightarrow> nat \<Rightarrow> fmt_arg list list res" where
  "proc_lines k i =
     (case ht_nth (proc_table k) i of
        None \<Rightarrow> Fail NullDeref
      | Some slot \<Rightarrow>
          (case ht_data (proc_table k) slot of
             None \<Rightarrow> Fail Uninit
           | Some p \<Rightarrow> bind_res (map_res (thread_line k p) [0..<ht_size (threads p)]) (\<lambda>ls.
               Ok ([Num True 64 (int i) 10 0, Str (lit '' -> ''), Str (p_name p), Str (lit '' (''),
                    Num True 64 (sint (p_id p)) 10 0, Str (lit '')''), Chr (CHR 0x0A)] # ls))))"

definition proc_display :: "kernel \<Rightarrow> fmt_arg list list res" where
  "proc_display k =
     bind_res (map_res (proc_lines k) [0..<ht_size (proc_table k)]) (\<lambda>ls. Ok (concat ls))"

section \<open>The invariant of the process tables\<close>

definition proc_ok :: "proc_t \<Rightarrow> bool" where
  "proc_ok p \<longleftrightarrow> ht_inv (threads p) \<and> ht_inv (fds p) \<and>
     ht.below (threads p) (unat (p_thread_counter p)) \<and> ht.below (fds p) (unat (lfd_counter p)) \<and>
     length (p_name p) = PROC_NAME_MAX \<and> is_cstr (p_name p)"

definition named :: "proc_t \<Rightarrow> bool" where
  "named p \<longleftrightarrow> length (p_name p) = PROC_NAME_MAX \<and> is_cstr (p_name p)"

definition procs_all :: "(proc_t \<Rightarrow> bool) \<Rightarrow> proc_t hashtable \<Rightarrow> bool" where
  "procs_all P tab \<longleftrightarrow> ht_inv tab \<and> (\<forall>k p. ht_lookup tab k = Some p \<longrightarrow> P p)"

abbreviation procs_ok :: "proc_t hashtable \<Rightarrow> bool" where
  "procs_ok \<equiv> procs_all proc_ok"

definition k_inv :: "kernel \<Rightarrow> bool" where
  "k_inv k \<longleftrightarrow> vfs_inv (k_vfs k) \<and> heap_inv (km_heap (k_mem k)) \<and> procs_ok (proc_table k) \<and>
     ht.below (proc_table k) (Suc (unat (proc_counter k))) \<and>
     ht_inv (thread_table k) \<and> ht.below (thread_table k) (unat (thread_counter k)) \<and> q_inv (schedule k)"

text \<open>
  What holds whatever the stack slot held in which a process record was built: \<open>proc_create\<close> never initialises the two
  tables of a new process, so \<open>k_core\<close> asks nothing of them, only that the name is a string.
\<close>

definition k_core :: "kernel \<Rightarrow> bool" where
  "k_core k \<longleftrightarrow> vfs_inv (k_vfs k) \<and> heap_inv (km_heap (k_mem k)) \<and> procs_all named (proc_table k) \<and>
     ht.below (proc_table k) (Suc (unat (proc_counter k))) \<and>
     ht_inv (thread_table k) \<and> ht.below (thread_table k) (unat (thread_counter k)) \<and> q_inv (schedule k)"

lemma proc_ok_named: "proc_ok p \<Longrightarrow> named p"
  by (simp add: proc_ok_def named_def)

lemma k_inv_iff: "k_inv k \<longleftrightarrow> k_core k \<and> procs_ok (proc_table k)"
  by (auto simp: k_inv_def k_core_def procs_all_def proc_ok_named)

lemma k_inv_lock [simp]: "k_inv (k_lock k) = k_inv k" "k_inv (k_unlock k) = k_inv k"
  by (simp_all add: k_inv_def)

lemma k_core_lock [simp]: "k_core (k_lock k) = k_core k" "k_core (k_unlock k) = k_core k"
  by (simp_all add: k_core_def)

text \<open>Updating the fields of one process.\<close>

lemma procs_all_modify:
  assumes "procs_all P tab" "\<And>p. ht_lookup tab pid = Some p \<Longrightarrow> P (f p)"
  shows "procs_all P (ht_modify tab pid f)"
  using assms by (auto simp: procs_all_def ht.invar_modify ht.lookup_modify split: if_splits)

lemma procs_all_add:
  assumes "procs_all P tab" "ht_lookup tab pid = None" "P p"
  shows "procs_all P (snd (ht_add tab pid p))"
proof (cases "ht_size tab < HASHTABLE_CAPACITY")
  case True
  then show ?thesis using assms
    by (auto simp: procs_all_def ht.invar_add ht.lookup_add split: if_splits)
next
  case False
  then show ?thesis using assms by (simp add: procs_all_def ht.add_full)
qed

lemma below_proc_modify: "procs_all P tab \<Longrightarrow> ht.below tab b \<Longrightarrow> ht.below (ht_modify tab pid f) b"
  by (simp add: procs_all_def ht.below_modify)

lemma k_core_modify:
  assumes "k_core k" "\<And>p. p_name (f p) = p_name p"
  shows "k_core (k\<lparr>proc_table := ht_modify (proc_table k) pid f\<rparr>)"
proof -
  have tab: "procs_all named (proc_table k)" using assms(1) by (simp add: k_core_def)
  then have "procs_all named (ht_modify (proc_table k) pid f)"
    using assms(2) by (intro procs_all_modify [OF tab]) (auto simp: procs_all_def named_def)
  then show ?thesis using assms(1) below_proc_modify [OF tab] by (simp add: k_core_def)
qed

text \<open>One well-formed record replaced by another.\<close>

lemma k_inv_upd:
  assumes "k_core k'" "procs_ok (proc_table k)" "ht_lookup (proc_table k') = (ht_lookup (proc_table k))(pid \<mapsto> q)" "proc_ok q"
  shows "k_inv k'"
  using assms by (simp add: k_inv_iff procs_all_def k_core_def)

section \<open>Threads\<close>

lemma thread_get_run:
  "thread_get tid d f k =
     Ok (case ht_lookup (thread_table k) tid of None \<Rightarrow> d | Some th \<Rightarrow> f th, k_unlock (k_lock k))"
  by (simp add: thread_get_def hw_section_def)

lemma thread_set_run:
  "thread_set tid f k = Ok ((), k_unlock (case ht_lookup (thread_table k) tid of
     None \<Rightarrow> k_lock k | Some th \<Rightarrow> (k_lock k)\<lparr>thread_table := ht_modify (thread_table k) tid f\<rparr>))"
  by (simp add: thread_set_def hw_section_def split: option.split)

lemma thread_set_inv:
  "k_inv k \<Longrightarrow> thread_set tid f k = Ok (u, k') \<Longrightarrow> k_inv k'"
  "k_core k \<Longrightarrow> thread_set tid f k = Ok (u, k') \<Longrightarrow> k_core k'"
  by (auto simp: thread_set_run k_inv_def k_core_def ht.invar_modify ht.below_modify split: option.splits)

lemma thread_set_lookup:
  assumes "ht_inv (thread_table k)" "thread_set tid f k = Ok (u, k')"
  shows "ht_lookup (thread_table k') =
    (ht_lookup (thread_table k))(tid := map_option f (ht_lookup (thread_table k) tid))"
  using assms by (auto simp: thread_set_run ht.lookup_modify fun_upd_idem split: option.splits)

lemma set_current_thread_run:
  "\<exists>k'. set_current_thread tid k = Ok ((), k') \<and> cthread k' = tid \<and>
     cproc k' = (case ht_lookup (thread_table k) tid of None \<Rightarrow> ID_INVALID | Some th \<Rightarrow> th_proc th) \<and>
     \<not> hw_locked (hw k') \<and> (k_inv k \<longrightarrow> k_inv k') \<and> thread_table k' = thread_table k \<and>
     schedule k' = schedule k \<and> ctask k' = ctask k \<and> k_vfs k' = k_vfs k \<and> proc_table k' = proc_table k"
  by (simp add: set_current_thread_def thread_get_process_def thread_get_run hw_section_def k_inv_def
      hw_lock_unlock hwlock_unlock_def Let_def split: option.splits)

text \<open>A killed thread reads as dead, whether or not it still exists.\<close>

lemma thread_kill_dead:
  assumes "k_inv k"
  shows "\<exists>k'. thread_kill tid k = Ok (0, k') \<and> k_inv k' \<and>
    (\<exists>k''. thread_get_state tid k' = Ok (DEAD, k''))"
proof -
  obtain k' where k': "thread_set tid (\<lambda>th. th\<lparr>th_state := DEAD\<rparr>) k = Ok ((), k')"
    by (simp add: thread_set_run)
  have "ht_inv (thread_table k)" using assms by (simp add: k_inv_def)
  note look = thread_set_lookup [OF this k']
  show ?thesis
    using k' look thread_set_inv(1) [OF assms k']
    by (auto simp: thread_kill_def thread_set_state_def thread_get_state_def thread_get_run split: option.splits)
qed

section \<open>Creating processes\<close>

text \<open>The stack slot happens to hold unused tables: the case in which a new process is well formed.\<close>

definition clean_slot :: "proc_t \<Rightarrow> bool" where
  "clean_slot stk \<longleftrightarrow> length (p_name stk) = PROC_NAME_MAX \<and>
     (\<forall>i<HASHTABLE_CAPACITY. \<not> ht_used (threads stk) i \<and> \<not> ht_used (fds stk) i)"

lemma unused_table:
  assumes "\<forall>i<HASHTABLE_CAPACITY. \<not> ht_used t i"
  shows "ht_inv (t\<lparr>item_count := 0\<rparr>)" "ht_lookup (t\<lparr>item_count := 0\<rparr>) = Map.empty"
proof -
  have "{i. i < HASHTABLE_CAPACITY \<and> ht_used t i} = {}" using assms by auto
  then show inv: "ht_inv (t\<lparr>item_count := 0\<rparr>)" using assms by (intro ht_invI) auto
  show "ht_lookup (t\<lparr>item_count := 0\<rparr>) = Map.empty"
    using assms by (intro ext) (simp add: ht_lookup_None_iff [OF inv] ht_get_None_iff)
qed

lemma fresh_proc_ok:
  assumes "clean_slot stk" "is_cstr nm" "length nm = PROC_NAME_MAX"
  shows "proc_ok ((fresh_proc stk)\<lparr>p_id := i, p_name := nm, p_dir := d\<rparr>)"
proof -
  have t: "\<forall>i<HASHTABLE_CAPACITY. \<not> ht_used (threads stk) i" "\<forall>i<HASHTABLE_CAPACITY. \<not> ht_used (fds stk) i"
    using assms(1) by (simp_all add: clean_slot_def)
  show ?thesis
    using assms(2,3) unused_table [OF t(1)] unused_table [OF t(2)]
    by (simp add: proc_ok_def fresh_proc_def ht.below_def)
qed

lemma proc_create_core:
  assumes "k_core k" "length (p_name stk) = PROC_NAME_MAX" "is_cstr name" "Suc (Suc (unat (proc_counter k))) < 2 ^ 64"
  shows "\<exists>k'. proc_create stk name dir k = Ok (proc_counter k + 1, k') \<and> k_core k' \<and>
    (clean_slot stk \<longrightarrow> procs_ok (proc_table k) \<longrightarrow> procs_ok (proc_table k')) \<and>
    (ht_size (proc_table k) < HASHTABLE_CAPACITY \<longrightarrow>
      (\<exists>p. ht_lookup (proc_table k') = (ht_lookup (proc_table k))(proc_counter k + 1 \<mapsto> p) \<and> p_dir p = dir \<and>
        cstr (p_name p) = take (PROC_NAME_MAX - 1) (cstr name) \<and> p_thread_counter p = 0 \<and> lfd_counter p = 0 \<and>
        ht_size (fds p) = 0 \<and> (clean_slot stk \<longrightarrow> ht_lookup (fds p) = Map.empty \<and> ht_lookup (threads p) = Map.empty)))"
proof -
  let ?n = "proc_counter k + 1"
  have un: "unat ?n = Suc (unat (proc_counter k))" using assms(4) by (intro unat_succ) simp
  obtain nm where nm: "str_cpy_arr name (p_name stk) = Ok nm" "length nm = PROC_NAME_MAX" "is_cstr nm"
      "cstr nm = take (PROC_NAME_MAX - 1) (cstr name)"
    using str_cpy_n_ok [OF assms(3), of PROC_NAME_MAX "p_name stk"] assms(2)
    by (auto simp: str_cpy_arr_def PROC_NAME_MAX_def)
  let ?p = "(fresh_proc stk)\<lparr>p_id := ?n, p_name := nm, p_dir := dir\<rparr>"
  let ?t = "snd (ht_add (proc_table k) ?n ?p)"
  define k' where "k' = k_unlock ((k_lock k)\<lparr>proc_counter := ?n, proc_table := ?t\<rparr>)"
  have tab: "procs_all named (proc_table k)" "ht_inv (proc_table k)" "ht.below (proc_table k) (unat ?n)"
    using assms(1) un by (simp_all add: k_core_def procs_all_def)
  note fresh = ht.below_fresh [OF tab(3)]
  have "procs_all named ?t" using tab(1) fresh nm(2,3) by (intro procs_all_add) (simp_all add: named_def)
  then have "k_core k'" using assms(1) ht.below_add [OF tab(2,3), of ?p] by (simp add: k_core_def k'_def)
  moreover have "proc_create stk name dir k = Ok (?n, k')"
    using nm(1) by (simp add: proc_create_def hw_section_def Let_def k'_def)
  moreover have "ht_lookup (proc_table k') = (ht_lookup (proc_table k))(?n \<mapsto> ?p)" if "ht_size (proc_table k) < HASHTABLE_CAPACITY"
    using that tab by (simp add: k'_def ht.fresh_add_lookup)
  moreover have "ht_lookup (fds ?p) = Map.empty" "ht_lookup (threads ?p) = Map.empty" if "clean_slot stk"
    using that by (simp_all add: fresh_proc_def clean_slot_def unused_table)
  moreover have "procs_ok (proc_table k')" if "clean_slot stk" "procs_ok (proc_table k)"
    using procs_all_add [OF that(2) fresh fresh_proc_ok [OF that(1) nm(3,2)]] by (simp add: k'_def)
  moreover have "p_thread_counter ?p = 0" "lfd_counter ?p = 0" "ht_size (fds ?p) = 0"
    by (simp_all add: fresh_proc_def ht_size_def)
  ultimately show ?thesis using nm(4) by auto
qed

section \<open>Spawning threads\<close>

text \<open>The stack of a new thread is a heap allocation of its own.\<close>

definition thread_new :: "id_t \<Rightarrow> id_t \<Rightarrow> size_t \<Rightarrow> addr \<Rightarrow> thread_t" where
  "thread_new nid parent entry stk = \<lparr>th_id = nid, th_lid = ID_INVALID, th_proc = parent, th_state = NEW,
     th_entry = entry, th_stack = stk + THREAD_STACK_SIZE, th_stack_block = stk\<rparr>"

lemma operator_new_heap:
  assumes "operator_new n s = Ok (p, s')"
  shows "p \<noteq> 0" "pool_alloc n (km_heap s) = Ok (p, km_heap s')" "km_end_offset s' = km_end_offset s"
  using assms by (auto simp: operator_new_def kmem_alloc_def Let_def split: if_splits)

lemma stack_small: "unat THREAD_STACK_SIZE < 2 ^ 63" "unat THREAD_STACK_SIZE = 2048"
  by (simp_all add: THREAD_STACK_SIZE_def)

lemma create_thread_core:
  assumes "k_core k" "create_thread parent entry k = Ok (nid, k')" "Suc (unat (thread_counter k)) < 2 ^ 64"
  shows "nid = thread_counter k \<and> k_core k' \<and> (\<exists>stk. stk \<noteq> 0 \<and>
      pool_alloc THREAD_STACK_SIZE (km_heap (k_mem k)) = Ok (stk, km_heap (k_mem k')) \<and>
      thread_table k' = snd (ht_add (thread_table k) nid (thread_new nid parent entry stk))) \<and>
    proc_table k' = proc_table k \<and> proc_counter k' = proc_counter k \<and> schedule k' = schedule k \<and>
    ctask k' = ctask k \<and> k_vfs k' = k_vfs k \<and> thread_counter k' = thread_counter k + 1"
proof -
  obtain stk m where new: "operator_new THREAD_STACK_SIZE (k_mem (k_lock k)) = Ok (stk, m)"
      and k': "nid = thread_counter k" "k' = k_unlock ((k_lock k)\<lparr>thread_counter := thread_counter k + 1,
        k_mem := m, thread_table := snd (ht_add (thread_table k) nid (thread_new nid parent entry stk))\<rparr>)"
    using assms(2) by (auto simp: create_thread_def hw_section_def on_mem_def Let_def thread_new_def)
  have alloc: "stk \<noteq> 0" "pool_alloc THREAD_STACK_SIZE (km_heap (k_mem k)) = Ok (stk, km_heap m)"
    using operator_new_heap [OF new] by simp_all
  have heap: "heap_inv (km_heap (k_mem k))" using assms(1) by (simp add: k_core_def)
  then have "heap_inv (km_heap m)" using pool.alloc_owns [OF heap stack_small(1) alloc(2,1)] by blast
  moreover have t: "ht_inv (thread_table k)" "ht.below (thread_table k) (unat (thread_counter k))"
    using assms(1) by (simp_all add: k_core_def)
  then have "ht_inv (snd (ht_add (thread_table k) (thread_counter k) x))" for x
    by (simp add: ht.invar_add ht.below_fresh)
  ultimately have "k_core k'"
    using assms(1,3) t k' by (simp add: k_core_def unat_succ ht.below_add)
  then show ?thesis using k' alloc by auto
qed

lemma scheduler_schedule_run:
  "scheduler_schedule tid prio k = Ok ((), k_unlock ((k_lock k)\<lparr>schedule := q_push (schedule k)
     \<lparr>t_thread = tid, priority = word_of_int prio, cpriority = word_of_int prio\<rparr>\<rparr>))"
  by (simp add: scheduler_schedule_def hw_section_def Let_def)

lemma spawn_thread_core:
  assumes "k_core k" "ht_lookup (proc_table k) pid = Some p" "spawn_thread pid entry k = Ok (lid, k')"
    "Suc (unat (thread_counter k)) < 2 ^ 64"
  shows "lid = p_thread_counter p \<and> k_core k' \<and>
    schedule k' = q_push (schedule k) \<lparr>t_thread = thread_counter k, priority = 0, cpriority = 0\<rparr> \<and>
    (\<exists>stk. stk \<noteq> 0 \<and> pool_alloc THREAD_STACK_SIZE (km_heap (k_mem k)) = Ok (stk, km_heap (k_mem k')) \<and>
      (ht_size (thread_table k) < HASHTABLE_CAPACITY \<longrightarrow> ht_lookup (thread_table k') =
        (ht_lookup (thread_table k))(thread_counter k \<mapsto>
          (thread_new (thread_counter k) pid entry stk)\<lparr>th_lid := lid\<rparr>))) \<and>
    ht_lookup (proc_table k') = (ht_lookup (proc_table k))(pid \<mapsto>
      p\<lparr>p_thread_counter := lid + 1, threads := snd (ht_add (threads p) lid (thread_counter k))\<rparr>)"
proof -
  let ?lid = "p_thread_counter p" and ?tid = "thread_counter k"
  let ?bump = "\<lambda>p. p\<lparr>p_thread_counter := p_thread_counter p + 1\<rparr>"
  define k1 where "k1 = (k_lock k)\<lparr>proc_table := ht_modify (proc_table k) pid ?bump\<rparr>"
  have tab: "ht_inv (proc_table k)" using assms(1) by (simp add: k_core_def procs_all_def)
  have inv1: "k_core k1" using k_core_modify [of "k_lock k" ?bump pid] assms(1) by (simp add: k1_def)
  define add where "add = (\<lambda>tid (p :: proc_t). p\<lparr>threads := snd (ht_add (threads p) ?lid tid)\<rparr>)"
  obtain tid k2 k3 where run: "create_thread pid entry k1 = Ok (tid, k2)"
      "thread_set_lid tid ?lid k2 = Ok ((), k3)" and lid: "lid = ?lid"
      and k': "k' = k_unlock (k_unlock ((k_lock (k3\<lparr>proc_table := ht_modify (proc_table k3) pid (add tid)\<rparr>))
        \<lparr>schedule := q_push (schedule k3) \<lparr>t_thread = tid, priority = 0, cpriority = 0\<rparr>\<rparr>))"
    using assms(2,3)
    by (auto simp: spawn_thread_def hw_section_def [of _ k] Let_def scheduler_schedule_run k1_def add_def)
  have c: "tid = ?tid" "k_core k2" "proc_table k2 = proc_table k1" "schedule k2 = schedule k"
    and "\<exists>stk. stk \<noteq> 0 \<and> pool_alloc THREAD_STACK_SIZE (km_heap (k_mem k)) = Ok (stk, km_heap (k_mem k2)) \<and>
      thread_table k2 = snd (ht_add (thread_table k) tid (thread_new tid pid entry stk))"
    using create_thread_core [OF inv1 run(1)] assms(4) by (auto simp: k1_def)
  then obtain stk where stk: "stk \<noteq> 0"
      "pool_alloc THREAD_STACK_SIZE (km_heap (k_mem k)) = Ok (stk, km_heap (k_mem k2))"
      "thread_table k2 = snd (ht_add (thread_table k) tid (thread_new tid pid entry stk))" by blast
  have s3: "k_core k3" "ht_lookup (thread_table k3) = (ht_lookup (thread_table k2))
      (tid := map_option (\<lambda>th. th\<lparr>th_lid := ?lid\<rparr>) (ht_lookup (thread_table k2) tid))"
    using thread_set_inv(2) [OF c(2)] thread_set_lookup run(2) c(2) by (auto simp: thread_set_lid_def k_core_def)
  have k3: "proc_table k3 = proc_table k1" "schedule k3 = schedule k" "km_heap (k_mem k3) = km_heap (k_mem k2)"
    using run(2) c(3,4) by (auto simp: thread_set_lid_def thread_set_run split: option.splits)
  have "k_core (k3\<lparr>proc_table := ht_modify (proc_table k3) pid (add tid)\<rparr>)"
    using s3(1) by (rule k_core_modify) (simp add: add_def)
  then have "k_core k'" using k' by (simp add: k_core_def ring.invar_push)
  moreover have "ht_lookup (proc_table k') = (ht_lookup (proc_table k))(pid \<mapsto> add tid (?bump p))"
    using tab assms(2) k' k3(1) by (simp add: k1_def ht_modify_Some ht.invar_modify)
  moreover have "ht_lookup (thread_table k') = (ht_lookup (thread_table k))
      (?tid \<mapsto> (thread_new ?tid pid entry stk)\<lparr>th_lid := lid\<rparr>)"
    if "ht_size (thread_table k) < HASHTABLE_CAPACITY"
  proof -
    have "ht_lookup (thread_table k2) = (ht_lookup (thread_table k))(?tid \<mapsto> thread_new ?tid pid entry stk)"
      using that assms(1) stk(3) c(1) by (simp add: k_core_def ht.fresh_add_lookup)
    then show ?thesis using s3(2) k' lid c(1) by simp
  qed
  ultimately show ?thesis using lid k' k3 c(1) stk(1,2) by (auto simp: add_def)
qed

text \<open>A well-formed record stays well formed when a thread is entered.\<close>

lemma thread_entered:
  fixes tid :: id_t
  assumes "proc_ok p" "Suc (unat (p_thread_counter p)) < 2 ^ 64"
  defines "q \<equiv> p\<lparr>p_thread_counter := p_thread_counter p + 1, threads := snd (ht_add (threads p) (p_thread_counter p) tid)\<rparr>"
  shows "proc_ok q" "ht_size (threads p) < HASHTABLE_CAPACITY \<Longrightarrow>
    ht_lookup (threads q) = (ht_lookup (threads p))(p_thread_counter p \<mapsto> tid)"
proof -
  have up: "unat (p_thread_counter p + 1) = Suc (unat (p_thread_counter p))" using assms(2) by (rule unat_succ)
  have fresh: "ht_lookup (threads p) (p_thread_counter p) = None"
    using assms(1) by (intro ht.below_fresh) (simp add: proc_ok_def)
  show "proc_ok q"
    using assms(1) up fresh ht.below_add [of "threads p" _ tid] by (auto simp: q_def proc_ok_def ht.invar_add)
  show "ht_lookup (threads q) = (ht_lookup (threads p))(p_thread_counter p \<mapsto> tid)" if "ht_size (threads p) < HASHTABLE_CAPACITY"
    using that assms(1) fresh by (simp add: q_def proc_ok_def ht.lookup_add)
qed

lemma spawn_thread_spec:
  assumes "k_inv k" "ht_lookup (proc_table k) pid = Some p" "spawn_thread pid entry k = Ok (lid, k')"
    "Suc (unat (thread_counter k)) < 2 ^ 64" "Suc (unat (p_thread_counter p)) < 2 ^ 64"
  shows "lid = p_thread_counter p \<and> k_inv k' \<and>
    schedule k' = q_push (schedule k) \<lparr>t_thread = thread_counter k, priority = 0, cpriority = 0\<rparr> \<and>
    (\<exists>stk. stk \<noteq> 0 \<and> pool_alloc THREAD_STACK_SIZE (km_heap (k_mem k)) = Ok (stk, km_heap (k_mem k')) \<and>
      (ht_size (thread_table k) < HASHTABLE_CAPACITY \<longrightarrow> ht_lookup (thread_table k') =
        (ht_lookup (thread_table k))(thread_counter k \<mapsto>
          (thread_new (thread_counter k) pid entry stk)\<lparr>th_lid := lid\<rparr>))) \<and>
    (\<exists>q. ht_lookup (proc_table k') = (ht_lookup (proc_table k))(pid \<mapsto> q) \<and>
      p_name q = p_name p \<and> p_dir q = p_dir p \<and> p_thread_counter q = p_thread_counter p + 1 \<and>
      (ht_size (threads p) < HASHTABLE_CAPACITY \<longrightarrow> ht_lookup (threads q) =
        (ht_lookup (threads p))(lid \<mapsto> thread_counter k)))"
proof -
  have inv: "k_core k" "procs_ok (proc_table k)" and pok: "proc_ok p"
    using assms(1,2) by (auto simp: k_inv_iff procs_all_def)
  note core = spawn_thread_core [OF inv(1) assms(2-4)]
  note q = thread_entered [OF pok assms(5), of "thread_counter k"]
  have "k_inv k'" using core q(1) by (intro k_inv_upd [OF _ inv(2)]) auto
  then show ?thesis using core q(2) by auto
qed

text \<open>A stack that can be allocated is all a new thread needs.\<close>

lemma create_thread_returns:
  assumes "pool_alloc THREAD_STACK_SIZE (km_heap (k_mem k)) = Ok (stk, h)" "stk \<noteq> 0"
  shows "\<exists>k'. create_thread parent entry k = Ok (thread_counter k, k')"
proof -
  have "pool_alloc THREAD_STACK_SIZE (km_heap (k_mem (k_lock k))) = Ok (stk, h)" using assms(1) by simp
  then show ?thesis using assms(2)
    by (simp add: create_thread_def hw_section_def on_mem_def operator_new_def kmem_alloc_def Let_def)
qed

lemma spawn_thread_returns:
  assumes "ht_lookup (proc_table k) pid = Some p" "pool_alloc THREAD_STACK_SIZE (km_heap (k_mem k)) = Ok (stk, h)"
    "stk \<noteq> 0"
  shows "\<exists>lid k'. spawn_thread pid entry k = Ok (lid, k')"
proof -
  define k1 where "k1 = (k_lock k)\<lparr>proc_table := ht_modify (proc_table k) pid
    (\<lambda>p. p\<lparr>p_thread_counter := p_thread_counter p + 1\<rparr>)\<rparr>"
  have "km_heap (k_mem k1) = km_heap (k_mem k)" by (simp add: k1_def)
  then obtain k2 where "create_thread pid entry k1 = Ok (thread_counter k1, k2)"
    using create_thread_returns [of k1 stk h pid entry] assms(2,3) by auto
  then show ?thesis using assms(1)
    by (simp add: spawn_thread_def hw_section_def [of _ k] Let_def k1_def thread_set_lid_def thread_set_run
        scheduler_schedule_run)
qed

section \<open>Descriptors of a process\<close>

lemma proc_create_fd_spec:
  assumes "k_inv k" "ht_lookup (proc_table k) pid = Some p"
    "Suc (unat (lfd_counter p)) < 2 ^ 64" "Suc (unat (fd_counter (k_vfs k))) < 2 ^ 64"
  shows "\<exists>k' v q. proc_create_fd pid ino k = Ok (lfd_counter p, k') \<and> k_inv k' \<and>
    create_fd ino (k_vfs k) = Ok (fd_counter (k_vfs k), v) \<and> k_vfs k' = v \<and>
    ht_lookup (proc_table k') = (ht_lookup (proc_table k))(pid \<mapsto> q) \<and>
    (ht_size (fds p) < HASHTABLE_CAPACITY \<longrightarrow>
      ht_lookup (fds q) = (ht_lookup (fds p))(lfd_counter p \<mapsto> fd_counter (k_vfs k))) \<and>
    thread_table k' = thread_table k \<and> pipes k' = pipes k \<and> pipe_store k' = pipe_store k \<and>
    rd_inodes k' = rd_inodes k \<and> vtables k' = vtables k \<and> ram k' = ram k \<and> cproc k' = cproc k"
proof -
  let ?lfd = "lfd_counter p" and ?fd = "fd_counter (k_vfs k)"
  let ?bump = "\<lambda>p. p\<lparr>lfd_counter := lfd_counter p + 1\<rparr>"
  define k1 where "k1 = (k_lock k)\<lparr>proc_table := ht_modify (proc_table k) pid ?bump\<rparr>"
  have tab: "procs_ok (proc_table k)" "ht_inv (proc_table k)" and pok: "proc_ok p"
    using assms(1,2) by (auto simp: k_inv_def procs_all_def)
  have up: "unat (?lfd + 1) = Suc (unat ?lfd)" using assms(3) by (rule unat_succ)
  have bok: "proc_ok (?bump p)" using pok up by (auto simp: proc_ok_def intro: ht.below_mono)
  have look1: "ht_lookup (proc_table k1) = (ht_lookup (proc_table k))(pid \<mapsto> ?bump p)"
    using tab(2) assms(2) by (simp add: k1_def ht_modify_Some)
  have p1: "procs_ok (proc_table k1)"
    using assms(2) bok procs_all_modify [OF tab(1), of pid ?bump] by (simp add: k1_def)
  obtain v where v: "create_fd ino (k_vfs k) = Ok (?fd, v)" "vfs_inv v"
    using create_fd_inv [of "k_vfs k" ino] assms(1,4) by (auto simp: k_inv_def)
  define add where "add = (\<lambda>p :: proc_t. p\<lparr>fds := snd (ht_add (fds p) ?lfd ?fd)\<rparr>)"
  define q where "q = add (?bump p)"
  define k' where "k' = k_unlock (k1\<lparr>k_vfs := v, proc_table := ht_modify (proc_table k1) pid add\<rparr>)"
  have fresh: "ht_lookup (fds p) ?lfd = None" using pok by (intro ht.below_fresh) (simp add: proc_ok_def)
  have qok: "proc_ok q"
    using pok up fresh ht.below_add [of "fds p" ?lfd ?fd] by (auto simp: q_def add_def proc_ok_def ht.invar_add)
  have tab2: "procs_ok (ht_modify (proc_table k1) pid add)"
    using look1 qok by (intro procs_all_modify [OF p1]) (auto simp: q_def)
  have look2: "ht_lookup (proc_table k') = (ht_lookup (proc_table k))(pid \<mapsto> q)"
    using p1 look1 by (simp add: k'_def ht_modify_Some procs_all_def q_def)
  have "proc_create_fd pid ino k = Ok (?lfd, k')"
    using assms(2) v(1)
    by (simp add: proc_create_fd_def hw_section_def on_vfs_def Let_def k'_def k1_def add_def)
  moreover have "k_inv k'"
    using assms(1) v(2) tab2 below_proc_modify [OF tab(1)] below_proc_modify [OF p1]
    by (simp add: k_inv_def k'_def k1_def)
  moreover have "ht_lookup (fds q) = (ht_lookup (fds p))(?lfd \<mapsto> ?fd)" if "ht_size (fds p) < HASHTABLE_CAPACITY"
    using that pok fresh by (simp add: q_def add_def proc_ok_def ht.lookup_add)
  ultimately show ?thesis
    using v(1) look2 by (intro exI [of _ k'] exI [of _ v] exI [of _ q]) (simp add: k'_def k1_def ram_def)
qed

lemma proc_get_fd_run:
  "\<exists>k'. proc_get_fd pid lfd k = Ok (case ht_lookup (proc_table k) pid of None \<Rightarrow> ID_INVALID
     | Some p \<Rightarrow> if lfd = ID_INVALID then ID_INVALID
       else (case ht_lookup (fds p) lfd of None \<Rightarrow> ID_INVALID | Some fd \<Rightarrow> fd), k') \<and>
     k' = k_unlock (k_lock k)"
  by (simp add: proc_get_fd_def hw_section_def)

lemma proc_delete_fd_spec:
  assumes "k_inv k" "ht_lookup (proc_table k) pid = Some p"
  shows "\<exists>k' f. proc_delete_fd pid lfd k = Ok (if ht_lookup (fds p) lfd \<noteq> None then 0 else 1, k') \<and>
    k_inv k' \<and> ht_lookup (proc_table k') = (ht_lookup (proc_table k))(pid \<mapsto> p\<lparr>fds := f\<rparr>) \<and>
    ht_lookup f = (ht_lookup (fds p))(lfd := None) \<and>
    (\<exists>t. k' = k_unlock ((k_lock k)\<lparr>proc_table := t\<rparr>))"
proof -
  let ?rm = "\<lambda>p :: proc_t. p\<lparr>fds := snd (ht_remove (fds p) lfd)\<rparr>"
  define k' where "k' = k_unlock ((k_lock k)\<lparr>proc_table := ht_modify (proc_table k) pid ?rm\<rparr>)"
  have tab: "k_core k" "procs_ok (proc_table k)" "ht_inv (proc_table k)" and pok: "proc_ok p"
    using assms by (auto simp: k_inv_iff procs_all_def)
  have look: "ht_lookup (proc_table k') = (ht_lookup (proc_table k))(pid \<mapsto> ?rm p)"
    using tab(3) assms(2) by (simp add: k'_def ht_modify_Some)
  have "proc_ok (?rm p)" using pok by (auto simp: proc_ok_def ht.invar_remove ht.below_remove)
  moreover have "k_core k'" using k_core_modify [of "k_lock k" ?rm pid] tab(1) by (simp add: k'_def)
  ultimately have "k_inv k'" using look by (intro k_inv_upd [OF _ tab(2)])
  moreover have "ht_lookup (fds (?rm p)) = (ht_lookup (fds p))(lfd := None)"
    using pok by (simp add: proc_ok_def ht.lookup_remove)
  moreover have "proc_delete_fd pid lfd k = Ok (if ht_lookup (fds p) lfd \<noteq> None then 0 else 1, k')"
    using assms(2) pok by (simp add: proc_delete_fd_def hw_section_def k'_def proc_ok_def ht.remove_result)
  ultimately show ?thesis using look
    by (intro exI [of _ k'] exI [of _ "snd (ht_remove (fds p) lfd)"]) (auto simp: k'_def)
qed

lemma delete_thread_spec:
  assumes "k_inv k" "ht_lookup (proc_table k) pid = Some p"
  shows "\<exists>k' q. delete_thread pid tid k = Ok (0, k') \<and> k_inv k' \<and>
    ht_lookup (thread_table k') = (ht_lookup (thread_table k))(tid := None) \<and>
    ht_lookup (proc_table k') = (ht_lookup (proc_table k))(pid \<mapsto> q) \<and>
    ht_lookup (threads q) = (ht_lookup (threads p))
      ((case ht_lookup (thread_table k) tid of None \<Rightarrow> ID_INVALID | Some th \<Rightarrow> th_lid th) := None) \<and>
    schedule k' = schedule k \<and> ctask k' = ctask k"
proof -
  define lid where "lid = (case ht_lookup (thread_table k) tid of None \<Rightarrow> ID_INVALID | Some th \<Rightarrow> th_lid th)"
  let ?rm = "\<lambda>p :: proc_t. p\<lparr>threads := snd (ht_remove (threads p) lid)\<rparr>"
  define k' where "k' = k_unlock ((k_unlock (k_lock (k_lock k)))\<lparr>
    proc_table := ht_modify (proc_table k) pid ?rm, thread_table := snd (ht_remove (thread_table k) tid)\<rparr>)"
  have tab: "procs_ok (proc_table k)" "ht_inv (proc_table k)" "ht_inv (thread_table k)" and pok: "proc_ok p"
    using assms by (auto simp: k_inv_def procs_all_def)
  have qok: "proc_ok (?rm p)" using pok by (auto simp: proc_ok_def ht.invar_remove ht.below_remove)
  have "procs_ok (ht_modify (proc_table k) pid ?rm)"
    using assms(2) qok by (intro procs_all_modify [OF tab(1)]) simp
  then have "k_inv k'"
    using assms(1) below_proc_modify [OF tab(1)]
    by (simp add: k_inv_def k'_def ht.invar_remove ht.below_remove)
  moreover have "ht_lookup (proc_table k') = (ht_lookup (proc_table k))(pid \<mapsto> ?rm p)"
    using tab(2) assms(2) by (simp add: k'_def ht_modify_Some)
  moreover have "ht_lookup (threads (?rm p)) = (ht_lookup (threads p))(lid := None)"
    using pok by (simp add: proc_ok_def ht.lookup_remove)
  moreover have "delete_thread pid tid k = Ok (0, k')"
    using assms(2)
    by (simp add: delete_thread_def hw_section_def thread_get_lid_def thread_get_run Let_def k'_def lid_def)
  moreover have "ht_lookup (thread_table k') = (ht_lookup (thread_table k))(tid := None)"
    using tab(3) by (simp add: k'_def ht.lookup_remove)
  ultimately show ?thesis unfolding lid_def [symmetric]
    by (intro exI [of _ k'] exI [of _ "?rm p"]) (simp add: k'_def)
qed

text \<open>Whatever the tables of a process hold, the same operations keep \<open>k_core\<close>.\<close>

lemma proc_create_fd_core:
  assumes "k_core k" "Suc (unat (fd_counter (k_vfs k))) < 2 ^ 64" "proc_create_fd pid ino k = Ok (lfd, k')"
  shows "k_core k'"
proof (cases "ht_lookup (proc_table k) pid")
  case None
  then show ?thesis using assms(1,3) by (auto simp: proc_create_fd_def hw_section_Ok)
next
  case (Some p)
  let ?bump = "\<lambda>p. p\<lparr>lfd_counter := lfd_counter p + 1\<rparr>" and ?fd = "fd_counter (k_vfs k)"
  let ?add = "\<lambda>q. q\<lparr>fds := snd (ht_add (fds q) (lfd_counter p) ?fd)\<rparr>"
  obtain v where v: "create_fd ino (k_vfs k) = Ok (?fd, v)" "vfs_inv v"
    using create_fd_inv [of "k_vfs k" ino] assms(1,2) by (auto simp: k_core_def)
  define k1 where "k1 = (k_lock k)\<lparr>proc_table := ht_modify (proc_table k) pid ?bump\<rparr>"
  have "k_core k1" using k_core_modify [of "k_lock k" ?bump pid] assms(1) by (simp add: k1_def)
  then have "k_core (k1\<lparr>k_vfs := v\<rparr>)" using v(2) by (simp add: k_core_def)
  then have "k_core ((k1\<lparr>k_vfs := v\<rparr>)\<lparr>proc_table := ht_modify (proc_table (k1\<lparr>k_vfs := v\<rparr>)) pid ?add\<rparr>)"
    by (rule k_core_modify) simp
  moreover have "k' = k_unlock ((k1\<lparr>k_vfs := v\<rparr>)\<lparr>proc_table := ht_modify (proc_table (k1\<lparr>k_vfs := v\<rparr>)) pid ?add\<rparr>)"
    using assms(3) Some v(1) by (auto simp: proc_create_fd_def hw_section_def on_vfs_def Let_def k1_def)
  ultimately show ?thesis by simp
qed

lemma proc_delete_fd_core:
  assumes "k_core k" "proc_delete_fd pid lfd k = Ok (x, k')"
  shows "k_core k'"
proof -
  have "k_core ((k_lock k)\<lparr>proc_table := ht_modify (proc_table (k_lock k)) pid (\<lambda>p. p\<lparr>fds := snd (ht_remove (fds p) lfd)\<rparr>)\<rparr>)"
    using assms(1) by (intro k_core_modify) simp_all
  then show ?thesis using assms by (auto simp: proc_delete_fd_def hw_section_Ok split: option.splits)
qed

lemma delete_thread_core:
  assumes "k_core k" "delete_thread pid tid k = Ok (x, k')"
  shows "k_core k'"
proof (cases "ht_lookup (proc_table k) pid")
  case None
  then show ?thesis using assms by (auto simp: delete_thread_def hw_section_Ok)
next
  case (Some p)
  define lid where "lid = (case ht_lookup (thread_table k) tid of None \<Rightarrow> ID_INVALID | Some th \<Rightarrow> th_lid th)"
  let ?k = "k_unlock (k_lock (k_lock k))" and ?rm = "\<lambda>p :: proc_t. p\<lparr>threads := snd (ht_remove (threads p) lid)\<rparr>"
  have "k_core (?k\<lparr>proc_table := ht_modify (proc_table ?k) pid ?rm\<rparr>)" using assms(1) by (intro k_core_modify) simp_all
  moreover have "k' = k_unlock (?k\<lparr>proc_table := ht_modify (proc_table k) pid ?rm,
      thread_table := snd (ht_remove (thread_table k) tid)\<rparr>)"
    using assms(2) Some by (simp add: delete_thread_def hw_section_def thread_get_lid_def thread_get_run Let_def lid_def)
  ultimately show ?thesis by (simp add: k_core_def ht.invar_remove ht.below_remove)
qed

end
