(* ===== verification/Pipe.thy ===== *)
theory Pipe
  imports Kernel_State Proc
begin

text \<open>
  Pipes: \<open>kernel/sys/pipe.cpp\<close>. An inode of type \<open>PIPE\<close> names a FIFO in \<open>pipe_store\<close>; buffers of the
  callers are addresses in the machine's memory.
\<close>

definition pipe_init :: "kernel \<Rightarrow> kernel" where
  "pipe_init k = k\<lparr>vtables := (vtables k)(Pipe_vtable := (vtables k Pipe_vtable)\<lparr>
     vt_open := Some Pipe_open_call, vt_close := Some Pipe_close_call,
     vt_read := Some Pipe_read_call, vt_write := Some Pipe_write_call\<rparr>)\<rparr>"

definition mount_pipe :: "nat \<Rightarrow> string \<Rightarrow> kernel \<Rightarrow> (id_t \<times> kernel) res" where
  "mount_pipe pipe path k =
     bind_res (on_vfs (create_inode PIPE) k) (\<lambda>(ninode, k1).
     bind_res (on_vfs (inode_set_vtable ninode (Some Pipe_vtable)) k1) (\<lambda>(_, k2).
     bind_res (on_vfs (mount ninode path) k2) (\<lambda>(_, k3).
     bind_res (on_vfs (inode_get_vtable ninode) k3) (\<lambda>(_, k4).
     Ok (ninode, k4\<lparr>pipes := snd (ht_add (pipes k4) ninode pipe)\<rparr>)))))"

definition pipe_open_call :: "id_t \<Rightarrow> kernel \<Rightarrow> (int \<times> kernel) res" where
  "pipe_open_call inode k = Ok (if inode = ID_INVALID then 1 else 0, k)"

definition pipe_close_call :: "id_t \<Rightarrow> kernel \<Rightarrow> (int \<times> kernel) res" where
  "pipe_close_call fd k = Ok (if fd = ID_INVALID then 1 else 0, k)"

text \<open>One byte and a terminator are stored, whatever the size of the buffer.\<close>

definition pipe_read_call :: "id_t \<Rightarrow> addr \<Rightarrow> size_t \<Rightarrow> kernel \<Rightarrow> (64 word \<times> kernel) res" where
  "pipe_read_call fd rbuff n k =
     bind_res (on_vfs (fd_get_inode fd) k) (\<lambda>(ino, k1).
     case ht_lookup (pipes k1) ino of
       None \<Rightarrow> Ok (0, k1)
     | Some p \<Rightarrow> bind_res (read_unsafe (pipe_store k1 p)) (\<lambda>(b, f).
         let k2 = k1\<lparr>pipe_store := (pipe_store k1)(p := f)\<rparr>
         in Ok (1, set_ram ((ram k2)(rbuff := b, rbuff + 1 := 0)) k2)))"

fun pipe_write_loop :: "memory \<Rightarrow> addr \<Rightarrow> nat \<Rightarrow> nat \<Rightarrow> pipe_t \<Rightarrow> pipe_t" where
  "pipe_write_loop m buff i 0 f = f"
| "pipe_write_loop m buff i (Suc k) f =
     pipe_write_loop m buff (Suc i) k (fifo_write f (m (buff + of_nat i)))"

definition pipe_write_call :: "id_t \<Rightarrow> addr \<Rightarrow> size_t \<Rightarrow> kernel \<Rightarrow> (64 word \<times> kernel) res" where
  "pipe_write_call fd buff n k =
     bind_res (on_vfs (fd_get_inode fd) k) (\<lambda>(ino, k1).
     case ht_lookup (pipes k1) ino of
       None \<Rightarrow> Ok (0, k1)
     | Some p \<Rightarrow>
         Ok (n, k1\<lparr>pipe_store := (pipe_store k1)
           (p := pipe_write_loop (ram k1) buff 0 (unat n) (pipe_store k1 p))\<rparr>))"

section \<open>Bytes through a pipe\<close>

lemma set_ram_fields [simp]:
  "k_vfs (set_ram m k) = k_vfs k" "pipes (set_ram m k) = pipes k" "pipe_store (set_ram m k) = pipe_store k"
  "proc_table (set_ram m k) = proc_table k" "cproc (set_ram m k) = cproc k" "ram (set_ram m k) = m"
  "rd_inodes (set_ram m k) = rd_inodes k" "vtables (set_ram m k) = vtables k" "thread_table (set_ram m k) = thread_table k"
  "schedule (set_ram m k) = schedule k" "ctask (set_ram m k) = ctask k" "hw (set_ram m k) = hw k"
  by (simp_all add: set_ram_def ram_def)

lemma pipe_write_loop_eq:
  "pipe_write_loop m buff i k f = fifo.put_all f (map (\<lambda>j. m (buff + of_nat j)) [i..<i + k])"
proof (induction k arbitrary: i f)
  case (Suc k)
  have "[i..<i + Suc k] = i # [Suc i..<Suc i + k]" by (simp add: upt_conv_Cons)
  then show ?case using Suc by (simp add: fifo_write_eq)
qed simp

lemma fd_inode_run:
  "vfs_inv (k_vfs k) \<Longrightarrow> on_vfs (fd_get_inode fd) k =
     Ok (case ht_lookup (fd_table (k_vfs k)) fd of None \<Rightarrow> ID_INVALID | Some d \<Rightarrow> d_inode d, k)"
  by (simp add: on_vfs_def fd_getters_run)

text \<open>A write that fits puts the bytes of the buffer behind those already in the pipe.\<close>

lemma pipe_write_call_spec:
  assumes "vfs_inv (k_vfs k)" "ht_lookup (fd_table (k_vfs k)) fd = Some d"
    "ht_lookup (pipes k) (d_inode d) = Some p" "fifo_inv (pipe_store k p)"
    "length (fifo_list (pipe_store k p)) + unat n \<le> fifo_cap (pipe_store k p)"
  shows "\<exists>k'. pipe_write_call fd buff n k = Ok (n, k') \<and> k_vfs k' = k_vfs k \<and> pipes k' = pipes k \<and>
    ram k' = ram k \<and> fifo_inv (pipe_store k' p) \<and> fifo_cap (pipe_store k' p) = fifo_cap (pipe_store k p) \<and>
    fifo_list (pipe_store k' p) = fifo_list (pipe_store k p) @ bytes_at (ram k) buff (unat n) \<and>
    (\<forall>q. q \<noteq> p \<longrightarrow> pipe_store k' q = pipe_store k q)"
proof -
  let ?b = "bytes_at (ram k) buff (unat n)"
  have w: "pipe_write_loop (ram k) buff 0 (unat n) (pipe_store k p) = fifo.put_all (pipe_store k p) ?b"
    by (simp add: pipe_write_loop_eq bytes_at_def)
  have "fifo_inv (fifo.put_all (pipe_store k p) ?b) \<and>
      fifo_list (fifo.put_all (pipe_store k p) ?b) = fifo_list (pipe_store k p) @ ?b \<and>
      fifo_cap (fifo.put_all (pipe_store k p) ?b) = fifo_cap (pipe_store k p)"
    using assms(4,5) by (intro fifo.put_all_room) simp_all
  then show ?thesis
    using assms(1-3) w by (simp add: pipe_write_call_def fd_inode_run ram_def)
qed

lemma pipe_read_call_spec:
  assumes "vfs_inv (k_vfs k)" "ht_lookup (fd_table (k_vfs k)) fd = Some d"
    "ht_lookup (pipes k) (d_inode d) = Some p" "fifo_inv (pipe_store k p)"
    "fifo_list (pipe_store k p) = b # bs"
  shows "\<exists>k'. pipe_read_call fd rbuff n k = Ok (1, k') \<and> k_vfs k' = k_vfs k \<and> pipes k' = pipes k \<and>
    ram k' = (ram k)(rbuff := b, rbuff + 1 := 0) \<and> fifo_inv (pipe_store k' p) \<and>
    fifo_list (pipe_store k' p) = bs"
proof -
  obtain f where f: "read_unsafe (pipe_store k p) = Ok (b, f)" "fifo_inv f" "fifo_list f = bs"
    using fifo.take_some [OF assms(4,5)] by blast
  have "ram (k\<lparr>pipe_store := g\<rparr>) = ram k" for g by (simp add: ram_def)
  then show ?thesis using assms(1-3) f by (simp add: pipe_read_call_def fd_inode_run Let_def)
qed

text \<open>Reading from an empty pipe does not return.\<close>

lemma pipe_read_empty:
  assumes "vfs_inv (k_vfs k)" "ht_lookup (fd_table (k_vfs k)) fd = Some d"
    "ht_lookup (pipes k) (d_inode d) = Some p" "fifo_inv (pipe_store k p)"
    "fifo_list (pipe_store k p) = []"
  shows "pipe_read_call fd rbuff n k = Fail Diverges"
  using assms fifo.take_none [OF assms(4,5)] by (simp add: pipe_read_call_def fd_inode_run)

text \<open>Reading byte after byte: what a caller of \<open>n\<close> reads sees at its buffer.\<close>

fun pipe_drain :: "nat \<Rightarrow> id_t \<Rightarrow> addr \<Rightarrow> kernel \<Rightarrow> (u8 list \<times> kernel) res" where
  "pipe_drain 0 fd rbuff k = Ok ([], k)"
| "pipe_drain (Suc n) fd rbuff k =
     bind_res (pipe_read_call fd rbuff 2 k) (\<lambda>(_, k1).
     bind_res (pipe_drain n fd rbuff k1) (\<lambda>(bs, k2). Ok (ram k1 rbuff # bs, k2)))"

lemma pipe_drain_all:
  assumes "vfs_inv (k_vfs k)" "ht_lookup (fd_table (k_vfs k)) fd = Some d"
    "ht_lookup (pipes k) (d_inode d) = Some p" "fifo_inv (pipe_store k p)" "fifo_list (pipe_store k p) = bs"
  shows "\<exists>k'. pipe_drain (length bs) fd rbuff k = Ok (bs, k') \<and> fifo_list (pipe_store k' p) = []"
  using assms
proof (induction bs arbitrary: k)
  case (Cons b bs)
  obtain k1 where k1: "pipe_read_call fd rbuff 2 k = Ok (1, k1)" "k_vfs k1 = k_vfs k" "pipes k1 = pipes k"
      "ram k1 = (ram k)(rbuff := b, rbuff + 1 := 0)" "fifo_inv (pipe_store k1 p)" "fifo_list (pipe_store k1 p) = bs"
    using pipe_read_call_spec [OF Cons.prems, of rbuff 2] by blast
  have "rbuff \<noteq> rbuff + 1" by simp
  then have "ram k1 rbuff = b" using k1(4) by simp
  moreover obtain k2 where "pipe_drain (length bs) fd rbuff k1 = Ok (bs, k2)" "fifo_list (pipe_store k2 p) = []"
    using Cons.IH [of k1] Cons.prems k1 by auto
  ultimately show ?case using k1(1) by simp
qed simp

lemma pipe_roundtrip:
  assumes "vfs_inv (k_vfs k)" "ht_lookup (fd_table (k_vfs k)) fd = Some d"
    "ht_lookup (pipes k) (d_inode d) = Some p" "fifo_inv (pipe_store k p)" "fifo_list (pipe_store k p) = []"
    "unat n \<le> fifo_cap (pipe_store k p)"
  shows "\<exists>k1 k2. pipe_write_call fd buff n k = Ok (n, k1) \<and>
    pipe_drain (unat n) fd rbuff k1 = Ok (bytes_at (ram k) buff (unat n), k2) \<and> fifo_list (pipe_store k2 p) = []"
proof -
  have room: "length (fifo_list (pipe_store k p)) + unat n \<le> fifo_cap (pipe_store k p)" using assms(5,6) by simp
  obtain k1 where k1: "pipe_write_call fd buff n k = Ok (n, k1)" "k_vfs k1 = k_vfs k" "pipes k1 = pipes k"
      "fifo_inv (pipe_store k1 p)" "fifo_list (pipe_store k1 p) = bytes_at (ram k) buff (unat n)"
    using pipe_write_call_spec [OF assms(1-4) room, of buff] assms(5) by auto
  then show ?thesis
    using pipe_drain_all [of k1 fd d p "bytes_at (ram k) buff (unat n)" rbuff] assms(1-3) by auto
qed

end
