(* ===== verification/Initrd.thy ===== *)
theory Initrd
  imports Tar Pipe
begin

text \<open>
  The initial ram disk: \<open>kernel/sys/initrd.cpp\<close>. The archives the boot loader left in memory are turned
  into a file system whose regular files read straight from the archive.
\<close>

section \<open>Registering and unpacking\<close>

fun initrd_add_from :: "addr \<Rightarrow> size_t \<Rightarrow> addr \<Rightarrow> initrd_t list \<Rightarrow> initrd_t list" where
  "initrd_add_from start siz args [] = []"
| "initrd_add_from start siz args (r # rs) =
     (if rd_size r = 0
      then initrd_default\<lparr>rd_start := start, rd_size := siz, rd_args := args\<rparr> # rs
      else r # initrd_add_from start siz args rs)"

definition initrd_add :: "addr \<Rightarrow> size_t \<Rightarrow> addr \<Rightarrow> kernel \<Rightarrow> kernel" where
  "initrd_add start siz args k = k\<lparr>initrds := initrd_add_from start siz args (initrds k)\<rparr>"

definition type_of_flag :: "u8 \<Rightarrow> inode_type" where
  "type_of_flag c =
     (if c = 0x30 then NORMAL_FILE else if c = 0x31 then HARD_LINK else if c = 0x32 then SYM_LINK
      else if c = 0x33 then CHAR_DEVICE else if c = 0x34 then BLOCK_DEVICE
      else if c = 0x36 then PIPE else DIRECTORY)"

text \<open>One path component: the existing child, or a new inode mounted under the current one.\<close>

definition initrd_element :: "id_t \<Rightarrow> addr \<Rightarrow> nat \<Rightarrow> nat \<Rightarrow> id_t \<Rightarrow> kernel \<Rightarrow> (id_t \<times> kernel) res" where
  "initrd_element fs cheader n i cinode k =
     bind_res (path_element_get (mem_string (ram k) cheader) (replicate 256 NUL) i) (\<lambda>(_, buff).
     bind_res (on_vfs (inode_get_child cinode buff) k) (\<lambda>(tryinode, k1).
     if tryinode \<noteq> ID_INVALID then Ok (tryinode, k1)
     else
       let type = (if i + 1 = n then type_of_flag (ram k1 (cheader + TAR_TYPE_OFF)) else DIRECTORY)
       in bind_res (on_vfs (create_inode type) k1) (\<lambda>(ninode, k2).
          bind_res (on_vfs (inode_set_fs ninode fs) k2) (\<lambda>(_, k3).
          bind_res (on_vfs (inode_mount_child cinode ninode buff) k3) (\<lambda>(_, k4).
          if type = NORMAL_FILE \<and> i + 1 = n
          then bind_res (on_vfs (inode_set_vtable ninode (Some Initrd_vtable)) k4) (\<lambda>(_, k5).
               Ok (ninode, k5\<lparr>rd_inodes := snd (ht_add (rd_inodes k5) ninode cheader)\<rparr>))
          else bind_res (on_vfs (inode_set_vtable ninode None) k4) (\<lambda>(_, k5). Ok (ninode, k5)))))))"

fun initrd_elements :: "id_t \<Rightarrow> addr \<Rightarrow> nat \<Rightarrow> nat \<Rightarrow> nat \<Rightarrow> id_t \<Rightarrow> kernel \<Rightarrow> (id_t \<times> kernel) res" where
  "initrd_elements fs cheader n i 0 cinode k = Ok (cinode, k)"
| "initrd_elements fs cheader n i (Suc r) cinode k =
     bind_res (initrd_element fs cheader n i cinode k) (\<lambda>(c, k'). initrd_elements fs cheader n (Suc i) r c k')"

definition initrd_header :: "id_t \<Rightarrow> addr \<Rightarrow> kernel \<Rightarrow> (id_t \<times> kernel) res" where
  "initrd_header fs cheader k =
     bind_res (path_element_count (mem_string (ram k) cheader)) (\<lambda>n.
     bind_res (on_vfs get_root k) (\<lambda>(root, k1).
     initrd_elements fs cheader n 0 n root k1))"

text \<open>The loop over the headers ends at a null pointer only: fuel.\<close>

fun initrd_walk :: "nat \<Rightarrow> id_t \<Rightarrow> addr \<Rightarrow> kernel \<Rightarrow> (unit \<times> kernel) res" where
  "initrd_walk 0 fs cheader k = Fail Diverges"
| "initrd_walk (Suc fuel) fs cheader k =
     (if cheader = 0 then Ok ((), k)
      else bind_res (initrd_header fs cheader k) (\<lambda>(_, k'). initrd_walk fuel fs (tar_next (ram k') cheader) k'))"

definition initrd_create :: "nat \<Rightarrow> nat \<Rightarrow> string \<Rightarrow> kernel \<Rightarrow> (unit \<times> kernel) res" where
  "initrd_create fuel idx name k =
     bind_res (on_vfs (create_fs name) k) (\<lambda>(fs, k1).
     bind_res (on_vfs (fs_get_root fs) k1) (\<lambda>(root, k2).
     bind_res (on_vfs (set_root root) k2) (\<lambda>(_, k3).
     let k4 = k3\<lparr>initrds := (initrds k3)[idx := (initrds k3 ! idx)\<lparr>rd_fs := fs\<rparr>]\<rparr>
     in initrd_walk fuel fs (rd_start (initrds k4 ! idx)) k4)))"

fun initrd_create_all :: "nat \<Rightarrow> nat \<Rightarrow> nat \<Rightarrow> kernel \<Rightarrow> (unit \<times> kernel) res" where
  "initrd_create_all fuel i 0 k = Ok ((), k)"
| "initrd_create_all fuel i (Suc r) k =
     bind_res (if rd_size (initrds k ! i) \<noteq> 0 then initrd_create fuel i (lit ''initrd'') k else Ok ((), k))
       (\<lambda>(_, k'). initrd_create_all fuel (Suc i) r k')"

text \<open>The first half of \<open>initrd_init\<close> fills the table of operations, the second unpacks what was registered.\<close>

definition initrd_init_vtable :: "kernel \<Rightarrow> kernel" where
  "initrd_init_vtable k = k\<lparr>vtables := (vtables k)(Initrd_vtable := (vtables k Initrd_vtable)\<lparr>
     vt_open := Some Initrd_open_call, vt_close := Some Initrd_close_call,
     vt_read := Some Initrd_read_call\<rparr>)\<rparr>"

definition initrd_init :: "nat \<Rightarrow> kernel \<Rightarrow> (unit \<times> kernel) res" where
  "initrd_init fuel k = initrd_create_all fuel 0 INITRD_MAX (initrd_init_vtable k)"

section \<open>File operations\<close>

definition initrd_open_call :: "id_t \<Rightarrow> kernel \<Rightarrow> (int \<times> kernel) res" where
  "initrd_open_call inode k = Ok (if inode = ID_INVALID then 1 else 0, k)"

definition initrd_close_call :: "id_t \<Rightarrow> kernel \<Rightarrow> (int \<times> kernel) res" where
  "initrd_close_call fd k = Ok (if fd = ID_INVALID then 1 else 0, k)"

text \<open>
  \<open>for (i = 0; i + 1 < n && offset < filesize; i ++) rbuff[i] = data[offset ++];\<close> the bytes are read
  from the memory as the loop left it.
\<close>

function read_loop :: "addr \<Rightarrow> addr \<Rightarrow> nat \<Rightarrow> size_t \<Rightarrow> nat \<Rightarrow> u64 \<Rightarrow> memory \<Rightarrow> nat \<times> u64 \<times> memory" where
  "read_loop src rbuff n filesize i offset m =
     (if i + 1 < n \<and> offset < filesize
      then read_loop src rbuff n filesize (Suc i) (offset + 1) (m(rbuff + of_nat i := m (src + offset)))
      else (i, offset, m))"
  by pat_completeness auto
termination
  by (relation "measure (\<lambda>(src, rbuff, n, filesize, i, offset, m). n - i)") auto

declare read_loop.simps [simp del]

definition initrd_read_call :: "id_t \<Rightarrow> addr \<Rightarrow> size_t \<Rightarrow> kernel \<Rightarrow> (64 word \<times> kernel) res" where
  "initrd_read_call fd rbuff n k =
     bind_res (on_vfs (fd_get_inode fd) k) (\<lambda>(ino, k1).
     case ht_lookup (rd_inodes k1) ino of
       None \<Rightarrow> Ok (- 1, k1)
     | Some header \<Rightarrow>
         let filesize = tar_size (ram k1) header; src = tar_data header
         in bind_res (on_vfs (fd_get_offset fd) k1) (\<lambda>(offset, k2).
            let (i, offset', m) = read_loop src rbuff (unat n) filesize 0 offset (ram k2);
                k3 = set_ram (m(rbuff + of_nat i := 0)) k2
            in bind_res (on_vfs (fd_set_offset fd offset') k3) (\<lambda>(_, k4). Ok (of_nat i, k4))))"

section \<open>What a read delivers\<close>

lemma read_loop_spec:
  assumes "i \<le> cnt" "cnt < 2 ^ 64" "unat offset0 + cnt < 2 ^ 64"
    and "cnt = min (n - 1) (unat filesize - unat offset0)"
    and "\<And>j l. j < n \<Longrightarrow> l < cnt \<Longrightarrow> rbuff + of_nat j \<noteq> src + offset0 + of_nat l" "n \<le> 2 ^ 64"
    and "\<And>l. l < cnt \<Longrightarrow> m (src + offset0 + of_nat l) = m0 (src + offset0 + of_nat l)"
  shows "\<exists>m'. read_loop src rbuff n filesize i (offset0 + of_nat i) m = (cnt, offset0 + of_nat cnt, m') \<and>
    (\<forall>j. i \<le> j \<and> j < cnt \<longrightarrow> m' (rbuff + of_nat j) = m0 (src + offset0 + of_nat j)) \<and>
    (\<forall>a. (\<forall>j. i \<le> j \<and> j < cnt \<longrightarrow> a \<noteq> rbuff + of_nat j) \<longrightarrow> m' a = m a)"
  using assms(1,7)
proof (induction "cnt - i" arbitrary: i m)
  case 0
  then have i: "i = cnt" by simp
  have "\<not> (cnt + 1 < n \<and> offset0 + of_nat cnt < filesize)"
  proof -
    have "unat (offset0 + of_nat cnt) = unat offset0 + cnt"
      using assms(2,3) by (subst unat_add_lem [THEN iffD1]) (simp_all add: unat_of_nat)
    then show ?thesis using assms(4) by (auto simp: word_less_nat_alt)
  qed
  then have "read_loop src rbuff n filesize i (offset0 + of_nat i) m = (cnt, offset0 + of_nat cnt, m)"
    using i by (subst read_loop.simps) auto
  then show ?case using i by auto
next
  case (Suc d)
  have lt: "i < cnt" using Suc.hyps(2) by simp
  have off: "unat (offset0 + of_nat i) = unat offset0 + i"
    using assms(2,3) lt by (subst unat_add_lem [THEN iffD1]) (simp_all add: unat_of_nat)
  have go: "i + 1 < n \<and> offset0 + of_nat i < filesize"
    using lt assms(4) off by (auto simp: word_less_nat_alt)
  let ?m = "m(rbuff + of_nat i := m (src + (offset0 + of_nat i)))"
  have src: "?m (src + offset0 + of_nat l) = m0 (src + offset0 + of_nat l)" if "l < cnt" for l
    using Suc.prems(2) assms(5) [of i l] go that by auto
  have d: "d = cnt - Suc i" and le: "Suc i \<le> cnt" using Suc.hyps(2) by simp_all
  obtain m' where m': "read_loop src rbuff n filesize (Suc i) (offset0 + of_nat (Suc i)) ?m =
        (cnt, offset0 + of_nat cnt, m')"
      "\<forall>j. Suc i \<le> j \<and> j < cnt \<longrightarrow> m' (rbuff + of_nat j) = m0 (src + offset0 + of_nat j)"
      "\<forall>a. (\<forall>j. Suc i \<le> j \<and> j < cnt \<longrightarrow> a \<noteq> rbuff + of_nat j) \<longrightarrow> m' a = ?m a"
    using Suc.hyps(1) [OF d le src] by blast
  have step: "read_loop src rbuff n filesize i (offset0 + of_nat i) m = (cnt, offset0 + of_nat cnt, m')"
    using go m'(1) by (subst read_loop.simps) (simp add: ac_simps)
  have "rbuff + of_nat i \<noteq> rbuff + of_nat j" if "Suc i \<le> j" "j < cnt" for j
    using that assms(2) of_nat_add_inj64 [of i j rbuff] by auto
  then have "m' (rbuff + of_nat i) = ?m (rbuff + of_nat i)" using m'(3) by blast
  then have "m' (rbuff + of_nat i) = m0 (src + offset0 + of_nat i)"
    using Suc.prems(2) lt by (simp add: add.assoc)
  then have "\<forall>j. i \<le> j \<and> j < cnt \<longrightarrow> m' (rbuff + of_nat j) = m0 (src + offset0 + of_nat j)"
    using m'(2) by (metis Suc_leI le_neq_implies_less)
  moreover have "\<forall>a. (\<forall>j. i \<le> j \<and> j < cnt \<longrightarrow> a \<noteq> rbuff + of_nat j) \<longrightarrow> m' a = m a"
    using m'(3) lt by (metis Suc_leD fun_upd_other order_refl)
  ultimately show ?case using step by blast
qed

lemma fd_offset_run:
  "vfs_inv (k_vfs k) \<Longrightarrow> on_vfs (fd_get_offset fd) k =
     Ok (case ht_lookup (fd_table (k_vfs k)) fd of None \<Rightarrow> 0 | Some d \<Rightarrow> d_offset d, k)"
  by (simp add: on_vfs_def fd_getters_run)

text \<open>
  A read of \<open>n\<close> bytes at offset \<open>o\<close> of a file of size \<open>s\<close>: \<open>min (n - 1) (s - o)\<close> bytes of the file land in the
  buffer with a zero behind them, the offset moves past them, and nothing else in memory changes.
\<close>

lemma initrd_read_call_spec:
  assumes inv: "vfs_inv (k_vfs k)" and fd: "ht_lookup (fd_table (k_vfs k)) fd = Some d"
    and hd: "ht_lookup (rd_inodes k) (d_inode d) = Some header"
    and off: "d_offset d \<le> tar_size (ram k) header"
    and apart: "\<And>j l. j < unat n \<Longrightarrow> l < unat (tar_size (ram k) header) \<Longrightarrow>
      rbuff + of_nat j \<noteq> tar_data header + of_nat l"
  defines "cnt \<equiv> min (unat n - 1) (unat (tar_size (ram k) header) - unat (d_offset d))"
  shows "\<exists>k' v. initrd_read_call fd rbuff n k = Ok (of_nat cnt, k') \<and>
    fd_set_offset fd (d_offset d + of_nat cnt) (k_vfs k) = Ok (0, v) \<and> k_vfs k' = v \<and> vfs_inv v \<and>
    bytes_at (ram k') rbuff cnt = bytes_at (ram k) (tar_data header + d_offset d) cnt \<and>
    ram k' (rbuff + of_nat cnt) = 0 \<and>
    (\<forall>a. (\<forall>j\<le>cnt. a \<noteq> rbuff + of_nat j) \<longrightarrow> ram k' a = ram k a)"
proof -
  let ?s = "tar_size (ram k) header" and ?src = "tar_data header" and ?o = "d_offset d"
  have lt: "cnt < 2 ^ 64" "unat ?o + cnt < 2 ^ 64"
    using unat_lt64 [of n] unat_lt64 [of ?s] off by (auto simp: cnt_def word_le_nat_alt)
  have sep: "rbuff + of_nat j \<noteq> ?src + ?o + of_nat l" if "j < unat n" "l < cnt" for j l
  proof -
    have "unat ?o + l < unat ?s" using that(2) by (auto simp: cnt_def)
    then have "rbuff + of_nat j \<noteq> ?src + of_nat (unat ?o + l)" using apart that(1) by blast
    then show ?thesis by (simp add: add.assoc)
  qed
  have ceq: "cnt = min (unat n - 1) (unat ?s - unat ?o)" by (simp add: cnt_def)
  have nle: "unat n \<le> 2 ^ 64" using unat_lt64 [of n] by simp
  obtain m' where m': "read_loop ?src rbuff (unat n) ?s 0 ?o (ram k) = (cnt, ?o + of_nat cnt, m')"
      "\<forall>j<cnt. m' (rbuff + of_nat j) = ram k (?src + ?o + of_nat j)"
      "\<forall>a. (\<forall>j<cnt. a \<noteq> rbuff + of_nat j) \<longrightarrow> m' a = ram k a"
    using read_loop_spec [where m = "ram k" and ?m0.0 = "ram k", OF le0 lt ceq sep nle refl] by auto
  let ?k3 = "set_ram (m'(rbuff + of_nat cnt := 0)) k"
  obtain v where v: "fd_set_offset fd (?o + of_nat cnt) (k_vfs k) = Ok (0, v)" "vfs_inv v"
    using fd_update_inv [OF inv, of fd "\<lambda>d. d\<lparr>d_offset := ?o + of_nat cnt\<rparr>"] fd
    by (auto simp: fd_set_offset_def)
  define k' where "k' = ?k3\<lparr>k_vfs := v\<rparr>"
  have ram': "ram k' = m'(rbuff + of_nat cnt := 0)" by (simp add: k'_def ram_def set_ram_def)
  have "initrd_read_call fd rbuff n k = Ok (of_nat cnt, k')"
    using inv fd hd m'(1) v(1) fd_inode_run [OF inv, of fd] fd_offset_run [OF inv, of fd]
    by (simp add: initrd_read_call_def Let_def on_vfs_def [of "fd_set_offset _ _"] k'_def)
  moreover have "bytes_at (ram k') rbuff cnt = bytes_at (ram k) (?src + ?o) cnt"
  proof -
    have "rbuff + of_nat j \<noteq> rbuff + of_nat cnt" if "j < cnt" for j
      using that lt(1) of_nat_add_inj64 [of j cnt rbuff] by auto
    then show ?thesis using m'(2) ram' by (simp add: bytes_at_def)
  qed
  moreover have "\<forall>a. (\<forall>j\<le>cnt. a \<noteq> rbuff + of_nat j) \<longrightarrow> ram k' a = ram k a"
    using m'(3) ram' by (metis fun_upd_other less_imp_le_nat order_refl)
  ultimately show ?thesis using v ram' by (intro exI [of _ k'] exI [of _ v]) (simp add: k'_def)
qed

text \<open>With \<open>n = 0\<close> the terminator is stored all the same.\<close>

lemma initrd_read_zero:
  assumes "vfs_inv (k_vfs k)" "ht_lookup (fd_table (k_vfs k)) fd = Some d"
    "ht_lookup (rd_inodes k) (d_inode d) = Some header" "d_offset d \<le> tar_size (ram k) header"
  shows "\<exists>k'. initrd_read_call fd rbuff 0 k = Ok (0, k') \<and> ram k' rbuff = 0"
  using initrd_read_call_spec [OF assms, of 0 rbuff] by auto

text \<open>Registering: the first free slot is taken; with none free the archive is dropped.\<close>

lemma initrd_add_from_spec:
  "initrd_add_from start siz args rs =
     (if \<exists>r\<in>set rs. rd_size r = 0
      then rs[length (takeWhile (\<lambda>r. rd_size r \<noteq> 0) rs) :=
        initrd_default\<lparr>rd_start := start, rd_size := siz, rd_args := args\<rparr>]
      else rs)"
  by (induction rs) auto

section \<open>Unpacking one entry\<close>

text \<open>No directory entry dangles: what the unpacking keeps, since it only ever creates.\<close>

definition closed_tree :: "inode_t hashtable \<Rightarrow> bool" where
  "closed_tree tab \<longleftrightarrow> (\<forall>d nm c. (nm, c) \<in> set (entries tab d) \<longrightarrow> ht_lookup tab c \<noteq> None)"

lemma lookup_not_invalid:
  assumes "ht.below tab (unat (c :: 64 word))" "ht_lookup tab x \<noteq> None"
  shows "x \<noteq> ID_INVALID"
proof
  assume "x = ID_INVALID"
  then have "unat ID_INVALID < unat c" using assms by (auto simp: ht.below_def)
  moreover have "unat ID_INVALID = 2 ^ 64 - 1" 
    by (simp add: ID_INVALID_def unsigned_minus_1_eq_mask mask_eq_exp_minus_1)
  ultimately show False using unat_lt64 [of c] by simp
qed

lemma closed_child_fresh:
  assumes "closed_tree tab" "ht.below tab (unat (c :: 64 word))" "child_of tab d e = ID_INVALID"
  shows "take (FILENAME_MAX - 1) e \<notin> fst ` set (entries tab d)"
proof
  assume "take (FILENAME_MAX - 1) e \<in> fst ` set (entries tab d)"
  then obtain x where x: "map_of (entries tab d) (take (FILENAME_MAX - 1) e) = Some x"
    by (metis map_of_eq_None_iff not_None_eq)
  then have "ht_lookup tab x \<noteq> None" using assms(1) map_of_SomeD [OF x] by (auto simp: closed_tree_def)
  then show False using lookup_not_invalid [OF assms(2)] x assms(3) by (simp add: child_of_def)
qed

lemma closed_child_found:
  assumes "closed_tree tab" "child_of tab d e \<noteq> ID_INVALID"
  shows "ht_lookup tab (child_of tab d e) \<noteq> None"
proof -
  obtain x where x: "map_of (entries tab d) (take (FILENAME_MAX - 1) e) = Some x" "child_of tab d e = x"
    using assms(2) by (auto simp: child_of_def split: option.splits)
  then show ?thesis using assms(1) map_of_SomeD [OF x(1)] by (auto simp: closed_tree_def)
qed

text \<open>Creating an inode, setting its file system, mounting it and setting its table, in one go.\<close>

lemma make_child:
  assumes inv: "vfs_inv v" and room: "ht_size (inode_table v) < HASHTABLE_CAPACITY"
    and cnt: "Suc (unat (inode_counter v)) < 2 ^ 64" and dir: "ht_lookup (inode_table v) d = Some nd"
    and nm: "is_cstr nm" and closed: "closed_tree (inode_table v)"
  shows "\<exists>v1 v2 v3 v4. create_inode ty v = Ok (inode_counter v, v1) \<and>
    inode_set_fs (inode_counter v) fs v1 = Ok (0, v2) \<and>
    inode_mount_child d (inode_counter v) nm v2 = Ok (0, v3) \<and>
    inode_set_vtable (inode_counter v) vt v3 = Ok (0, v4) \<and> vfs_inv v4 \<and> closed_tree (inode_table v4) \<and>
    vfs_root v4 = vfs_root v \<and> inode_counter v4 = inode_counter v + 1 \<and>
    ht_size (inode_table v4) = Suc (ht_size (inode_table v)) \<and>
    entries (inode_table v4) = (entries (inode_table v))
      (d := entries (inode_table v) d @ [(take (FILENAME_MAX - 1) (cstr nm), inode_counter v)]) \<and>
    fd_table v4 = fd_table v \<and> fd_counter v4 = fd_counter v \<and>
    (\<exists>n ch. ht_lookup (inode_table v4) = (ht_lookup (inode_table v))
        (d \<mapsto> nd\<lparr>children := ch\<rparr>, inode_counter v \<mapsto> n) \<and> i_vtable n = vt \<and> i_type n = ty)"
proof -
  let ?c = "inode_counter v" and ?n0 = "(inode_default ty)\<lparr>i_id := inode_counter v, i_vtable := None\<rparr>"
  obtain v1 where v1: "create_inode ty v = Ok (?c, v1)" "vfs_inv v1"
    using create_inode_inv [OF inv cnt] by blast
  have l1: "ht_lookup (inode_table v1) = (ht_lookup (inode_table v))(?c \<mapsto> ?n0)"
    using create_inode_lookup(1) [OF inv v1(1) room] .
  have f1: "vfs_root v1 = vfs_root v" "inode_counter v1 = ?c + 1" "fd_table v1 = fd_table v"
      "fd_counter v1 = fd_counter v"
    using create_inode_run [OF inv, of ty] v1(1) by auto
  have fresh: "ht_lookup (inode_table v) ?c = None"
    using inv by (intro ht.below_fresh) (simp add: vfs_inv_def)
  have e1: "entries (inode_table v1) = entries (inode_table v)"
    using l1 fresh by (intro ext) (simp add: entries_def inode_default_def vec.elems_new)
  obtain v2 t2 where v2: "inode_set_fs ?c fs v1 = Ok (0, v2)" "vfs_inv v2" "v2 = v1\<lparr>inode_table := t2\<rparr>"
      "ht_lookup t2 = (ht_lookup (inode_table v1))(?c \<mapsto> ?n0\<lparr>i_fs := fs\<rparr>)" "entries t2 = entries (inode_table v1)"
    using inode_update_inv [OF v1(2), of "\<lambda>n. n\<lparr>i_fs := fs\<rparr>" ?c] l1 by (auto simp: inode_set_fs_def)
  have dc: "d \<noteq> ?c" using dir fresh by auto
  have dir2: "ht_lookup t2 d = Some nd" using v2(4) l1 dir dc by simp
  obtain t3 ch where v3: "inode_mount_child d ?c nm v2 = Ok (0, v2\<lparr>inode_table := t3\<rparr>)"
      "vfs_inv (v2\<lparr>inode_table := t3\<rparr>)"
      "entries t3 = (entries t2)(d := entries t2 d @ [(take (FILENAME_MAX - 1) (cstr nm), ?c)])"
      "t3 = ht_modify t2 d (\<lambda>n. n\<lparr>children := ch\<rparr>)"
    using inode_mount_child_spec [OF v2(2) nm, of d nd ?c] dir2 v2(3) by auto
  have inv2: "ht_inv t2" using v2(2,3) by (simp add: vfs_inv_def inodes_ok_def)
  have l3: "ht_lookup t3 = (ht_lookup t2)(d \<mapsto> nd\<lparr>children := ch\<rparr>)"
    using v3(4) inv2 dir2 by (simp add: ht_modify_Some)
  have c3: "ht_lookup t3 ?c = Some (?n0\<lparr>i_fs := fs\<rparr>)" using l3 v2(4) dc by simp
  obtain v4 t4 where v4: "inode_set_vtable ?c vt (v2\<lparr>inode_table := t3\<rparr>) = Ok (0, v4)" "vfs_inv v4"
      "v4 = v2\<lparr>inode_table := t4\<rparr>" "ht_lookup t4 = (ht_lookup t3)(?c \<mapsto> ?n0\<lparr>i_fs := fs, i_vtable := vt\<rparr>)"
      "entries t4 = entries t3"
    using inode_update_inv [OF v3(2), of "\<lambda>n. n\<lparr>i_vtable := vt\<rparr>" ?c] c3 by (auto simp: inode_set_vtable_def)
  have dom4: "dom (ht_lookup t4) = insert ?c (dom (ht_lookup (inode_table v)))"
    using v4(4) l3 v2(4) l1 dir by (auto simp: dom_def)
  have hts: "ht_inv t4" "ht_inv (inode_table v)"
    using v4(2,3) inv by (simp_all add: vfs_inv_def inodes_ok_def)
  have size: "ht_size t4 = Suc (ht_size (inode_table v))"
    using dom4 ht.size_card [OF hts(1)] ht.size_card [OF hts(2)] fresh by (simp add: domIff)
  have ent: "entries t4 = (entries (inode_table v))
      (d := entries (inode_table v) d @ [(take (FILENAME_MAX - 1) (cstr nm), ?c)])"
    using v4(5) v3(3) v2(5) e1 by simp
  have "closed_tree t4"
    unfolding closed_tree_def
  proof (intro allI impI)
    fix x nm' y assume "(nm', y) \<in> set (entries t4 x)"
    then have "y = ?c \<or> y \<in> dom (ht_lookup (inode_table v))"
      using ent closed by (auto simp: closed_tree_def split: if_splits)
    then show "ht_lookup t4 y \<noteq> None" using dom4 by (auto simp: dom_def)
  qed
  moreover have "ht_lookup t4 = (ht_lookup (inode_table v))
      (d \<mapsto> nd\<lparr>children := ch\<rparr>, ?c \<mapsto> ?n0\<lparr>i_fs := fs, i_vtable := vt\<rparr>)"
    using v4(4) l3 v2(4) l1 dc by (auto simp: fun_eq_iff)
  then have "\<exists>n ch. ht_lookup t4 = (ht_lookup (inode_table v))(d \<mapsto> nd\<lparr>children := ch\<rparr>, ?c \<mapsto> n) \<and>
      i_vtable n = vt \<and> i_type n = ty"
    by (intro exI [of _ "?n0\<lparr>i_fs := fs, i_vtable := vt\<rparr>"] exI [of _ ch]) (simp add: inode_default_def)
  ultimately show ?thesis
    using v1(1) v2(1,3) v3(1) v4(1,2,3) f1 size ent
    by (intro exI [of _ v1] exI [of _ v2] exI [of _ "v2\<lparr>inode_table := t3\<rparr>"] exI [of _ v4]) simp
qed

text \<open>What one component adds to the tree.\<close>

definition tree_ok :: "kernel \<Rightarrow> bool" where
  "tree_ok k \<longleftrightarrow> vfs_inv (k_vfs k) \<and> closed_tree (inode_table (k_vfs k))"

abbreviation tab :: "kernel \<Rightarrow> inode_t hashtable" where
  "tab k \<equiv> inode_table (k_vfs k)"

definition rd_ok :: "kernel \<Rightarrow> bool" where
  "rd_ok k \<longleftrightarrow> ht_inv (rd_inodes k) \<and> ht.below (rd_inodes k) (unat (inode_counter (k_vfs k)))"

text \<open>
  \<open>grows k k'\<close>: everything that resolved, every inode's type and operations and every file's header are still
  there, and nothing outside the tree and the header table changed.
\<close>

definition keeps :: "inode_t hashtable \<Rightarrow> inode_t hashtable \<Rightarrow> bool" where
  "keeps t t' \<longleftrightarrow>
     (\<forall>x ps. resolve t x ps \<noteq> ID_INVALID \<longrightarrow> resolve t' x ps = resolve t x ps) \<and>
     (\<forall>x n. ht_lookup t x = Some n \<longrightarrow>
       (\<exists>n'. ht_lookup t' x = Some n' \<and> i_vtable n' = i_vtable n \<and> i_type n' = i_type n))"

definition grows :: "kernel \<Rightarrow> kernel \<Rightarrow> bool" where
  "grows k k' \<longleftrightarrow> keeps (tab k) (tab k') \<and> vfs_root (k_vfs k') = vfs_root (k_vfs k) \<and>
     fd_table (k_vfs k') = fd_table (k_vfs k) \<and> fd_counter (k_vfs k') = fd_counter (k_vfs k) \<and>
     (rd_ok k \<longrightarrow> rd_ok k' \<and> ht_lookup (rd_inodes k) \<subseteq>\<^sub>m ht_lookup (rd_inodes k')) \<and>
     (\<exists>v rd. k' = k\<lparr>k_vfs := v, rd_inodes := rd\<rparr>)"

lemma keeps_trans: "keeps t t1 \<Longrightarrow> keeps t1 t2 \<Longrightarrow> keeps t t2"
  unfolding keeps_def by metis

lemma grows_refl: "grows k k"
proof -
  have "k = k\<lparr>k_vfs := k_vfs k, rd_inodes := rd_inodes k\<rparr>" by simp
  then have "\<exists>v rd. k = k\<lparr>k_vfs := v, rd_inodes := rd\<rparr>" by blast
  then show ?thesis unfolding grows_def by (simp add: keeps_def)
qed

lemma grows_trans:
  assumes "grows a b" "grows b c"
  shows "grows a c"
proof -
  obtain v rd v' rd' where b: "b = a\<lparr>k_vfs := v, rd_inodes := rd\<rparr>" and c: "c = b\<lparr>k_vfs := v', rd_inodes := rd'\<rparr>"
    using assms unfolding grows_def by blast
  have "c = a\<lparr>k_vfs := v', rd_inodes := rd'\<rparr>" using b c by simp
  then have "\<exists>v rd. c = a\<lparr>k_vfs := v, rd_inodes := rd\<rparr>" by blast
  moreover have "keeps (tab a) (tab c)" using assms keeps_trans unfolding grows_def by blast
  moreover have "vfs_root (k_vfs c) = vfs_root (k_vfs a)" "fd_table (k_vfs c) = fd_table (k_vfs a)"
      "fd_counter (k_vfs c) = fd_counter (k_vfs a)"
    using assms unfolding grows_def by metis+
  moreover have "rd_ok a \<longrightarrow> rd_ok c \<and> ht_lookup (rd_inodes a) \<subseteq>\<^sub>m ht_lookup (rd_inodes c)"
    using assms map_le_trans unfolding grows_def by blast
  ultimately show ?thesis unfolding grows_def by simp
qed

lemma grows_resolve: "grows k k' \<Longrightarrow> resolve (tab k) x ps \<noteq> ID_INVALID \<Longrightarrow> resolve (tab k') x ps = resolve (tab k) x ps"
  unfolding grows_def keeps_def by metis

lemma grows_lookup: "grows k k' \<Longrightarrow> ht_lookup (tab k) x \<noteq> None \<Longrightarrow> ht_lookup (tab k') x \<noteq> None"
  unfolding grows_def keeps_def by (metis not_None_eq)

text \<open>A header recorded under a fresh inode, or dropped by a full table.\<close>

lemma rd_add_ok:
  assumes "rd_ok k" "Suc (unat (inode_counter (k_vfs k))) \<le> unat (inode_counter (k_vfs k'))"
    "rd_inodes k' = snd (ht_add (rd_inodes k) (inode_counter (k_vfs k)) h)"
  shows "rd_ok k' \<and> ht_lookup (rd_inodes k) \<subseteq>\<^sub>m ht_lookup (rd_inodes k')"
proof -
  let ?c = "inode_counter (k_vfs k)"
  have inv: "ht_inv (rd_inodes k)" and below: "ht.below (rd_inodes k) (unat ?c)" using assms(1) by (simp_all add: rd_ok_def)
  have fresh: "ht_lookup (rd_inodes k) ?c = None" using ht.below_fresh [OF below] .
  have "rd_ok k'"
    using ht.below_mono [OF ht.below_add [OF inv below, of h] assms(2)] ht.invar_add [OF inv fresh, of h] assms(3)
    by (simp add: rd_ok_def)
  moreover have "ht_lookup (rd_inodes k) \<subseteq>\<^sub>m ht_lookup (rd_inodes k')"
    using ht.lookup_add [OF inv fresh, of h] ht.add_full [OF inv, of ?c h] fresh assms(3)
    by (cases "ht_size (rd_inodes k) < HASHTABLE_CAPACITY") (auto simp: map_le_def dom_def)
  ultimately show ?thesis ..
qed

lemma grows_ram: "grows k k' \<Longrightarrow> ram k' = ram k"
  by (auto simp: grows_def ram_def)

text \<open>The state with the new inode in \<open>v\<close>; a regular file has its header recorded.\<close>

definition entered :: "vfs \<Rightarrow> bool \<Rightarrow> addr \<Rightarrow> kernel \<Rightarrow> kernel" where
  "entered v isfile h k = (if isfile
     then k\<lparr>k_vfs := v, rd_inodes := snd (ht_add (rd_inodes k) (inode_counter (k_vfs k)) h)\<rparr> else k\<lparr>k_vfs := v\<rparr>)"

lemma entered_fields [simp]: "k_vfs (entered v isfile h k) = v" "ram (entered v isfile h k) = ram k"
  "rd_inodes (entered v True h k) = snd (ht_add (rd_inodes k) (inode_counter (k_vfs k)) h)"
  "rd_inodes (entered v False h k) = rd_inodes k"
  by (simp_all add: entered_def ram_def)

lemma initrd_element_new:
  assumes "path_element_get (mem_string (ram k) h) (replicate 256 NUL) i = Ok (f, b)"
    "on_vfs (inode_get_child d b) k = Ok (ID_INVALID, k)"
    "ty = (if Suc i = n then type_of_flag (ram k (h + TAR_TYPE_OFF)) else DIRECTORY)"
    "isfile \<longleftrightarrow> ty = NORMAL_FILE \<and> Suc i = n" "c = inode_counter (k_vfs k)"
    "create_inode ty (k_vfs k) = Ok (c, v1)" "inode_set_fs c fs v1 = Ok (0, v2)" "inode_mount_child d c b v2 = Ok (0, v3)"
    "inode_set_vtable c (if isfile then Some Initrd_vtable else None) v3 = Ok (0, v4)"
  shows "initrd_element fs h n i d k = Ok (c, entered v4 isfile h k)"
proof -
  have steps: "on_vfs (create_inode ty) k = Ok (c, k\<lparr>k_vfs := v1\<rparr>)"
      "on_vfs (inode_set_fs c fs) (k\<lparr>k_vfs := v1\<rparr>) = Ok (0, k\<lparr>k_vfs := v2\<rparr>)"
      "on_vfs (inode_mount_child d c b) (k\<lparr>k_vfs := v2\<rparr>) = Ok (0, k\<lparr>k_vfs := v3\<rparr>)"
      "on_vfs (inode_set_vtable c (if isfile then Some Initrd_vtable else None)) (k\<lparr>k_vfs := v3\<rparr>) = Ok (0, k\<lparr>k_vfs := v4\<rparr>)"
    using assms(6-9) by (simp_all add: on_vfs_def)
  have run: "initrd_element fs h n i d k = bind_res (on_vfs (create_inode ty) k) (\<lambda>(ninode, k2).
        bind_res (on_vfs (inode_set_fs ninode fs) k2) (\<lambda>(_, k3).
        bind_res (on_vfs (inode_mount_child d ninode b) k3) (\<lambda>(_, k4).
        if isfile
        then bind_res (on_vfs (inode_set_vtable ninode (Some Initrd_vtable)) k4) (\<lambda>(_, k5).
             Ok (ninode, k5\<lparr>rd_inodes := snd (ht_add (rd_inodes k5) ninode h)\<rparr>))
        else bind_res (on_vfs (inode_set_vtable ninode None) k4) (\<lambda>(_, k5). Ok (ninode, k5)))))"
    by (simp add: initrd_element_def assms(1-4) Let_def)
  show ?thesis using steps(4) unfolding run by (cases isfile) (simp_all add: steps(1-3) entered_def assms(5) [symmetric])
qed

lemma entered_keeps:
  assumes "entries (inode_table v) = (entries (tab k))(d := entries (tab k) d @ [(take (FILENAME_MAX - 1) e, c)])"
    "ht_lookup (inode_table v) = (ht_lookup (tab k))(d \<mapsto> nd\<lparr>children := ch\<rparr>, c \<mapsto> n)"
    "ht_lookup (tab k) d = Some nd" "ht_lookup (tab k) c = None"
  shows "keeps (tab k) (inode_table v)"
  unfolding keeps_def
proof (intro conjI allI impI)
  fix x ps assume "resolve (tab k) x ps \<noteq> ID_INVALID"
  then show "resolve (inode_table v) x ps = resolve (tab k) x ps" by (rule resolve_append [OF assms(1)])
next
  fix x m assume m: "ht_lookup (tab k) x = Some m"
  then have "x \<noteq> c" using assms(4) by auto
  then show "\<exists>n'. ht_lookup (inode_table v) x = Some n' \<and> i_vtable n' = i_vtable m \<and> i_type n' = i_type m"
    using assms(2,3) m by auto
qed

lemma entered_grows:
  assumes "keeps (tab k) (inode_table v)" "unat (inode_counter v) = Suc (unat (inode_counter (k_vfs k)))"
    "vfs_root v = vfs_root (k_vfs k)" "fd_table v = fd_table (k_vfs k)" "fd_counter v = fd_counter (k_vfs k)"
  shows "grows k (entered v isfile h k)"
proof -
  have "rd_ok k \<longrightarrow> rd_ok (entered v isfile h k) \<and> ht_lookup (rd_inodes k) \<subseteq>\<^sub>m ht_lookup (rd_inodes (entered v isfile h k))"
  proof (cases isfile)
    case True
    then show ?thesis using rd_add_ok [of k "entered v isfile h k" h] assms(2) by simp
  next
    case False
    then show ?thesis
      using assms(2) ht.below_mono [of "rd_inodes k" "unat (inode_counter (k_vfs k))" "unat (inode_counter v)"]
      by (simp add: rd_ok_def)
  qed
  moreover have "\<exists>w rd. entered v isfile h k = k\<lparr>k_vfs := w, rd_inodes := rd\<rparr>"
  proof (cases isfile)
    case False
    then have "entered v isfile h k = k\<lparr>k_vfs := v, rd_inodes := rd_inodes k\<rparr>" by (simp add: entered_def)
    then show ?thesis by blast
  qed (auto simp: entered_def)
  ultimately show ?thesis using assms(1,3-5) by (simp add: grows_def)
qed

lemma initrd_element_spec:
  assumes ok: "tree_ok k" and s: "is_cstr (mem_string (ram k) h)"
    and es: "path_elems (cstr (mem_string (ram k) h)) = es" "i < length es" "length (es ! i) < FILENAME_MAX"
    and dir: "ht_lookup (tab k) d = Some nd" and room: "ht_size (tab k) < HASHTABLE_CAPACITY"
    and cnt: "Suc (unat (inode_counter (k_vfs k))) < 2 ^ 64"
  defines "new \<equiv> child_of (tab k) d (es ! i) = ID_INVALID"
    and "isfile \<equiv> Suc i = length es \<and> type_of_flag (ram k (h + TAR_TYPE_OFF)) = NORMAL_FILE"
  shows "\<exists>c k'. initrd_element fs h (length es) i d k = Ok (c, k') \<and> tree_ok k' \<and> grows k k' \<and>
    ht_lookup (tab k') c \<noteq> None \<and> child_of (tab k') d (es ! i) = c \<and> c \<noteq> ID_INVALID \<and>
    ht_size (tab k') \<le> Suc (ht_size (tab k)) \<and>
    unat (inode_counter (k_vfs k')) \<le> Suc (unat (inode_counter (k_vfs k))) \<and>
    unat (inode_counter (k_vfs k)) \<le> unat (inode_counter (k_vfs k')) \<and>
    (new \<and> isfile \<longrightarrow> rd_inodes k' = snd (ht_add (rd_inodes k) c h) \<and> c = inode_counter (k_vfs k) \<and>
      (\<exists>n. ht_lookup (tab k') c = Some n \<and> i_vtable n = Some Initrd_vtable \<and> i_type n = NORMAL_FILE)) \<and>
    (\<not> isfile \<longrightarrow> rd_inodes k' = rd_inodes k) \<and> (\<not> new \<longrightarrow> k' = k) \<and>
    (new \<longrightarrow> entries (tab k') c = [])"
proof -
  let ?v = "k_vfs k" and ?c = "inode_counter (k_vfs k)"
  have inv: "vfs_inv ?v" and closed: "closed_tree (tab k)" using ok by (simp_all add: tree_ok_def)
  have below: "ht.below (tab k) (unat ?c)" using inv by (simp add: vfs_inv_def)
  have iF: "i < length (path_elems (cstr (mem_string (ram k) h)))" using es(1,2) by simp
  have buf: "length (replicate 256 NUL) = FILENAME_MAX" by (simp add: FILENAME_MAX_def)
  obtain b where b: "path_element_get (mem_string (ram k) h) (replicate 256 NUL) i = Ok (True, b)"
      "is_cstr b" "cstr b = es ! i"
    using path_element_get_spec(1) [OF s buf iF] es by auto
  have ne: "cstr b \<noteq> []" using b(3) es(1,2) path_elems_not_Nil nth_mem by metis
  have child: "on_vfs (inode_get_child d b) k = Ok (child_of (tab k) d (es ! i), k)"
    using inode_get_child_run [OF inv b(2) ne, of d] b(3) es(3) by (simp add: on_vfs_def)
  show ?thesis
  proof (cases new)
    case False
    then show ?thesis
      using b(1) child closed_child_found [OF closed, of d "es ! i"] ok grows_refl [of k]
      by (simp add: initrd_element_def new_def)
  next
    case True
    define ty where "ty = (if Suc i = length es then type_of_flag (ram k (h + TAR_TYPE_OFF)) else DIRECTORY)"
    let ?vt = "if isfile then Some Initrd_vtable else None"
    have file_iff: "isfile \<longleftrightarrow> ty = NORMAL_FILE \<and> Suc i = length es" by (auto simp: ty_def isfile_def)
    obtain v1 v2 v3 v n ch where mk: "create_inode ty ?v = Ok (?c, v1)" "inode_set_fs ?c fs v1 = Ok (0, v2)"
        "inode_mount_child d ?c b v2 = Ok (0, v3)" "inode_set_vtable ?c ?vt v3 = Ok (0, v)"
        and v: "vfs_inv v" "closed_tree (inode_table v)" "vfs_root v = vfs_root ?v" "inode_counter v = ?c + 1"
          "ht_size (inode_table v) = Suc (ht_size (tab k))" "fd_table v = fd_table ?v" "fd_counter v = fd_counter ?v"
        and ent: "entries (inode_table v) = (entries (tab k))(d := entries (tab k) d @ [(take (FILENAME_MAX - 1) (es ! i), ?c)])"
        and n: "ht_lookup (inode_table v) = (ht_lookup (tab k))(d \<mapsto> nd\<lparr>children := ch\<rparr>, ?c \<mapsto> n)"
          "i_vtable n = ?vt" "i_type n = ty"
      using make_child [OF inv room cnt dir b(2) closed, of ty fs ?vt] unfolding b(3) by blast
    let ?k' = "entered v isfile h k"
    have run: "initrd_element fs h (length es) i d k = Ok (?c, ?k')"
      using child True by (intro initrd_element_new [OF b(1) _ ty_def file_iff refl mk]) (simp add: new_def)
    have fresh: "ht_lookup (tab k) ?c = None" using ht.below_fresh [OF below] .
    have cnt': "unat (inode_counter v) = Suc (unat ?c)" using v(4) cnt by (simp add: unat_succ)
    have grow: "grows k ?k'" by (rule entered_grows [OF entered_keeps [OF ent n(1) dir fresh] cnt' v(3,6,7)])
    have found: "child_of (inode_table v) d (es ! i) = ?c"
      using child_of_fresh [OF ent] closed_child_fresh [OF closed below] True unfolding new_def by blast
    have valid: "?c \<noteq> ID_INVALID"
      using v(1,4) n(1) lookup_not_invalid [of "inode_table v" "?c + 1" ?c] by (auto simp: vfs_inv_def)
    have "d \<noteq> ?c" using dir fresh by auto
    then have empty: "entries (inode_table v) ?c = []" using ent fresh by (simp add: entries_def)
    have "isfile \<longrightarrow> i_vtable n = Some Initrd_vtable \<and> i_type n = NORMAL_FILE" using n(2,3) file_iff by simp
    then show ?thesis
      using run v(1,2,5) n(1) grow found cnt' valid empty True
      by (intro exI [of _ ?c] exI [of _ ?k']) (cases isfile; simp add: tree_ok_def)
  qed
qed

section \<open>Unpacking one header\<close>

lemma child_of_no_entries: "entries t d = [] \<Longrightarrow> child_of t d e = ID_INVALID"
  by (simp add: child_of_def)

lemma initrd_elements_spec:
  assumes "tree_ok k" "is_cstr (mem_string (ram k) h)"
    and es: "path_elems (cstr (mem_string (ram k) h)) = es" "\<forall>e\<in>set es. length e < FILENAME_MAX"
    and "i + r = length es" "ht_lookup (tab k) d \<noteq> None" "ht_size (tab k) + r \<le> HASHTABLE_CAPACITY"
      "unat (inode_counter (k_vfs k)) + r < 2 ^ 64"
  shows "\<exists>c k'. initrd_elements fs h (length es) i r d k = Ok (c, k') \<and> tree_ok k' \<and> grows k k' \<and>
    ht_lookup (tab k') c \<noteq> None \<and> resolve (tab k') d (drop i es) = c \<and> c \<noteq> ID_INVALID \<and>
    ht_size (tab k') \<le> ht_size (tab k) + r \<and>
    unat (inode_counter (k_vfs k')) \<le> unat (inode_counter (k_vfs k)) + r \<and>
    (0 < r \<and> resolve (tab k) d (drop i es) = ID_INVALID \<and>
        type_of_flag (ram k (h + TAR_TYPE_OFF)) = NORMAL_FILE \<longrightarrow>
      rd_inodes k' = snd (ht_add (rd_inodes k) c h) \<and> unat (inode_counter (k_vfs k)) \<le> unat c \<and>
      (\<exists>n. ht_lookup (tab k') c = Some n \<and> i_vtable n = Some Initrd_vtable \<and> i_type n = NORMAL_FILE))"
  using assms(1,2,3,5-)
proof (induction r arbitrary: i d k)
  case 0
  have "d \<noteq> ID_INVALID"
    using 0 lookup_not_invalid [of "tab k" "inode_counter (k_vfs k)" d] by (simp add: tree_ok_def vfs_inv_def)
  then show ?case using 0 grows_refl by simp
next
  case (Suc r)
  have i: "i < length es" and sh: "length (es ! i) < FILENAME_MAX" using Suc.prems(4) es(2) by simp_all
  have dr: "drop i es = es ! i # drop (Suc i) es" using i by (simp add: Cons_nth_drop_Suc)
  obtain nd where nd: "ht_lookup (tab k) d = Some nd" using Suc.prems(5) by blast
  have room: "ht_size (tab k) < HASHTABLE_CAPACITY" "Suc (unat (inode_counter (k_vfs k))) < 2 ^ 64"
    using Suc.prems(6,7) by simp_all
  define new where "new \<longleftrightarrow> child_of (tab k) d (es ! i) = ID_INVALID"
  define isf where "isf \<longleftrightarrow> Suc i = length es \<and> type_of_flag (ram k (h + TAR_TYPE_OFF)) = NORMAL_FILE"
  obtain c k1 where c: "initrd_element fs h (length es) i d k = Ok (c, k1)" "tree_ok k1" "grows k k1"
      "ht_lookup (tab k1) c \<noteq> None" "child_of (tab k1) d (es ! i) = c" "c \<noteq> ID_INVALID"
      "ht_size (tab k1) \<le> Suc (ht_size (tab k))"
      "unat (inode_counter (k_vfs k1)) \<le> Suc (unat (inode_counter (k_vfs k)))"
      "unat (inode_counter (k_vfs k)) \<le> unat (inode_counter (k_vfs k1))"
      and fnew: "new \<and> isf \<Longrightarrow> rd_inodes k1 = snd (ht_add (rd_inodes k) c h) \<and> c = inode_counter (k_vfs k) \<and>
        (\<exists>n. ht_lookup (tab k1) c = Some n \<and> i_vtable n = Some Initrd_vtable \<and> i_type n = NORMAL_FILE)"
      and rest: "\<not> isf \<Longrightarrow> rd_inodes k1 = rd_inodes k" "\<not> new \<Longrightarrow> k1 = k" "new \<Longrightarrow> entries (tab k1) c = []"
    using initrd_element_spec [OF Suc.prems(1,2,3) i sh nd room, of fs] unfolding new_def isf_def by blast
  have ram1: "ram k1 = ram k" using grows_ram [OF c(3)] .
  have pre: "Suc i + r = length es" "ht_size (tab k1) + r \<le> HASHTABLE_CAPACITY"
      "unat (inode_counter (k_vfs k1)) + r < 2 ^ 64"
    using Suc.prems(4,6,7) c(7,8) by simp_all
  obtain c' k2 where k2: "initrd_elements fs h (length es) (Suc i) r c k1 = Ok (c', k2)" "tree_ok k2" "grows k1 k2"
      "ht_lookup (tab k2) c' \<noteq> None" "resolve (tab k2) c (drop (Suc i) es) = c'" "c' \<noteq> ID_INVALID"
      "ht_size (tab k2) \<le> ht_size (tab k1) + r"
      "unat (inode_counter (k_vfs k2)) \<le> unat (inode_counter (k_vfs k1)) + r"
      and fnew2: "0 < r \<and> resolve (tab k1) c (drop (Suc i) es) = ID_INVALID \<and>
        type_of_flag (ram k (h + TAR_TYPE_OFF)) = NORMAL_FILE \<Longrightarrow>
        rd_inodes k2 = snd (ht_add (rd_inodes k1) c' h) \<and> unat (inode_counter (k_vfs k1)) \<le> unat c' \<and>
        (\<exists>n. ht_lookup (tab k2) c' = Some n \<and> i_vtable n = Some Initrd_vtable \<and> i_type n = NORMAL_FILE)"
    using Suc.IH [of k1 "Suc i" c] c(2,4) Suc.prems(2,3) pre ram1 by auto
  have one: "resolve (tab k1) d [es ! i] = c" using c(5,6) by (simp add: Let_def)
  then have "resolve (tab k2) d [es ! i] = c" using grows_resolve [OF k2(3), of d "[es ! i]"] c(6) by simp
  then have "child_of (tab k2) d (es ! i) = c" using c(6) by (simp add: Let_def split: if_splits)
  then have res: "resolve (tab k2) d (drop i es) = c'" using dr k2(5) c(6) by simp
  have "rd_inodes k2 = snd (ht_add (rd_inodes k) c' h) \<and> unat (inode_counter (k_vfs k)) \<le> unat c' \<and>
      (\<exists>n. ht_lookup (tab k2) c' = Some n \<and> i_vtable n = Some Initrd_vtable \<and> i_type n = NORMAL_FILE)"
    if un: "resolve (tab k) d (drop i es) = ID_INVALID" and fl: "type_of_flag (ram k (h + TAR_TYPE_OFF)) = NORMAL_FILE"
  proof (cases r)
    case 0
    then have "k2 = k1" "c' = c" using k2(1) by simp_all
    moreover have "new" using un dr 0 Suc.prems(4) by (simp add: new_def Let_def split: if_splits)
    moreover have "isf" using fl 0 Suc.prems(4) by (simp add: isf_def)
    ultimately show ?thesis using fnew by auto
  next
    case (Suc r')
    then have ni: "\<not> isf" using Suc.prems(4) by (simp add: isf_def)
    then have rd: "rd_inodes k1 = rd_inodes k" using rest(1) by simp
    have "resolve (tab k1) c (drop (Suc i) es) = ID_INVALID"
    proof (cases new)
      case True
      have "drop (Suc i) es \<noteq> []" using Suc.prems(4) Suc by simp
      then show ?thesis using rest(3) [OF True] by (cases "drop (Suc i) es") (simp_all add: child_of_no_entries)
    next
      case False
      then show ?thesis using rest(2) un dr c(5,6) by (simp add: Let_def)
    qed
    then have f: "rd_inodes k2 = snd (ht_add (rd_inodes k1) c' h) \<and> unat (inode_counter (k_vfs k1)) \<le> unat c' \<and>
        (\<exists>n. ht_lookup (tab k2) c' = Some n \<and> i_vtable n = Some Initrd_vtable \<and> i_type n = NORMAL_FILE)"
      using fnew2 fl Suc by simp
    moreover have "unat (inode_counter (k_vfs k)) \<le> unat (inode_counter (k_vfs k1))" using c(9) .
    ultimately show ?thesis using rd by auto
  qed
  then show ?case
    using c(1,3,7,8) k2(1-4,6,7,8) res grows_trans [OF c(3) k2(3)] by auto
qed

text \<open>
  One header: its path resolves from the root to the inode returned, whatever existed before still
  resolves as it did, and a regular file that was not there gets the read operations and its header.
\<close>

lemma initrd_header_spec:
  assumes ok: "tree_ok k" and s: "is_cstr (mem_string (ram k) h)"
    and es: "path_elems (cstr (mem_string (ram k) h)) = es" "\<forall>e\<in>set es. length e < FILENAME_MAX"
    and root: "ht_lookup (tab k) (vfs_root (k_vfs k)) \<noteq> None"
    and room: "ht_size (tab k) + length es \<le> HASHTABLE_CAPACITY"
      "unat (inode_counter (k_vfs k)) + length es < 2 ^ 64"
  shows "\<exists>c k'. initrd_header fs h k = Ok (c, k') \<and> tree_ok k' \<and> grows k k' \<and>
    ht_lookup (tab k') c \<noteq> None \<and> c \<noteq> ID_INVALID \<and>
    on_vfs (get_inode (mem_string (ram k) h)) k' = Ok (c, k') \<and>
    ht_lookup (tab k') (vfs_root (k_vfs k')) \<noteq> None \<and>
    ht_size (tab k') \<le> ht_size (tab k) + length es \<and>
    unat (inode_counter (k_vfs k')) \<le> unat (inode_counter (k_vfs k)) + length es \<and>
    (rd_ok k \<and> ht_size (rd_inodes k) < HASHTABLE_CAPACITY \<and> es \<noteq> [] \<and>
        resolve (tab k) (vfs_root (k_vfs k)) es = ID_INVALID \<and>
        type_of_flag (ram k (h + TAR_TYPE_OFF)) = NORMAL_FILE \<longrightarrow>
      ht_lookup (rd_inodes k') c = Some h \<and>
      (\<exists>n. ht_lookup (tab k') c = Some n \<and> i_vtable n = Some Initrd_vtable \<and> i_type n = NORMAL_FILE))"
proof -
  let ?root = "vfs_root (k_vfs k)"
  have inv: "vfs_inv (k_vfs k)" using ok by (simp add: tree_ok_def)
  have len: "0 + length es = length es" by simp
  obtain c k' where c: "initrd_elements fs h (length es) 0 (length es) ?root k = Ok (c, k')" "tree_ok k'" "grows k k'"
      "ht_lookup (tab k') c \<noteq> None" "resolve (tab k') ?root es = c" "c \<noteq> ID_INVALID"
      "ht_size (tab k') \<le> ht_size (tab k) + length es"
      "unat (inode_counter (k_vfs k')) \<le> unat (inode_counter (k_vfs k)) + length es"
      and fnew: "es \<noteq> [] \<and> resolve (tab k) ?root es = ID_INVALID \<and>
        type_of_flag (ram k (h + TAR_TYPE_OFF)) = NORMAL_FILE \<Longrightarrow>
        rd_inodes k' = snd (ht_add (rd_inodes k) c h) \<and> unat (inode_counter (k_vfs k)) \<le> unat c \<and>
        (\<exists>n. ht_lookup (tab k') c = Some n \<and> i_vtable n = Some Initrd_vtable \<and> i_type n = NORMAL_FILE)"
    using initrd_elements_spec [OF ok s es len root room, of fs] by auto
  have run: "initrd_header fs h k = Ok (c, k')"
    using c(1) es(1) by (simp add: initrd_header_def path_element_count_spec [OF s] on_vfs_def get_root_run [OF inv])
  have root': "vfs_root (k_vfs k') = ?root" using c(3) by (simp add: grows_def)
  have get: "on_vfs (get_inode (mem_string (ram k) h)) k' = Ok (c, k')"
    using get_inode_resolve [OF _ s, of "k_vfs k'"] c(2,5) root' es(1) by (simp add: on_vfs_def tree_ok_def)
  have "ht_lookup (tab k') (vfs_root (k_vfs k')) \<noteq> None" using grows_lookup [OF c(3) root] root' by simp
  moreover have "ht_lookup (rd_inodes k') c = Some h"
    if "rd_ok k" "ht_size (rd_inodes k) < HASHTABLE_CAPACITY" "rd_inodes k' = snd (ht_add (rd_inodes k) c h)"
      "unat (inode_counter (k_vfs k)) \<le> unat c"
  proof -
    have "ht_lookup (rd_inodes k) c = None" using that(1,4) by (auto simp: rd_ok_def ht.below_def)
    then show ?thesis using that ht.lookup_add [of "rd_inodes k" c h] by (simp add: rd_ok_def)
  qed
  ultimately show ?thesis using run c(2,3,4,6,7,8) get fnew by blast
qed

section \<open>Unpacking an archive\<close>

definition well_named :: "memory \<Rightarrow> addr \<Rightarrow> bool" where
  "well_named m h \<longleftrightarrow> is_cstr (mem_string m h) \<and>
     (\<forall>e\<in>set (path_elems (cstr (mem_string m h))). length e < FILENAME_MAX)"

definition depth :: "memory \<Rightarrow> addr \<Rightarrow> nat" where
  "depth m h = length (path_elems (cstr (mem_string m h)))"

definition found :: "memory \<Rightarrow> addr \<Rightarrow> kernel \<Rightarrow> bool" where
  "found m h k \<longleftrightarrow> (\<exists>c. on_vfs (get_inode (mem_string m h)) k = Ok (c, k) \<and> c \<noteq> ID_INVALID)"

lemma found_grows:
  assumes "found m h k" "is_cstr (mem_string m h)" "tree_ok k" "tree_ok k'" "grows k k'"
  shows "found m h k'"
proof -
  let ?es = "path_elems (cstr (mem_string m h))" and ?r = "vfs_root (k_vfs k)"
  have inv: "vfs_inv (k_vfs k)" "vfs_inv (k_vfs k')" using assms(3,4) by (simp_all add: tree_ok_def)
  have "resolve (tab k) ?r ?es \<noteq> ID_INVALID"
    using assms(1) get_inode_resolve [OF inv(1) assms(2)] by (auto simp: found_def on_vfs_def)
  then have "resolve (tab k') ?r ?es \<noteq> ID_INVALID" using grows_resolve [OF assms(5)] by metis
  moreover have "vfs_root (k_vfs k') = ?r" using assms(5) by (simp add: grows_def)
  ultimately show ?thesis
    using get_inode_resolve [OF inv(2) assms(2)] by (simp add: found_def on_vfs_def)
qed

text \<open>
  Every record of a well-formed archive can be looked up by its name once the loop has ended, and the
  loop does end: the fuel needed is one more than the number of records.
\<close>

lemma initrd_walk_spec:
  assumes "archive (ram k) h (s # ss)" "length (s # ss) < fuel" "tree_ok k"
    "ht_lookup (tab k) (vfs_root (k_vfs k)) \<noteq> None"
    "\<forall>a\<in>set (header_addrs h (s # ss)). well_named (ram k) a"
    "ht_size (tab k) + sum_list (map (depth (ram k)) (header_addrs h (s # ss))) \<le> HASHTABLE_CAPACITY"
    "unat (inode_counter (k_vfs k)) + sum_list (map (depth (ram k)) (header_addrs h (s # ss))) < 2 ^ 64"
  shows "\<exists>k'. initrd_walk fuel fs h k = Ok ((), k') \<and> tree_ok k' \<and> grows k k' \<and>
    (\<forall>a\<in>set (header_addrs h (s # ss)). found (ram k) a k') \<and>
    unat (inode_counter (k_vfs k')) \<le>
      unat (inode_counter (k_vfs k)) + sum_list (map (depth (ram k)) (header_addrs h (s # ss)))"
  using assms
proof (induction ss arbitrary: h s fuel k)
  case Nil
  obtain f where f: "fuel = Suc (Suc f)" using Nil.prems(2) by (cases fuel; cases "fuel - 1") auto
  have nm: "is_cstr (mem_string (ram k) h)" "\<forall>e\<in>set (path_elems (cstr (mem_string (ram k) h))). length e < FILENAME_MAX"
    using Nil.prems(5) by (simp_all add: well_named_def)
  obtain c k1 where k1: "initrd_header fs h k = Ok (c, k1)" "tree_ok k1" "grows k k1" "c \<noteq> ID_INVALID"
      "on_vfs (get_inode (mem_string (ram k) h)) k1 = Ok (c, k1)"
      "unat (inode_counter (k_vfs k1)) \<le> unat (inode_counter (k_vfs k)) + depth (ram k) h"
    using initrd_header_spec [OF Nil.prems(3) nm(1) refl nm(2) Nil.prems(4), of fs] Nil.prems(6,7)
    by (auto simp: depth_def)
  have "tar_next (ram k1) h = 0" using Nil.prems(1) grows_ram [OF k1(3)] by (simp add: tar_next_def Let_def)
  then show ?case using Nil.prems(1) f k1 by (simp add: found_def)
next
  case (Cons r ss)
  obtain f where f: "fuel = Suc f" "length (r # ss) < f" using Cons.prems(2) by (cases fuel) auto
  let ?n = "h + align_ceiling (512 + s) 512"
  have nm: "is_cstr (mem_string (ram k) h)" "\<forall>e\<in>set (path_elems (cstr (mem_string (ram k) h))). length e < FILENAME_MAX"
    using Cons.prems(5) by (simp_all add: well_named_def)
  obtain c k1 where k1: "initrd_header fs h k = Ok (c, k1)" "tree_ok k1" "grows k k1" "c \<noteq> ID_INVALID"
      "on_vfs (get_inode (mem_string (ram k) h)) k1 = Ok (c, k1)"
      "ht_lookup (tab k1) (vfs_root (k_vfs k1)) \<noteq> None"
      "ht_size (tab k1) \<le> ht_size (tab k) + depth (ram k) h"
      "unat (inode_counter (k_vfs k1)) \<le> unat (inode_counter (k_vfs k)) + depth (ram k) h"
    using initrd_header_spec [OF Cons.prems(3) nm(1) refl nm(2) Cons.prems(4), of fs] Cons.prems(6,7)
    by (auto simp: depth_def)
  have ram1: "ram k1 = ram k" using grows_ram [OF k1(3)] .
  have arch: "archive (ram k1) ?n (r # ss)" using Cons.prems(1) ram1 by simp
  have nxt: "tar_next (ram k1) h = ?n" using Cons.prems(1) ram1 by (simp add: tar_next_def Let_def)
  obtain k2 where k2: "initrd_walk f fs ?n k1 = Ok ((), k2)" "tree_ok k2" "grows k1 k2"
      "\<forall>a\<in>set (header_addrs ?n (r # ss)). found (ram k) a k2"
      "unat (inode_counter (k_vfs k2)) \<le>
        unat (inode_counter (k_vfs k1)) + sum_list (map (depth (ram k)) (header_addrs ?n (r # ss)))"
    using Cons.IH [OF arch f(2) k1(2,6)] Cons.prems(5,6,7) k1(7,8) ram1 by auto
  have "found (ram k) h k2"
    using found_grows [OF _ nm(1) k1(2) k2(2,3)] k1(4,5) by (auto simp: found_def)
  then show ?case
    using Cons.prems(1) f(1) k1(1,8) nxt k2 grows_trans [OF k1(3) k2(3)] by simp
qed

end
