(* ===== verification/Scheduler.thy ===== *)
theory Scheduler
  imports Proc
begin

text \<open>
  The scheduler: \<open>kernel/proc/scheduler.cpp\<close>. The run queue holds tasks; \<open>scheduler_increment\<close> puts the
  running task back (or deletes its thread when it is dead) and takes the next one whose counted
  priority has run down. The search loop has no bound of its own, so it is a partial function: its
  value is \<open>None\<close> when it never stops. The lemmas show that it stops on every non-empty queue, that
  equal priorities give round robin, and that every waiting task gets its turn.
\<close>

section \<open>Picking the next task\<close>

partial_function (option) next_task :: "task_t queue \<Rightarrow> (task_t \<times> task_t queue) option" where
  "next_task q =
     (let (t, q1) = q_pop q
      in if sint (cpriority t) \<le> 0 then Some (t, q1)
         else next_task (q_push q1 (t\<lparr>cpriority := cpriority t - 1\<rparr>)))"

declare next_task.simps [code]

definition scheduler_increment :: "kernel \<Rightarrow> (unit \<times> kernel) res" where
  "scheduler_increment = hw_section (\<lambda>k.
     bind_res
       (if t_thread (ctask k) \<noteq> ID_INVALID
        then bind_res (thread_get_state (t_thread (ctask k)) k) (\<lambda>(st, k1).
             if st = DEAD
             then bind_res (thread_get_process (t_thread (ctask k1)) k1) (\<lambda>(p, k2).
                  bind_res (delete_thread p (t_thread (ctask k2)) k2) (\<lambda>(_, k3). Ok k3))
             else let t = (ctask k1)\<lparr>cpriority := priority (ctask k1)\<rparr>
                  in Ok (k1\<lparr>ctask := t, schedule := q_push (schedule k1) t\<rparr>))
        else Ok k) (\<lambda>k4.
     case next_task (schedule k4) of
       None \<Rightarrow> Fail Diverges
     | Some (t, q) \<Rightarrow> set_current_thread (t_thread t) (k4\<lparr>ctask := t, schedule := q\<rparr>)))"

definition scheduler_current :: "kernel \<Rightarrow> (id_t \<times> kernel) res" where
  "scheduler_current = hw_section (\<lambda>k. Ok (t_thread (ctask k), k))"

text \<open>
  \<open>scheduler_preempt\<close> either returns the stack to resume, or starts a new thread on its own stack,
  which does not return (\<open>scheduler_bootstrap_task\<close> calls the entry point and then
  \<open>proc_thread_finish\<close>, an endless loop).
\<close>

datatype switch = Resume size_t | Bootstrap (boot_entry: size_t) (boot_stack: size_t)

definition scheduler_preempt :: "size_t \<Rightarrow> kernel \<Rightarrow> (switch \<times> kernel) res" where
  "scheduler_preempt old_stack k =
     bind_res (if t_thread (ctask k) \<noteq> ID_INVALID
               then thread_set_stack (t_thread (ctask k)) old_stack k else Ok ((), k)) (\<lambda>(_, k1).
     bind_res (scheduler_increment k1) (\<lambda>(_, k2).
     bind_res (thread_get_stack (t_thread (ctask k2)) k2) (\<lambda>(new_stack, k3).
     bind_res (thread_get_state (t_thread (ctask k3)) k3) (\<lambda>(st, k4).
     if st = NEW
     then bind_res (thread_set_state (t_thread (ctask k4)) ACTIVE k4) (\<lambda>(_, k5).
          bind_res (thread_get_entry (t_thread (ctask k5)) k5) (\<lambda>(entry, k6).
          bind_res (thread_get_stack (t_thread (ctask k6)) k6) (\<lambda>(stack, k7).
          Ok (Bootstrap entry stack, k7))))
     else Ok (Resume new_stack, k4)))))"

text \<open>What runs when a thread's entry point returns: the thread is killed, then the loop never ends.\<close>

definition proc_thread_finish :: "kernel \<Rightarrow> (int \<times> kernel) res" where
  "proc_thread_finish k =
     bind_res (get_current_thread k) (\<lambda>(tid, k1). thread_kill tid k1)"

section \<open>The search ends\<close>

definition load :: "task_t list \<Rightarrow> nat" where
  "load ts = sum_list (map (\<lambda>t. nat (sint (cpriority t))) ts)"

lemma sint_dec:
  fixes w :: "16 word"
  assumes "sint w > 0"
  shows "sint (w - 1) = sint w - 1"
proof -
  have "sint w < 2 ^ 15" using sint_lt [of w] by simp
  then show ?thesis using assms by (simp add: sint_word_ariths signed_take_bit_int_eq_self)
qed

text \<open>
  The same search on the list of waiting tasks: a task whose count is positive is decremented and goes
  to the back. Each such step lowers the total of the positive counts.
\<close>

function pick :: "task_t list \<Rightarrow> (task_t \<times> task_t list) option" where
  "pick [] = None"
| "pick (t # ts) =
     (if sint (cpriority t) \<le> 0 then Some (t, ts) else pick (ts @ [t\<lparr>cpriority := cpriority t - 1\<rparr>]))"
  by pat_completeness auto
termination
  by (relation "measure load") (auto simp: load_def sint_dec)

lemma pick_Some: "ts \<noteq> [] \<Longrightarrow> \<exists>t us. pick ts = Some (t, us) \<and> length us = length ts - 1"
proof (induction ts rule: pick.induct)
  case (2 t ts)
  then show ?case by (cases "sint (cpriority t) \<le> 0") auto
qed simp

lemma next_task_pick:
  assumes "q_inv q" "q_list q \<noteq> []"
  shows "\<exists>t us q'. pick (q_list q) = Some (t, us) \<and> next_task q = Some (t, q') \<and> q_inv q' \<and>
    q_list q' = us \<and> q_cap q' = q_cap q"
  using assms
proof (induction "q_list q" arbitrary: q rule: pick.induct)
  case 1
  then show ?case by simp
next
  case (2 t ts)
  have pop: "fst (q_pop q) = t" "q_list (snd (q_pop q)) = ts" "q_inv (snd (q_pop q))"
      "q_cap (snd (q_pop q)) = q_cap q"
    using ring.pop_item [OF "2.prems"] ring.pop_rest [OF "2.prems"] ring.invar_pop [OF "2.prems"]
      ring.cap_pop [of q] "2.hyps"(2) by (metis list.sel(1,3))+
  show ?case
  proof (cases "sint (cpriority t) \<le> 0")
    case True
    then have "next_task q = Some (t, snd (q_pop q))"
      using pop by (subst next_task.simps) (simp add: case_prod_unfold Let_def)
    moreover have "pick (q_list q) = Some (t, ts)" using True "2.hyps"(2) [symmetric] by simp
    ultimately show ?thesis using pop by auto
  next
    case False
    let ?t = "t\<lparr>cpriority := cpriority t - 1\<rparr>"
    let ?q = "q_push (snd (q_pop q)) ?t"
    have room: "q_len (snd (q_pop q)) < q_cap (snd (q_pop q))"
      using ring.len_contents [OF pop(3)] ring.len_contents [OF "2.prems"(1)] ring.len_cap [OF "2.prems"(1)]
        pop(2,4) "2.hyps"(2) by (metis Suc_le_lessD length_Cons)
    have q: "q_list ?q = ts @ [?t]" "q_inv ?q" "q_cap ?q = q_cap q"
      using ring.push_room [OF pop(3) room] ring.invar_push [OF pop(3)] pop(2,4) by simp_all
    have "next_task q = next_task ?q"
      using False pop by (subst next_task.simps) (simp add: case_prod_unfold Let_def)
    moreover have "pick (q_list q) = pick (q_list ?q)" using False q(1) "2.hyps"(2) [symmetric] by simp
    ultimately show ?thesis
      using "2.hyps"(1) [OF False q(1) [symmetric] q(2)] q(1,3) by auto
  qed
qed

text \<open>With counts that have run down, the oldest task is taken.\<close>

lemma pick_ready: "sint (cpriority t) \<le> 0 \<Longrightarrow> pick (t # ts) = Some (t, ts)"
  by simp

section \<open>One scheduling step\<close>

definition waiting :: "kernel \<Rightarrow> task_t list" where
  "waiting k = q_list (schedule k)"

definition state_of :: "kernel \<Rightarrow> id_t \<Rightarrow> thread_state" where
  "state_of k tid = (case ht_lookup (thread_table k) tid of None \<Rightarrow> DEAD | Some th \<Rightarrow> th_state th)"

definition proc_of :: "kernel \<Rightarrow> id_t \<Rightarrow> id_t" where
  "proc_of k tid = (case ht_lookup (thread_table k) tid of None \<Rightarrow> ID_INVALID | Some th \<Rightarrow> th_proc th)"

text \<open>The tasks that compete in the next step: the waiting ones, and the running one if it goes on.\<close>

definition runnable :: "kernel \<Rightarrow> bool" where
  "runnable k \<longleftrightarrow> t_thread (ctask k) \<noteq> ID_INVALID \<and> state_of k (t_thread (ctask k)) \<noteq> DEAD"

definition contenders :: "kernel \<Rightarrow> task_t list" where
  "contenders k = waiting k @
     (if runnable k then [(ctask k)\<lparr>cpriority := priority (ctask k)\<rparr>] else [])"

lemma k_inv_sched: "k_inv k \<Longrightarrow> q_inv q \<Longrightarrow> k_inv (k\<lparr>ctask := t, schedule := q\<rparr>)"
  by (simp add: k_inv_def)

text \<open>The part of \<open>scheduler_increment\<close> before the search.\<close>

lemma retire_running:
  assumes "k_inv k" "runnable k \<longrightarrow> length (waiting k) < q_cap (schedule k)"
  shows "\<exists>k4. scheduler_increment k =
      bind_res (case next_task (schedule k4) of None \<Rightarrow> Fail Diverges
        | Some (t, q) \<Rightarrow> set_current_thread (t_thread t) (k4\<lparr>ctask := t, schedule := q\<rparr>))
      (\<lambda>(x, k'). Ok (x, k_unlock k')) \<and>
    k_inv k4 \<and> waiting k4 = contenders k \<and> q_cap (schedule k4) = q_cap (schedule k) \<and>
    (runnable k \<or> t_thread (ctask k) = ID_INVALID \<longrightarrow> thread_table k4 = thread_table k) \<and>
    (\<not> runnable k \<and> proc_of k (t_thread (ctask k)) \<in> dom (ht_lookup (proc_table k)) \<longrightarrow>
      t_thread (ctask k) \<noteq> ID_INVALID \<longrightarrow> ht_lookup (thread_table k4) (t_thread (ctask k)) = None)"
proof -
  let ?c = "t_thread (ctask k)" and ?l = "k_unlock (k_lock (k_lock k))"
  have q: "q_inv (schedule k)" using assms(1) by (simp add: k_inv_def)
  consider (none) "?c = ID_INVALID" | (run) "?c \<noteq> ID_INVALID" "state_of k ?c \<noteq> DEAD"
    | (dead) "?c \<noteq> ID_INVALID" "state_of k ?c = DEAD" by blast
  then show ?thesis
  proof cases
    case none
    then show ?thesis using assms(1)
      by (intro exI [of _ "k_lock k"])
        (simp add: scheduler_increment_def hw_section_def contenders_def runnable_def waiting_def)
  next
    case run
    let ?t = "(ctask k)\<lparr>cpriority := priority (ctask k)\<rparr>"
    let ?k = "?l\<lparr>ctask := ?t, schedule := q_push (schedule k) ?t\<rparr>"
    have rb: "runnable k" using run by (simp add: runnable_def)
    have "q_len (schedule k) < q_cap (schedule k)"
      using rb assms(2) ring.len_contents [OF q] by (simp add: waiting_def)
    then have "q_list (q_push (schedule k) ?t) = waiting k @ [?t]"
      using ring.push_room [OF q] by (simp add: waiting_def)
    moreover have "k_inv ?k" using assms(1) q by (simp add: k_inv_def ring.invar_push)
    moreover have "thread_get_state ?c (k_lock k) = Ok (state_of k ?c, ?l)"
      by (simp add: thread_get_state_def thread_get_run state_of_def)
    ultimately show ?thesis using run rb
      by (intro exI [of _ ?k])
        (simp add: scheduler_increment_def hw_section_def [of _ k] contenders_def waiting_def Let_def)
  next
    case dead
    let ?p = "proc_of k ?c" and ?l2 = "k_unlock (k_lock (k_unlock (k_lock (k_lock k))))"
    have nr: "\<not> runnable k" using dead by (simp add: runnable_def)
    have st: "thread_get_state ?c (k_lock k) = Ok (DEAD, ?l)"
      using dead(2) by (simp add: thread_get_state_def thread_get_run state_of_def)
    have pr: "thread_get_process ?c ?l = Ok (?p, ?l2)"
      by (simp add: thread_get_process_def thread_get_run proc_of_def)
    obtain x k3 where k3: "delete_thread ?p ?c ?l2 = Ok (x, k3)" "k_inv k3" "schedule k3 = schedule k"
        "?p \<in> dom (ht_lookup (proc_table k)) \<longrightarrow> ht_lookup (thread_table k3) ?c = None"
    proof (cases "ht_lookup (proc_table k) ?p")
      case None
      then show ?thesis using that [of 1 "k_unlock (k_lock ?l2)"] assms(1)
        by (simp add: delete_thread_def hw_section_def domIff)
    next
      case (Some p)
      then show ?thesis
        using that delete_thread_spec [of ?l2 ?p p ?c] assms(1) by (auto simp del: fun_upd_apply simp: fun_upd_same)
    qed
    then show ?thesis using dead nr st pr
      by (intro exI [of _ k3])
        (simp add: scheduler_increment_def hw_section_def [of _ k] contenders_def waiting_def)
  qed
qed

lemma scheduler_increment_spec:
  assumes "k_inv k" "contenders k \<noteq> []" "runnable k \<longrightarrow> length (waiting k) < q_cap (schedule k)"
  shows "\<exists>k' t us. pick (contenders k) = Some (t, us) \<and> scheduler_increment k = Ok ((), k') \<and>
    k_inv k' \<and> ctask k' = t \<and> waiting k' = us \<and> cthread k' = t_thread t \<and>
    cproc k' = proc_of k' (t_thread t) \<and> \<not> hw_locked (hw k') \<and> q_cap (schedule k') = q_cap (schedule k) \<and>
    (runnable k \<or> t_thread (ctask k) = ID_INVALID \<longrightarrow> thread_table k' = thread_table k) \<and>
    (\<not> runnable k \<and> proc_of k (t_thread (ctask k)) \<in> dom (ht_lookup (proc_table k)) \<longrightarrow>
      t_thread (ctask k) \<noteq> ID_INVALID \<longrightarrow> ht_lookup (thread_table k') (t_thread (ctask k)) = None)"
proof -
  obtain k4 where k4: "scheduler_increment k =
      bind_res (case next_task (schedule k4) of None \<Rightarrow> Fail Diverges
        | Some (t, q) \<Rightarrow> set_current_thread (t_thread t) (k4\<lparr>ctask := t, schedule := q\<rparr>))
      (\<lambda>(x, k'). Ok (x, k_unlock k'))"
      "k_inv k4" "waiting k4 = contenders k" "q_cap (schedule k4) = q_cap (schedule k)"
      "runnable k \<or> t_thread (ctask k) = ID_INVALID \<longrightarrow> thread_table k4 = thread_table k"
      "\<not> runnable k \<and> proc_of k (t_thread (ctask k)) \<in> dom (ht_lookup (proc_table k)) \<longrightarrow>
        t_thread (ctask k) \<noteq> ID_INVALID \<longrightarrow> ht_lookup (thread_table k4) (t_thread (ctask k)) = None"
    using retire_running [OF assms(1,3)] by blast
  have q4: "q_inv (schedule k4)" "q_list (schedule k4) \<noteq> []"
    using k4(2,3) assms(2) by (auto simp: k_inv_def waiting_def)
  obtain t us q' where n: "pick (q_list (schedule k4)) = Some (t, us)" "next_task (schedule k4) = Some (t, q')"
      "q_inv q'" "q_list q' = us" "q_cap q' = q_cap (schedule k4)"
    using next_task_pick [OF q4] by blast
  let ?k5 = "k4\<lparr>ctask := t, schedule := q'\<rparr>"
  have inv5: "k_inv ?k5" using k4(2) n(3) by (rule k_inv_sched)
  obtain k6 where k6: "set_current_thread (t_thread t) ?k5 = Ok ((), k6)" "cthread k6 = t_thread t"
      "cproc k6 = proc_of ?k5 (t_thread t)" "\<not> hw_locked (hw k6)" "k_inv k6"
      "thread_table k6 = thread_table k4" "schedule k6 = q'" "ctask k6 = t"
    using set_current_thread_run [of "t_thread t" ?k5] inv5 by (auto simp: proc_of_def)
  have "scheduler_increment k = Ok ((), k_unlock k6)" using k4(1) n(2) k6(1) by simp
  moreover have "\<not> hw_locked (hw (k_unlock k6))"
    using k6(4) by (simp add: hw_lock_unlock hwlock_unlock_unlocked)
  ultimately show ?thesis
    using n k4(3-6) k6 by (intro exI [of _ "k_unlock k6"] exI [of _ t] exI [of _ us])
      (simp add: waiting_def proc_of_def)
qed

section \<open>Every waiting task gets its turn\<close>

fun increments :: "nat \<Rightarrow> kernel \<Rightarrow> kernel res" where
  "increments 0 k = Ok k"
| "increments (Suc n) k = bind_res (scheduler_increment k) (\<lambda>(_, k'). increments n k')"

text \<open>All threads alive, and no task with a positive priority: what \<open>spawn_thread\<close> produces.\<close>

definition steady :: "kernel \<Rightarrow> bool" where
  "steady k \<longleftrightarrow> (\<forall>t\<in>set (ctask k # waiting k). t_thread t \<noteq> ID_INVALID \<and>
     state_of k (t_thread t) \<noteq> DEAD \<and> sint (priority t) \<le> 0 \<and> sint (cpriority t) \<le> 0)"

lemma steady_step:
  assumes "k_inv k" "steady k" "waiting k = t # ts" "length (waiting k) < q_cap (schedule k)"
  shows "\<exists>k'. scheduler_increment k = Ok ((), k') \<and> k_inv k' \<and> steady k' \<and> ctask k' = t \<and>
    waiting k' = ts @ [(ctask k)\<lparr>cpriority := priority (ctask k)\<rparr>] \<and> cthread k' = t_thread t \<and>
    q_cap (schedule k') = q_cap (schedule k)"
proof -
  have run: "runnable k" using assms(2) by (simp add: steady_def runnable_def)
  let ?c = "(ctask k)\<lparr>cpriority := priority (ctask k)\<rparr>"
  have con: "contenders k = t # ts @ [?c]" using run assms(3) by (simp add: contenders_def)
  have ready: "sint (cpriority t) \<le> 0" using assms(2,3) by (simp add: steady_def)
  then have pk: "pick (contenders k) = Some (t, ts @ [?c])" using con by (simp only: pick_ready)
  obtain k' where k': "scheduler_increment k = Ok ((), k')" "k_inv k'" "ctask k' = t"
      "waiting k' = ts @ [?c]" "cthread k' = t_thread t" "q_cap (schedule k') = q_cap (schedule k)"
      "thread_table k' = thread_table k"
    using scheduler_increment_spec [OF assms(1)] con pk run assms(4) by auto
  have "state_of k' = state_of k" using k'(7) by (simp add: state_of_def fun_eq_iff)
  then have "steady k'" using assms(2,3) k'(3,4) by (auto simp: steady_def)
  then show ?thesis using k' by blast
qed

lemma round_robin:
  assumes "k_inv k" "steady k" "i < length (waiting k)" "length (waiting k) < q_cap (schedule k)"
  shows "\<exists>k'. increments (Suc i) k = Ok k' \<and> ctask k' = waiting k ! i \<and>
    cthread k' = t_thread (waiting k ! i) \<and> k_inv k'"
  using assms
proof (induction i arbitrary: k)
  case 0
  then obtain t ts where w: "waiting k = t # ts" by (cases "waiting k") auto
  then show ?case using steady_step [OF "0.prems"(1,2) w] "0.prems"(4) by auto
next
  case (Suc i)
  then obtain t ts where w: "waiting k = t # ts" by (cases "waiting k") auto
  obtain k' where k': "scheduler_increment k = Ok ((), k')" "k_inv k'" "steady k'"
      "waiting k' = ts @ [(ctask k)\<lparr>cpriority := priority (ctask k)\<rparr>]" "q_cap (schedule k') = q_cap (schedule k)"
    using steady_step [OF Suc.prems(1,2) w] Suc.prems(4) by auto
  have i: "i < length (waiting k')" "waiting k' ! i = waiting k ! Suc i"
    "length (waiting k') < q_cap (schedule k')"
    using Suc.prems(3,4) w k'(4,5) by (auto simp: nth_append)
  then show ?case using Suc.IH [OF k'(2,3)] k'(1) by simp
qed

section \<open>Preemption\<close>

text \<open>
  The stack pointer of the interrupted thread is stored in its record; the thread that runs next is
  resumed on the stack stored in its own, or started there.
\<close>

lemma scheduler_preempt_spec:
  assumes "k_inv k" "steady k" "waiting k = t # ts" "length (waiting k) < q_cap (schedule k)"
    "t_thread t \<noteq> t_thread (ctask k)" "ht_lookup (thread_table k) (t_thread t) = Some th"
    "ht_lookup (thread_table k) (t_thread (ctask k)) = Some old"
  shows "\<exists>k'. scheduler_preempt stk k =
      Ok (if th_state th = NEW then Bootstrap (th_entry th) (th_stack th) else Resume (th_stack th), k') \<and>
    k_inv k' \<and> ctask k' = t \<and> cthread k' = t_thread t \<and>
    ht_lookup (thread_table k') (t_thread (ctask k)) = Some (old\<lparr>th_stack := stk\<rparr>)"
proof -
  let ?c = "t_thread (ctask k)" and ?f = "\<lambda>th. th\<lparr>th_stack := stk\<rparr>"
  have cv: "?c \<noteq> ID_INVALID" using assms(2) by (simp add: steady_def)
  have tinv: "ht_inv (thread_table k)" using assms(1) by (simp add: k_inv_def)
  obtain k1 where k1: "thread_set ?c ?f k = Ok ((), k1)" by (simp add: thread_set_run)
  have look1: "ht_lookup (thread_table k1) = (ht_lookup (thread_table k))(?c \<mapsto> old\<lparr>th_stack := stk\<rparr>)"
    using thread_set_lookup [OF tinv k1] assms(7) by simp
  have inv1: "k_inv k1" using assms(1) k1 by (rule thread_set_inv(1))
  have same: "ctask k1 = ctask k" "schedule k1 = schedule k"
    using k1 by (auto simp: thread_set_run split: option.splits)
  have "state_of k1 tid = state_of k tid" for tid using look1 assms(7) by (simp add: state_of_def)
  then have st1: "steady k1" using assms(2) same by (simp add: steady_def waiting_def)
  have w1: "waiting k1 = t # ts" using assms(3) same by (simp add: waiting_def)
  have run1: "runnable k1" using st1 by (simp add: steady_def runnable_def)
  obtain k2 where k2: "scheduler_increment k1 = Ok ((), k2)" "k_inv k2" "ctask k2 = t" "cthread k2 = t_thread t"
      "thread_table k2 = thread_table k1"
  proof -
    have "contenders k1 \<noteq> []" "runnable k1 \<longrightarrow> length (waiting k1) < q_cap (schedule k1)"
      using w1 assms(3,4) same by (simp_all add: contenders_def)
    then obtain k2 t' us where "pick (contenders k1) = Some (t', us)" "scheduler_increment k1 = Ok ((), k2)"
        "k_inv k2" "ctask k2 = t'" "cthread k2 = t_thread t'" "thread_table k2 = thread_table k1"
      using scheduler_increment_spec [OF inv1] run1 by blast
    moreover have "pick (contenders k1) = Some (t, ts @ [(ctask k1)\<lparr>cpriority := priority (ctask k1)\<rparr>])"
      using st1 w1 run1 by (simp add: contenders_def steady_def)
    ultimately show ?thesis using that by auto
  qed
  have th2: "ht_lookup (thread_table k2) (t_thread t) = Some th"
    using look1 k2(5) assms(5,6) by simp
  define k4 where "k4 = k_unlock (k_lock (k_unlock (k_lock k2)))"
  have start: "scheduler_preempt stk k =
      (if th_state th = NEW
       then bind_res (thread_set_state (t_thread t) ACTIVE k4) (\<lambda>(_, k5).
            bind_res (thread_get_entry (t_thread (ctask k5)) k5) (\<lambda>(entry, k6).
            bind_res (thread_get_stack (t_thread (ctask k6)) k6) (\<lambda>(stack, k7).
            Ok (Bootstrap entry stack, k7))))
       else Ok (Resume (th_stack th), k4))"
    using cv k1 k2(1,3) th2
    by (simp add: scheduler_preempt_def thread_set_stack_def thread_get_stack_def thread_get_state_def
        thread_get_run k4_def)
  have inv4: "k_inv k4" "thread_table k4 = thread_table k1" "ctask k4 = t" "cthread k4 = t_thread t"
    using k2 by (simp_all add: k4_def)
  show ?thesis
  proof (cases "th_state th = NEW")
    case False
    then show ?thesis using start inv4 look1 by simp
  next
    case True
    obtain k5 where k5: "thread_set (t_thread t) (\<lambda>th. th\<lparr>th_state := ACTIVE\<rparr>) k4 = Ok ((), k5)"
      by (simp add: thread_set_run)
    have tinv4: "ht_inv (thread_table k4)" using inv4(1) by (simp add: k_inv_def)
    have look5: "ht_lookup (thread_table k5) = (ht_lookup (thread_table k1))(t_thread t \<mapsto> th\<lparr>th_state := ACTIVE\<rparr>)"
      using thread_set_lookup [OF tinv4 k5] th2 k2(5) inv4(2) by simp
    have same5: "ctask k5 = t" "cthread k5 = t_thread t"
      using k5 inv4(3,4) by (auto simp: thread_set_run split: option.splits)
    have "k_inv k5" using inv4(1) k5 by (rule thread_set_inv(1))
    then show ?thesis
      using True start k5 look5 same5 look1 assms(5)
      by (simp add: thread_set_state_def thread_get_entry_def thread_get_stack_def thread_get_run)
  qed
qed

text \<open>Once the next task is current, it is resumed or started; nothing else happens to the tables.\<close>

definition switch_in :: "kernel \<Rightarrow> (switch \<times> kernel) res" where
  "switch_in k2 =
     bind_res (thread_get_stack (t_thread (ctask k2)) k2) (\<lambda>(new_stack, k3).
     bind_res (thread_get_state (t_thread (ctask k3)) k3) (\<lambda>(st, k4).
     if st = NEW
     then bind_res (thread_set_state (t_thread (ctask k4)) ACTIVE k4) (\<lambda>(_, k5).
          bind_res (thread_get_entry (t_thread (ctask k5)) k5) (\<lambda>(entry, k6).
          bind_res (thread_get_stack (t_thread (ctask k6)) k6) (\<lambda>(stack, k7).
          Ok (Bootstrap entry stack, k7))))
     else Ok (Resume new_stack, k4)))"

lemma switch_in_keeps:
  assumes "k_inv k"
  shows "\<exists>sw k'. switch_in k = Ok (sw, k') \<and> k_inv k' \<and> ctask k' = ctask k \<and> cthread k' = cthread k \<and>
    dom (ht_lookup (thread_table k')) = dom (ht_lookup (thread_table k))"
proof -
  let ?c = "t_thread (ctask k)" and ?k4 = "k_unlock (k_lock (k_unlock (k_lock k)))"
  obtain k5 where k5: "thread_set ?c (\<lambda>th. th\<lparr>th_state := ACTIVE\<rparr>) ?k4 = Ok ((), k5)" by (simp add: thread_set_run)
  have i4: "k_inv ?k4" "ht_inv (thread_table ?k4)" using assms by (simp_all add: k_inv_def)
  have "dom (ht_lookup (thread_table k5)) = dom (ht_lookup (thread_table k))"
    using thread_set_lookup [OF i4(2) k5] by (auto split: if_splits)
  moreover have "ctask k5 = ctask k" "cthread k5 = cthread k"
    using k5 by (auto simp: thread_set_run split: option.splits)
  ultimately show ?thesis using k5 thread_set_inv(1) [OF i4(1) k5] assms
    by (auto simp: switch_in_def thread_get_stack_def thread_get_state_def thread_get_entry_def thread_set_state_def
        thread_get_run)
qed

text \<open>A dead running thread is deleted by the preemption, and the first waiting task that is ready runs.\<close>

lemma scheduler_preempt_dead:
  assumes "k_inv k" "t_thread (ctask k) \<noteq> ID_INVALID" "ht_lookup (thread_table k) (t_thread (ctask k)) = Some th"
    "th_state th = DEAD" "th_proc th \<in> dom (ht_lookup (proc_table k))" "waiting k = t # ts" "sint (cpriority t) \<le> 0"
  shows "\<exists>sw k'. scheduler_preempt stk k = Ok (sw, k') \<and> k_inv k' \<and> ctask k' = t \<and> cthread k' = t_thread t \<and>
    ht_lookup (thread_table k') (t_thread (ctask k)) = None"
proof -
  let ?c = "t_thread (ctask k)"
  obtain k1 where k1: "thread_set ?c (\<lambda>th. th\<lparr>th_stack := stk\<rparr>) k = Ok ((), k1)" by (simp add: thread_set_run)
  have "ht_inv (thread_table k)" using assms(1) by (simp add: k_inv_def)
  note look1 = thread_set_lookup [OF this k1]
  have same: "ctask k1 = ctask k" "schedule k1 = schedule k" "proc_table k1 = proc_table k"
    using k1 by (auto simp: thread_set_run split: option.splits)
  have inv1: "k_inv k1" using assms(1) k1 by (rule thread_set_inv(1))
  have nr: "\<not> runnable k1" and pr: "proc_of k1 ?c \<in> dom (ht_lookup (proc_table k1))"
    using look1 same assms(3-5) by (simp_all add: runnable_def state_of_def proc_of_def)
  have "contenders k1 = t # ts" using nr same assms(6) by (simp add: contenders_def waiting_def)
  then obtain k2 where k2: "scheduler_increment k1 = Ok ((), k2)" "k_inv k2" "ctask k2 = t" "cthread k2 = t_thread t"
      "ht_lookup (thread_table k2) ?c = None"
    using scheduler_increment_spec [OF inv1] nr pr same assms(2,7) by auto
  obtain sw k' where k': "switch_in k2 = Ok (sw, k')" "k_inv k'" "ctask k' = t" "cthread k' = t_thread t"
      "dom (ht_lookup (thread_table k')) = dom (ht_lookup (thread_table k2))"
    using switch_in_keeps [OF k2(2)] k2(3,4) by auto
  have "scheduler_preempt stk k = Ok (sw, k')"
    using k1 k2(1) k'(1) assms(2) by (simp add: scheduler_preempt_def thread_set_stack_def switch_in_def [symmetric])
  moreover have "ht_lookup (thread_table k') ?c = None" using k'(5) k2(5) by (metis domIff)
  ultimately show ?thesis using k'(2-4) by blast
qed

end
