(* ===== verification/Fd.thy ===== *)
theory Fd
  imports Initrd Scheduler
begin

text \<open>
  File access of the current process: \<open>kernel/vfs/fd.cpp\<close>. A call goes through the function pointers of
  the inode's \<open>vtable_t\<close>; a local descriptor is looked up in the process first.
\<close>

section \<open>Calls through a table of function pointers\<close>

text \<open>A pointer of the wrong kind cannot be stored in a slot; calling one is no behaviour of the code.\<close>

definition call_open :: "fnptr \<Rightarrow> id_t \<Rightarrow> kernel \<Rightarrow> (int \<times> kernel) res" where
  "call_open f inode k = (case f of
     Initrd_open_call \<Rightarrow> initrd_open_call inode k
   | Pipe_open_call \<Rightarrow> pipe_open_call inode k
   | _ \<Rightarrow> Fail NullDeref)"

definition call_close :: "fnptr \<Rightarrow> id_t \<Rightarrow> kernel \<Rightarrow> (int \<times> kernel) res" where
  "call_close f fd k = (case f of
     Initrd_close_call \<Rightarrow> initrd_close_call fd k
   | Pipe_close_call \<Rightarrow> pipe_close_call fd k
   | _ \<Rightarrow> Fail NullDeref)"

definition call_read :: "fnptr \<Rightarrow> id_t \<Rightarrow> addr \<Rightarrow> size_t \<Rightarrow> kernel \<Rightarrow> (64 word \<times> kernel) res" where
  "call_read f fd rbuff n k = (case f of
     Initrd_read_call \<Rightarrow> initrd_read_call fd rbuff n k
   | Pipe_read_call \<Rightarrow> pipe_read_call fd rbuff n k
   | _ \<Rightarrow> Fail NullDeref)"

definition call_write :: "fnptr \<Rightarrow> id_t \<Rightarrow> addr \<Rightarrow> size_t \<Rightarrow> kernel \<Rightarrow> (64 word \<times> kernel) res" where
  "call_write f fd buff n k = (case f of
     Pipe_write_call \<Rightarrow> pipe_write_call fd buff n k
   | _ \<Rightarrow> Fail NullDeref)"

section \<open>The operations\<close>

definition fd_open :: "id_t \<Rightarrow> kernel \<Rightarrow> (id_t \<times> kernel) res" where
  "fd_open inode k =
     bind_res (on_vfs (inode_get_vtable inode) k) (\<lambda>((_, vtable), k1).
     case vtable of
       None \<Rightarrow> Ok (ID_INVALID, k1)
     | Some vt \<Rightarrow> (case vt_open (vtables k1 vt) of
         None \<Rightarrow> Ok (ID_INVALID, k1)
       | Some f \<Rightarrow> bind_res (call_open f inode k1) (\<lambda>(result, k2).
           if result = 0
           then bind_res (get_current k2) (\<lambda>(cp, k3). proc_create_fd cp inode k3)
           else Ok (ID_INVALID, k2))))"

text \<open>The descriptor and the table of operations behind a local descriptor.\<close>

definition fd_target :: "id_t \<Rightarrow> id_t \<Rightarrow> kernel \<Rightarrow> ((id_t \<times> vtable_ref option) \<times> kernel) res" where
  "fd_target cp lfd k =
     bind_res (proc_get_fd cp lfd k) (\<lambda>(fd, k1).
     bind_res (on_vfs (fd_get_inode fd) k1) (\<lambda>(ino, k2).
     bind_res (on_vfs (inode_get_vtable ino) k2) (\<lambda>((_, vtable), k3). Ok ((fd, vtable), k3))))"

definition fd_close :: "id_t \<Rightarrow> kernel \<Rightarrow> (int \<times> kernel) res" where
  "fd_close lfd k =
     bind_res (get_current k) (\<lambda>(cp, k1).
     if cp = ID_INVALID then Ok (1, k1)
     else bind_res (fd_target cp lfd k1) (\<lambda>((fd, vtable), k2).
       case vtable of
         None \<Rightarrow> Ok (1, k2)
       | Some vt \<Rightarrow> (case vt_close (vtables k2 vt) of
           None \<Rightarrow> Ok (1, k2)
         | Some f \<Rightarrow> bind_res (call_close f fd k2) (\<lambda>(result, k3).
             if result \<noteq> 0 then Ok (1, k3)
             else bind_res (on_vfs (delete_fd fd) k3) (\<lambda>(_, k4).
                  bind_res (proc_delete_fd cp lfd k4) (\<lambda>(_, k5). Ok (0, k5)))))))"

definition fd_read :: "id_t \<Rightarrow> addr \<Rightarrow> size_t \<Rightarrow> kernel \<Rightarrow> (64 word \<times> kernel) res" where
  "fd_read lfd rbuff n k =
     bind_res (get_current k) (\<lambda>(cp, k1).
     if cp = ID_INVALID then Ok (1, k1)
     else bind_res (fd_target cp lfd k1) (\<lambda>((fd, vtable), k2).
       case vtable of
         None \<Rightarrow> Ok (0, k2)
       | Some vt \<Rightarrow> (case vt_read (vtables k2 vt) of
           None \<Rightarrow> Ok (0, k2)
         | Some f \<Rightarrow> call_read f fd rbuff n k2)))"

definition fd_write :: "id_t \<Rightarrow> addr \<Rightarrow> size_t \<Rightarrow> kernel \<Rightarrow> (64 word \<times> kernel) res" where
  "fd_write lfd buff n k =
     bind_res (get_current k) (\<lambda>(cp, k1).
     if cp = ID_INVALID then Ok (1, k1)
     else bind_res (fd_target cp lfd k1) (\<lambda>((fd, vtable), k2).
       case vtable of
         None \<Rightarrow> Ok (1, k2)
       | Some vt \<Rightarrow> (case vt_write (vtables k2 vt) of
           None \<Rightarrow> Ok (1, k2)
         | Some f \<Rightarrow> call_write f fd buff n k2)))"

section \<open>Sections that change nothing\<close>

text \<open>
  \<open>same k k'\<close>: equal but for the interrupt flag and the hardware lock.
\<close>

definition same :: "kernel \<Rightarrow> kernel \<Rightarrow> bool" where
  "same k k' \<longleftrightarrow> (\<exists>h. k' = k\<lparr>k_mem := (k_mem k)\<lparr>km_hw := h\<rparr>\<rparr>)"

lemma same_refl: "same k k"
proof -
  have "k = k\<lparr>k_mem := (k_mem k)\<lparr>km_hw := hw k\<rparr>\<rparr>" by simp
  then show ?thesis unfolding same_def by metis
qed

lemma same_trans: "same a b \<Longrightarrow> same b c \<Longrightarrow> same a c"
  by (auto simp: same_def)

lemma same_unlock_lock: "same k (k_unlock (k_lock k))"
  by (auto simp: same_def k_lock_def k_unlock_def)

lemma same_fields:
  assumes "same k k'"
  shows "k_vfs k' = k_vfs k" "proc_table k' = proc_table k" "cproc k' = cproc k" "vtables k' = vtables k"
    "pipes k' = pipes k" "pipe_store k' = pipe_store k" "rd_inodes k' = rd_inodes k" "ram k' = ram k"
    "thread_table k' = thread_table k" "k_inv k' = k_inv k" "initrds k' = initrds k" "k_core k' = k_core k"
  using assms by (auto simp: same_def ram_def k_inv_def k_core_def)

lemma get_current_run: "\<exists>k'. get_current k = Ok (cproc k, k') \<and> same k k'"
  by (simp add: get_current_def hw_section_def same_unlock_lock)

text \<open>What a local descriptor of a process stands for.\<close>

definition lfd_of :: "kernel \<Rightarrow> id_t \<Rightarrow> id_t" where
  "lfd_of k lfd = (case ht_lookup (proc_table k) (cproc k) of
     None \<Rightarrow> ID_INVALID
   | Some p \<Rightarrow> if lfd = ID_INVALID then ID_INVALID
               else (case ht_lookup (fds p) lfd of None \<Rightarrow> ID_INVALID | Some fd \<Rightarrow> fd))"

definition vtable_of :: "kernel \<Rightarrow> id_t \<Rightarrow> vtable_ref option" where
  "vtable_of k fd =
     (let ino = (case ht_lookup (fd_table (k_vfs k)) fd of None \<Rightarrow> ID_INVALID | Some d \<Rightarrow> d_inode d)
      in case ht_lookup (inode_table (k_vfs k)) ino of None \<Rightarrow> None | Some n \<Rightarrow> i_vtable n)"

lemma fd_target_run:
  assumes "vfs_inv (k_vfs k)"
  shows "\<exists>k'. fd_target (cproc k) lfd k = Ok ((lfd_of k lfd, vtable_of k (lfd_of k lfd)), k') \<and> same k k'"
proof -
  obtain k1 where k1: "proc_get_fd (cproc k) lfd k = Ok (lfd_of k lfd, k1)" "same k k1"
    using proc_get_fd_run [of "cproc k" lfd k] same_unlock_lock unfolding lfd_of_def by blast
  have v: "k_vfs k1 = k_vfs k" using same_fields [OF k1(2)] by simp
  have "fd_target (cproc k) lfd k = Ok ((lfd_of k lfd, vtable_of k (lfd_of k lfd)), k1)"
    using k1(1) assms v
    by (simp add: fd_target_def on_vfs_def fd_getters_run inode_getters_run vtable_of_def Let_def split: option.splits)
  then show ?thesis using k1(2) by blast
qed

section \<open>Dispatch\<close>

lemma fd_no_process:
  assumes "cproc k = ID_INVALID"
  shows "\<exists>k'. fd_read lfd rbuff n k = Ok (1, k') \<and> same k k'"
    "\<exists>k'. fd_write lfd buff n k = Ok (1, k') \<and> same k k'"
    "\<exists>k'. fd_close lfd k = Ok (1, k') \<and> same k k'"
  using get_current_run [of k] assms by (auto simp: fd_read_def fd_write_def fd_close_def)

lemma fd_dispatch:
  assumes "vfs_inv (k_vfs k)" "cproc k \<noteq> ID_INVALID"
  shows "\<exists>k1 k2. get_current k = Ok (cproc k, k1) \<and> same k k1 \<and>
    fd_target (cproc k) lfd k1 = Ok ((lfd_of k lfd, vtable_of k (lfd_of k lfd)), k2) \<and> same k k2"
proof -
  obtain k1 where k1: "get_current k = Ok (cproc k, k1)" "same k k1" using get_current_run by blast
  note f = same_fields [OF k1(2)]
  have "lfd_of k1 lfd = lfd_of k lfd" "vtable_of k1 = vtable_of k"
    using f by (simp_all add: lfd_of_def vtable_of_def fun_eq_iff)
  then obtain k2 where k2: "fd_target (cproc k) lfd k1 = Ok ((lfd_of k lfd, vtable_of k (lfd_of k lfd)), k2)" "same k1 k2"
    using fd_target_run [of k1 lfd] assms(1) f by auto
  then show ?thesis using k1 same_trans [OF k1(2) k2(2)] by blast
qed

lemma fd_read_run:
  assumes "vfs_inv (k_vfs k)" "cproc k \<noteq> ID_INVALID"
  shows "\<exists>k'. same k k' \<and> fd_read lfd rbuff n k = (case vtable_of k (lfd_of k lfd) of
     None \<Rightarrow> Ok (0, k')
   | Some vt \<Rightarrow> (case vt_read (vtables k vt) of None \<Rightarrow> Ok (0, k')
       | Some f \<Rightarrow> call_read f (lfd_of k lfd) rbuff n k'))"
proof -
  obtain k1 k2 where k: "get_current k = Ok (cproc k, k1)" "same k k1" "same k k2"
      "fd_target (cproc k) lfd k1 = Ok ((lfd_of k lfd, vtable_of k (lfd_of k lfd)), k2)"
    using fd_dispatch [OF assms] by blast
  then show ?thesis using assms(2) same_fields(4) [OF k(3)]
    by (intro exI [of _ k2]) (simp add: fd_read_def split: option.split)
qed

lemma fd_write_run:
  assumes "vfs_inv (k_vfs k)" "cproc k \<noteq> ID_INVALID"
  shows "\<exists>k'. same k k' \<and> fd_write lfd buff n k = (case vtable_of k (lfd_of k lfd) of
     None \<Rightarrow> Ok (1, k')
   | Some vt \<Rightarrow> (case vt_write (vtables k vt) of None \<Rightarrow> Ok (1, k')
       | Some f \<Rightarrow> call_write f (lfd_of k lfd) buff n k'))"
proof -
  obtain k1 k2 where k: "get_current k = Ok (cproc k, k1)" "same k k1" "same k k2"
      "fd_target (cproc k) lfd k1 = Ok ((lfd_of k lfd, vtable_of k (lfd_of k lfd)), k2)"
    using fd_dispatch [OF assms] by blast
  then show ?thesis using assms(2) same_fields(4) [OF k(3)]
    by (intro exI [of _ k2]) (simp add: fd_write_def split: option.split)
qed

section \<open>Opening, reading and closing a file\<close>

text \<open>The ram disk's table as \<open>initrd_init\<close> leaves it. The table of the pipes stays null: nothing calls \<open>pipe_init\<close>.\<close>

definition initrd_table_ok :: "kernel \<Rightarrow> bool" where
  "initrd_table_ok k \<longleftrightarrow>
     vtables k Initrd_vtable = \<lparr>vt_open = Some Initrd_open_call, vt_close = Some Initrd_close_call,
       vt_read = Some Initrd_read_call, vt_write = None\<rparr>"

text \<open>The current process can take one more descriptor.\<close>

definition can_open :: "kernel \<Rightarrow> proc_t \<Rightarrow> bool" where
  "can_open k p \<longleftrightarrow> k_inv k \<and> initrd_table_ok k \<and> ht_lookup (proc_table k) (cproc k) = Some p \<and>
     Suc (unat (lfd_counter p)) < 2 ^ 64 \<and> Suc (unat (fd_counter (k_vfs k))) < 2 ^ 64 \<and>
     ht_size (fds p) < HASHTABLE_CAPACITY \<and> ht_size (fd_table (k_vfs k)) < HASHTABLE_CAPACITY"

lemma not_invalid64: "Suc (unat (x :: 64 word)) < 2 ^ 64 \<Longrightarrow> x \<noteq> ID_INVALID"
  by (auto simp: ID_INVALID_def unsigned_minus_1_eq_mask mask_eq_exp_minus_1)

lemma fd_open_spec:
  assumes can: "can_open k p" and ino: "ht_lookup (inode_table (k_vfs k)) ino = Some nd"
    "i_vtable nd = Some vt" and vt: "vt_open (vtables k vt) \<in> {Some Initrd_open_call, Some Pipe_open_call}"
    and valid: "ino \<noteq> ID_INVALID"
  shows "\<exists>k'. fd_open ino k = Ok (lfd_counter p, k') \<and> k_inv k' \<and> initrd_table_ok k' \<and> cproc k' = cproc k \<and>
    lfd_of k' (lfd_counter p) = fd_counter (k_vfs k) \<and>
    ht_lookup (fd_table (k_vfs k')) = (ht_lookup (fd_table (k_vfs k)))
      (fd_counter (k_vfs k) \<mapsto> \<lparr>d_id = fd_counter (k_vfs k), d_inode = ino, d_mode = 0xFF, d_offset = 0\<rparr>) \<and>
    inode_table (k_vfs k') = inode_table (k_vfs k) \<and> rd_inodes k' = rd_inodes k \<and> pipes k' = pipes k \<and>
    pipe_store k' = pipe_store k \<and> ram k' = ram k"
proof -
  have inv: "k_inv k" "vfs_inv (k_vfs k)" "initrd_table_ok k" and p: "ht_lookup (proc_table k) (cproc k) = Some p"
    and cnt: "Suc (unat (lfd_counter p)) < 2 ^ 64" "Suc (unat (fd_counter (k_vfs k))) < 2 ^ 64"
    and room: "ht_size (fds p) < HASHTABLE_CAPACITY" "ht_size (fd_table (k_vfs k)) < HASHTABLE_CAPACITY"
    using can by (simp_all add: can_open_def k_inv_def)
  obtain k1 where k1: "get_current k = Ok (cproc k, k1)" "same k k1" using get_current_run by blast
  note f = same_fields [OF k1(2)]
  obtain k' v q where k': "proc_create_fd (cproc k) ino k1 = Ok (lfd_counter p, k')" "k_inv k'"
      "create_fd ino (k_vfs k) = Ok (fd_counter (k_vfs k), v)" "k_vfs k' = v"
      "ht_lookup (proc_table k') = (ht_lookup (proc_table k))(cproc k \<mapsto> q)"
      "ht_lookup (fds q) = (ht_lookup (fds p))(lfd_counter p \<mapsto> fd_counter (k_vfs k))"
      "pipes k' = pipes k" "pipe_store k' = pipe_store k" "rd_inodes k' = rd_inodes k" "vtables k' = vtables k"
      "ram k' = ram k" "cproc k' = cproc k"
    using proc_create_fd_spec [of k1 "cproc k" p ino] inv(1) p cnt room f by auto
  have open_ok: "\<exists>g. vt_open (vtables k vt) = Some g \<and> call_open g ino k = Ok (0, k)"
    using vt valid
    by (auto simp: call_open_def initrd_open_call_def pipe_open_call_def)
  have "fd_open ino k = Ok (lfd_counter p, k')"
    using inv(2) ino open_ok k1(1) k'(1) by (auto simp: fd_open_def on_vfs_def inode_getters_run)
  moreover have "lfd_of k' (lfd_counter p) = fd_counter (k_vfs k)"
    using k'(5,6,12) not_invalid64 [OF cnt(1)] by (simp add: lfd_of_def)
  moreover have "initrd_table_ok k'" using inv(3) k'(10) by (simp add: initrd_table_ok_def)
  ultimately show ?thesis
    using k' create_fd_inv [OF inv(2) cnt(2), of ino] room(2) by auto
qed

text \<open>
  \<open>opened k lfd header d\<close>: the current process's \<open>lfd\<close> is an open file of the ram disk with the given header.
\<close>

definition opened :: "kernel \<Rightarrow> id_t \<Rightarrow> addr \<Rightarrow> fd_t \<Rightarrow> bool" where
  "opened k lfd header d \<longleftrightarrow> vfs_inv (k_vfs k) \<and> initrd_table_ok k \<and> cproc k \<noteq> ID_INVALID \<and>
     ht_lookup (fd_table (k_vfs k)) (lfd_of k lfd) = Some d \<and> vtable_of k (lfd_of k lfd) = Some Initrd_vtable \<and>
     ht_lookup (rd_inodes k) (d_inode d) = Some header"

lemma opened_fields:
  assumes "opened k lfd header d" "k_vfs k' = k_vfs k" "vtables k' = vtables k" "cproc k' = cproc k"
    "proc_table k' = proc_table k" "rd_inodes k' = rd_inodes k"
  shows "opened k' lfd header d"
proof -
  have "lfd_of k' = lfd_of k" "vtable_of k' = vtable_of k" "initrd_table_ok k' = initrd_table_ok k"
    using assms(2-5) by (simp_all add: fun_eq_iff lfd_of_def vtable_of_def initrd_table_ok_def)
  then show ?thesis using assms by (simp add: opened_def)
qed

lemma fd_read_file:
  assumes opn: "opened k lfd header d" and off: "d_offset d \<le> tar_size (ram k) header"
    and apart: "\<And>j l. j < unat n \<Longrightarrow> l < unat (tar_size (ram k) header) \<Longrightarrow>
      rbuff + of_nat j \<noteq> tar_data header + of_nat l"
  defines "cnt \<equiv> min (unat n - 1) (unat (tar_size (ram k) header) - unat (d_offset d))"
  shows "\<exists>k'. fd_read lfd rbuff n k = Ok (of_nat cnt, k') \<and>
    bytes_at (ram k') rbuff cnt = bytes_at (ram k) (tar_data header + d_offset d) cnt \<and>
    ram k' (rbuff + of_nat cnt) = 0 \<and> (\<forall>a. (\<forall>j\<le>cnt. a \<noteq> rbuff + of_nat j) \<longrightarrow> ram k' a = ram k a)"
proof -
  have inv: "vfs_inv (k_vfs k)" and cp: "cproc k \<noteq> ID_INVALID" using opn by (simp_all add: opened_def)
  obtain k2 where k2: "same k k2" "fd_read lfd rbuff n k = initrd_read_call (lfd_of k lfd) rbuff n k2"
    using fd_read_run [OF inv cp, of lfd rbuff n] opn by (auto simp: opened_def initrd_table_ok_def call_read_def)
  note f = same_fields [OF k2(1)]
  have "\<exists>k' v. initrd_read_call (lfd_of k lfd) rbuff n k2 = Ok (of_nat cnt, k') \<and>
      fd_set_offset (lfd_of k lfd) (d_offset d + of_nat cnt) (k_vfs k2) = Ok (0, v) \<and> k_vfs k' = v \<and> vfs_inv v \<and>
      bytes_at (ram k') rbuff cnt = bytes_at (ram k2) (tar_data header + d_offset d) cnt \<and>
      ram k' (rbuff + of_nat cnt) = 0 \<and>
      (\<forall>a. (\<forall>j\<le>cnt. a \<noteq> rbuff + of_nat j) \<longrightarrow> ram k' a = ram k2 a)"
    using initrd_read_call_spec [of k2 "lfd_of k lfd" d header n rbuff] opn off apart f
    by (simp add: cnt_def opened_def)
  then show ?thesis using k2(2) f by auto
qed

lemma fd_open_opened:
  assumes can: "can_open k p" and ino: "ht_lookup (inode_table (k_vfs k)) ino = Some nd"
    "i_vtable nd = Some Initrd_vtable" and valid: "ino \<noteq> ID_INVALID"
    and hd: "ht_lookup (rd_inodes k) ino = Some header" and cp: "cproc k \<noteq> ID_INVALID"
  shows "\<exists>k' d. fd_open ino k = Ok (lfd_counter p, k') \<and> opened k' (lfd_counter p) header d \<and>
    d_offset d = 0 \<and> ram k' = ram k \<and> pipe_store k' = pipe_store k"
proof -
  obtain k1 where k1: "fd_open ino k = Ok (lfd_counter p, k1)" "k_inv k1" "initrd_table_ok k1" "cproc k1 = cproc k"
      "lfd_of k1 (lfd_counter p) = fd_counter (k_vfs k)"
      "ht_lookup (fd_table (k_vfs k1)) (fd_counter (k_vfs k)) =
        Some \<lparr>d_id = fd_counter (k_vfs k), d_inode = ino, d_mode = 0xFF, d_offset = 0\<rparr>"
      "inode_table (k_vfs k1) = inode_table (k_vfs k)" "rd_inodes k1 = rd_inodes k" "ram k1 = ram k"
      "pipe_store k1 = pipe_store k"
    using fd_open_spec [OF can ino _ valid] can by (auto simp: can_open_def initrd_table_ok_def)
  have "vtable_of k1 (fd_counter (k_vfs k)) = Some Initrd_vtable"
    using k1(6,7) ino by (simp add: vtable_of_def)
  then show ?thesis using k1 hd cp by (auto simp: opened_def k_inv_def)
qed

text \<open>Interrupts are on again after a call that entered with them on and the hardware lock free.\<close>

definition hw_ok :: "kernel \<Rightarrow> bool" where
  "hw_ok k \<longleftrightarrow> \<not> hw_locked (hw k) \<and> interrupt_enabled (hw k)"

lemma hw_cycle: "\<not> hw_locked h \<Longrightarrow> interrupt_enabled h \<Longrightarrow>
   \<not> hw_locked (hwlock_unlock (hwlock_lock h)) \<and> interrupt_enabled (hwlock_unlock (hwlock_lock h))"
  by (simp add: hwlock_lock_def hwlock_unlock_def Let_def)

lemma hw_section_ok:
  assumes "hw_section f k = Ok (x, k')" "hw_ok k" "\<And>y k1. f (k_lock k) = Ok (y, k1) \<Longrightarrow> hw k1 = hw (k_lock k)"
  shows "hw_ok k'"
  using assms hw_cycle [of "hw k"] by (auto simp: hw_section_Ok hw_ok_def hw_lock_unlock)

lemma on_vfs_hw: "on_vfs f k = Ok (x, k') \<Longrightarrow> hw k' = hw k"
  by (auto simp: on_vfs_def)

lemma fd_open_hw:
  assumes "fd_open ino k = Ok (x, k')" "hw_ok k"
  shows "hw_ok k'"
proof -
  have cur: "hw_ok k2" if "get_current k1 = Ok (y, k2)" "hw_ok k1" for k1 k2 y
    using hw_section_ok [OF that(1) [unfolded get_current_def] that(2)] by simp
  have crt: "hw_ok k2" if "proc_create_fd pid i k1 = Ok (y, k2)" "hw_ok k1" for pid i k1 k2 y
    using that(1) [unfolded proc_create_fd_def] that(2)
    by (rule hw_section_ok) (auto simp: Let_def dest!: on_vfs_hw split: option.splits)
  have opn: "hw_ok k2" if "call_open g i k1 = Ok (y, k2)" "hw_ok k1" for g i k1 k2 y
    using that by (auto simp: call_open_def initrd_open_call_def pipe_open_call_def split: fnptr.splits)
  obtain err vt k1 where k1: "on_vfs (inode_get_vtable ino) k = Ok ((err, vt), k1)"
      and rest: "(case vt of None \<Rightarrow> Ok (ID_INVALID, k1)
        | Some vt \<Rightarrow> (case vt_open (vtables k1 vt) of
            None \<Rightarrow> Ok (ID_INVALID, k1)
          | Some f \<Rightarrow> bind_res (call_open f ino k1) (\<lambda>(result, k2).
              if result = 0 then bind_res (get_current k2) (\<lambda>(cp, k3). proc_create_fd cp ino k3)
              else Ok (ID_INVALID, k2)))) = Ok (x, k')"
    using assms(1) by (auto simp: fd_open_def)
  have "hw_ok k1" using on_vfs_hw [OF k1] assms(2) by (simp add: hw_ok_def)
  then show ?thesis
    using rest by (auto split: option.splits if_splits dest: opn cur crt)
qed

text \<open>Closing takes the descriptor out of the process and out of the file system, and nothing else.\<close>

lemma fd_close_spec:
  assumes inv: "k_inv k" and p: "ht_lookup (proc_table k) (cproc k) = Some p"
    and cp: "cproc k \<noteq> ID_INVALID" and fd: "lfd_of k lfd = fd" "fd \<noteq> ID_INVALID"
    and vt: "vtable_of k fd = Some vt" "vt_close (vtables k vt) \<in> {Some Initrd_close_call, Some Pipe_close_call}"
  shows "\<exists>k' t f. fd_close lfd k = Ok (0, k') \<and> k_inv k' \<and> lfd_of k' lfd = ID_INVALID \<and>
    ht_lookup t = (ht_lookup (fd_table (k_vfs k)))(fd := None) \<and>
    ht_lookup (proc_table k') = (ht_lookup (proc_table k))(cproc k \<mapsto> p\<lparr>fds := f\<rparr>) \<and>
    ht_lookup f = (ht_lookup (fds p))(lfd := None) \<and>
    same (k\<lparr>k_vfs := (k_vfs k)\<lparr>fd_table := t\<rparr>, proc_table := proc_table k'\<rparr>) k'"
proof -
  have vi: "vfs_inv (k_vfs k)" using inv by (simp add: k_inv_def)
  obtain k1 k2 where k: "get_current k = Ok (cproc k, k1)" "same k k1" "same k k2"
      "fd_target (cproc k) lfd k1 = Ok ((fd, Some vt), k2)"
    using fd_dispatch [OF vi cp, of lfd] fd(1) vt(1) by auto
  note f = same_fields [OF k(3)]
  obtain v t where v: "delete_fd fd (k_vfs k) = Ok (if ht_lookup (fd_table (k_vfs k)) fd \<noteq> None then 0 else 1, v)"
      "vfs_inv v" "ht_lookup (fd_table v) = (ht_lookup (fd_table (k_vfs k)))(fd := None)" "v = (k_vfs k)\<lparr>fd_table := t\<rparr>"
    using delete_fd_inv [OF vi] by blast
  let ?k3 = "k2\<lparr>k_vfs := v\<rparr>"
  have inv3: "k_inv ?k3" "ht_lookup (proc_table ?k3) (cproc k) = Some p"
    using inv v(2) f p by (auto simp: k_inv_def)
  obtain k' g w where k': "proc_delete_fd (cproc k) lfd ?k3 = Ok (if ht_lookup (fds p) lfd \<noteq> None then 0 else 1, k')"
      "k_inv k'" "ht_lookup (proc_table k') = (ht_lookup (proc_table ?k3))(cproc k \<mapsto> p\<lparr>fds := g\<rparr>)"
      "ht_lookup g = (ht_lookup (fds p))(lfd := None)" "k' = k_unlock ((k_lock ?k3)\<lparr>proc_table := w\<rparr>)"
    using proc_delete_fd_spec [OF inv3, of lfd] by auto
  have cl: "\<exists>g. vt_close (vtables k2 vt) = Some g \<and> call_close g fd k2 = Ok (0, k2)"
    using vt(2) fd(2) f(4) by (auto simp: call_close_def initrd_close_call_def pipe_close_call_def)
  have "fd_close lfd k = Ok (0, k')"
    using k(1,4) cp cl v(1) f(1) k'(1) by (auto simp: fd_close_def on_vfs_def)
  moreover have "lfd_of k' lfd = ID_INVALID"
    using k'(3-5) f(3) by (auto simp: lfd_of_def split: option.splits)
  moreover have "same (k\<lparr>k_vfs := (k_vfs k)\<lparr>fd_table := t\<rparr>, proc_table := proc_table k'\<rparr>) k'"
    using k(3) by (auto simp: k'(5) v(4) same_def k_lock_def k_unlock_def)
  ultimately show ?thesis using k'(2-4) v(3,4) f(2) by auto
qed

end
