(* ===== verification/Syscall.thy ===== *)
theory Syscall
  imports Fd
begin

text \<open>
  System calls: \<open>kernel/sys/call.cpp\<close>, the trap of \<open>kernel/x86/amd64/sys/call.cpp\<close>, and the C library's file
  functions on top of them (\<open>kernel/libk/stdio.cpp\<close>).
\<close>

section \<open>Words in memory\<close>

definition load64 :: "memory \<Rightarrow> addr \<Rightarrow> u64" where
  "load64 m p =
     ucast (m p) OR push_bit 8 (ucast (m (p + 1))) OR push_bit 16 (ucast (m (p + 2))) OR
     push_bit 24 (ucast (m (p + 3))) OR push_bit 32 (ucast (m (p + 4))) OR push_bit 40 (ucast (m (p + 5))) OR
     push_bit 48 (ucast (m (p + 6))) OR push_bit 56 (ucast (m (p + 7)))"

definition store64 :: "addr \<Rightarrow> u64 \<Rightarrow> memory \<Rightarrow> memory" where
  "store64 p v m = m(p := ucast v, p + 1 := ucast (drop_bit 8 v), p + 2 := ucast (drop_bit 16 v),
     p + 3 := ucast (drop_bit 24 v), p + 4 := ucast (drop_bit 32 v), p + 5 := ucast (drop_bit 40 v),
     p + 6 := ucast (drop_bit 48 v), p + 7 := ucast (drop_bit 56 v))"

lemma store64_other: "(\<And>i. i < 8 \<Longrightarrow> a \<noteq> p + of_nat i) \<Longrightarrow> store64 p v m a = m a"
proof -
  assume a: "\<And>i. i < 8 \<Longrightarrow> a \<noteq> p + of_nat i"
  show ?thesis
    using a [of 0] a [of 1] a [of 2] a [of 3] a [of 4] a [of 5] a [of 6] a [of 7] by (simp add: store64_def)
qed

lemma bit_byte_at: "bit (push_bit i (ucast (ucast (drop_bit i v) :: u8)) :: u64) n \<longleftrightarrow> i \<le> n \<and> n < i + 8 \<and> bit (v :: u64) n"
  by (auto simp: bit_simps dest: bit_imp_le_length)

lemma bytes_of_word:
  "(ucast (ucast v :: u8) OR push_bit 8 (ucast (ucast (drop_bit 8 v) :: u8)) OR
    push_bit 16 (ucast (ucast (drop_bit 16 v) :: u8)) OR push_bit 24 (ucast (ucast (drop_bit 24 v) :: u8)) OR
    push_bit 32 (ucast (ucast (drop_bit 32 v) :: u8)) OR push_bit 40 (ucast (ucast (drop_bit 40 v) :: u8)) OR
    push_bit 48 (ucast (ucast (drop_bit 48 v) :: u8)) OR push_bit 56 (ucast (ucast (drop_bit 56 v) :: u8))) = (v :: u64)"
  (is "?l = _")
proof (rule bit_word_eqI)
  fix n assume n: "n < LENGTH(64)"
  have zero: "bit (ucast (ucast v :: u8) :: u64) n \<longleftrightarrow> n < 8 \<and> bit v n"
    using bit_byte_at [of 0 v n] by simp
  have "bit ?l n \<longleftrightarrow> bit v n \<and> (n < 8 \<or> 8 \<le> n \<and> n < 16 \<or> 16 \<le> n \<and> n < 24 \<or> 24 \<le> n \<and> n < 32 \<or> 32 \<le> n \<and> n < 40 \<or>
      40 \<le> n \<and> n < 48 \<or> 48 \<le> n \<and> n < 56 \<or> 56 \<le> n \<and> n < 64)"
    by (simp only: bit_or_iff bit_byte_at zero) auto
  also have "\<dots> \<longleftrightarrow> bit v n" using n by auto
  finally show "bit ?l n = bit v n" .
qed

lemma addr_offsets: "i < 2 ^ 64 \<Longrightarrow> j < 2 ^ 64 \<Longrightarrow> (p :: addr) + of_nat i = p + of_nat j \<longleftrightarrow> i = j"
  using of_nat_add_inj64 [of i j p] by auto

lemma load64_store64 [simp]: "load64 (store64 p v m) p = v"
proof -
  have ne: "p + 1 \<noteq> p" "p + 2 \<noteq> p" "p + 3 \<noteq> p" "p + 4 \<noteq> p" "p + 5 \<noteq> p" "p + 6 \<noteq> p" "p + 7 \<noteq> (p :: addr)"
    by simp_all
  then show ?thesis unfolding load64_def store64_def using bytes_of_word [of v] by simp
qed

section \<open>The trap handler\<close>

definition CALL_YIELD :: "32 word" where "CALL_YIELD = 0x100"
definition CALL_OPEN :: "32 word" where "CALL_OPEN = 0x200"
definition CALL_CLOSE :: "32 word" where "CALL_CLOSE = 0x300"
definition CALL_READ :: "32 word" where "CALL_READ = 0x400"
definition CALL_WRITE :: "32 word" where "CALL_WRITE = 0x401"

text \<open>The call number is an \<open>int\<close>: the low 32 bits of the register.\<close>

definition enable_interrupts :: "kernel \<Rightarrow> kernel" where
  "enable_interrupts k = k\<lparr>k_mem := (k_mem k)\<lparr>km_hw := interrupt_enable True (hw k)\<rparr>\<rparr>"

definition syscall_isr_main :: "size_t \<Rightarrow> size_t \<Rightarrow> size_t \<Rightarrow> size_t \<Rightarrow> size_t \<Rightarrow> kernel \<Rightarrow> (switch \<times> kernel) res" where
  "syscall_isr_main stack_ptr arg0 arg1 arg2 arg3 k0 =
     (let k = enable_interrupts k0; call = (ucast arg0 :: 32 word)
      in if call = CALL_YIELD then scheduler_preempt stack_ptr k
         else if call = CALL_OPEN then
           bind_res (on_vfs (get_inode (mem_string (ram k) arg1)) k) (\<lambda>(inode, k1).
           if inode = ID_INVALID then Ok (Resume stack_ptr, set_ram (store64 arg2 0 (ram k1)) k1)
           else bind_res (fd_open inode k1) (\<lambda>(lfd, k2).
             Ok (Resume stack_ptr, set_ram (store64 arg2 lfd (ram k2)) k2)))
         else if call = CALL_CLOSE then
           bind_res (fd_close arg1 k) (\<lambda>(_, k1). Ok (Resume stack_ptr, k1))
         else if call = CALL_READ then
           bind_res (fd_read arg1 arg3 (load64 (ram k) arg2) k) (\<lambda>(n, k1).
           Ok (Resume stack_ptr, set_ram (store64 arg2 n (ram k1)) k1))
         else if call = CALL_WRITE then
           bind_res (fd_write arg1 arg3 (load64 (ram k) arg2) k) (\<lambda>(n, k1).
           Ok (Resume stack_ptr, set_ram (store64 arg2 n (ram k1)) k1))
         else Ok (Resume stack_ptr, k))"

text \<open>
  \<open>sys::call\<close> traps only when interrupts are on. \<open>stk\<close> is the stack pointer the processor hands to the
  handler.
\<close>

definition sys_call :: "size_t \<Rightarrow> 32 word \<Rightarrow> size_t \<Rightarrow> size_t \<Rightarrow> size_t \<Rightarrow> kernel \<Rightarrow> (switch \<times> kernel) res" where
  "sys_call stk call arg0 arg1 arg2 k =
     (if interrupt_enabled (hw k) then syscall_isr_main stk (ucast call) arg0 arg1 arg2 k
      else Ok (Resume stk, k))"

section \<open>The C library\<close>

text \<open>
  The local variable whose address is passed (\<open>fd\<close>, \<open>n\<close>) lives at \<open>loc\<close>, a slot of the caller's stack.
\<close>

definition fopen :: "size_t \<Rightarrow> addr \<Rightarrow> addr \<Rightarrow> kernel \<Rightarrow> (addr \<times> kernel) res" where
  "fopen stk loc filename k =
     bind_res (sys_call stk CALL_OPEN filename loc 0 k) (\<lambda>(_, k1).
     let fd = load64 (ram k1) loc
     in Ok (if fd = - 1 then 0 else fd + 1, k1))"

definition fclose :: "size_t \<Rightarrow> addr \<Rightarrow> kernel \<Rightarrow> (int \<times> kernel) res" where
  "fclose stk stream k =
     bind_res (sys_call stk CALL_CLOSE (stream - 1) 0 0 k) (\<lambda>(_, k1). Ok (0, k1))"

definition fread :: "size_t \<Rightarrow> addr \<Rightarrow> addr \<Rightarrow> size_t \<Rightarrow> size_t \<Rightarrow> addr \<Rightarrow> kernel \<Rightarrow> (size_t \<times> kernel) res" where
  "fread stk loc ptr siz count stream k =
     (let k0 = set_ram (store64 loc (siz * count) (ram k)) k
      in bind_res (sys_call stk CALL_READ (stream - 1) loc ptr k0) (\<lambda>(_, k1). Ok (load64 (ram k1) loc, k1)))"

definition fwrite :: "size_t \<Rightarrow> addr \<Rightarrow> addr \<Rightarrow> size_t \<Rightarrow> size_t \<Rightarrow> addr \<Rightarrow> kernel \<Rightarrow> (size_t \<times> kernel) res" where
  "fwrite stk loc ptr siz count stream k =
     (let k0 = set_ram (store64 loc (siz * count) (ram k)) k
      in bind_res (sys_call stk CALL_WRITE (stream - 1) loc ptr k0) (\<lambda>(_, k1). Ok (load64 (ram k1) loc, k1)))"

section \<open>What a call does\<close>

lemma same_enable: "same k (enable_interrupts k)"
  by (auto simp: same_def enable_interrupts_def)

lemma call_numbers:
  "CALL_OPEN \<noteq> CALL_YIELD" "CALL_CLOSE \<noteq> CALL_YIELD" "CALL_READ \<noteq> CALL_YIELD" "CALL_WRITE \<noteq> CALL_YIELD"
  "CALL_CLOSE \<noteq> CALL_OPEN" "CALL_READ \<noteq> CALL_OPEN" "CALL_WRITE \<noteq> CALL_OPEN" "CALL_READ \<noteq> CALL_CLOSE"
  "CALL_WRITE \<noteq> CALL_CLOSE" "CALL_WRITE \<noteq> CALL_READ"
  by (simp_all add: CALL_YIELD_def CALL_OPEN_def CALL_CLOSE_def CALL_READ_def CALL_WRITE_def)

lemma ucast_call: "(ucast (ucast (c :: 32 word) :: u64) :: 32 word) = c"
  by (rule bit_word_eqI) (simp add: bit_simps)

lemma interrupt_enabled_fields:
  "interrupt_enabled (hw (enable_interrupts k))" "hw (set_ram m k) = hw k"
  by (simp_all add: enable_interrupts_def)

text \<open>A number that names no call changes nothing.\<close>

lemma syscall_unknown:
  assumes "ucast arg0 \<notin> {CALL_YIELD, CALL_OPEN, CALL_CLOSE, CALL_READ, CALL_WRITE}"
  shows "syscall_isr_main stk arg0 arg1 arg2 arg3 k = Ok (Resume stk, enable_interrupts k)"
  using assms by (simp add: syscall_isr_main_def Let_def)

text \<open>Without interrupts every call is skipped: the result slot keeps what it held.\<close>

lemma sys_call_masked: "\<not> interrupt_enabled (hw k) \<Longrightarrow> sys_call stk c a0 a1 a2 k = Ok (Resume stk, k)"
  by (simp add: sys_call_def)

text \<open>Opening a path that names nothing stores 0, which the C library takes for a stream.\<close>

lemma fopen_missing:
  assumes "interrupt_enabled (hw k)" "vfs_inv (k_vfs k)" "is_cstr (mem_string (ram k) filename)"
    "resolve (tab k) (vfs_root (k_vfs k)) (path_elems (cstr (mem_string (ram k) filename))) = ID_INVALID"
  shows "\<exists>k'. fopen stk loc filename k = Ok (1, k')"
proof -
  let ?k = "enable_interrupts k"
  note f = same_fields [OF same_enable [of k]]
  have "on_vfs (get_inode (mem_string (ram ?k) filename)) ?k = Ok (ID_INVALID, ?k)"
    using get_inode_resolve [OF assms(2,3)] assms(4) f by (simp add: on_vfs_def)
  then show ?thesis using assms(1)
    by (simp add: fopen_def sys_call_def syscall_isr_main_def Let_def call_numbers ucast_call)
qed

lemma fopen_run:
  assumes on: "interrupt_enabled (hw k)" and inv: "vfs_inv (k_vfs k)" and s: "is_cstr (mem_string (ram k) filename)"
    and res: "resolve (tab k) (vfs_root (k_vfs k)) (path_elems (cstr (mem_string (ram k) filename))) = ino"
      "ino \<noteq> ID_INVALID" and op: "fd_open ino (enable_interrupts k) = Ok (lfd, k1)" "lfd \<noteq> - 1"
  shows "fopen stk loc filename k = Ok (lfd + 1, set_ram (store64 loc lfd (ram k1)) k1)"
proof -
  let ?k = "enable_interrupts k"
  note f = same_fields [OF same_enable [of k]]
  have "on_vfs (get_inode (mem_string (ram ?k) filename)) ?k = Ok (ino, ?k)"
    using get_inode_resolve [OF inv s] res f by (simp add: on_vfs_def)
  then show ?thesis using on op res(2)
    by (simp add: fopen_def sys_call_def syscall_isr_main_def Let_def call_numbers ucast_call)
qed

lemma fread_run:
  assumes on: "interrupt_enabled (hw k)"
    and rd: "fd_read (stream - 1) ptr (siz * count) (enable_interrupts (set_ram (store64 loc (siz * count) (ram k)) k)) = Ok (n, k1)"
  shows "fread stk loc ptr siz count stream k = Ok (n, set_ram (store64 loc n (ram k1)) k1)"
proof -
  let ?k0 = "set_ram (store64 loc (siz * count) (ram k)) k"
  note f = same_fields [OF same_enable [of ?k0]]
  have "load64 (ram (enable_interrupts ?k0)) loc = siz * count" using f by simp
  then show ?thesis using on rd
    by (simp add: fread_def sys_call_def syscall_isr_main_def Let_def call_numbers ucast_call)
qed

section \<open>Reading a file through the C library\<close>

text \<open>The 512 bytes of a header and the file behind it.\<close>

definition clear_of :: "addr \<Rightarrow> nat \<Rightarrow> addr \<Rightarrow> nat \<Rightarrow> bool" where
  "clear_of p n q l \<longleftrightarrow> (\<forall>i<n. \<forall>j<l. p + of_nat i \<noteq> q + of_nat j)"

lemma unat_add_offset64: "unat (p :: addr) + i < 2 ^ 64 \<Longrightarrow> unat (p + of_nat i) = unat p + i"
  by (subst unat_add_lem [THEN iffD1]) (simp_all add: unat_of_nat)

lemma clear_ofI:
  assumes "unat p + n \<le> unat q \<or> unat q + l \<le> unat p" "unat p + n \<le> 2 ^ 64" "unat q + l \<le> 2 ^ 64"
  shows "clear_of p n q l"
  unfolding clear_of_def
proof (intro allI impI)
  fix i j assume "i < n" "j < l"
  then have "unat (p + of_nat i) = unat p + i" "unat (q + of_nat j) = unat q + j"
    using assms(2,3) by (simp_all add: unat_add_offset64)
  moreover have "unat p + i \<noteq> unat q + j" using assms(1) \<open>i < n\<close> \<open>j < l\<close> by auto
  ultimately show "p + of_nat i \<noteq> q + of_nat j" by metis
qed

lemma store64_clear: "clear_of p 8 q l \<Longrightarrow> j < l \<Longrightarrow> store64 p v m (q + of_nat j) = m (q + of_nat j)"
  by (rule store64_other) (metis clear_of_def)

lemma tar_size_loop_cong:
  assumes "\<forall>i<12. m (h + TAR_SIZE_OFF + of_nat i) = m' (h + TAR_SIZE_OFF + of_nat i)" "i + k \<le> 12"
  shows "tar_size_loop m h i k a = tar_size_loop m' h i k a"
  using assms(2) by (induction k arbitrary: i a) (use assms(1) in \<open>auto simp: Let_def\<close>)

lemma tar_size_store64:
  assumes "clear_of p 8 header 512"
  shows "tar_size (store64 p v m) header = tar_size m header"
proof -
  have "store64 p v m (header + TAR_SIZE_OFF + of_nat i) = m (header + TAR_SIZE_OFF + of_nat i)" if "i < 12" for i
  proof -
    have "header + TAR_SIZE_OFF + of_nat i = header + of_nat (124 + i)" by (simp add: TAR_SIZE_OFF_def add.assoc)
    moreover have "124 + i < 512" using that by simp
    ultimately show ?thesis using store64_clear [OF assms] by metis
  qed
  then show ?thesis unfolding tar_size_def by (intro tar_size_loop_cong) simp_all
qed

lemma bytes_at_store64: "clear_of p 8 q n \<Longrightarrow> bytes_at (store64 p v m) q n = bytes_at m q n"
  by (simp add: bytes_at_def store64_clear)

lemma same_opened:
  assumes "same k k'" "opened k lfd header d"
  shows "opened k' lfd header d"
  using opened_fields [OF assms(2)] same_fields [OF assms(1)] by simp

lemma set_ram_opened: "opened k lfd header d \<Longrightarrow> opened (set_ram m k) lfd header d"
  by (rule opened_fields) simp_all

lemma can_open_enable: "can_open (enable_interrupts k) p = can_open k p"
  using same_fields [OF same_enable [of k]] by (simp add: can_open_def initrd_table_ok_def)

text \<open>Opening a file of the ram disk.\<close>

lemma fopen_opened:
  assumes hwk: "hw_ok k" and can: "can_open k p" and cp: "cproc k \<noteq> ID_INVALID"
    and s: "is_cstr (mem_string (ram k) filename)"
    and res: "resolve (tab k) (vfs_root (k_vfs k)) (path_elems (cstr (mem_string (ram k) filename))) = ino"
      "ino \<noteq> ID_INVALID"
    and nd: "ht_lookup (tab k) ino = Some nd" "i_vtable nd = Some Initrd_vtable"
    and hd: "ht_lookup (rd_inodes k) ino = Some header"
  shows "\<exists>lfd d k'. fopen stk loc filename k = Ok (lfd + 1, k') \<and> opened k' lfd header d \<and> d_offset d = 0 \<and>
    hw_ok k' \<and> ram k' = store64 loc lfd (ram k) \<and> pipe_store k' = pipe_store k"
proof -
  let ?ke = "enable_interrupts k" and ?lfd = "lfd_counter p"
  note fe = same_fields [OF same_enable [of k]]
  have hwe: "hw_ok ?ke" using hwk by (simp add: hw_ok_def enable_interrupts_def)
  obtain k1 d where k1: "fd_open ino ?ke = Ok (?lfd, k1)" "opened k1 ?lfd header d" "d_offset d = 0" "ram k1 = ram k"
      "pipe_store k1 = pipe_store k"
    using fd_open_opened [of ?ke p ino nd header] can nd hd res(2) cp fe by (auto simp: can_open_enable)
  have hw1: "hw_ok k1" using fd_open_hw [OF k1(1) hwe] .
  have lfd: "?lfd \<noteq> - 1" using can not_invalid64 [of ?lfd] by (simp add: can_open_def ID_INVALID_def)
  let ?k2 = "set_ram (store64 loc ?lfd (ram k1)) k1"
  have "fopen stk loc filename k = Ok (?lfd + 1, ?k2)"
    using can hwk k1(1) lfd res s by (intro fopen_run) (auto simp: can_open_def k_inv_def hw_ok_def)
  moreover have "hw_ok ?k2" "ram ?k2 = store64 loc ?lfd (ram k)" "pipe_store ?k2 = pipe_store k"
    using hw1 k1(4,5) by (simp_all add: hw_ok_def interrupt_enabled_fields)
  ultimately show ?thesis using set_ram_opened [OF k1(2)] k1(3) by blast
qed

text \<open>
  \<open>fopen\<close> and \<open>fread\<close> of a file of the ram disk: the bytes of the archive arrive in the buffer, provided that
  the buffer, the local variables and the archive do not overlap.
\<close>

lemma fopen_fread:
  assumes hwk: "hw_ok k" and can: "can_open k p" and cp: "cproc k \<noteq> ID_INVALID"
    and s: "is_cstr (mem_string (ram k) filename)"
    and res: "resolve (tab k) (vfs_root (k_vfs k)) (path_elems (cstr (mem_string (ram k) filename))) = ino"
      "ino \<noteq> ID_INVALID"
    and nd: "ht_lookup (tab k) ino = Some nd" "i_vtable nd = Some Initrd_vtable"
    and hd: "ht_lookup (rd_inodes k) ino = Some header"
    and size: "unat (tar_size (ram k) header) = filesize"
    and clear: "clear_of loc 8 header 512" "clear_of loc 8 (header + 512) filesize"
      "clear_of ptr (unat (siz * count)) (header + 512) filesize" "clear_of loc 8 ptr (unat (siz * count))"
  defines "cnt \<equiv> min (unat (siz * count) - 1) filesize"
  shows "\<exists>stream k1 k2. fopen stk loc filename k = Ok (stream, k1) \<and>
    fread stk loc ptr siz count stream k1 = Ok (of_nat cnt, k2) \<and>
    bytes_at (ram k2) ptr cnt = bytes_at (ram k) (header + 512) cnt"
proof -
  obtain lfd d k2 where k2: "fopen stk loc filename k = Ok (lfd + 1, k2)" "opened k2 lfd header d" "d_offset d = 0"
      "hw_ok k2" "ram k2 = store64 loc lfd (ram k)"
    using fopen_opened [OF hwk can cp s res nd hd] by blast
  let ?n = "siz * count"
  let ?k3 = "set_ram (store64 loc ?n (ram k2)) k2"
  let ?k4 = "enable_interrupts ?k3"
  note f4 = same_fields [OF same_enable [of ?k3]]
  have ram4: "ram ?k4 = store64 loc ?n (store64 loc lfd (ram k))" using f4(8) k2(5) by simp
  have op4: "opened ?k4 lfd header d" using k2(2) by (intro same_opened [OF same_enable] set_ram_opened)
  have sz: "tar_size (ram ?k4) header = tar_size (ram k) header" using ram4 clear(1) by (simp add: tar_size_store64)
  have off: "d_offset d \<le> tar_size (ram ?k4) header" using k2(3) by simp
  have apart: "ptr + of_nat j \<noteq> tar_data header + of_nat l"
    if "j < unat ?n" "l < unat (tar_size (ram ?k4) header)" for j l
    using that clear(3) sz size by (simp add: clear_of_def tar_data_def)
  obtain k5 where k5: "fd_read lfd ptr ?n ?k4 = Ok (of_nat cnt, k5)"
      "bytes_at (ram k5) ptr cnt = bytes_at (ram ?k4) (header + 512) cnt"
    using fd_read_file [OF op4 off apart] sz size k2(3) by (auto simp: cnt_def tar_data_def)
  let ?k6 = "set_ram (store64 loc (of_nat cnt) (ram k5)) k5"
  have fr: "fread stk loc ptr siz count (lfd + 1) k2 = Ok (of_nat cnt, ?k6)"
    using k2(4) k5(1) by (intro fread_run) (simp_all add: hw_ok_def)
  have c1: "clear_of loc 8 (header + 512) cnt" and c2: "clear_of loc 8 ptr cnt"
    using clear(2,4) by (auto simp: clear_of_def cnt_def)
  have "bytes_at (ram ?k6) ptr cnt = bytes_at (ram k) (header + 512) cnt"
    using k5(2) ram4 by (simp add: bytes_at_store64 [OF c1] bytes_at_store64 [OF c2])
  then show ?thesis using k2(1) fr by blast
qed

end
