(* ===== verification/Vfs_Trace.thy ===== *)
theory Vfs_Trace
  imports Vfs
begin

text \<open>
  Sequences of file system calls. \<open>vfs_step\<close> has one rule per routine of \<open>kernel/vfs/vfs.cpp\<close> that
  changes the state; every state reachable from the static initial one satisfies \<open>vfs_inv\<close>, whatever
  the order of the calls. The second part prints the tree (\<open>vfs_print_inode\<close>, \<open>display\<close>).
\<close>

section \<open>Call sequences\<close>

text \<open>Ids are 64 bits wide; the rules that draw one ask that the counter has not run out.\<close>

inductive vfs_step :: "vfs \<Rightarrow> vfs \<Rightarrow> bool" where
  st_set_root: "set_root r v = Ok (x, v') \<Longrightarrow> vfs_step v v'"
| st_mount: "is_cstr path \<Longrightarrow> mount n path v = Ok (x, v') \<Longrightarrow> vfs_step v v'"
| st_create_inode: "Suc (unat (inode_counter v)) < 2 ^ 64 \<Longrightarrow> create_inode ty v = Ok (k, v') \<Longrightarrow> vfs_step v v'"
| st_create_fd: "Suc (unat (fd_counter v)) < 2 ^ 64 \<Longrightarrow> create_fd ino v = Ok (k, v') \<Longrightarrow> vfs_step v v'"
| st_create_fs: "is_cstr name \<Longrightarrow> Suc (unat (inode_counter v)) < 2 ^ 64 \<Longrightarrow>
    Suc (unat (fs_counter v)) < 2 ^ 64 \<Longrightarrow> create_fs name v = Ok (k, v') \<Longrightarrow> vfs_step v v'"
| st_delete_inode: "delete_inode k v = Ok (x, v') \<Longrightarrow> vfs_step v v'"
| st_delete_fs: "delete_fs k v = Ok (x, v') \<Longrightarrow> vfs_step v v'"
| st_delete_fd: "delete_fd k v = Ok (x, v') \<Longrightarrow> vfs_step v v'"
| st_set_name: "is_cstr name \<Longrightarrow> fs_set_name k name v = Ok (x, v') \<Longrightarrow> vfs_step v v'"
| st_fs_root: "fs_set_root k r v = Ok (x, v') \<Longrightarrow> vfs_step v v'"
| st_type: "inode_set_type k ty v = Ok (x, v') \<Longrightarrow> vfs_step v v'"
| st_vtable: "inode_set_vtable k vt v = Ok (x, v') \<Longrightarrow> vfs_step v v'"
| st_inode_fs: "inode_set_fs k fs v = Ok (x, v') \<Longrightarrow> vfs_step v v'"
| st_mount_child: "is_cstr name \<Longrightarrow> inode_mount_child k c name v = Ok (x, v') \<Longrightarrow> vfs_step v v'"
| st_fd_inode: "fd_set_inode k ino v = Ok (x, v') \<Longrightarrow> vfs_step v v'"
| st_fd_mode: "fd_set_mode k m v = Ok (x, v') \<Longrightarrow> vfs_step v v'"
| st_fd_offset: "fd_set_offset k off v = Ok (x, v') \<Longrightarrow> vfs_step v v'"

inductive vfs_reach :: "vfs \<Rightarrow> bool" where
  vfs_reach_start: "vfs_reach vfs_start"
| vfs_reach_step: "vfs_reach v \<Longrightarrow> vfs_step v v' \<Longrightarrow> vfs_reach v'"

text \<open>A mount that returns either did nothing or appended an entry.\<close>

lemma vfs_walk_empty:
  assumes "element_at path 0 = Ok None" "vfs_walk tab path limit 0 r = Ok c" "0 < limit"
  shows "c = ID_INVALID"
proof -
  have "(case ht_lookup tab r of None \<Rightarrow> Ok ID_INVALID
      | Some n \<Rightarrow> find_child_from (children n) None 0) = Ok x \<Longrightarrow> x = ID_INVALID" for x
    by (auto simp: find_child_from.simps split: option.splits if_splits)
  then show ?thesis using assms by (subst (asm) vfs_walk.simps) (auto split: if_splits)
qed

lemma mount_inv:
  assumes "vfs_inv v" "is_cstr path" "mount n path v = Ok (x, v')"
  shows "vfs_inv v'"
proof (cases "path_elems (cstr path)" rule: rev_cases)
  case Nil
  have el: "element_at path 0 = Ok None" using element_at_spec(2) [OF assms(2), of 0] Nil by simp
  have pos: "0 < size_dec 0" by (simp add: size_dec_def SIZE_MOD_def)
  obtain c where c: "vfs_walk (inode_table v) path (size_dec 0) 0 (vfs_root v) = Ok c"
    using assms Nil by (auto simp: mount_def vfs_run path_element_count_spec)
  have "c = ID_INVALID" using vfs_walk_empty [OF el c pos] .
  then have "mount n path v = Ok (1, v)"
    using assms(1,2) Nil c by (simp add: mount_def vfs_run path_element_count_spec)
  then show ?thesis using assms by simp
next
  case (snoc es e)
  let ?d = "resolve (inode_table v) (vfs_root v) es"
  show ?thesis
  proof (cases "?d = ID_INVALID \<or> ht_lookup (inode_table v) ?d = None")
    case True
    then show ?thesis using mount_spec(1) [OF assms(1,2) snoc] assms(1,3) by simp
  next
    case False
    then show ?thesis using mount_spec(2) [OF assms(1,2) snoc, of _ n] assms(3) by fastforce
  qed
qed

lemma vfs_step_inv: "vfs_step v v' \<Longrightarrow> vfs_inv v \<Longrightarrow> vfs_inv v'"
proof (induction rule: vfs_step.induct)
  case (st_set_root r v x v')
  then show ?case by (auto simp: set_root_run vfs_inv_def)
next
  case (st_mount path n v x v')
  then show ?case by (blast intro: mount_inv)
next
  case (st_create_inode v ty k v')
  then show ?case using create_inode_inv [of v ty] by auto
next
  case (st_create_fd v ino k v')
  then show ?case using create_fd_inv [of v ino] by auto
next
  case (st_create_fs name v k v')
  then show ?case using create_fs_spec [of v name] by auto
next
  case (st_delete_inode k v x v')
  then show ?case using delete_inode_inv [of v k] by auto
next
  case (st_delete_fs k v x v')
  then show ?case using delete_fs_inv [of v k] by auto
next
  case (st_delete_fd k v x v')
  then show ?case using delete_fd_inv [of v k] by auto
next
  case (st_set_name name k v x v')
  then show ?case using fs_set_name_inv [of v name k] by auto
next
  case (st_fs_root k r v x v')
  then show ?case using fs_set_root_inv [of v k r] by auto
next
  case (st_type k ty v x v')
  then show ?case using inode_update_inv [of v "\<lambda>n. n\<lparr>i_type := ty\<rparr>" k] by (auto simp: inode_set_type_def)
next
  case (st_vtable k vt v x v')
  then show ?case using inode_update_inv [of v "\<lambda>n. n\<lparr>i_vtable := vt\<rparr>" k] by (auto simp: inode_set_vtable_def)
next
  case (st_inode_fs k fs v x v')
  then show ?case using inode_update_inv [of v "\<lambda>n. n\<lparr>i_fs := fs\<rparr>" k] by (auto simp: inode_set_fs_def)
next
  case (st_mount_child name k c v x v')
  then show ?case
    using inode_mount_child_spec [of v name k _ c] inode_mount_child_none [of v k c name]
    by (cases "ht_lookup (inode_table v) k") auto
next
  case (st_fd_inode k ino v x v')
  then show ?case using fd_update_inv [of v k "\<lambda>d. d\<lparr>d_inode := ino\<rparr>"] by (auto simp: fd_set_inode_def)
next
  case (st_fd_mode k m v x v')
  then show ?case using fd_update_inv [of v k "\<lambda>d. d\<lparr>d_mode := m\<rparr>"] by (auto simp: fd_set_mode_def)
next
  case (st_fd_offset k off v x v')
  then show ?case using fd_update_inv [of v k "\<lambda>d. d\<lparr>d_offset := off\<rparr>"] by (auto simp: fd_set_offset_def)
qed

interpretation vsys: invariant_system "\<lambda>v. v = vfs_start" vfs_step vfs_inv
  by unfold_locales (auto intro: vfs_inv_start vfs_step_inv)

lemma vfs_reach_steps: "vfs_reach v \<longleftrightarrow> vfs_step\<^sup>*\<^sup>* vfs_start v"
proof
  show "vfs_step\<^sup>*\<^sup>* vfs_start v" if "vfs_reach v"
    using that by induction auto
  show "vfs_reach v" if "vfs_step\<^sup>*\<^sup>* vfs_start v"
    using that by induction (auto intro: vfs_reach.intros)
qed

lemma vfs_reach_inv: "vfs_reach v \<Longrightarrow> vfs_inv v"
  using vsys.always [OF refl] by (simp add: vfs_reach_steps)

section \<open>Printing the tree\<close>

text \<open>
  The recursion of \<open>vfs_print_inode\<close> follows the children and has no bound of its own, so it is given
  fuel; \<open>Fail Diverges\<close> means the fuel ran out. The result is the list of \<open>log\<close> calls.
\<close>

definition indentation :: "nat \<Rightarrow> fmt_arg list list" where
  "indentation depth =
     map (\<lambda>i. [Str (lit (if i = depth - 1 then ''|--'' else ''|  ''))]) [0..<depth]"

fun vfs_print_inode :: "nat \<Rightarrow> id_t \<Rightarrow> string \<Rightarrow> nat \<Rightarrow> vfs \<Rightarrow> (fmt_arg list list \<times> vfs) res"
  and vfs_print_children :: "nat \<Rightarrow> id_t \<Rightarrow> nat \<Rightarrow> nat \<Rightarrow> vfs \<Rightarrow> (fmt_arg list list \<times> vfs) res" where
  "vfs_print_inode 0 inode name depth v = Fail Diverges"
| "vfs_print_inode (Suc fuel) inode name depth v =
     (if inode = ID_INVALID then Ok ([], v)
      else bind_res (inode_get_type inode v) (\<lambda>((_, type), v1).
           bind_res (vfs_print_children fuel inode depth 0 v1) (\<lambda>(rest, v2).
           Ok (indentation depth @
               [[Str name, Str (lit (if type = DIRECTORY then ''/'' else [])), Chr (CHR 0x0A)]] @ rest, v2))))"
| "vfs_print_children 0 inode depth i v = Fail Diverges"
| "vfs_print_children (Suc fuel) inode depth i v =
     bind_res (inode_get_children inode v) (\<lambda>(count, v1).
       if i < count
       then bind_res (inode_get_nth_child inode i v1) (\<lambda>(ninode, v2).
            bind_res (inode_get_child_name inode ninode (replicate FILENAME_MAX NUL) FILENAME_MAX v2)
              (\<lambda>((_, name), v3).
            bind_res (vfs_print_inode fuel ninode name (depth + 1) v3) (\<lambda>(sub, v4).
            bind_res (vfs_print_children fuel inode depth (Suc i) v4) (\<lambda>(rest, v5).
            Ok (sub @ rest, v5)))))
       else Ok ([], v1))"

definition vfs_display :: "nat \<Rightarrow> vfs \<Rightarrow> (fmt_arg list list \<times> vfs) res" where
  "vfs_display fuel v =
     bind_res (vfs_print_inode fuel (vfs_root v) (lit []) 0 v) (\<lambda>(out, v').
       Ok ([Str (lit ''--- Virtual Filesystem ---''), Chr (CHR 0x0A)] # out, v'))"

end
