(* ===== verification/Sample_State.thy ===== *)
theory Sample_State
  imports Pool_Trace Syscall Vfs_Trace
begin

text \<open>
  A concrete machine at which the theorems about whole kernel states are evaluated: a heap of 64
  blocks of 64 bytes, a root directory, a one-file archive \<open>/a\<close> with the contents \<open>hello\<close> at \<open>0x1000\<close>, one
  process, a running thread and a second one waiting.
\<close>

definition sample_mem :: memory where
  "sample_mem = (\<lambda>a. if 0x101000 \<le> a \<and> a < 0x101010 then 0x55 else 0)(0x1000 := 0x61, 0x107C := 0x35, 0x109C := 0x30,
     0x1200 := 0x68, 0x1201 := 0x65, 0x1202 := 0x6C, 0x1203 := 0x6C, 0x1204 := 0x6F,
     0x3000 := 0x2F, 0x3001 := 0x61, 0x3100 := 0x2F, 0x3101 := 0x62)"

definition sample_pool :: pool_t where
  "sample_pool = \<lparr>pmap = 0x101000, body = 0x100000, block_size = 64, block_count = 64, plock = spinlock_new\<rparr>"

definition sample_hw :: hw_state where
  "sample_hw = \<lparr>rflags = 512, hw_int_enabled = True, hw_locked = False\<rparr>"

definition sample_kmem :: kmem where
  "sample_kmem = \<lparr>km_hw = sample_hw, km_heap = (sample_pool, sample_mem), km_end_offset = 0\<rparr>"

definition sample_root :: inode_t where
  "sample_root = (inode_default DIRECTORY)\<lparr>i_id := 0\<rparr>"

definition sample_vfs :: vfs where
  "sample_vfs = vfs_start\<lparr>inode_table := snd (ht_add ht_empty 0 sample_root), inode_counter := 1, vfs_root := 0\<rparr>"

definition sample_proc :: proc_t where
  "sample_proc = \<lparr>p_id = 1, p_name = replicate 256 NUL, p_state = P_ACTIVE, p_dir = 0, p_thread_counter = 2,
     threads = snd (ht_add (snd (ht_add ht_empty 0 0)) 1 1), lfd_counter = 0, fds = ht_empty\<rparr>"

definition sample_thread :: "id_t \<Rightarrow> thread_state \<Rightarrow> thread_t" where
  "sample_thread tid st = \<lparr>th_id = tid, th_lid = tid, th_proc = 1, th_state = st, th_entry = 0x400000,
     th_stack = 0x102000 + tid, th_stack_block = 0\<rparr>"

definition sample_task :: "id_t \<Rightarrow> task_t" where
  "sample_task tid = \<lparr>t_thread = tid, priority = 0, cpriority = 0\<rparr>"

definition sample_vtables :: "vtable_ref \<Rightarrow> vtable_t" where
  "sample_vtables = vtables (initrd_init_vtable (kernel_start sample_kmem))"

definition sample :: kernel where
  "sample = (kernel_start sample_kmem)\<lparr>k_vfs := sample_vfs,
     proc_table := snd (ht_add ht_empty 1 sample_proc), proc_counter := 1,
     thread_table := snd (ht_add (snd (ht_add ht_empty 0 (sample_thread 0 ACTIVE))) 1 (sample_thread 1 NEW)),
     thread_counter := 2, cproc := 1, kproc := 1, cthread := 0,
     schedule := q_push (q_empty (replicate 256 task_default)) (sample_task 1), ctask := sample_task 0,
     vtables := sample_vtables\<rparr>"

section \<open>Small tables\<close>

lemma CAP_gt: "1 < HASHTABLE_CAPACITY" "2 < HASHTABLE_CAPACITY" "3 < HASHTABLE_CAPACITY"
  by (simp_all add: HASHTABLE_CAPACITY_def)

lemma ht_size_empty [simp]: "ht_size ht_empty = 0"
  by (simp add: ht_size_def ht_empty_def)

lemma ht_single:
  "ht_inv (snd (ht_add ht_empty k v))" "ht_lookup (snd (ht_add ht_empty k v)) = [k \<mapsto> v]"
  "ht_size (snd (ht_add ht_empty k v)) = 1"
  using ht.invar_add [OF ht.invar_empty, of k v] ht.lookup_add [OF ht.invar_empty, of k v]
    ht.add_size [OF ht.invar_empty, of k v]
  by (simp_all add: ht.lookup_empty)

lemma ht_pair:
  fixes v v' :: 'a
  assumes "k \<noteq> k'"
  defines "t \<equiv> snd (ht_add (snd (ht_add ht_empty k v)) k' v')"
  shows "ht_inv t" "ht_lookup t = [k \<mapsto> v, k' \<mapsto> v']" "ht_size t = 2"
proof -
  let ?t = "snd (ht_add ht_empty k v)"
  have fresh: "ht_lookup ?t k' = None" using assms(1) by (simp add: ht_single)
  have room: "ht_size ?t < HASHTABLE_CAPACITY" using CAP_gt by (simp add: ht_single)
  show "ht_inv t" using ht.invar_add [OF ht_single(1) fresh] by (simp add: t_def)
  show "ht_lookup t = [k \<mapsto> v, k' \<mapsto> v']" using ht.lookup_add [OF ht_single(1) fresh room] by (simp add: t_def ht_single)
  show "ht_size t = 2" using ht.add_size [OF ht_single(1) fresh room] by (simp add: t_def ht_single)
qed

section \<open>The sample satisfies the invariants\<close>

lemma sample_fields [simp]:
  "k_mem sample = sample_kmem" "k_vfs sample = sample_vfs" "proc_counter sample = 1" "thread_counter sample = 2"
  "cproc sample = 1" "ctask sample = sample_task 0" "vtables sample = sample_vtables" "rd_inodes sample = ht_empty"
  "pipes sample = ht_empty" "km_heap sample_kmem = (sample_pool, sample_mem)" "km_hw sample_kmem = sample_hw"
  "ram sample = sample_mem"
  by (simp_all add: sample_def sample_kmem_def ram_def kernel_start_def)

lemma sample_map: "b < 16 \<Longrightarrow> sample_mem (0x101000 + of_nat b) = 0x55"
proof -
  assume b: "b < 16"
  then have u: "unat (0x101000 + of_nat b :: addr) = 0x101000 + b" by (simp add: unat_add_offset64)
  have "(0x101000 + of_nat b :: addr) \<noteq> x" if "unat x < 0x101000" for x using u that by auto
  moreover have "0x101000 \<le> (0x101000 + of_nat b :: addr)" "(0x101000 + of_nat b :: addr) < 0x101010"
    using u b by (simp_all add: word_le_nat_alt word_less_nat_alt)
  ultimately show ?thesis by (simp add: sample_mem_def)
qed

lemma sample_unused: "i < 64 \<Longrightarrow> pool_get sample_pool sample_mem i = UNUSED"
proof -
  assume "i < 64"
  then have "i div 4 < 16" "i mod 4 \<in> {0, 1, 2, 3}" by auto
  then show ?thesis
    using sample_map [of "i div 4"] by (auto simp: pool_get_def sample_pool_def status_of_def)
qed

lemma sample_heap_inv: "heap_inv (sample_pool, sample_mem)"
  using sample_unused
  by (simp add: heap_inv_def layout_ok_def runs_ok_def sample_pool_def spin_held_def spinlock_new_def)

text \<open>Two allocations of 100 and 64 bytes both succeed.\<close>

lemma sample_blocks: "unat (blocks_for sample_pool 100) = 2" "unat (blocks_for sample_pool 64) = 1"
  "unat (blocks_for sample_pool THREAD_STACK_SIZE) = 32" "blocks sample_pool = 64"
  by (simp_all add: blocks_for_def align_ceiling_def sample_pool_def THREAD_STACK_SIZE_def)

lemma sample_alloc:
  "\<exists>m1 q h2. pool_alloc 100 (sample_pool, sample_mem) = Ok (0x100000, (sample_pool, m1)) \<and>
    pool_alloc 64 (sample_pool, m1(0x100000 + of_nat 7 := b)) = Ok (q, h2) \<and> q \<noteq> 0"
proof -
  have f0: "fits sample_pool sample_mem 2 0" using sample_unused sample_blocks(4) by (simp add: fits_def)
  obtain s m1 where s: "fits sample_pool sample_mem 2 s" "\<forall>s' < s. \<not> fits sample_pool sample_mem 2 s'"
      "pool_alloc 100 (sample_pool, sample_mem) = Ok (block_addr sample_pool s, (sample_pool, m1))"
      "\<forall>l<2 ^ 64. pool_get sample_pool m1 l =
        (if l = s then HEAD else if s < l \<and> l < s + 2 then TAIL else pool_get sample_pool sample_mem l)"
    using pool_alloc_first_fit [OF sample_heap_inv, of 100] f0 sample_blocks(1) by auto
  have s0: "s = 0" using s(2) f0 by blast
  have a1: "pool_alloc 100 (sample_pool, sample_mem) = Ok (0x100000, (sample_pool, m1))"
    using s(3) s0 by (simp add: block_addr_def sample_pool_def)
  have inv1: "heap_inv (sample_pool, m1)"
    using pool_alloc_live [OF sample_heap_inv _ a1] by auto
  let ?m = "m1(0x100000 + of_nat 7 := b)"
  have lay: "layout_ok sample_pool" "in_body sample_pool (0x100000 + of_nat 7)"
    using inv1 by (simp_all add: heap_inv_def in_body_def sample_pool_def)
  have "pool_get sample_pool ?m 2 = UNUSED"
    using s(4) s0 sample_unused [of 2] body_store_get [OF lay, of 2] sample_blocks(4) by simp
  then have f2: "fits sample_pool ?m 1 2"
    using sample_blocks(4) by (auto simp: fits_def dest: le_antisym less_Suc_eq_le [THEN iffD1])
  obtain t m2 where "pool_alloc 64 (sample_pool, ?m) = Ok (block_addr sample_pool t, (sample_pool, m2))"
      "fits sample_pool ?m 1 t"
    using pool_alloc_first_fit [OF body_store(1) [OF inv1 lay(2), of b], of 64] f2 sample_blocks(2) by auto
  moreover have "block_addr sample_pool t \<noteq> 0" if "t < 64"
    using unat_block_addr [of sample_pool t] that sample_heap_inv sample_blocks(4)
    by (auto simp: heap_inv_def sample_pool_def)
  ultimately show ?thesis using a1 sample_blocks(4) by (auto simp: fits_def)
qed

lemma sample_alloc_stack:
  "\<exists>m1. pool_alloc THREAD_STACK_SIZE (sample_pool, sample_mem) = Ok (0x100000, (sample_pool, m1))"
proof -
  have f0: "fits sample_pool sample_mem 32 0" using sample_unused sample_blocks(4) by (simp add: fits_def)
  obtain s m1 where s: "\<forall>s' < s. \<not> fits sample_pool sample_mem 32 s'"
      "pool_alloc THREAD_STACK_SIZE (sample_pool, sample_mem) = Ok (block_addr sample_pool s, (sample_pool, m1))"
    using pool_alloc_first_fit [OF sample_heap_inv stack_small(1)] f0 sample_blocks(3) by auto
  have "s = 0" using s(1) f0 by blast
  then show ?thesis using s(2) by (simp add: block_addr_def sample_pool_def)
qed

lemma sample_vfs_inv: "vfs_inv sample_vfs"
  using ht_single [of 0 sample_root]
  by (simp add: vfs_inv_def sample_vfs_def vfs_start_def inodes_ok_def fs_names_ok_def spin_held_def spinlock_new_def
      ht.invar_empty ht.below_empty ht.lookup_empty ht.below_def names_ok_def sample_root_def inode_default_def
      vec.invar_new vec.elems_new)

lemma sample_proc_ok: "proc_ok sample_proc"
  using ht_pair [of 0 1 "0 :: id_t" "1 :: id_t"]
  by (simp add: proc_ok_def sample_proc_def ht.invar_empty ht.lookup_empty ht.below_def PROC_NAME_MAX_def is_cstr_def)

lemma sample_tables:
  "ht_lookup (proc_table sample) = [1 \<mapsto> sample_proc]"
  "ht_lookup (thread_table sample) = [0 \<mapsto> sample_thread 0 ACTIVE, 1 \<mapsto> sample_thread 1 NEW]"
  "ht_lookup (inode_table sample_vfs) = [0 \<mapsto> sample_root]"
  "ht_size (inode_table sample_vfs) = 1" "ht_lookup (fd_table sample_vfs) = Map.empty"
  using ht_single [of 1 sample_proc] ht_pair [of 0 1 "sample_thread 0 ACTIVE" "sample_thread 1 NEW"]
    ht_single [of 0 sample_root]
  by (simp_all add: sample_def sample_vfs_def vfs_start_def ht.lookup_empty)

lemma sample_schedule: "q_inv (schedule sample)" "waiting sample = [sample_task 1]" "q_cap (schedule sample) = 256"
  by (simp_all add: sample_def q_push_def q_empty_def q_inv_def q_cap_def SIZE_MOD_def Let_def waiting_def q_list_def)

lemma sample_k_inv: "k_inv sample"
  using sample_heap_inv sample_vfs_inv sample_proc_ok sample_tables sample_schedule
    ht_single(1) [of 1 sample_proc] ht_pair(1) [of 0 1 "sample_thread 0 ACTIVE" "sample_thread 1 NEW"]
  by (simp add: k_inv_def procs_all_def ht.below_def) (simp add: sample_def)

lemma sample_hw_ok: "hw_ok sample"
  by (simp add: hw_ok_def sample_hw_def interrupt_enabled_def)

lemma sample_steady: "steady sample"
  using sample_schedule(2) sample_tables(2)
  by (simp add: steady_def state_of_def sample_task_def sample_thread_def ID_INVALID_def)

section \<open>The archive\<close>

lemma sample_chars:
  "char_of (97 :: nat) = CHR ''a''" "char_of (98 :: nat) = CHR ''b''" "char_of (47 :: nat) = CHR ''/''"
  by code_simp+

lemma sample_strings:
  "mem_string sample_mem 0x1000 = ''a'' @ [NUL]" "mem_string sample_mem 0x3000 = ''/a'' @ [NUL]"
  "mem_string sample_mem 0x3100 = ''/b'' @ [NUL]"
  by (simp_all add: mem_string_def sample_mem_def mem_string_from.simps sample_chars)

lemma sample_paths:
  "is_cstr (''a'' @ [NUL])" "is_cstr (''/a'' @ [NUL])" "is_cstr (''/b'' @ [NUL])"
  "path_elems (cstr (''a'' @ [NUL])) = [''a'']" "path_elems (cstr (''/a'' @ [NUL])) = [''a'']"
  "path_elems (cstr (''/b'' @ [NUL])) = [''b'']"
  by code_simp+

lemma sample_size: "tar_size sample_mem 0x1000 = 5"
  using tar_size_octal [of "[5]" sample_mem "0x1000"]
  by (simp add: octal_value_def TAR_SIZE_OFF_def sample_mem_def)

lemma sample_archive: "archive sample_mem 0x1000 [5]"
  using sample_size by (simp add: sample_mem_def align_ceiling_def)

lemma sample_tree_ok: "tree_ok sample"
  using sample_vfs_inv sample_tables(3)
  by (simp add: tree_ok_def closed_tree_def entries_def sample_root_def inode_default_def vec.elems_new)

lemma sample_well_named: "well_named sample_mem 0x1000" "depth sample_mem 0x1000 = 1"
  using sample_strings(1) sample_paths(1,4) by (simp_all add: well_named_def depth_def FILENAME_MAX_def)

lemma sample_rd_ok: "rd_ok sample"
  by (simp add: rd_ok_def ht.invar_empty ht.below_empty)

lemma sample_resolve: "resolve (tab sample) (vfs_root (k_vfs sample)) [e] = ID_INVALID"
  using sample_tables(3)
  by (simp add: child_of_def entries_def sample_root_def inode_default_def vec.elems_new sample_vfs_def)

text \<open>The state after the one header has been unpacked.\<close>

definition sample_file :: kernel where
  "sample_file = snd (the_ok (initrd_header 0 0x1000 sample))"

definition sample_inode :: id_t where
  "sample_inode = fst (the_ok (initrd_header 0 0x1000 sample))"

lemma sample_unpack:
  "initrd_header 0 0x1000 sample = Ok (sample_inode, sample_file)" "tree_ok sample_file" "grows sample sample_file"
  "sample_inode \<noteq> ID_INVALID" "resolve (tab sample_file) (vfs_root (k_vfs sample_file)) [''a''] = sample_inode"
  "ht_lookup (rd_inodes sample_file) sample_inode = Some 0x1000"
  "\<exists>n. ht_lookup (tab sample_file) sample_inode = Some n \<and> i_vtable n = Some Initrd_vtable"
proof -
  have flag: "type_of_flag (ram sample (0x1000 + TAR_TYPE_OFF)) = NORMAL_FILE"
    by (simp add: type_of_flag_def TAR_TYPE_OFF_def sample_mem_def)
  have s: "is_cstr (mem_string (ram sample) 0x1000)"
    and es: "path_elems (cstr (mem_string (ram sample) 0x1000)) = [''a'']"
      "\<forall>e\<in>set [''a'']. length e < FILENAME_MAX"
    using sample_strings sample_paths by (simp_all add: FILENAME_MAX_def)
  have root: "ht_lookup (tab sample) (vfs_root (k_vfs sample)) \<noteq> None"
    using sample_tables(3) by (simp add: sample_vfs_def)
  have room: "ht_size (tab sample) + length [''a''] \<le> HASHTABLE_CAPACITY"
      "unat (inode_counter (k_vfs sample)) + length [''a''] < 2 ^ 64"
    using sample_tables(4) CAP_gt by (simp_all add: sample_vfs_def)
  have pre: "rd_ok sample \<and> ht_size (rd_inodes sample) < HASHTABLE_CAPACITY \<and> [''a''] \<noteq> [] \<and>
      resolve (tab sample) (vfs_root (k_vfs sample)) [''a''] = ID_INVALID \<and>
      type_of_flag (ram sample (0x1000 + TAR_TYPE_OFF)) = NORMAL_FILE"
    using sample_rd_ok sample_resolve flag CAP_gt by simp
  obtain c k' where c: "initrd_header 0 0x1000 sample = Ok (c, k')" "tree_ok k'" "grows sample k'" "c \<noteq> ID_INVALID"
      "on_vfs (get_inode (mem_string (ram sample) 0x1000)) k' = Ok (c, k')"
      "ht_lookup (rd_inodes k') c = Some 0x1000"
      "\<exists>n. ht_lookup (tab k') c = Some n \<and> i_vtable n = Some Initrd_vtable \<and> i_type n = NORMAL_FILE"
    using initrd_header_spec [OF sample_tree_ok s es root room, of 0] pre by blast
  have eq: "sample_file = k'" "sample_inode = c" using c(1) by (simp_all add: sample_file_def sample_inode_def)
  have "resolve (tab k') (vfs_root (k_vfs k')) [''a''] = c"
    using c(2,5) get_inode_resolve [OF _ s, of "k_vfs k'"] es(1) by (auto simp: on_vfs_def tree_ok_def)
  then show "initrd_header 0 0x1000 sample = Ok (sample_inode, sample_file)" "tree_ok sample_file" "grows sample sample_file"
    "sample_inode \<noteq> ID_INVALID" "resolve (tab sample_file) (vfs_root (k_vfs sample_file)) [''a''] = sample_inode"
    "ht_lookup (rd_inodes sample_file) sample_inode = Some 0x1000"
    "\<exists>n. ht_lookup (tab sample_file) sample_inode = Some n \<and> i_vtable n = Some Initrd_vtable"
    using c eq by auto
qed

section \<open>The unpacked state can open the file\<close>

lemma sample_file_fields:
  "vtables sample_file = sample_vtables" "cproc sample_file = 1" "hw sample_file = sample_hw"
  "proc_table sample_file = proc_table sample" "ram sample_file = sample_mem" "fd_table (k_vfs sample_file) = ht_empty"
  "fd_counter (k_vfs sample_file) = 0" "k_inv sample_file" "k_mem sample_file = sample_kmem"
proof -
  obtain v rd where k': "sample_file = sample\<lparr>k_vfs := v, rd_inodes := rd\<rparr>"
    using sample_unpack(3) unfolding grows_def by blast
  show "vtables sample_file = sample_vtables" "cproc sample_file = 1" "hw sample_file = sample_hw"
    "proc_table sample_file = proc_table sample" "k_mem sample_file = sample_kmem"
    by (simp_all add: k')
  show "ram sample_file = sample_mem" using grows_ram [OF sample_unpack(3)] by simp
  show "k_inv sample_file"
    using sample_k_inv sample_unpack(2) by (simp add: k_inv_def tree_ok_def k')
  show "fd_table (k_vfs sample_file) = ht_empty" "fd_counter (k_vfs sample_file) = 0"
    using sample_unpack(3) by (simp_all add: grows_def sample_vfs_def vfs_start_def)
qed

lemma sample_can_open: "can_open sample_file sample_proc"
  using sample_file_fields sample_tables(1) CAP_gt
  by (simp add: can_open_def initrd_table_ok_def sample_vtables_def initrd_init_vtable_def kernel_start_def
      vtable_null_def sample_proc_def)

section \<open>The same machine with an open pipe\<close>

definition sample_desc :: fd_t where
  "sample_desc = \<lparr>d_id = 0, d_inode = 0, d_mode = 0xFF, d_offset = 0\<rparr>"

definition sample_pipe :: kernel where
  "sample_pipe = sample\<lparr>k_vfs := sample_vfs\<lparr>fd_table := snd (ht_add ht_empty 0 sample_desc), fd_counter := 1\<rparr>,
     pipes := snd (ht_add ht_empty 0 0)\<rparr>"

lemma sample_pipe_ok:
  "vfs_inv (k_vfs sample_pipe)" "ht_lookup (fd_table (k_vfs sample_pipe)) 0 = Some sample_desc"
  "ht_lookup (pipes sample_pipe) (d_inode sample_desc) = Some 0" "fifo_inv (pipe_store sample_pipe 0)"
  "fifo_list (pipe_store sample_pipe 0) = []" "fifo_cap (pipe_store sample_pipe 0) = 4096" "ram sample_pipe = sample_mem"
proof -
  show "vfs_inv (k_vfs sample_pipe)"
    using sample_vfs_inv ht_single [of 0 sample_desc] by (simp add: vfs_inv_def sample_pipe_def ht.below_def)
  have "pipe_store sample_pipe 0 = pipe_new" by (simp add: sample_pipe_def sample_def kernel_start_def)
  then show "fifo_inv (pipe_store sample_pipe 0)" "fifo_list (pipe_store sample_pipe 0) = []"
      "fifo_cap (pipe_store sample_pipe 0) = 4096"
    by (simp_all add: pipe_new_def fifo_new_def fifo_inv_def fifo_list_def fifo_cap_def q_inv_def q_cap_def q_empty_def
        q_list_def PIPE_SIZE_def SIZE_MOD_def)
  show "ram sample_pipe = sample_mem" by (simp add: sample_pipe_def ram_def)
qed (simp_all add: sample_pipe_def ht_single sample_desc_def)

end
