(* ===== verification/Port_IO.thy ===== *)
theory Port_IO
  imports Prelude
begin

text \<open>
  Port-mapped I/O: \<open>include/tupai/x86/port.hpp\<close>. The devices behind the ports are not part of the
  sources. They are a parameter \<open>dev\<close>, which says what a read of a port returns given everything that has
  happened on the bus so far; the drivers produce a trace of bus events.
\<close>

datatype io_event =
    Out8 u16 u8 | Out16 u16 u16 | Out32 u16 u32
  | In8 u16 u8 | In16 u16 u16 | In32 u16 u32

type_synonym trace = "io_event list"
type_synonym device = "trace \<Rightarrow> u16 \<Rightarrow> u32"

definition outb :: "u16 \<Rightarrow> u8 \<Rightarrow> trace \<Rightarrow> trace" where
  "outb port value tr = tr @ [Out8 port value]"

definition outw :: "u16 \<Rightarrow> u16 \<Rightarrow> trace \<Rightarrow> trace" where
  "outw port value tr = tr @ [Out16 port value]"

definition outl :: "u16 \<Rightarrow> u32 \<Rightarrow> trace \<Rightarrow> trace" where
  "outl port value tr = tr @ [Out32 port value]"

definition inb :: "device \<Rightarrow> u16 \<Rightarrow> trace \<Rightarrow> u8 \<times> trace" where
  "inb dev port tr = (let value = ucast (dev tr port) in (value, tr @ [In8 port value]))"

definition inw :: "device \<Rightarrow> u16 \<Rightarrow> trace \<Rightarrow> u16 \<times> trace" where
  "inw dev port tr = (let value = ucast (dev tr port) in (value, tr @ [In16 port value]))"

definition inl :: "device \<Rightarrow> u16 \<Rightarrow> trace \<Rightarrow> u32 \<times> trace" where
  "inl dev port tr = (let value = dev tr port in (value, tr @ [In32 port value]))"

text \<open>\<open>for (volatile uint16_t i = 0; i < cycles; i ++);\<close> the number of turns a wait takes.\<close>

lemma unat_succ16: "i < (c :: u16) \<Longrightarrow> unat (i + 1) = Suc (unat i)"
proof -
  assume "i < c"
  then have "Suc (unat i) < 2 ^ 16" using unsigned_less [of c, where 'a = nat] by (simp add: word_less_nat_alt)
  then show ?thesis by (subst unat_add_lem [THEN iffD1]) simp_all
qed

function wait_from :: "u16 \<Rightarrow> u16 \<Rightarrow> nat \<Rightarrow> nat" where
  "wait_from cycles i n = (if i < cycles then wait_from cycles (i + 1) (Suc n) else n)"
  by pat_completeness auto
termination
proof (relation "measure (\<lambda>(cycles, i, n). unat cycles - unat i)", goal_cases)
  case (2 cycles i n)
  then show ?case using unat_succ16 [of i cycles] by (simp add: word_less_nat_alt)
qed simp

definition wait :: "u16 \<Rightarrow> nat" where
  "wait cycles = wait_from cycles 0 0"

declare wait_from.simps [simp del]

lemma wait_from_eq: "i \<le> cycles \<Longrightarrow> wait_from cycles i n = n + (unat cycles - unat i)"
proof (induction cycles i n rule: wait_from.induct)
  case (1 cycles i n)
  show ?case
  proof (cases "i < cycles")
    case True
    then have lt: "unat i < unat cycles" by (simp add: word_less_nat_alt)
    have u: "unat (i + 1) = Suc (unat i)" using unat_succ16 [OF True] .
    then have "i + 1 \<le> cycles" using lt by (simp add: word_le_nat_alt)
    then show ?thesis using 1 True u lt by (subst wait_from.simps) simp
  next
    case False
    then show ?thesis using 1 by (subst wait_from.simps) simp
  qed
qed

lemma wait_turns: "wait cycles = unat cycles"
  by (simp add: wait_def wait_from_eq)

section \<open>Busy waiting\<close>

text \<open>
  Reading a port until a condition holds. Nothing in the code bounds the number of reads: the loop is
  partial, and \<open>None\<close> means that it never ends.
\<close>

partial_function (option) poll_until :: "(u8 \<Rightarrow> bool) \<Rightarrow> device \<Rightarrow> u16 \<Rightarrow> trace \<Rightarrow> trace option" where
  "poll_until ok dev port tr =
     (let (v, tr') = inb dev port tr in if ok v then Some tr' else poll_until ok dev port tr')"

fun poll_trace :: "device \<Rightarrow> u16 \<Rightarrow> nat \<Rightarrow> trace \<Rightarrow> trace" where
  "poll_trace dev port 0 tr = tr"
| "poll_trace dev port (Suc n) tr = poll_trace dev port n (snd (inb dev port tr))"

definition reply :: "device \<Rightarrow> u16 \<Rightarrow> nat \<Rightarrow> trace \<Rightarrow> u8" where
  "reply dev port n tr = fst (inb dev port (poll_trace dev port n tr))"

lemma reply_Suc: "reply dev port (Suc n) tr = reply dev port n (snd (inb dev port tr))"
  by (simp add: reply_def)

text \<open>The loop ends exactly when some reply satisfies the condition, after the first that does.\<close>

lemma poll_until_returns:
  assumes "ok (reply dev port n tr)" "\<forall>i<n. \<not> ok (reply dev port i tr)"
  shows "poll_until ok dev port tr = Some (poll_trace dev port (Suc n) tr)"
  using assms
proof (induction n arbitrary: tr)
  case 0
  then show ?case by (subst poll_until.simps) (simp add: reply_def case_prod_unfold Let_def)
next
  case (Suc n)
  let ?tr = "snd (inb dev port tr)"
  have "\<forall>i<n. \<not> ok (reply dev port i ?tr)" using Suc.prems(2) reply_Suc by (metis Suc_mono)
  then have "poll_until ok dev port ?tr = Some (poll_trace dev port (Suc n) ?tr)"
    using Suc.IH [of ?tr] Suc.prems(1) reply_Suc by metis
  moreover have "\<not> ok (fst (inb dev port tr))" using Suc.prems(2) by (force simp: reply_def)
  ultimately show ?case by (subst poll_until.simps) (simp add: case_prod_unfold Let_def)
qed

lemma poll_until_Some:
  "poll_until ok dev port tr = Some tr' \<Longrightarrow> \<exists>n. ok (reply dev port n tr) \<and> tr' = poll_trace dev port (Suc n) tr"
proof (induction rule: poll_until.raw_induct [rotated, consumes 1])
  case (1 poll ok dev port tr tr')
  show ?case
  proof (cases "ok (fst (inb dev port tr))")
    case True
    then show ?thesis using 1(2) by (intro exI [of _ 0]) (simp add: reply_def case_prod_unfold Let_def)
  next
    case False
    then have "poll ok dev port (snd (inb dev port tr)) = Some tr'" using 1(2) by (simp add: case_prod_unfold Let_def)
    then obtain n where "ok (reply dev port n (snd (inb dev port tr)))"
        "tr' = poll_trace dev port (Suc n) (snd (inb dev port tr))"
      using 1(1) by blast
    then show ?thesis by (intro exI [of _ "Suc n"]) (simp add: reply_Suc)
  qed
qed

lemma poll_until_ends_iff:
  "(\<exists>tr'. poll_until ok dev port tr = Some tr') \<longleftrightarrow> (\<exists>n. ok (reply dev port n tr))"
proof
  assume "\<exists>n. ok (reply dev port n tr)"
  then obtain n where n: "ok (reply dev port n tr)" "\<forall>i<n. \<not> ok (reply dev port i tr)"
    using exists_least_iff [of "\<lambda>n. ok (reply dev port n tr)"] by blast
  then show "\<exists>tr'. poll_until ok dev port tr = Some tr'" using poll_until_returns [OF n] by blast
qed (blast dest: poll_until_Some)

section \<open>Registers\<close>

text \<open>The byte last written to a port.\<close>

fun last_out :: "u16 \<Rightarrow> trace \<Rightarrow> u8 \<Rightarrow> u8" where
  "last_out port [] v = v"
| "last_out port (Out8 p x # tr) v = last_out port tr (if p = port then x else v)"
| "last_out port (_ # tr) v = last_out port tr v"

lemma last_out_append: "last_out port (tr @ tr') v = last_out port tr' (last_out port tr v)"
  by (induction port tr v rule: last_out.induct) auto

lemma last_out_simps [simp]:
  "last_out port (outb p x tr) v = (if p = port then x else last_out port tr v)"
  "last_out port (snd (inb dev p tr)) v = last_out port tr v"
  by (simp_all add: outb_def inb_def last_out_append Let_def)

text \<open>A 16-bit value sent as two bytes, low byte first.\<close>

definition le16 :: "u8 \<Rightarrow> u8 \<Rightarrow> nat" where
  "le16 lo hi = unat lo + 256 * unat hi"

lemma unat_byte_of: "unat (ucast (drop_bit k (w :: u16) AND 0xFF) :: u8) = unat w div 2 ^ k mod 256"
proof -
  have m: "(0xFF :: u16) = mask 8" by (simp add: mask_eq_exp_minus_1)
  have s: "take_bit 16 (unat w) = unat w" using unsigned_less [of w, where 'a = nat] by (simp add: take_bit_eq_mod)
  have "unat (ucast (drop_bit k w AND 0xFF) :: u8) = take_bit 8 (take_bit 8 (drop_bit k (unat w)))"
    unfolding m take_bit_eq_mask [symmetric] by (simp only: unsigned_ucast_eq unsigned_take_bit_eq unsigned_drop_bit_eq) (simp add: s)
  then show ?thesis by (simp add: take_bit_eq_mod drop_bit_eq_div)
qed

lemma le16_word: "le16 (ucast (drop_bit 0 w AND 0xFF)) (ucast (drop_bit 8 (w :: u16) AND 0xFF)) = unat w"
proof -
  have "unat w < 65536" using unsigned_less [of w, where 'a = nat] by simp
  then show ?thesis unfolding le16_def unat_byte_of by simp
qed

end
