(* ===== verification/Textmode.thy ===== *)
theory Textmode
  imports Port_IO Kmem
begin

text \<open>
  The text-mode console (\<open>kernel/x86/textmode.cpp\<close>). \<open>cells\<close> are the 80 by 25 character cells at \<open>buffer\<close>; an
  access outside them is \<open>Fail OutOfBounds\<close>. The abstract terminal is a page and one position in it: writing
  through the code's column, row and scrolling refines it.
\<close>

record textmode =
  buffer :: addr
  cells :: "u16 list"
  tcol :: int
  trow :: int
  tbus :: trace

definition col_max :: int where "col_max = 80"
definition row_max :: int where "row_max = 25"
definition color :: u8 where "color = 0x0F"

lemmas tm_consts = col_max_def row_max_def color_def

definition textmode_start :: "u16 list \<Rightarrow> textmode" where
  "textmode_start page = \<lparr>buffer = 0xB8000, cells = page, tcol = 0, trow = 0, tbus = []\<rparr>"

section \<open>The driver\<close>

text \<open>\<open>(color << 8) | c\<close>: the character is signed and extended to an \<open>int\<close> before the result is cut to 16 bits.\<close>

definition cell :: "u8 \<Rightarrow> u16" where
  "cell c = ucast (push_bit 8 (ucast color) OR (scast c :: 32 word))"

definition cell_get :: "textmode \<Rightarrow> int \<Rightarrow> u16 res" where
  "cell_get t i = (if i < 0 then Fail OutOfBounds else arr_get (cells t) (nat i))"

definition cell_set :: "int \<Rightarrow> u16 \<Rightarrow> textmode \<Rightarrow> textmode res" where
  "cell_set i v t = (if i < 0 then Fail OutOfBounds
     else bind_res (arr_set (cells t) (nat i) v) (\<lambda>cs. Ok (t\<lparr>cells := cs\<rparr>)))"

definition textmode_cursor :: "int \<Rightarrow> int \<Rightarrow> textmode \<Rightarrow> textmode" where
  "textmode_cursor c r t =
     (let pos = word_of_int (col_max * r + c) :: u16;
          tr = outb 0x3D4 0x0F (tbus t);
          tr = outb 0x3D5 (ucast (pos AND 0xFF)) tr;
          tr = outb 0x3D4 0x0E tr;
          tr = outb 0x3D5 (ucast (drop_bit 8 pos AND 0xFF)) tr
      in t\<lparr>tbus := tr\<rparr>)"

definition textmode_move :: "int \<Rightarrow> int \<Rightarrow> textmode \<Rightarrow> textmode" where
  "textmode_move ncol nrow t = textmode_cursor ncol nrow (t\<lparr>tcol := ncol, trow := nrow\<rparr>)"

definition textmode_clear :: "textmode \<Rightarrow> textmode res" where
  "textmode_clear = for_up 0 (nat row_max) (\<lambda>r. for_up 0 (nat col_max) (\<lambda>c.
     cell_set (col_max * int r + int c) (cell 0x20)))"

definition textmode_scroll :: "int \<Rightarrow> textmode \<Rightarrow> textmode res" where
  "textmode_scroll n t =
     (if n \<le> 0 then Ok t
      else bind_res (for_up (nat n) (nat row_max) (\<lambda>r. for_up 0 (nat col_max) (\<lambda>c t.
             bind_res (cell_get t (col_max * int r + int c)) (\<lambda>v.
             cell_set (col_max * (int r - n) + int c) v t))) t)
           (for_up 0 (nat col_max) (\<lambda>c. cell_set (col_max * (row_max - 1) + int c) (cell 0x20))))"

definition textmode_init :: "textmode \<Rightarrow> textmode res" where
  "textmode_init t = textmode_clear (t\<lparr>buffer := buffer t + arch_get_offset, tcol := 0, trow := 0\<rparr>)"

text \<open>\<open>while (row >= row_max) { textmode_scroll(1); row --; }\<close>\<close>

function scroll_back :: "textmode \<Rightarrow> textmode res" where
  "scroll_back t =
     (if trow t \<ge> row_max
      then bind_res (textmode_scroll 1 t) (\<lambda>t'. scroll_back (t'\<lparr>trow := trow t - 1\<rparr>))
      else Ok t)"
  by pat_completeness auto
termination
  by (relation "measure (\<lambda>t. nat (trow t - row_max + 1))") (auto simp: row_max_def)

declare scroll_back.simps [simp del]

definition textmode_put :: "u8 \<Rightarrow> textmode \<Rightarrow> textmode res" where
  "textmode_put c t =
     (if c = 0x0A then Ok (t\<lparr>tcol := 0, trow := trow t + 1\<rparr>)
      else if c = 0x08
      then Ok (if tcol t \<noteq> 0 then t\<lparr>tcol := tcol t - 1\<rparr>
               else if trow t \<noteq> 0 then t\<lparr>trow := trow t - 1, tcol := col_max - 1\<rparr>
               else t)
      else if c = 0x0D then Ok t
      else bind_res (cell_set (col_max * trow t + tcol t) (cell c) t) (\<lambda>t. Ok (t\<lparr>tcol := tcol t + 1\<rparr>)))"

definition textmode_write :: "u8 \<Rightarrow> textmode \<Rightarrow> textmode res" where
  "textmode_write c t =
     bind_res (textmode_put c t) (\<lambda>t.
     bind_res (scroll_back (if tcol t \<ge> col_max then t\<lparr>tcol := 0, trow := trow t + 1\<rparr> else t)) (\<lambda>t.
     Ok (textmode_cursor (tcol t) (trow t) t)))"

section \<open>The abstract terminal\<close>

definition term_step :: "u8 \<Rightarrow> u16 list \<times> nat \<Rightarrow> u16 list \<times> nat" where
  "term_step c = (\<lambda>(page, p).
     let (page, p) =
       (if c = 0x0A then (page, (p div 80 + 1) * 80)
        else if c = 0x08 then (page, p - 1)
        else if c = 0x0D then (page, p)
        else (page[p := cell c], p + 1))
     in if p < 2000 then (page, p) else (drop 80 page @ replicate 80 (cell 0x20), p - 80))"

definition tm_ok :: "textmode \<Rightarrow> bool" where
  "tm_ok t \<longleftrightarrow> length (cells t) = 2000 \<and> 0 \<le> tcol t \<and> tcol t < 80 \<and> 0 \<le> trow t \<and> trow t < 25"

definition tm_pos :: "textmode \<Rightarrow> nat" where
  "tm_pos t = nat (80 * trow t + tcol t)"

definition tm_abs :: "textmode \<Rightarrow> u16 list \<times> nat" where
  "tm_abs t = (cells t, tm_pos t)"

section \<open>Loops over the cells\<close>

lemma nat_cell [simp]: "nat (80 * int r + int c) = 80 * r + c"
  by linarith

lemma cell_get_ok: "i < length (cells t) \<Longrightarrow> cell_get t (int i) = Ok (cells t ! i)"
  by (simp add: cell_get_def)

lemma cell_set_ok: "i < length (cells t) \<Longrightarrow> cell_set (int i) v t = Ok (t\<lparr>cells := (cells t)[i := v]\<rparr>)"
  by (simp add: cell_set_def)

text \<open>One row of cells filled or copied: \<open>f c\<close> is the value for column \<open>c\<close>.\<close>

lemma row_loop:
  assumes len: "length (cells t0) = 2000" and room: "base + 80 \<le> 2000"
    and act: "\<And>c t. c < 80 \<Longrightarrow> length (cells t) = 2000 \<Longrightarrow> \<forall>i\<ge>base + c. i < 2000 \<longrightarrow> cells t ! i = cells t0 ! i \<Longrightarrow>
      act c t = Ok (t\<lparr>cells := (cells t)[base + c := f c]\<rparr>)"
  shows "\<exists>cs. for_up 0 80 act t0 = Ok (t0\<lparr>cells := cs\<rparr>) \<and> length cs = 2000 \<and>
    (\<forall>i<2000. cs ! i = (if base \<le> i \<and> i < base + 80 then f (i - base) else cells t0 ! i))"
proof -
  let ?P = "\<lambda>c t. \<exists>cs. t = t0\<lparr>cells := cs\<rparr> \<and> length cs = 2000 \<and>
    (\<forall>i<2000. cs ! i = (if base \<le> i \<and> i < base + c then f (i - base) else cells t0 ! i))"
  have "\<exists>t. for_up 0 80 act t0 = Ok t \<and> ?P 80 t"
  proof (rule for_up_inv)
    show "?P 0 t0" using len by (intro exI [of _ "cells t0"]) auto
  next
    fix j t
    assume j: "j < 80" and "?P j t"
    then obtain cs where t: "t = t0\<lparr>cells := cs\<rparr>" and l: "length cs = 2000"
      and cs: "\<forall>i<2000. cs ! i = (if base \<le> i \<and> i < base + j then f (i - base) else cells t0 ! i)" by blast
    have "act j t = Ok (t\<lparr>cells := (cells t)[base + j := f j]\<rparr>)" using j t l cs by (intro act) auto
    moreover have "?P (Suc j) (t\<lparr>cells := (cells t)[base + j := f j]\<rparr>)"
      using t l cs room j by (intro exI [of _ "cs[base + j := f j]"]) (auto simp: nth_list_update)
    ultimately show "\<exists>u. act j t = Ok u \<and> ?P (Suc j) u" by blast
  qed simp
  then show ?thesis by blast
qed

lemma textmode_clear_spec:
  assumes "length (cells t0) = 2000"
  shows "textmode_clear t0 = Ok (t0\<lparr>cells := replicate 2000 (cell 0x20)\<rparr>)"
proof -
  let ?row = "\<lambda>r. for_up 0 80 (\<lambda>c. cell_set (80 * int r + int c) (cell 0x20))"
  let ?P = "\<lambda>r t. \<exists>cs. t = t0\<lparr>cells := cs\<rparr> \<and> length cs = 2000 \<and> (\<forall>i<80 * r. cs ! i = cell 0x20)"
  have "\<exists>t. for_up 0 25 ?row t0 = Ok t \<and> ?P 25 t"
  proof (rule for_up_inv)
    show "?P 0 t0" using assms by (intro exI [of _ "cells t0"]) simp
  next
    fix r t
    assume r: "r < 25" and "?P r t"
    then obtain cs where t: "t = t0\<lparr>cells := cs\<rparr>" "length cs = 2000" "\<forall>i<80 * r. cs ! i = cell 0x20" by blast
    have "\<exists>ds. ?row r t = Ok (t\<lparr>cells := ds\<rparr>) \<and> length ds = 2000 \<and>
        (\<forall>i<2000. ds ! i = (if 80 * r \<le> i \<and> i < 80 * r + 80 then cell 0x20 else cells t ! i))"
      using t r by (intro row_loop) (simp_all add: cell_set_def)
    then obtain ds where ds: "?row r t = Ok (t\<lparr>cells := ds\<rparr>)" "length ds = 2000"
        "\<forall>i<2000. ds ! i = (if 80 * r \<le> i \<and> i < 80 * r + 80 then cell 0x20 else cells t ! i)" by blast
    have "\<forall>i<80 * Suc r. ds ! i = cell 0x20" using ds(3) t r by simp
    then show "\<exists>u. ?row r t = Ok u \<and> ?P (Suc r) u" using ds(1,2) t(1) by (intro exI [of _ "t0\<lparr>cells := ds\<rparr>"] conjI) auto
  qed simp
  then obtain cs where cs: "for_up 0 25 ?row t0 = Ok (t0\<lparr>cells := cs\<rparr>)" "length cs = 2000" "\<forall>i<2000. cs ! i = cell 0x20"
    by auto
  have "cs = replicate 2000 (cell 0x20)" using cs(2,3) by (intro nth_equalityI) simp_all
  then show ?thesis using cs(1) by (simp add: textmode_clear_def tm_consts)
qed

text \<open>Scrolling by one line drops the first row and adds a blank one.\<close>

lemma scroll_rows:
  assumes "length (cells t0) = 2000"
  shows "\<exists>cs. for_up 1 25 (\<lambda>r. for_up 0 80 (\<lambda>c t.
      bind_res (cell_get t (80 * int r + int c)) (\<lambda>v. cell_set (80 * (int r - 1) + int c) v t))) t0 = Ok (t0\<lparr>cells := cs\<rparr>) \<and>
    length cs = 2000 \<and> (\<forall>i<1920. cs ! i = cells t0 ! (i + 80))"
proof -
  let ?act = "\<lambda>r c t. bind_res (cell_get t (80 * int r + int c)) (\<lambda>v. cell_set (80 * (int r - 1) + int c) v t)"
  let ?P = "\<lambda>r t. \<exists>cs. t = t0\<lparr>cells := cs\<rparr> \<and> length cs = 2000 \<and>
    (\<forall>i<80 * (r - 1). cs ! i = cells t0 ! (i + 80)) \<and> (\<forall>i. 80 * (r - 1) \<le> i \<and> i < 2000 \<longrightarrow> cs ! i = cells t0 ! i)"
  have "\<exists>t. for_up 1 25 (\<lambda>r. for_up 0 80 (?act r)) t0 = Ok t \<and> ?P 25 t"
  proof (rule for_up_inv)
    show "?P 1 t0" using assms by (intro exI [of _ "cells t0"]) simp
  next
    fix r t
    assume r: "1 \<le> r" "r < 25" and "?P r t"
    then obtain cs where t: "t = t0\<lparr>cells := cs\<rparr>" "length cs = 2000" "\<forall>i<80 * (r - 1). cs ! i = cells t0 ! (i + 80)"
      "\<forall>i. 80 * (r - 1) \<le> i \<and> i < 2000 \<longrightarrow> cs ! i = cells t0 ! i" by blast
    have n: "nat (80 * int r - 80 + int c) = 80 * (r - 1) + c" for c using r by (cases r) simp_all
    have "\<exists>ds. for_up 0 80 (?act r) t = Ok (t\<lparr>cells := ds\<rparr>) \<and> length ds = 2000 \<and>
        (\<forall>i<2000. ds ! i = (if 80 * (r - 1) \<le> i \<and> i < 80 * (r - 1) + 80
           then cells t0 ! (80 * r + (i - 80 * (r - 1))) else cells t ! i))"
      using t r by (intro row_loop) (simp_all add: cell_get_def cell_set_def n)
    then obtain ds where ds: "for_up 0 80 (?act r) t = Ok (t\<lparr>cells := ds\<rparr>)" "length ds = 2000"
        "\<forall>i<2000. ds ! i = (if 80 * (r - 1) \<le> i \<and> i < 80 * (r - 1) + 80
           then cells t0 ! (80 * r + (i - 80 * (r - 1))) else cells t ! i)" by blast
    have "\<forall>i<80 * (Suc r - 1). ds ! i = cells t0 ! (i + 80)"
    proof (intro allI impI)
      fix i assume i: "i < 80 * (Suc r - 1)"
      show "ds ! i = cells t0 ! (i + 80)"
      proof (cases "i < 80 * (r - 1)")
        case True
        then show ?thesis using ds(3) t r by simp
      next
        case False
        then have "80 * r + (i - 80 * (r - 1)) = i + 80" using r by (cases r) simp_all
        then show ?thesis using False i ds(3) r by (cases r) (simp_all add: add.commute)
      qed
    qed
    moreover have "\<forall>i. 80 * (Suc r - 1) \<le> i \<and> i < 2000 \<longrightarrow> ds ! i = cells t0 ! i"
      using ds(3) t r by (cases r) simp_all
    ultimately show "\<exists>u. for_up 0 80 (?act r) t = Ok u \<and> ?P (Suc r) u"
      using ds(1,2) t(1) by (intro exI [of _ "t0\<lparr>cells := ds\<rparr>"] conjI exI [of _ ds]) simp_all
  qed simp
  then show ?thesis by auto
qed

lemma textmode_scroll_1:
  assumes "length (cells t) = 2000"
  shows "textmode_scroll 1 t = Ok (t\<lparr>cells := drop 80 (cells t) @ replicate 80 (cell 0x20)\<rparr>)"
proof -
  obtain cs where cs: "for_up 1 25 (\<lambda>r. for_up 0 80 (\<lambda>c t. bind_res (cell_get t (80 * int r + int c))
      (\<lambda>v. cell_set (80 * (int r - 1) + int c) v t))) t = Ok (t\<lparr>cells := cs\<rparr>)"
    "length cs = 2000" "\<forall>i<1920. cs ! i = cells t ! (i + 80)" using scroll_rows [OF assms] by blast
  have "\<exists>ds. for_up 0 80 (\<lambda>c. cell_set (1920 + int c) (cell 0x20)) (t\<lparr>cells := cs\<rparr>) = Ok (t\<lparr>cells := cs\<rparr>\<lparr>cells := ds\<rparr>) \<and>
      length ds = 2000 \<and> (\<forall>i<2000. ds ! i = (if 1920 \<le> i \<and> i < 1920 + 80 then cell 0x20 else cells (t\<lparr>cells := cs\<rparr>) ! i))"
    using cs(2) by (intro row_loop) (simp_all add: cell_set_def nat_add_distrib)
  then obtain ds where ds: "for_up 0 80 (\<lambda>c. cell_set (1920 + int c) (cell 0x20)) (t\<lparr>cells := cs\<rparr>) = Ok (t\<lparr>cells := ds\<rparr>)"
    "length ds = 2000" "\<forall>i<2000. ds ! i = (if 1920 \<le> i then cell 0x20 else cs ! i)" by auto
  have "ds = drop 80 (cells t) @ replicate 80 (cell 0x20)"
    using ds(2,3) cs(3) assms by (intro nth_equalityI) (auto simp: nth_append add.commute)
  then show ?thesis using cs(1) ds(1) by (simp add: textmode_scroll_def tm_consts)
qed

lemma scroll_back_spec:
  assumes "length (cells t) = 2000" "trow t \<le> 25"
  shows "scroll_back t = Ok (if trow t = 25 then t\<lparr>cells := drop 80 (cells t) @ replicate 80 (cell 0x20), trow := 24\<rparr> else t)"
proof (cases "trow t = 25")
  case True
  then show ?thesis using assms textmode_scroll_1 [OF assms(1)]
    by (simp add: scroll_back.simps [of t] row_max_def scroll_back.simps [of "t\<lparr>cells := x, trow := 24\<rparr>" for x])
next
  case False
  then show ?thesis using assms by (simp add: scroll_back.simps [of t] row_max_def)
qed

section \<open>Writing refines the terminal\<close>

text \<open>The cursor registers get the position.\<close>

lemma textmode_cursor_spec:
  assumes "0 \<le> c" "c < 80" "0 \<le> r" "r < 25"
  shows "\<exists>lo hi. textmode_cursor c r t = t\<lparr>tbus := tbus t @ [Out8 0x3D4 0x0F, Out8 0x3D5 lo, Out8 0x3D4 0x0E, Out8 0x3D5 hi]\<rparr> \<and>
    le16 lo hi = nat (80 * r + c)"
proof -
  let ?w = "word_of_int (80 * r + c) :: u16"
  let ?n = "nat (80 * r + c)"
  have w: "?w = of_nat ?n" using assms by simp
  have "?n < 2 ^ 16" using assms by simp
  then have "unat ?w = ?n" unfolding w by (simp add: unsigned_of_nat take_bit_eq_mod)
  then have "le16 (ucast (?w AND 0xFF)) (ucast (drop_bit 8 ?w AND 0xFF)) = ?n"
    using le16_word [of ?w] by (simp only: drop_bit_0 id_apply)
  then show ?thesis
    by (intro exI [of _ "ucast (?w AND 0xFF)"] exI [of _ "ucast (drop_bit 8 ?w AND 0xFF)"] conjI)
      (simp_all add: textmode_cursor_def outb_def col_max_def Let_def)
qed

definition wrap_col :: "textmode \<Rightarrow> textmode" where
  "wrap_col t = (if tcol t \<ge> col_max then t\<lparr>tcol := 0, trow := trow t + 1\<rparr> else t)"

lemma wrapped_scroll:
  assumes "length (cells t) = 2000" "0 \<le> tcol t" "tcol t \<le> 80" "0 \<le> trow t" "tm_pos t < 2080"
    "trow t \<le> 25" "trow t = 25 \<longrightarrow> tcol t < 80"
  shows "\<exists>t'. scroll_back (wrap_col t) = Ok t' \<and> tm_ok t' \<and> tbus t' = tbus t \<and> buffer t' = buffer t \<and>
    tm_abs t' = (if tm_pos t < 2000 then (cells t, tm_pos t)
      else (drop 80 (cells t) @ replicate 80 (cell 0x20), tm_pos t - 80))"
proof -
  have pos: "int (tm_pos t) = 80 * trow t + tcol t" using assms by (simp add: tm_pos_def)
  let ?t = "wrap_col t"
  have f: "cells ?t = cells t" "tbus ?t = tbus t" "buffer ?t = buffer t" "0 \<le> tcol ?t" "tcol ?t < 80" "0 \<le> trow ?t"
      "80 * trow ?t + tcol ?t = int (tm_pos t)"
    using assms(2-4) pos by (auto simp: wrap_col_def col_max_def)
  then have r: "trow ?t \<le> 25" "trow ?t = 25 \<longleftrightarrow> \<not> tm_pos t < 2000" using assms(5) by linarith+
  have q: "tm_pos ?t = tm_pos t" using f(7) by (simp add: tm_pos_def [of ?t])
  have s: "scroll_back ?t = Ok (if trow ?t = 25 then ?t\<lparr>cells := drop 80 (cells ?t) @ replicate 80 (cell 0x20), trow := 24\<rparr> else ?t)"
    by (rule scroll_back_spec) (use assms(1) f r in simp_all)
  show ?thesis
  proof (cases "trow ?t = 25")
    case True
    then show ?thesis using s f r assms(1) pos by (simp add: tm_ok_def tm_abs_def tm_pos_def nat_diff_distrib)
  next
    case False
    then have "tm_ok ?t" using f(1,4-6) r(1) assms(1) by (simp add: tm_ok_def)
    then show ?thesis using False s f(1-3) r(2) q by (simp add: tm_abs_def)
  qed
qed

lemma textmode_put_step:
  assumes "tm_ok t"
  shows "\<exists>t'. textmode_put c t = Ok t' \<and> length (cells t') = 2000 \<and> 0 \<le> tcol t' \<and> tcol t' \<le> 80 \<and> 0 \<le> trow t' \<and>
    trow t' \<le> 25 \<and> tm_pos t' < 2080 \<and> (trow t' = 25 \<longrightarrow> tcol t' < 80) \<and> tbus t' = tbus t \<and> buffer t' = buffer t \<and>
    (cells t', tm_pos t') =
      (if c = 0x0A then (cells t, (tm_pos t div 80 + 1) * 80) else if c = 0x08 then (cells t, tm_pos t - 1)
       else if c = 0x0D then (cells t, tm_pos t) else ((cells t)[tm_pos t := cell c], tm_pos t + 1))"
proof -
  have b: "length (cells t) = 2000" "0 \<le> tcol t" "tcol t < 80" "0 \<le> trow t" "trow t < 25"
    using assms by (auto simp: tm_ok_def)
  have pos: "int (tm_pos t) = 80 * trow t + tcol t" using b by (simp add: tm_pos_def)
  then have lt: "tm_pos t < 2000" and idx: "80 * trow t + tcol t = int (tm_pos t)" using b by linarith+
  consider "c = 0x0A" | "c = 0x08" | "c = 0x0D" | "c \<noteq> 0x0A" "c \<noteq> 0x08" "c \<noteq> 0x0D" by blast
  then show ?thesis
  proof cases
    case 1
    have "tm_pos t = nat (tcol t) + nat (trow t) * 80" using b by (simp add: tm_pos_def nat_add_distrib)
    moreover have "nat (tcol t) < 80" using b by simp
    ultimately have "tm_pos t div 80 = nat (trow t)" by simp
    then have "nat (80 * (trow t + 1)) = (tm_pos t div 80 + 1) * 80" using b by simp
    then show ?thesis using 1 b by (simp add: textmode_put_def tm_pos_def)
  next
    case 2
    then show ?thesis using b by (auto simp: textmode_put_def tm_pos_def col_max_def)
  next
    case 3
    then show ?thesis using b pos lt by (simp add: textmode_put_def)
  next
    case 4
    let ?u = "t\<lparr>cells := (cells t)[tm_pos t := cell c], tcol := tcol t + 1\<rparr>"
    have q: "tm_pos ?u = tm_pos t + 1" using pos b by (simp add: tm_pos_def [of ?u])
    have "textmode_put c t = Ok ?u"
      using 4 b lt unfolding textmode_put_def col_max_def idx by (simp add: cell_set_ok)
    then show ?thesis using 4 b lt q by simp
  qed
qed

theorem textmode_write_refines:
  assumes "tm_ok t"
  shows "\<exists>t' lo hi. textmode_write c t = Ok t' \<and> tm_ok t' \<and> tm_abs t' = term_step c (tm_abs t) \<and> buffer t' = buffer t \<and>
    tbus t' = tbus t @ [Out8 0x3D4 0x0F, Out8 0x3D5 lo, Out8 0x3D4 0x0E, Out8 0x3D5 hi] \<and> le16 lo hi = tm_pos t'"
proof -
  obtain t1 where t1: "textmode_put c t = Ok t1" "length (cells t1) = 2000" "0 \<le> tcol t1" "tcol t1 \<le> 80" "0 \<le> trow t1"
      "tm_pos t1 < 2080" "trow t1 \<le> 25" "trow t1 = 25 \<longrightarrow> tcol t1 < 80" "tbus t1 = tbus t" "buffer t1 = buffer t"
      "(cells t1, tm_pos t1) =
        (if c = 0x0A then (cells t, (tm_pos t div 80 + 1) * 80) else if c = 0x08 then (cells t, tm_pos t - 1)
         else if c = 0x0D then (cells t, tm_pos t) else ((cells t)[tm_pos t := cell c], tm_pos t + 1))"
    using textmode_put_step [OF assms] by blast
  obtain t2 where t2: "scroll_back (wrap_col t1) = Ok t2" "tm_ok t2" "tbus t2 = tbus t1" "buffer t2 = buffer t1"
      "tm_abs t2 = (if tm_pos t1 < 2000 then (cells t1, tm_pos t1)
        else (drop 80 (cells t1) @ replicate 80 (cell 0x20), tm_pos t1 - 80))"
    using wrapped_scroll [OF t1(2-8)] by blast
  have abs: "tm_abs t2 = term_step c (tm_abs t)"
    unfolding t2(5) by (simp only: tm_abs_def term_step_def prod.case t1(11) [symmetric] Let_def)
  obtain lo hi where "textmode_cursor (tcol t2) (trow t2) t2 =
      t2\<lparr>tbus := tbus t2 @ [Out8 0x3D4 0x0F, Out8 0x3D5 lo, Out8 0x3D4 0x0E, Out8 0x3D5 hi]\<rparr>" "le16 lo hi = tm_pos t2"
    using textmode_cursor_spec [of "tcol t2" "trow t2" t2] t2(2) by (auto simp: tm_ok_def tm_pos_def)
  then show ?thesis
    using t1(1,9,10) t2(1-4) abs by (simp add: textmode_write_def wrap_col_def [symmetric] tm_ok_def tm_abs_def tm_pos_def)
qed

end
