(* ===== verification/Ps2.thy ===== *)
theory Ps2
  imports Port_IO Locks Util_Str
begin

text \<open>
  The PS/2 controller (\<open>kernel/x86/ps2_8042.cpp\<close>) and the device layer above it (\<open>kernel/dev/ps2.cpp\<close>).
  A wait for the controller that never ends is \<open>Fail Diverges\<close>.
\<close>

definition PS28042_PORT_CMD :: u16 where "PS28042_PORT_CMD = 0x64"
definition PS28042_PORT_STATUS :: u16 where "PS28042_PORT_STATUS = 0x64"
definition PS28042_PORT_DATA :: u16 where "PS28042_PORT_DATA = 0x60"
definition PS2_RESET :: u8 where "PS2_RESET = 0xFF"

record ps2 =
  ps2_initiated :: bool
  ps2_disabled :: bool
  ps2_channel :: u32
  ps2_channel_open :: "bool list"
  ps2_hw :: hw_state

definition ps2_start :: "hw_state \<Rightarrow> ps2" where
  "ps2_start h = \<lparr>ps2_initiated = False, ps2_disabled = False, ps2_channel = 0, ps2_channel_open = [False], ps2_hw = h\<rparr>"

section \<open>The controller\<close>

definition ps2_8042_send_cmd :: "u8 \<Rightarrow> trace \<Rightarrow> trace" where
  "ps2_8042_send_cmd code = outb PS28042_PORT_CMD code"

definition ps2_8042_write_data :: "u8 \<Rightarrow> trace \<Rightarrow> trace" where
  "ps2_8042_write_data x = outb PS28042_PORT_DATA x"

definition ps2_8042_read_data :: "device \<Rightarrow> trace \<Rightarrow> u8 \<times> trace" where
  "ps2_8042_read_data dev = inb dev PS28042_PORT_DATA"

text \<open>The loops \<open>while (status & mask ...);\<close>.\<close>

definition ps2_wait :: "(u8 \<Rightarrow> bool) \<Rightarrow> device \<Rightarrow> trace \<Rightarrow> trace res" where
  "ps2_wait ok dev tr = (case poll_until ok dev PS28042_PORT_STATUS tr of None \<Rightarrow> Fail Diverges | Some tr \<Rightarrow> Ok tr)"

definition ps2_unusable :: "ps2 \<Rightarrow> nat \<Rightarrow> bool" where
  "ps2_unusable p port_id \<longleftrightarrow> \<not> ps2_initiated p \<or> ps2_channel p OR push_bit port_id 1 = 0 \<or> ps2_disabled p"

definition ps2_8042_write :: "device \<Rightarrow> ps2 \<Rightarrow> nat \<Rightarrow> u8 \<Rightarrow> trace \<Rightarrow> trace res" where
  "ps2_8042_write dev p port_id c tr =
     (if ps2_unusable p port_id then Ok tr
      else if port_id = 0
      then bind_res (ps2_wait (\<lambda>s. s AND 2 = 0) dev tr) (\<lambda>tr. Ok (ps2_8042_write_data c tr))
      else bind_res (ps2_wait (\<lambda>s. s AND 2 = 0) dev (ps2_8042_send_cmd 0xD4 tr)) (\<lambda>tr. Ok (ps2_8042_write_data c tr)))"

definition ps2_8042_read :: "device \<Rightarrow> ps2 \<Rightarrow> nat \<Rightarrow> trace \<Rightarrow> (u8 \<times> trace) res" where
  "ps2_8042_read dev p port_id tr =
     (if ps2_unusable p port_id then Ok (0, tr)
      else bind_res (ps2_wait (\<lambda>s. s AND 1 \<noteq> 0) dev tr) (\<lambda>tr. Ok (ps2_8042_read_data dev tr)))"

text \<open>The second test of \<open>channel\<close> is \<open>channel | 2\<close>, which is never 0.\<close>

definition ps2_detect :: "device \<Rightarrow> u8 \<Rightarrow> trace \<Rightarrow> u32 \<times> trace" where
  "ps2_detect dev cfg tr =
     (if cfg AND push_bit 5 1 \<noteq> 0 then (push_bit 0 1, tr)
      else let tr = ps2_8042_send_cmd 0xA8 tr; (cfg, tr) = ps2_8042_read_data dev tr
           in (if cfg AND push_bit 5 1 \<noteq> 0 then push_bit 0 1 else push_bit 0 1 OR push_bit 1 1, tr))"

definition ps2_test :: "device \<Rightarrow> u32 \<Rightarrow> trace \<Rightarrow> u32 \<times> trace" where
  "ps2_test dev channel tr =
     (let tr = ps2_8042_send_cmd 0xAB tr; (result, tr) = ps2_8042_read_data dev tr;
          channel = (if result \<noteq> 0 then channel AND NOT (push_bit 0 1) else channel)
      in if channel OR push_bit 1 1 \<noteq> 0
         then let tr = ps2_8042_send_cmd 0xA9 tr; (result, tr) = ps2_8042_read_data dev tr
              in (if result \<noteq> 0 then channel AND NOT (push_bit 1 1) else channel, tr)
         else (channel, tr))"

definition ps2_8042_init :: "device \<Rightarrow> ps2 \<Rightarrow> trace \<Rightarrow> (ps2 \<times> trace) res" where
  "ps2_8042_init dev p tr =
     (if ps2_initiated p then Ok (p, tr)
      else
        let p = p\<lparr>ps2_hw := hwlock_lock (ps2_hw p)\<rparr>;
            tr = ps2_8042_send_cmd 0xAD tr;
            tr = ps2_8042_send_cmd 0xA7 tr;
            (_, tr) = ps2_8042_read_data dev tr;
            tr = ps2_8042_send_cmd 0x20 tr;
            (cfg, tr) = ps2_8042_read_data dev tr;
            cfg = cfg AND NOT (push_bit 0 1 OR push_bit 1 1 OR push_bit 6 1);
            tr = ps2_8042_send_cmd 0x60 tr;
            tr = ps2_8042_write_data cfg tr;
            tr = ps2_8042_send_cmd 0xAA tr;
            (result, tr) = ps2_8042_read_data dev tr;
            p = (if result \<noteq> 0x55 then p\<lparr>ps2_disabled := True\<rparr> else p);
            (channel, tr) = ps2_detect dev cfg tr;
            (channel, tr) = ps2_test dev channel tr;
            p = p\<lparr>ps2_channel := channel\<rparr>;
            tr = ps2_8042_send_cmd 0xAE tr;
            tr = ps2_8042_send_cmd 0xA8 tr;
            tr = ps2_8042_send_cmd 0x20 tr;
            (cfg, tr) = ps2_8042_read_data dev tr;
            cfg = cfg OR (push_bit 0 1 OR push_bit 1 1);
            tr = ps2_8042_send_cmd 0x60 tr;
            tr = ps2_8042_write_data cfg tr
        in bind_res (ps2_8042_write dev p 0 PS2_RESET tr) (\<lambda>tr.
           bind_res (ps2_8042_write dev p 1 PS2_RESET tr) (\<lambda>tr.
           let p = p\<lparr>ps2_hw := hwlock_unlock (ps2_hw p)\<rparr>
           in Ok (p\<lparr>ps2_initiated := True\<rparr>, tr))))"

definition port_names :: "string list" where
  "port_names = [lit ''PS20'', lit ''PS21'']"

definition ps2_8042_count_ports :: nat where
  "ps2_8042_count_ports = 2"

definition ps2_8042_list_ports :: "string list" where
  "ps2_8042_list_ports = port_names"

text \<open>\<open>channel_open\<close> has one element.\<close>

definition ps2_8042_open_port :: "nat \<Rightarrow> ps2 \<Rightarrow> (bool \<times> ps2) res" where
  "ps2_8042_open_port port_id p =
     (if ps2_unusable p port_id then Ok (False, p)
      else bind_res (arr_get (ps2_channel_open p) port_id) (\<lambda>opn.
        if opn then Ok (False, p)
        else bind_res (arr_set (ps2_channel_open p) port_id True) (\<lambda>os.
          Ok (False, p\<lparr>ps2_channel_open := os\<rparr>))))"

section \<open>The device layer\<close>

datatype ps2_device_type =
    PS2_UNKNOWN | KEYBOARD_AT | MOUSE_NOSCROLL | MOUSE_SCROLL | MOUSE_5BUTTON | KEYBOARD_MF2 | KEYBOARD_MF2_TRANSLATION

definition ps2_init :: "device \<Rightarrow> bool \<Rightarrow> ps2 \<Rightarrow> trace \<Rightarrow> (bool \<times> ps2 \<times> trace) res" where
  "ps2_init dev done p tr =
     (if done then Ok (done, p, tr) else bind_res (ps2_8042_init dev p tr) (\<lambda>(p, tr). Ok (True, p, tr)))"

definition ps2_count_ports :: nat where
  "ps2_count_ports = ps2_8042_count_ports"

definition ps2_list_ports :: "string list" where
  "ps2_list_ports = ps2_8042_list_ports"

fun find_port :: "string list \<Rightarrow> nat \<Rightarrow> string \<Rightarrow> nat option res" where
  "find_port [] i port = Ok None"
| "find_port (n # ns) i port =
     bind_res (str_equal n port) (\<lambda>eq. if eq then Ok (Some i) else find_port ns (Suc i) port)"

definition ps2_open_port :: "string \<Rightarrow> ps2 \<Rightarrow> (int \<times> ps2) res" where
  "ps2_open_port port p =
     bind_res (find_port (take ps2_count_ports ps2_list_ports) 0 port) (\<lambda>found.
     case found of
       None \<Rightarrow> Ok (- 1, p)
     | Some port_id \<Rightarrow> bind_res (ps2_8042_open_port port_id p) (\<lambda>(success, p).
         Ok (if \<not> success then - 1 else int port_id, p)))"

definition ps2_write :: "device \<Rightarrow> ps2 \<Rightarrow> int \<Rightarrow> u8 \<Rightarrow> trace \<Rightarrow> trace res" where
  "ps2_write dev p port_id val tr = (if port_id = - 1 then Ok tr else ps2_8042_write dev p (nat port_id) val tr)"

definition ps2_read :: "device \<Rightarrow> ps2 \<Rightarrow> int \<Rightarrow> trace \<Rightarrow> (u8 \<times> trace) res" where
  "ps2_read dev p port_id tr = (if port_id = - 1 then Ok (0, tr) else ps2_8042_read dev p (nat port_id) tr)"

definition ps2_classify :: "u8 \<Rightarrow> u8 \<Rightarrow> ps2_device_type" where
  "ps2_classify id0 id1 =
     (if id0 = 0x00 then MOUSE_NOSCROLL
      else if id0 = 0x03 then MOUSE_SCROLL
      else if id0 = 0x04 then MOUSE_5BUTTON
      else if id0 = 0xAB
      then if id1 = 0x41 \<or> id1 = 0xC1 then KEYBOARD_MF2_TRANSLATION
           else if id1 = 0x83 then KEYBOARD_MF2 else PS2_UNKNOWN
      else PS2_UNKNOWN)"

definition ps2_get_device_type :: "device \<Rightarrow> ps2 \<Rightarrow> int \<Rightarrow> trace \<Rightarrow> (ps2_device_type \<times> trace) res" where
  "ps2_get_device_type dev p port_id tr =
     bind_res (ps2_write dev p port_id 0xF5 tr) (\<lambda>tr.
     bind_res (ps2_read dev p port_id tr) (\<lambda>(response, tr).
     if response \<noteq> 0xFA then Ok (PS2_UNKNOWN, tr)
     else bind_res (ps2_write dev p port_id 0xF2 tr) (\<lambda>tr.
       bind_res (ps2_read dev p port_id tr) (\<lambda>(response, tr).
       if response \<noteq> 0xFA then Ok (PS2_UNKNOWN, tr)
       else bind_res (ps2_read dev p port_id tr) (\<lambda>(id0, tr).
            bind_res (ps2_read dev p port_id tr) (\<lambda>(id1, tr).
            Ok (ps2_classify id0 id1, tr)))))))"

section \<open>What the code does\<close>

text \<open>The test that should skip missing channels is an inclusive or: it never does.\<close>

lemma ps2_unusable_iff:
  assumes "port_id < 32"
  shows "ps2_unusable p port_id \<longleftrightarrow> \<not> ps2_initiated p \<or> ps2_disabled p"
proof -
  have "bit (ps2_channel p OR push_bit port_id 1) port_id" using assms by (simp add: bit_simps)
  then have "ps2_channel p OR push_bit port_id 1 \<noteq> 0" by force
  then show ?thesis by (auto simp: ps2_unusable_def)
qed

lemma ps2_write_uninit: "\<not> ps2_initiated p \<Longrightarrow> ps2_8042_write dev p port_id c tr = Ok tr"
  by (simp add: ps2_8042_write_def ps2_unusable_def)

text \<open>
  Initialisation always returns: the two resets at its end are skipped, because the controller is only
  marked initialised afterwards, so no wait is entered.
\<close>

lemma ps2_init_returns:
  assumes "\<not> ps2_initiated p"
  shows "\<exists>p' tr'. ps2_8042_init dev p tr = Ok (p', tr') \<and> ps2_initiated p' \<and>
    ps2_hw p' = hwlock_unlock (hwlock_lock (ps2_hw p)) \<and> ps2_channel_open p' = ps2_channel_open p"
  using assms by (simp add: ps2_8042_init_def ps2_write_uninit case_prod_unfold Let_def)

text \<open>No port can be opened: every path of the function returns false.\<close>

lemma ps2_open_port_false: "ps2_8042_open_port port_id p = Ok (b, p') \<Longrightarrow> \<not> b"
  by (auto simp: ps2_8042_open_port_def split: if_splits)

lemma ps2_open_port_second: "\<not> ps2_unusable p 1 \<Longrightarrow> length (ps2_channel_open p) = 1 \<Longrightarrow>
   ps2_8042_open_port 1 p = Fail OutOfBounds"
  by (simp add: ps2_8042_open_port_def arr_get_def)

lemma ps2_dev_open_fails: "ps2_open_port port p = Ok (r, p') \<Longrightarrow> r = - 1"
  using ps2_open_port_false by (fastforce simp: ps2_open_port_def ps2_count_ports_def ps2_list_ports_def split: option.splits if_splits)

text \<open>A read waits until the status shows a byte, and ends exactly if that happens.\<close>

lemma ps2_read_ends_iff:
  assumes "ps2_initiated p" "\<not> ps2_disabled p" "port_id < 32"
  shows "is_ok (ps2_8042_read dev p port_id tr) \<longleftrightarrow>
    (\<exists>n. reply dev PS28042_PORT_STATUS n tr AND 1 \<noteq> 0)"
  using assms poll_until_ends_iff [of "\<lambda>s. s AND 1 \<noteq> 0" dev PS28042_PORT_STATUS tr]
  by (auto simp: ps2_8042_read_def ps2_unusable_iff ps2_wait_def split: option.splits)

end
