(* ===== verification/Serial.thy ===== *)
theory Serial
  imports Ps2
begin

text \<open>
  Serial ports: the 16550 driver \<open>kernel/x86/serial.cpp\<close> and the device layer \<open>kernel/dev/serial.cpp\<close>. Each
  layer has a spinlock of its own.
\<close>

record serial =
  x_lock :: spinlock_t
  x_initiated :: bool
  port_open :: "bool list"
  d_lock :: spinlock_t
  d_initiated :: bool
  bus :: trace

definition serial_start :: serial where
  "serial_start = \<lparr>x_lock = spinlock_new, x_initiated = False, port_open = replicate 4 False,
     d_lock = spinlock_new, d_initiated = False, bus = []\<rparr>"

definition com_names :: "string list" where
  "com_names = [lit ''COM1'', lit ''COM2'', lit ''COM3'', lit ''COM4'']"

definition port_offsets :: "u16 list" where
  "port_offsets = [0x03F8, 0x02F8, 0x03E8, 0x02E8]"

definition parity_values :: "u8 list" where
  "parity_values = [0x00, 0x08, 0x18, 0x28, 0x38]"

definition UART_CLOCK_RATE :: u32 where
  "UART_CLOCK_RATE = 115200"

datatype serial_parity = PARITY_NONE | PARITY_ODD | PARITY_EVEN | PARITY_MARK | PARITY_SPACE

fun parity_index :: "serial_parity \<Rightarrow> nat" where
  "parity_index PARITY_NONE = 0"
| "parity_index PARITY_ODD = 1"
| "parity_index PARITY_EVEN = 2"
| "parity_index PARITY_MARK = 3"
| "parity_index PARITY_SPACE = 4"

section \<open>The driver\<close>

definition x_lock_it :: "serial \<Rightarrow> serial res" where
  "x_lock_it s = bind_res (spinlock_lock (x_lock s)) (\<lambda>l. Ok (s\<lparr>x_lock := l\<rparr>))"

definition x_unlock_it :: "serial \<Rightarrow> serial" where
  "x_unlock_it s = s\<lparr>x_lock := spinlock_unlock (x_lock s)\<rparr>"

abbreviation x_section :: "(serial \<Rightarrow> ('a \<times> serial) res) \<Rightarrow> serial \<Rightarrow> ('a \<times> serial) res" where
  "x_section \<equiv> with_lock x_lock_it x_unlock_it"

definition x86_serial_init :: "serial \<Rightarrow> (unit \<times> serial) res" where
  "x86_serial_init = x_section (\<lambda>s. Ok ((), s\<lparr>x_initiated := True\<rparr>))"

definition x86_serial_count_ports :: nat where
  "x86_serial_count_ports = 4"

definition x86_serial_list_ports :: "string list" where
  "x86_serial_list_ports = com_names"

definition serial_cfg :: "u8 \<Rightarrow> u8 \<Rightarrow> serial_parity \<Rightarrow> u8" where
  "serial_cfg databits stopbits parity =
     (let databits_val = databits - 5;
          stopbits_val = push_bit 2 (stopbits - 1);
          parity_val = parity_values ! parity_index parity
      in databits_val OR stopbits_val OR parity_val)"

definition serial_program :: "u16 \<Rightarrow> u32 \<Rightarrow> u8 \<Rightarrow> u8 \<Rightarrow> serial_parity \<Rightarrow> trace \<Rightarrow> trace" where
  "serial_program port_offset baudrate databits stopbits parity tr =
     (let tr = outb (port_offset + 1) 0x00 tr;
          divisor = ucast (UART_CLOCK_RATE div baudrate) :: u16;
          tr = outb (port_offset + 3) 0x80 tr;
          tr = outb (port_offset + 0) (ucast (drop_bit 0 divisor AND 0xFF)) tr;
          tr = outb (port_offset + 1) (ucast (drop_bit 8 divisor AND 0xFF)) tr;
          tr = outb (port_offset + 3) (serial_cfg databits stopbits parity) tr;
          tr = outb (port_offset + 2) 0xC7 tr
      in outb (port_offset + 4) 0x0B tr)"

definition x86_serial_open_port :: "int \<Rightarrow> u32 \<Rightarrow> u8 \<Rightarrow> u8 \<Rightarrow> serial_parity \<Rightarrow> serial \<Rightarrow> (bool \<times> serial) res" where
  "x86_serial_open_port port_id baudrate databits stopbits parity = x_section (\<lambda>s.
     if port_id = - 1 then Ok (True, s)
     else bind_res (arr_get (port_open s) (nat port_id)) (\<lambda>opn.
       if opn then Ok (True, s)
       else bind_res (arr_get port_offsets (nat port_id)) (\<lambda>port_offset.
         if databits < 5 \<or> databits > 8 then Ok (False, s)
         else if stopbits < 1 \<or> stopbits > 2 then Ok (False, s)
         else if baudrate = 0 then Fail DivByZero
         else Ok (True, s\<lparr>bus := serial_program port_offset baudrate databits stopbits parity (bus s),
                          port_open := (port_open s)[nat port_id := True]\<rparr>))))"

definition x86_serial_write :: "device \<Rightarrow> int \<Rightarrow> u8 \<Rightarrow> serial \<Rightarrow> (unit \<times> serial) res" where
  "x86_serial_write dev port_id c s =
     (if port_id = - 1 then Ok ((), s)
      else x_section (\<lambda>s.
        bind_res (arr_get port_offsets (nat port_id)) (\<lambda>port_offset.
        let (status, tr) = inb dev (port_offset + 5) (bus s)
        in Ok ((), s\<lparr>bus := outb port_offset c tr\<rparr>))) s)"

text \<open>The byte is read when the status says that there is none.\<close>

definition x86_serial_read :: "device \<Rightarrow> int \<Rightarrow> serial \<Rightarrow> (u8 \<times> serial) res" where
  "x86_serial_read dev port_id s =
     (if port_id = - 1 then Ok (0, s)
      else x_section (\<lambda>s.
        bind_res (arr_get port_offsets (nat port_id)) (\<lambda>port_offset.
        let (status, tr) = inb dev (port_offset + 5) (bus s)
        in if status AND 1 = 0
           then let (val, tr) = inb dev port_offset tr in Ok (val, s\<lparr>bus := tr\<rparr>)
           else Ok (0, s\<lparr>bus := tr\<rparr>))) s)"

section \<open>The device layer\<close>

definition d_lock_it :: "serial \<Rightarrow> serial res" where
  "d_lock_it s = bind_res (spinlock_lock (d_lock s)) (\<lambda>l. Ok (s\<lparr>d_lock := l\<rparr>))"

definition d_unlock_it :: "serial \<Rightarrow> serial" where
  "d_unlock_it s = s\<lparr>d_lock := spinlock_unlock (d_lock s)\<rparr>"

abbreviation d_section :: "(serial \<Rightarrow> ('a \<times> serial) res) \<Rightarrow> serial \<Rightarrow> ('a \<times> serial) res" where
  "d_section \<equiv> with_lock d_lock_it d_unlock_it"

definition serial_init :: "serial \<Rightarrow> (unit \<times> serial) res" where
  "serial_init = d_section (\<lambda>s.
     if \<not> d_initiated s
     then bind_res (x86_serial_init s) (\<lambda>(_, s). Ok ((), s\<lparr>d_initiated := True\<rparr>))
     else Ok ((), s))"

definition serial_count_ports :: "serial \<Rightarrow> (nat \<times> serial) res" where
  "serial_count_ports = d_section (\<lambda>s. Ok (x86_serial_count_ports, s))"

definition serial_list_ports :: "serial \<Rightarrow> (string list \<times> serial) res" where
  "serial_list_ports = d_section (\<lambda>s. Ok (x86_serial_list_ports, s))"

definition serial_open_port :: "string \<Rightarrow> u32 \<Rightarrow> u8 \<Rightarrow> u8 \<Rightarrow> serial_parity \<Rightarrow> serial \<Rightarrow> (int \<times> serial) res" where
  "serial_open_port port baudrate databits stopbits parity s =
     bind_res (d_section (\<lambda>s.
       bind_res (serial_list_ports s) (\<lambda>(names, s).
       bind_res (serial_count_ports s) (\<lambda>(n, s).
       bind_res (find_port (take n names) 0 port) (\<lambda>found.
       case found of
         None \<Rightarrow> Ok ((- 1, False), s)
       | Some i \<Rightarrow> bind_res (x86_serial_open_port (int i) baudrate databits stopbits parity s) (\<lambda>(success, s).
           Ok ((int i, success), s)))))) s) (\<lambda>((port_id, success), s).
     Ok (if success then port_id else - 1, s))"

definition serial_write :: "device \<Rightarrow> int \<Rightarrow> u8 \<Rightarrow> serial \<Rightarrow> (unit \<times> serial) res" where
  "serial_write dev port_id val = d_section (\<lambda>s.
     if port_id \<noteq> - 1 then x86_serial_write dev port_id val s else Ok ((), s))"

definition serial_read :: "device \<Rightarrow> int \<Rightarrow> serial \<Rightarrow> (u8 \<times> serial) res" where
  "serial_read dev port_id = d_section (\<lambda>s.
     if port_id \<noteq> - 1 then x86_serial_read dev port_id s else Ok (0, s))"

section \<open>The locks\<close>

interpretation x_spin: lock_discipline x_lock_it x_unlock_it "\<lambda>s. spin_held (x_lock s)" "\<lambda>s. s\<lparr>x_lock := spinlock_new\<rparr>"
  by unfold_locales (auto simp: x_lock_it_def x_unlock_it_def spinlock_lock_def spinlock_unlock_def spin_held_def)

interpretation d_spin: lock_discipline d_lock_it d_unlock_it "\<lambda>s. spin_held (d_lock s)" "\<lambda>s. s\<lparr>d_lock := spinlock_new\<rparr>"
  by unfold_locales (auto simp: d_lock_it_def d_unlock_it_def spinlock_lock_def spinlock_unlock_def spin_held_def)

text \<open>
  Opening a port by name asks for the list of names while it holds the lock that the list is guarded by.
\<close>

lemma serial_open_port_deadlock:
  "serial_open_port port baudrate databits stopbits parity s = Fail Deadlock"
proof -
  let ?rest = "\<lambda>(names, s).
       bind_res (serial_count_ports s) (\<lambda>(n, s).
       bind_res (find_port (take n names) 0 port) (\<lambda>found.
       case found of
         None \<Rightarrow> Ok ((- 1, False), s)
       | Some i \<Rightarrow> bind_res (x86_serial_open_port (int i) baudrate databits stopbits parity s) (\<lambda>(success, s).
           Ok ((int i, success), s))))"
  have "d_section (\<lambda>s1. bind_res (Ok ((), s1)) (\<lambda>(_, s2).
      bind_res (d_section (\<lambda>s. Ok (x86_serial_list_ports, s)) s2) ?rest)) s = Fail Deadlock"
    by (rule d_spin.nested_section_blocks) auto
  then show ?thesis by (simp add: serial_open_port_def serial_list_ports_def)
qed

section \<open>Programming a port\<close>

definition ready :: "serial \<Rightarrow> bool" where
  "ready s \<longleftrightarrow> \<not> spin_held (x_lock s) \<and> \<not> spin_held (d_lock s) \<and> length (port_open s) = 4"

lemma x_section_run:
  "\<not> spin_held (x_lock s) \<Longrightarrow> x_section f s =
     bind_res (f (s\<lparr>x_lock := (x_lock s)\<lparr>lock_val := 1\<rparr>\<rparr>)) (\<lambda>(x, s). Ok (x, x_unlock_it s))"
  by (simp add: with_lock_def x_lock_it_def spinlock_lock_def spin_held_def)

lemma d_section_run:
  "\<not> spin_held (d_lock s) \<Longrightarrow> d_section f s =
     bind_res (f (s\<lparr>d_lock := (d_lock s)\<lparr>lock_val := 1\<rparr>\<rparr>)) (\<lambda>(x, s). Ok (x, d_unlock_it s))"
  by (simp add: with_lock_def d_lock_it_def spinlock_lock_def spin_held_def)

lemma x86_serial_open_port_spec:
  assumes "ready s" "i < 4" "\<not> port_open s ! i" "5 \<le> databits" "databits \<le> 8" "1 \<le> stopbits" "stopbits \<le> 2" "baudrate \<noteq> 0"
  shows "\<exists>s'. x86_serial_open_port (int i) baudrate databits stopbits parity s = Ok (True, s') \<and> ready s' \<and>
    port_open s' = (port_open s)[i := True] \<and>
    bus s' = serial_program (port_offsets ! i) baudrate databits stopbits parity (bus s)"
  using assms
  by (auto simp: ready_def x86_serial_open_port_def x_section_run arr_get_def port_offsets_def x_unlock_it_def
      spinlock_unlock_def spin_held_def not_less [symmetric])

text \<open>An open or absent port is reported as opened, and a bad format is refused without a write to the bus.\<close>

lemma x86_serial_open_port_again:
  assumes "ready s" "i < 4" "port_open s ! i"
  shows "\<exists>s'. x86_serial_open_port (int i) baudrate databits stopbits parity s = Ok (True, s') \<and> bus s' = bus s"
  using assms
  by (auto simp: ready_def x86_serial_open_port_def x_section_run arr_get_def x_unlock_it_def)

lemma x86_serial_open_port_refused:
  assumes "ready s" "i < 4" "\<not> port_open s ! i" "databits < 5 \<or> 8 < databits \<or> stopbits < 1 \<or> 2 < stopbits"
  shows "\<exists>s'. x86_serial_open_port (int i) baudrate databits stopbits parity s = Ok (False, s') \<and> bus s' = bus s \<and>
    port_open s' = port_open s"
  using assms
  by (auto simp: ready_def x86_serial_open_port_def x_section_run arr_get_def x_unlock_it_def port_offsets_def)

text \<open>Reading: a byte is taken only while the status register reports an empty receiver.\<close>

lemma x86_serial_read_inverted:
  assumes "ready s" "i < 4" "\<And>tr. bit (dev tr (port_offsets ! i + 5)) 0"
  shows "\<exists>s'. x86_serial_read dev (int i) s = Ok (0, s')"
proof -
  have "ucast (dev (bus s) (port_offsets ! i + 5)) AND (1 :: u8) \<noteq> 0"
    using assms(3) and_exp_eq_0_iff_not_bit [of "ucast (dev (bus s) (port_offsets ! i + 5)) :: u8" 0]
    by (simp add: bit_simps)
  then show ?thesis
    using assms(1,2)
    by (auto simp: ready_def x86_serial_read_def x_section_run arr_get_def port_offsets_def inb_def Let_def)
qed

end
