(* ===== verification/Tty.thy ===== *)
theory Tty
  imports Textmode Serial Scheduler Pipe Fmt
begin

text \<open>
  The terminal (\<open>kernel/dev/tty.cpp\<close>), its output thread, the debug channel (\<open>kernel/debug.cpp\<close>) and the kernel panic
  screen (\<open>kernel/panic.cpp\<close>). The two pipes of the terminal are the entries \<open>INPIPE\<close> and \<open>OUTPIPE\<close> of the
  kernel's pipe store; the console record adds the terminal's own lock and flags, the text screen and the serial
  driver. The output thread runs forever: \<open>tty_out_step\<close> is one turn of its loop.
\<close>

definition INPIPE :: nat where "INPIPE = 0"
definition OUTPIPE :: nat where "OUTPIPE = 1"

record console =
  ck :: kernel
  tty_initiated :: bool
  tty_serial_port :: int
  tty_lock :: spinlock_t
  screen :: textmode
  uart :: serial

definition console_start :: "kernel \<Rightarrow> u16 list \<Rightarrow> console" where
  "console_start k page = \<lparr>ck = k, tty_initiated = False, tty_serial_port = - 1, tty_lock = spinlock_new,
     screen = textmode_start page, uart = serial_start\<rparr>"

abbreviation inpipe :: "console \<Rightarrow> pipe_t" where
  "inpipe s \<equiv> pipe_store (ck s) INPIPE"

abbreviation outpipe :: "console \<Rightarrow> pipe_t" where
  "outpipe s \<equiv> pipe_store (ck s) OUTPIPE"

definition set_pipe :: "nat \<Rightarrow> pipe_t \<Rightarrow> console \<Rightarrow> console" where
  "set_pipe p f s = s\<lparr>ck := (ck s)\<lparr>pipe_store := (pipe_store (ck s))(p := f)\<rparr>\<rparr>"

definition on_k :: "(kernel \<Rightarrow> ('a \<times> kernel) res) \<Rightarrow> console \<Rightarrow> ('a \<times> console) res" where
  "on_k f s = bind_res (f (ck s)) (\<lambda>(x, k). Ok (x, s\<lparr>ck := k\<rparr>))"

definition tty_lock_it :: "console \<Rightarrow> console res" where
  "tty_lock_it s = bind_res (spinlock_lock (tty_lock s)) (\<lambda>l. Ok (s\<lparr>tty_lock := l\<rparr>))"

definition tty_unlock_it :: "console \<Rightarrow> console" where
  "tty_unlock_it s = s\<lparr>tty_lock := spinlock_unlock (tty_lock s)\<rparr>"

abbreviation tty_section :: "(console \<Rightarrow> ('a \<times> console) res) \<Rightarrow> console \<Rightarrow> ('a \<times> console) res" where
  "tty_section \<equiv> with_lock tty_lock_it tty_unlock_it"

interpretation tty_spin: lock_discipline tty_lock_it tty_unlock_it "\<lambda>s. spin_held (tty_lock s)" "\<lambda>s. s\<lparr>tty_lock := spinlock_new\<rparr>"
  by unfold_locales (auto simp: tty_lock_it_def tty_unlock_it_def spinlock_lock_def spinlock_unlock_def spin_held_def)

section \<open>The terminal\<close>

text \<open>The serial output in \<open>tty_init\<close> is behind \<open>if (false)\<close>; \<open>entry\<close> is the address of \<open>tty_out_thread\<close>.\<close>

definition tty_init :: "size_t \<Rightarrow> console \<Rightarrow> (unit \<times> console) res" where
  "tty_init entry = tty_section (\<lambda>s.
     if tty_initiated s then Ok ((), s)
     else bind_res (on_k (mount_pipe INPIPE (lit ''/dev/stdin'')) s) (\<lambda>(_, s).
          bind_res (on_k (mount_pipe OUTPIPE (lit ''/dev/stdout'')) s) (\<lambda>(_, s).
          bind_res (textmode_init (screen s)) (\<lambda>t.
          let s = s\<lparr>screen := t\<rparr>
          in bind_res (on_k get_current s) (\<lambda>(p, s).
             bind_res (on_k (spawn_thread p entry) s) (\<lambda>(_, s).
             Ok ((), s\<lparr>tty_initiated := True\<rparr>)))))))"

definition tty_write :: "u8 \<Rightarrow> console \<Rightarrow> (unit \<times> console) res" where
  "tty_write c = tty_section (\<lambda>s. Ok ((), set_pipe OUTPIPE (write_unsafe (outpipe s) c) s))"

fun tty_print_from :: "string \<Rightarrow> console \<Rightarrow> (unit \<times> console) res" where
  "tty_print_from [] s = Fail OutOfBounds"
| "tty_print_from (c # cs) s =
     (if c = NUL then Ok ((), s)
      else bind_res (tty_write (of_char c) s) (\<lambda>(_, s). tty_print_from cs s))"

definition tty_print :: "string \<Rightarrow> console \<Rightarrow> (unit \<times> console) res" where
  "tty_print str s = tty_print_from str s"

text \<open>A reader of the empty pipe waits with the lock held.\<close>

definition tty_read :: "console \<Rightarrow> (u8 \<times> console) res" where
  "tty_read = tty_section (\<lambda>s. bind_res (read_unsafe (inpipe s)) (\<lambda>(c, f). Ok (c, set_pipe INPIPE f s)))"

definition tty_write_in :: "u8 \<Rightarrow> console \<Rightarrow> console" where
  "tty_write_in c s =
     (let s = s\<lparr>ck := k_lock (ck s)\<rparr>;
          s = set_pipe INPIPE (write_unsafe (inpipe s) c) s
      in s\<lparr>ck := k_unlock (ck s)\<rparr>)"

definition tty_out_step :: "device \<Rightarrow> console \<Rightarrow> console res" where
  "tty_out_step dev s =
     bind_res (read_unsafe (outpipe s)) (\<lambda>(c, f).
     let s = set_pipe OUTPIPE f s
     in bind_res (textmode_write c (screen s)) (\<lambda>t.
        let s = s\<lparr>screen := t\<rparr>
        in bind_res (serial_write dev (tty_serial_port s) c (uart s)) (\<lambda>(_, u).
           let s = s\<lparr>uart := u\<rparr>
           in if c = 0x0A
              then bind_res (serial_write dev (tty_serial_port s) 0x0D (uart s)) (\<lambda>(_, u). Ok (s\<lparr>uart := u\<rparr>))
              else Ok s)))"

fun tty_out_steps :: "nat \<Rightarrow> device \<Rightarrow> console \<Rightarrow> console res" where
  "tty_out_steps 0 dev s = Ok s"
| "tty_out_steps (Suc n) dev s = bind_res (tty_out_step dev s) (tty_out_steps n dev)"

section \<open>Debug output and panic\<close>

text \<open>\<open>enabled\<close>: whether \<open>DEBUG_ENABLED\<close> is defined.\<close>

definition debug_init :: "bool \<Rightarrow> bool \<Rightarrow> bool" where
  "debug_init enabled initiated = (if enabled then True else initiated)"

definition debug_write :: "bool \<Rightarrow> u8 \<Rightarrow> console \<Rightarrow> (unit \<times> console) res" where
  "debug_write enabled c s = (if enabled then tty_write c s else Ok ((), s))"

definition debug_print :: "bool \<Rightarrow> string \<Rightarrow> console \<Rightarrow> (unit \<times> console) res" where
  "debug_print enabled str s =
     (if enabled
      then bind_res (tty_print (lit ''[DEBUG] '') s) (\<lambda>(_, s). tty_print str s)
      else Ok ((), s))"

fun textmode_print :: "string \<Rightarrow> textmode \<Rightarrow> textmode res" where
  "textmode_print [] t = Fail OutOfBounds"
| "textmode_print (c # cs) t =
     (if c = NUL then Ok t else bind_res (textmode_write (of_char c) t) (textmode_print cs))"

definition panic_text :: "string \<Rightarrow> string \<Rightarrow> fmt_arg list" where
  "panic_text email msg =
     [Str (lit (''Kernel Panic!'' @ [CHR 0x0A, CHR 0x0A])),
      Str (lit (''Something went badly wrong and the following error was produced.'' @ [CHR 0x0A, CHR 0x0A])),
      Str msg, Str (lit [CHR 0x0A, CHR 0x0A]),
      Str (lit (''Please send this error and all other relevant details concerning'' @ [CHR 0x0A] @ ''this crash to '')),
      Str email, Chr CHR ''.'']"

text \<open>The state in which \<open>panic\<close> hangs; \<open>email\<close> is \<open>P_MAINTAINER_EMAIL\<close>.\<close>

definition panic :: "string \<Rightarrow> string \<Rightarrow> console \<Rightarrow> console res" where
  "panic email msg s =
     (let s = s\<lparr>ck := (ck s)\<lparr>k_mem := (k_mem (ck s))\<lparr>km_hw := interrupt_enable False (hw (ck s))\<rparr>\<rparr>\<rparr>
      in bind_res (fmt 1024 (panic_text email msg)) (\<lambda>str.
         bind_res (textmode_clear (screen s)) (\<lambda>t.
         bind_res (textmode_print str (textmode_move 0 0 t)) (\<lambda>t. Ok (s\<lparr>screen := t\<rparr>)))))"

section \<open>Running the terminal\<close>

definition con_ok :: "console \<Rightarrow> bool" where
  "con_ok s \<longleftrightarrow> \<not> spin_held (tty_lock s) \<and> fifo_inv (inpipe s) \<and> fifo_inv (outpipe s) \<and> tm_ok (screen s) \<and>
     \<not> spin_held (d_lock (uart s)) \<and> tty_serial_port s = - 1"

lemma pipes_differ [simp]: "INPIPE \<noteq> OUTPIPE" "OUTPIPE \<noteq> INPIPE"
  by (simp_all add: INPIPE_def OUTPIPE_def)

lemma set_pipe_fields [simp]:
  "pipe_store (ck (set_pipe p f s)) = (pipe_store (ck s))(p := f)" "tty_lock (set_pipe p f s) = tty_lock s"
  "screen (set_pipe p f s) = screen s" "uart (set_pipe p f s) = uart s" "tty_serial_port (set_pipe p f s) = tty_serial_port s"
  "tty_initiated (set_pipe p f s) = tty_initiated s" "hw (ck (set_pipe p f s)) = hw (ck s)"
  by (simp_all add: set_pipe_def)

lemma relock [simp]: "\<not> spin_held l \<Longrightarrow> spinlock_unlock (l\<lparr>lock_val := 1\<rparr>) = l"
  by (cases l) (simp add: spinlock_unlock_def spin_held_def)

lemma tty_section_run:
  assumes "\<not> spin_held (tty_lock s)"
  shows "tty_section f s = bind_res (f (s\<lparr>tty_lock := (tty_lock s)\<lparr>lock_val := 1\<rparr>\<rparr>)) (\<lambda>(x, s). Ok (x, tty_unlock_it s))"
  using assms by (simp add: with_lock_def tty_lock_it_def spinlock_lock_def spin_held_def)

lemma tty_write_run:
  assumes "\<not> spin_held (tty_lock s)"
  shows "tty_write c s = Ok ((), set_pipe OUTPIPE (write_unsafe (outpipe s) c) s)"
  using assms by (simp add: tty_write_def tty_section_run tty_unlock_it_def set_pipe_def)

lemma tty_read_run:
  assumes "\<not> spin_held (tty_lock s)" "read_unsafe (inpipe s) = Ok (c, f)"
  shows "tty_read s = Ok (c, set_pipe INPIPE f s)"
  using assms by (simp add: tty_read_def tty_section_run tty_unlock_it_def set_pipe_def)

lemma set_pipe_set_pipe [simp]: "set_pipe p g (set_pipe p f s) = set_pipe p g s"
  by (simp add: set_pipe_def)

text \<open>Printing appends the bytes of the string to the output pipe.\<close>

lemma tty_print_run:
  assumes "\<not> spin_held (tty_lock s)" "is_cstr str"
  shows "tty_print str s = Ok ((), set_pipe OUTPIPE (fifo.put_all (outpipe s) (map of_char (cstr str))) s)"
  using assms unfolding tty_print_def
proof (induction str arbitrary: s)
  case Nil
  then show ?case by (simp add: is_cstr_def)
next
  case (Cons c cs)
  then show ?case
    by (cases "c = NUL") (auto simp: cstr_def is_cstr_def tty_write_run set_pipe_def)
qed

lemma serial_write_none:
  assumes "\<not> spin_held (d_lock u)"
  shows "\<exists>u'. serial_write dev (- 1) c u = Ok ((), u') \<and> \<not> spin_held (d_lock u')"
  using assms by (simp add: serial_write_def d_section_run d_unlock_it_def spinlock_unlock_def spin_held_def)

text \<open>One turn of the output thread takes a byte from the pipe and writes it to the screen.\<close>

lemma tty_out_step_run:
  assumes "con_ok s" "fifo_list (outpipe s) = c # cs"
  shows "\<exists>s'. tty_out_step dev s = Ok s' \<and> con_ok s' \<and> fifo_list (outpipe s') = cs \<and>
    tm_abs (screen s') = term_step c (tm_abs (screen s)) \<and> inpipe s' = inpipe s"
proof -
  have ok: "\<not> spin_held (tty_lock s)" "fifo_inv (inpipe s)" "fifo_inv (outpipe s)" "tm_ok (screen s)"
    "\<not> spin_held (d_lock (uart s))" "tty_serial_port s = - 1" using assms(1) by (auto simp: con_ok_def)
  obtain f where f: "read_unsafe (outpipe s) = Ok (c, f)" "fifo_inv f" "fifo_list f = cs"
    using fifo.take_some [OF ok(3) assms(2)] by blast
  obtain t where t: "textmode_write c (screen s) = Ok t" "tm_ok t" "tm_abs t = term_step c (tm_abs (screen s))"
    using textmode_write_refines [OF ok(4)] by blast
  obtain u where u: "serial_write dev (- 1) c (uart s) = Ok ((), u)" "\<not> spin_held (d_lock u)"
    using serial_write_none [OF ok(5)] by blast
  obtain v where v: "serial_write dev (- 1) 0x0D u = Ok ((), v)" "\<not> spin_held (d_lock v)"
    using serial_write_none [OF u(2)] by blast
  show ?thesis using f t u v ok by (simp add: tty_out_step_def con_ok_def Let_def)
qed

lemma tty_out_steps_run:
  assumes "con_ok s" "fifo_list (outpipe s) = cs @ ds"
  shows "\<exists>s'. tty_out_steps (length cs) dev s = Ok s' \<and> con_ok s' \<and> fifo_list (outpipe s') = ds \<and>
    tm_abs (screen s') = fold term_step cs (tm_abs (screen s)) \<and> inpipe s' = inpipe s"
  using assms
proof (induction cs arbitrary: s)
  case (Cons c cs)
  then obtain s1 where s1: "tty_out_step dev s = Ok s1" "con_ok s1" "fifo_list (outpipe s1) = cs @ ds"
      "tm_abs (screen s1) = term_step c (tm_abs (screen s))" "inpipe s1 = inpipe s"
    using tty_out_step_run [of s c "cs @ ds"] by auto
  then show ?case using Cons.IH [OF s1(2,3)] by auto
qed auto

text \<open>Text that fits the empty output pipe reaches the screen, in order, by as many turns of the output thread.\<close>

lemma print_reaches_screen:
  assumes "con_ok s" "is_cstr str" "fifo_list (outpipe s) = []" "length (cstr str) \<le> fifo_cap (outpipe s)"
  shows "\<exists>s1 s2. tty_print str s = Ok ((), s1) \<and> tty_out_steps (length (cstr str)) dev s1 = Ok s2 \<and> con_ok s2 \<and>
    fifo_list (outpipe s2) = [] \<and> tm_abs (screen s2) = fold term_step (map of_char (cstr str)) (tm_abs (screen s))"
proof -
  let ?cs = "map of_char (cstr str) :: u8 list"
  let ?s1 = "set_pipe OUTPIPE (fifo.put_all (outpipe s) ?cs) s"
  have inv: "fifo_inv (outpipe s)" "\<not> spin_held (tty_lock s)" using assms(1) by (auto simp: con_ok_def)
  have p: "fifo_inv (fifo.put_all (outpipe s) ?cs)" "fifo_list (fifo.put_all (outpipe s) ?cs) = ?cs"
    using fifo.put_all_room [OF inv(1), of ?cs] assms(3,4) by simp_all
  have "con_ok ?s1" using assms(1) p(1) by (simp add: con_ok_def)
  moreover have "fifo_list (outpipe ?s1) = ?cs @ []" using p(2) by simp
  ultimately obtain s2 where "tty_out_steps (length ?cs) dev ?s1 = Ok s2" "con_ok s2" "fifo_list (outpipe s2) = []"
      "tm_abs (screen s2) = fold term_step ?cs (tm_abs (screen ?s1))"
    using tty_out_steps_run by blast
  then show ?thesis using tty_print_run [OF inv(2) assms(2)] by simp
qed

section \<open>The panic screen\<close>

lemma textmode_print_run:
  assumes "tm_ok t" "is_cstr str"
  shows "\<exists>t'. textmode_print str t = Ok t' \<and> tm_ok t' \<and> tm_abs t' = fold term_step (map of_char (cstr str)) (tm_abs t)"
  using assms
proof (induction str arbitrary: t)
  case Nil
  then show ?case by (simp add: is_cstr_def)
next
  case (Cons c cs)
  show ?case
  proof (cases "c = NUL")
    case True
    then show ?thesis using Cons.prems by (simp add: cstr_def)
  next
    case False
    obtain t1 where t1: "textmode_write (of_char c) t = Ok t1" "tm_ok t1" "tm_abs t1 = term_step (of_char c) (tm_abs t)"
      using textmode_write_refines [OF Cons.prems(1)] by blast
    moreover have "is_cstr cs" using Cons.prems(2) False by (auto simp: is_cstr_def)
    ultimately show ?thesis using Cons.IH [OF t1(2)] False by (simp add: cstr_def)
  qed
qed

lemma panic_shows:
  assumes "length (cells (screen s)) = 2000" "args_text (panic_text email msg) = Ok txt" "NUL \<notin> set txt"
  shows "\<exists>s'. panic email msg s = Ok s' \<and> \<not> interrupt_enabled (hw (ck s')) \<and> tm_ok (screen s') \<and>
    tm_abs (screen s') = fold term_step (map of_char (take 1023 txt)) (replicate 2000 (cell 0x20), 0)"
proof -
  obtain b where b: "fmt 1024 (panic_text email msg) = Ok b" "is_cstr b" "cstr b = take 1023 txt"
    using fmt_text [of 1024, OF _ assms(2,3)] by auto
  let ?t = "textmode_move 0 0 ((screen s)\<lparr>cells := replicate 2000 (cell 0x20)\<rparr>)"
  have t: "tm_ok ?t" "tm_abs ?t = (replicate 2000 (cell 0x20), 0)"
    by (simp_all add: textmode_move_def textmode_cursor_def tm_ok_def tm_abs_def tm_pos_def Let_def)
  show ?thesis
    using b textmode_print_run [OF t(1) b(2)] t(2) textmode_clear_spec [OF assms(1)]
    by (auto simp: panic_def Let_def)
qed

end
