(* ===== verification/Pic.thy ===== *)
theory Pic
  imports Port_IO
begin

text \<open>
  The 8259 interrupt controllers: \<open>kernel/x86/pic.cpp\<close>, and the forwarding functions of
  \<open>kernel/x86/interrupt.cpp\<close>. Debug output and the delays, which do not touch the bus, are left out.
\<close>

definition PORT_PIC1_CMD :: u16 where "PORT_PIC1_CMD = 0x20"
definition PORT_PIC2_CMD :: u16 where "PORT_PIC2_CMD = 0xA0"
definition PORT_PIC1_DATA :: u16 where "PORT_PIC1_DATA = PORT_PIC1_CMD + 1"
definition PORT_PIC2_DATA :: u16 where "PORT_PIC2_DATA = PORT_PIC2_CMD + 1"
definition ICW1_ICW4 :: u8 where "ICW1_ICW4 = 0x01"
definition ICW1_INIT :: u8 where "ICW1_INIT = 0x10"
definition ICW4_8086 :: u8 where "ICW4_8086 = 0x01"
definition OCW3_READ_IRR :: u8 where "OCW3_READ_IRR = 0x0A"
definition OCW3_READ_ISR :: u8 where "OCW3_READ_ISR = 0x0B"
definition PIC_EOI :: u8 where "PIC_EOI = 0x20"
definition PIC_REMAP_OFFSET :: u8 where "PIC_REMAP_OFFSET = 32"

lemmas pic_consts = PORT_PIC1_CMD_def PORT_PIC2_CMD_def PORT_PIC1_DATA_def PORT_PIC2_DATA_def ICW1_ICW4_def
  ICW1_INIT_def ICW4_8086_def PIC_EOI_def PIC_REMAP_OFFSET_def

definition pic_init :: "trace \<Rightarrow> trace" where
  "pic_init tr =
     (let offset = PIC_REMAP_OFFSET;
          tr = outb PORT_PIC1_CMD (ICW1_INIT OR ICW1_ICW4) tr;
          tr = outb PORT_PIC2_CMD (ICW1_INIT OR ICW1_ICW4) tr;
          tr = outb PORT_PIC1_DATA offset tr;
          tr = outb PORT_PIC2_DATA (offset + 0x8) tr;
          tr = outb PORT_PIC1_DATA 0x4 tr;
          tr = outb PORT_PIC2_DATA 0x2 tr;
          tr = outb PORT_PIC1_DATA ICW4_8086 tr;
          tr = outb PORT_PIC2_DATA ICW4_8086 tr;
          tr = outb PORT_PIC1_DATA 0xFF tr
      in outb PORT_PIC2_DATA 0xFF tr)"

definition pic_get_irq_reg :: "device \<Rightarrow> u8 \<Rightarrow> trace \<Rightarrow> u16 \<times> trace" where
  "pic_get_irq_reg dev ocw3 tr =
     (let tr = outb PORT_PIC1_CMD ocw3 tr; tr = outb PORT_PIC2_CMD ocw3 tr;
          (hi, tr) = inb dev PORT_PIC2_CMD tr; (lo, tr) = inb dev PORT_PIC1_CMD tr
      in (push_bit 8 (ucast hi) OR ucast lo, tr))"

definition pic_get_irr :: "device \<Rightarrow> trace \<Rightarrow> u16 \<times> trace" where
  "pic_get_irr dev = pic_get_irq_reg dev OCW3_READ_IRR"

definition pic_get_isr :: "device \<Rightarrow> trace \<Rightarrow> u16 \<times> trace" where
  "pic_get_isr dev = pic_get_irq_reg dev OCW3_READ_ISR"

definition pic_ack :: "u8 \<Rightarrow> trace \<Rightarrow> trace" where
  "pic_ack irq tr =
     (if irq \<ge> 16 then tr
      else let tr = (if irq \<ge> 8 then outb PORT_PIC2_CMD PIC_EOI tr else tr)
           in outb PORT_PIC1_CMD PIC_EOI tr)"

text \<open>The shift and the complement are computed as \<open>int\<close> and cut to a byte.\<close>

definition pic_mask_at :: "device \<Rightarrow> u16 \<Rightarrow> u8 \<Rightarrow> bool \<Rightarrow> trace \<Rightarrow> trace" where
  "pic_mask_at dev port irq enable tr =
     (let (value, tr) = inb dev port tr;
          shifted = push_bit (unat irq) (1 :: 32 word)
      in outb port (if enable then ucast (ucast value AND NOT shifted) else ucast (ucast value OR shifted)) tr)"

definition pic_mask :: "device \<Rightarrow> u8 \<Rightarrow> bool \<Rightarrow> trace \<Rightarrow> trace" where
  "pic_mask dev irq enable tr =
     (if irq < 8 then pic_mask_at dev PORT_PIC1_DATA irq enable tr
      else if irq < 16 then pic_mask_at dev PORT_PIC2_DATA (irq - 8) enable tr
      else tr)"

definition interrupt_ack :: "u8 \<Rightarrow> trace \<Rightarrow> trace" where
  "interrupt_ack irq = pic_ack irq"

definition interrupt_mask :: "device \<Rightarrow> u8 \<Rightarrow> bool \<Rightarrow> trace \<Rightarrow> trace" where
  "interrupt_mask dev irq enable = pic_mask dev irq enable"

section \<open>The mask the controllers hold\<close>

text \<open>The interrupts masked by the bytes last written to the data ports.\<close>

definition mask_port :: "nat \<Rightarrow> u16" where
  "mask_port irq = (if irq < 8 then PORT_PIC1_DATA else PORT_PIC2_DATA)"

definition masked :: "trace \<Rightarrow> nat \<Rightarrow> bool" where
  "masked tr irq \<longleftrightarrow> bit (last_out (mask_port irq) tr 0) (irq mod 8)"

text \<open>
  What the code relies on: a read of a data port returns the mask register, the byte last written there. It is stated of
  every trace; in the middle of the initialisation words a controller returns its old mask instead, but the driver reads
  the ports only after \<open>pic_init\<close> has written the masks.
\<close>

definition latching :: "device \<Rightarrow> bool" where
  "latching dev \<longleftrightarrow> (\<forall>tr. \<forall>port\<in>{PORT_PIC1_DATA, PORT_PIC2_DATA}. ucast (dev tr port) = last_out port tr 0)"

lemma pic_ports_differ:
  "PORT_PIC1_DATA \<noteq> PORT_PIC2_DATA" "PORT_PIC2_DATA \<noteq> PORT_PIC1_DATA" "PORT_PIC1_CMD \<noteq> PORT_PIC1_DATA"
  "PORT_PIC1_CMD \<noteq> PORT_PIC2_DATA" "PORT_PIC2_CMD \<noteq> PORT_PIC1_DATA" "PORT_PIC2_CMD \<noteq> PORT_PIC2_DATA"
  by (simp_all add: pic_consts)

lemma bit_mask_byte:
  assumes "i < 8" "n < 8"
  shows "bit (if enable then ucast (ucast (v :: u8) AND NOT (push_bit i (1 :: 32 word)))
     else ucast (ucast v OR push_bit i (1 :: 32 word)) :: u8) n \<longleftrightarrow> (if n = i then \<not> enable else bit v n)"
  using assms by (auto simp: bit_simps)

lemma last_out_mask_at:
  assumes "latching dev" "port \<in> {PORT_PIC1_DATA, PORT_PIC2_DATA}" "unat irq < 8" "n < 8"
  shows "bit (last_out q (pic_mask_at dev port irq enable tr) 0) n \<longleftrightarrow>
    (if q = port \<and> n = unat irq then \<not> enable else bit (last_out q tr 0) n)"
proof -
  have "ucast (dev tr port) = last_out port tr 0" using assms(1,2) by (auto simp: latching_def)
  then show ?thesis
    using assms(3,4) bit_mask_byte [of "unat irq" n enable "last_out port tr 0"]
    by (auto simp: pic_mask_at_def inb_def outb_def last_out_append Let_def)
qed

text \<open>Enabling or disabling one interrupt sets its mask bit and leaves the fifteen others alone.\<close>

lemma pic_mask_bit:
  assumes "latching dev" "unat irq < 16" "n < 16"
  shows "masked (pic_mask dev irq enable tr) n \<longleftrightarrow> (if n = unat irq then \<not> enable else masked tr n)"
proof (cases "irq < 8")
  case True
  then have i: "unat irq < 8" by (simp add: word_less_nat_alt)
  then show ?thesis
    using True assms last_out_mask_at [of dev PORT_PIC1_DATA irq "n mod 8" "mask_port n" enable tr]
    by (auto simp: masked_def pic_mask_def mask_port_def pic_ports_differ split: if_splits)
next
  case False
  then have i: "8 \<le> unat irq" "irq < 16" using assms(2) by (simp_all add: word_less_nat_alt)
  then have u: "unat (irq - 8) = unat irq - 8"
    by (subst unat_sub) (simp_all add: word_le_nat_alt)
  then have lt: "unat (irq - 8) < 8" using assms(2) by simp
  have eq: "n = unat irq \<longleftrightarrow> \<not> n < 8 \<and> n mod 8 = unat irq - 8"
    using assms(2,3) i by (auto simp: mod_if)
  then show ?thesis
    using False i u lt assms last_out_mask_at [of dev PORT_PIC2_DATA "irq - 8" "n mod 8" "mask_port n" enable tr]
    unfolding eq by (simp add: masked_def pic_mask_def mask_port_def pic_ports_differ)
qed

lemma pic_mask_invalid: "16 \<le> unat irq \<Longrightarrow> pic_mask dev irq enable tr = tr"
  by (simp add: pic_mask_def word_less_nat_alt)

lemma pic_init_masks: "n < 16 \<Longrightarrow> masked (pic_init tr) n"
proof -
  assume "n < 16"
  have "(0xFF :: u8) = mask 8" by (simp add: mask_eq_exp_minus_1)
  then have "bit (0xFF :: u8) (n mod 8)" by (simp only: bit_mask_iff) simp
  then show ?thesis
    by (simp add: masked_def mask_port_def pic_init_def outb_def last_out_append Let_def pic_ports_differ)
qed

lemma pic_ack_trace:
  "pic_ack irq tr = (if 16 \<le> unat irq then tr
     else tr @ (if 8 \<le> unat irq then [Out8 PORT_PIC2_CMD PIC_EOI] else []) @ [Out8 PORT_PIC1_CMD PIC_EOI])"
  by (simp add: pic_ack_def outb_def word_le_nat_alt)

text \<open>Acknowledging an interrupt never changes a mask.\<close>

lemma pic_ack_masked: "masked (pic_ack irq tr) n = masked tr n"
  by (simp add: masked_def pic_ack_trace last_out_append mask_port_def pic_ports_differ)

text \<open>A device that behaves as required.\<close>

definition latch_dev :: device where
  "latch_dev tr port = ucast (last_out port tr 0)"

lemma latching_latch_dev: "latching latch_dev"
proof -
  have "ucast (ucast (x :: u8) :: u32) = x" for x by (rule bit_word_eqI) (simp add: bit_simps)
  then show ?thesis by (simp add: latching_def latch_dev_def)
qed

end
