(* ===== verification/Input.thy ===== *)
theory Input
  imports Tty Pic Ps2
begin

text \<open>
  Keyboard input: the scancode handler (\<open>kernel/x86/kbd.cpp\<close>, \<open>kernel/dev/kbd.cpp\<close>) and the line reader
  (\<open>kernel/util/in.cpp\<close>). The handler's loop ends when the controller has no byte left or at a code outside the
  table; \<open>line_edit\<close> is the abstract line editor that \<open>readline\<close> implements.
\<close>

section \<open>The keyboard handler\<close>

definition KBD_STATUS_PORT :: u16 where "KBD_STATUS_PORT = 0x64"
definition KBD_DATA_PORT :: u16 where "KBD_DATA_PORT = 0x60"

definition scancode_table :: string where
  "scancode_table = lit (''!!1234567890-='' @ [CHR 0x08, CHR 0x09] @ ''qwertyuiop[]'' @ [CHR 0x0A] @
     ''!asdfghjkl;'' @ [CHR 0x27] @ ''#!'' @ [CHR 0x5C] @ ''zxcvbnm,./!!! !FFFFFFFFFF!'')"

definition kbd_init :: "device \<Rightarrow> ps2 \<Rightarrow> trace \<Rightarrow> (ps2 \<times> trace) res" where
  "kbd_init dev p tr = bind_res (ps2_8042_open_port 0 p) (\<lambda>(_, p). Ok (p, interrupt_mask dev 1 True tr))"

definition dev_kbd_init :: "device \<Rightarrow> bool \<Rightarrow> ps2 \<Rightarrow> trace \<Rightarrow> (bool \<times> ps2 \<times> trace) res" where
  "dev_kbd_init dev initiated p tr =
     (if initiated then Ok (initiated, p, tr)
      else bind_res (kbd_init dev p tr) (\<lambda>(p, tr). Ok (True, p, tr)))"

partial_function (option) kbd_loop :: "device \<Rightarrow> console \<times> trace \<Rightarrow> (console \<times> trace) option" where
  "kbd_loop dev st =
     (let (s, tr) = st; (status, tr) = inb dev KBD_STATUS_PORT tr
      in if status AND 1 \<noteq> 1 then Some (s, tr)
         else let (keycode, tr) = inb dev KBD_DATA_PORT tr
              in if unat keycode \<ge> length scancode_table then Some (s, tr)
                 else kbd_loop dev (tty_write_in (of_char (scancode_table ! unat keycode)) s, tr))"

definition kbd_isr_main :: "device \<Rightarrow> size_t \<Rightarrow> console \<times> trace \<Rightarrow> (size_t \<times> console \<times> trace) res" where
  "kbd_isr_main dev stack st =
     (let (s, tr) = st; tr = interrupt_ack 1 tr
      in case kbd_loop dev (s, tr) of None \<Rightarrow> Fail Diverges | Some st \<Rightarrow> Ok (stack, st))"

text \<open>
  What the code relies on: the controller keeps the bytes of the keyboard in a queue, bit 0 of its status says
  whether the queue has a byte, and a read of the data port takes the first. \<open>codes\<close> are the bytes queued
  after the trace \<open>tr0\<close>.
\<close>

definition data_reads :: "trace \<Rightarrow> nat" where
  "data_reads tr = length (filter (\<lambda>e. case e of In8 p v \<Rightarrow> p = KBD_DATA_PORT | _ \<Rightarrow> False) tr)"

definition queued :: "device \<Rightarrow> u8 list \<Rightarrow> trace \<Rightarrow> bool" where
  "queued dev codes tr0 \<longleftrightarrow> (\<forall>tr. data_reads tr0 \<le> data_reads tr \<longrightarrow>
     (let n = data_reads tr - data_reads tr0
      in (bit (dev tr KBD_STATUS_PORT) 0 \<longleftrightarrow> n < length codes) \<and>
         (n < length codes \<longrightarrow> ucast (dev tr KBD_DATA_PORT) = codes ! n)))"

definition key_char :: "u8 \<Rightarrow> u8" where
  "key_char k = of_char (scancode_table ! unat k)"

definition is_key :: "u8 \<Rightarrow> bool" where
  "is_key k \<longleftrightarrow> unat k < length scancode_table"

lemma data_reads_simps [simp]:
  "data_reads (outb p x tr) = data_reads tr"
  "data_reads (snd (inb dev p tr)) = data_reads tr + (if p = KBD_DATA_PORT then 1 else 0)"
  by (simp_all add: data_reads_def outb_def inb_def Let_def)

lemma kbd_ports_differ [simp]: "KBD_STATUS_PORT \<noteq> KBD_DATA_PORT"
  by (simp add: KBD_STATUS_PORT_def KBD_DATA_PORT_def)

lemma and_1_bit: "(x :: u8) AND 1 = 1 \<longleftrightarrow> bit x 0"
  by (simp add: and_one_eq odd_iff_mod_2_eq_one [symmetric] bit_0)

text \<open>A turn of the loop on a controller with bytes queued.\<close>

lemma queued_status:
  assumes "queued dev codes tr0" "data_reads tr0 \<le> data_reads tr"
  shows "fst (inb dev KBD_STATUS_PORT tr) AND 1 = 1 \<longleftrightarrow> data_reads tr - data_reads tr0 < length codes"
  using assms by (simp add: queued_def inb_def Let_def and_1_bit bit_simps)

lemma queued_data:
  assumes "queued dev codes tr0" "data_reads tr0 \<le> data_reads tr" "data_reads tr - data_reads tr0 < length codes"
  shows "fst (inb dev KBD_DATA_PORT tr) = codes ! (data_reads tr - data_reads tr0)"
  using assms by (simp add: queued_def inb_def Let_def)

lemma kbd_loop_run:
  assumes "queued dev codes tr0" "data_reads tr0 \<le> data_reads tr" "drop (data_reads tr - data_reads tr0) codes = rest"
  shows "\<exists>tr'. kbd_loop dev (s, tr) = Some (fold tty_write_in (map key_char (takeWhile is_key rest)) s, tr')"
  using assms(2,3)
proof (induction rest arbitrary: s tr)
  case Nil
  then have "\<not> data_reads tr - data_reads tr0 < length codes" by simp
  then show ?case using queued_status [OF assms(1) Nil(1)]
    by (subst kbd_loop.simps) (simp add: case_prod_unfold Let_def)
next
  case (Cons k rest)
  let ?n = "data_reads tr - data_reads tr0"
  let ?tr1 = "snd (inb dev KBD_STATUS_PORT tr)"
  let ?tr2 = "snd (inb dev KBD_DATA_PORT ?tr1)"
  have n: "?n < length codes" using Cons.prems(2) by (metis drop_all list.distinct(1) not_le)
  have k: "fst (inb dev KBD_DATA_PORT ?tr1) = k"
    using queued_data [OF assms(1), of ?tr1] Cons.prems n by (simp add: nth_via_drop)
  have st: "fst (inb dev KBD_STATUS_PORT tr) AND 1 = 1" using queued_status [OF assms(1) Cons.prems(1)] n by simp
  show ?case
  proof (cases "is_key k")
    case True
    have "drop (data_reads ?tr2 - data_reads tr0) codes = rest"
      using Cons.prems by (simp add: Suc_diff_le) (metis drop_Suc tl_drop list.sel(3))
    then have "\<exists>tr'. kbd_loop dev (tty_write_in (key_char k) s, ?tr2) =
        Some (fold tty_write_in (map key_char (takeWhile is_key rest)) (tty_write_in (key_char k) s), tr')"
      using Cons.prems(1) by (intro Cons.IH) simp_all
    then show ?thesis using True st k
      by (subst kbd_loop.simps) (simp add: case_prod_unfold Let_def is_key_def key_char_def)
  next
    case False
    then show ?thesis using st k by (subst kbd_loop.simps) (simp add: case_prod_unfold Let_def is_key_def)
  qed
qed

text \<open>The handler returns, and the terminal has got the characters of the queued codes up to the first that is not in
  the table; the rest stay in the controller.\<close>

lemma kbd_isr_main_run:
  assumes "queued dev codes (interrupt_ack 1 tr)"
  shows "\<exists>tr'. kbd_isr_main dev stack (s, tr) =
    Ok (stack, fold tty_write_in (map key_char (takeWhile is_key codes)) s, tr')"
  using kbd_loop_run [OF assms order_refl, of codes s] by (auto simp: kbd_isr_main_def Let_def)

text \<open>A release code has bit 7 set and is never in the table.\<close>

lemma release_not_key: "bit k 7 \<Longrightarrow> \<not> is_key k"
proof -
  assume "bit k 7"
  then have "bit (unat k) 7" by (simp add: bit_unsigned_iff)
  then have "\<not> unat k < 2 ^ 7" by (auto simp: bit_iff_odd)
  then show ?thesis by (simp add: is_key_def scancode_table_def lit_def)
qed

lemma tty_write_in_fields [simp]:
  "inpipe (tty_write_in c s) = write_unsafe (inpipe s) c" "outpipe (tty_write_in c s) = outpipe s"
  "tty_lock (tty_write_in c s) = tty_lock s" "screen (tty_write_in c s) = screen s" "uart (tty_write_in c s) = uart s"
  "tty_serial_port (tty_write_in c s) = tty_serial_port s"
  by (simp_all add: tty_write_in_def set_pipe_def Let_def)

lemma fold_write_in:
  "inpipe (fold tty_write_in cs s) = fifo.put_all (inpipe s) cs" "outpipe (fold tty_write_in cs s) = outpipe s"
  "tty_lock (fold tty_write_in cs s) = tty_lock s" "screen (fold tty_write_in cs s) = screen s"
  "uart (fold tty_write_in cs s) = uart s" "tty_serial_port (fold tty_write_in cs s) = tty_serial_port s"
  by (induction cs arbitrary: s) simp_all

lemma typed_ok:
  assumes "con_ok s" "length (fifo_list (inpipe s)) + length cs \<le> fifo_cap (inpipe s)"
  shows "con_ok (fold tty_write_in cs s)" "fifo_list (inpipe (fold tty_write_in cs s)) = fifo_list (inpipe s) @ cs"
  using assms fifo.put_all_room [of "inpipe s" cs] by (simp_all add: con_ok_def fold_write_in)

section \<open>Reading a line\<close>

lemma tty_read_shrinks: "tty_read s = Ok (c, s') \<Longrightarrow> qlen (internal (inpipe s')) < qlen (internal (inpipe s))"
  by (auto simp: tty_read_def with_lock_def tty_lock_it_def tty_unlock_it_def set_pipe_def read_unsafe_def q_len_def
      q_pop_def Let_def size_dec_def split: if_splits)

lemma tty_write_inpipe: "tty_write c s = Ok (u, s') \<Longrightarrow> inpipe s' = inpipe s"
  by (auto simp: tty_write_def with_lock_def tty_lock_it_def tty_unlock_it_def set_pipe_def)

text \<open>Backspace, blank, backspace.\<close>

definition tty_rubout :: "console \<Rightarrow> (unit \<times> console) res" where
  "tty_rubout s = bind_res (tty_write 0x08 s) (\<lambda>(_, s). bind_res (tty_write 0x20 s) (\<lambda>(_, s). tty_write 0x08 s))"

lemma tty_rubout_inpipe: "tty_rubout s = Ok (u, s') \<Longrightarrow> inpipe s' = inpipe s"
  by (auto simp: tty_rubout_def dest!: tty_write_inpipe)

function readline_from :: "string \<Rightarrow> nat \<Rightarrow> nat \<Rightarrow> console \<Rightarrow> ((nat \<times> string) \<times> console) res" where
  "readline_from buff n i s =
     (if i + 1 < n
      then bind_res (tty_read s) (\<lambda>(c, s1).
           if c = 0x08
           then if i > 0
                then bind_res (tty_rubout s1) (\<lambda>(_, s2). readline_from buff n (i - 1) s2)
                else readline_from buff n i s1
           else bind_res (tty_write c s1) (\<lambda>(_, s2).
                if c = 0x0D \<or> c = 0x0A then Ok ((i, buff), s2)
                else if c \<noteq> 0
                then bind_res (arr_set buff i (char_of (unat c))) (\<lambda>b. readline_from b n (i + 1) s2)
                else readline_from buff n i s2))
      else Ok ((i, buff), s))"
  by pat_completeness auto
termination
  by (relation "measure (\<lambda>(buff, n, i, s). qlen (internal (inpipe s)))")
    (auto dest!: tty_read_shrinks tty_write_inpipe tty_rubout_inpipe)

declare readline_from.simps [simp del]

definition readline :: "string \<Rightarrow> nat \<Rightarrow> console \<Rightarrow> (string \<times> console) res" where
  "readline buff n s =
     bind_res (readline_from buff n 0 s) (\<lambda>((i, b), s').
     bind_res (arr_set b i NUL) (\<lambda>b. Ok (b, s')))"

text \<open>
  The abstract editor: the line so far and the input still to come give the finished line, the input left over
  and the echo; \<open>None\<close> when the input ends before the line does.
\<close>

fun line_edit :: "nat \<Rightarrow> u8 list \<Rightarrow> u8 list \<Rightarrow> (u8 list \<times> u8 list \<times> u8 list) option" where
  "line_edit n acc [] = (if length acc + 1 < n then None else Some (acc, [], []))"
| "line_edit n acc (c # cs) =
     (if length acc + 1 < n
      then let echo = (\<lambda>e. map_option (\<lambda>(l, r, es). (l, r, e @ es)))
           in if c = 0x08
              then if acc = [] then line_edit n acc cs else echo [0x08, 0x20, 0x08] (line_edit n (butlast acc) cs)
              else if c = 0x0D \<or> c = 0x0A then Some (acc, cs, [c])
              else echo [c] (line_edit n (if c = 0 then acc else acc @ [c]) cs)
      else Some (acc, c # cs, []))"

definition text_of :: "u8 list \<Rightarrow> string" where
  "text_of = map (\<lambda>b. char_of (unat b))"

lemma tty_rubout_run:
  assumes "\<not> spin_held (tty_lock s)"
  shows "tty_rubout s = Ok ((), set_pipe OUTPIPE (fifo.put_all (outpipe s) [0x08, 0x20, 0x08]) s)"
  using assms by (simp add: tty_rubout_def tty_write_run)

text \<open>The terminal's operations change the kernel in the contents of pipes only.\<close>

definition pipes_only :: "kernel \<Rightarrow> kernel \<Rightarrow> bool" where
  "pipes_only k k' \<longleftrightarrow> (\<exists>f. k' = k\<lparr>pipe_store := f\<rparr>)"

lemma pipes_only_refl [simp]: "pipes_only k k"
proof -
  have "k = k\<lparr>pipe_store := pipe_store k\<rparr>" by simp
  then show ?thesis unfolding pipes_only_def by metis
qed

lemma pipes_only_set_pipe [simp]:
  "pipes_only (ck (set_pipe p f s)) k = pipes_only (ck s) k" "pipes_only k (ck (set_pipe p f s)) = pipes_only k (ck s)"
  by (cases k; cases "ck s"; auto simp: pipes_only_def set_pipe_def)+

lemma readline_from_edit:
  assumes "\<not> spin_held (tty_lock s)" "fifo_inv (inpipe s)" "fifo_list (inpipe s) = cs" "length buff = n" "length acc < n"
    "take (length acc) buff = text_of acc" "line_edit n acc cs = Some (line, rest, es)"
  shows "\<exists>b s'. readline_from buff n (length acc) s = Ok ((length line, b), s') \<and> length b = n \<and> length line < n \<and>
    take (length line) b = text_of line \<and> fifo_inv (inpipe s') \<and> fifo_list (inpipe s') = rest \<and>
    outpipe s' = fifo.put_all (outpipe s) es \<and> \<not> spin_held (tty_lock s') \<and> pipes_only (ck s) (ck s')"
  using assms
proof (induction cs arbitrary: s buff acc es)
  case Nil
  then show ?case by (subst readline_from.simps) (auto split: if_splits)
next
  case (Cons c cs)
  show ?case
  proof (cases "length acc + 1 < n")
    case False
    then show ?thesis using Cons.prems by (subst readline_from.simps) auto
  next
    case True
    obtain f where f: "read_unsafe (inpipe s) = Ok (c, f)" "fifo_inv f" "fifo_list f = cs"
      using fifo.take_some [OF Cons.prems(2,3)] by blast
    let ?s1 = "set_pipe INPIPE f s"
    have r: "tty_read s = Ok (c, ?s1)" by (rule tty_read_run [OF Cons.prems(1) f(1)])
    let ?w = "set_pipe OUTPIPE (write_unsafe (outpipe s) c) ?s1"
    have w: "tty_write c ?s1 = Ok ((), ?w)" using tty_write_run [of ?s1] Cons.prems(1) by simp
    consider "c = 0x08" "acc = []" | "c = 0x08" "acc \<noteq> []" | "c = 0x0D \<or> c = 0x0A" | "c = 0"
      | "c \<noteq> 0x08" "c \<noteq> 0x0D" "c \<noteq> 0x0A" "c \<noteq> 0" by blast
    then show ?thesis
    proof cases
      case 1
      then show ?thesis using Cons.IH [of ?s1 buff acc es] Cons.prems True r f
        by (subst readline_from.simps) simp
    next
      case 2
      let ?s2 = "set_pipe OUTPIPE (fifo.put_all (outpipe s) [0x08, 0x20, 0x08]) ?s1"
      have rub: "tty_rubout ?s1 = Ok ((), ?s2)" using tty_rubout_run [of ?s1] Cons.prems(1) by simp
      obtain es' where es: "line_edit n (butlast acc) cs = Some (line, rest, es')" "es = [0x08, 0x20, 0x08] @ es'"
        using Cons.prems(7) True 2 by (auto simp: Let_def)
      have "take (length (butlast acc)) buff = text_of (butlast acc)"
        using Cons.prems(6) by (metis butlast_take length_butlast length_take map_butlast min_less_iff_conj diff_le_self
            take_take text_of_def min.absorb1 Cons.prems(4,5) butlast_conv_take less_or_eq_imp_le)
      then show ?thesis using Cons.IH [of ?s2 buff "butlast acc" es'] Cons.prems True r f rub es 2
        by (subst readline_from.simps) simp
    next
      case 3
      then show ?thesis using Cons.prems True r f w by (subst readline_from.simps) (auto simp: Let_def)
    next
      case 4
      obtain es' where es: "line_edit n acc cs = Some (line, rest, es')" "es = [c] @ es'"
        using Cons.prems(7) True 4 by (auto simp: Let_def)
      then show ?thesis using Cons.IH [of ?w buff acc es'] Cons.prems True r f w 4
        by (subst readline_from.simps) simp
    next
      case 5
      obtain es' where es: "line_edit n (acc @ [c]) cs = Some (line, rest, es')" "es = [c] @ es'"
        using Cons.prems(7) True 5 by (auto simp: Let_def)
      let ?b = "buff[length acc := char_of (unat c)]"
      have "take (length (acc @ [c])) ?b = text_of (acc @ [c])"
        using Cons.prems(4-6) by (simp add: take_Suc_conv_app_nth text_of_def)
      then show ?thesis using Cons.IH [of ?w ?b "acc @ [c]" es'] Cons.prems True r f w 5 es
        by (subst readline_from.simps) simp
    qed
  qed
qed

lemma line_edit_nonzero: "line_edit n acc cs = Some (line, rest, es) \<Longrightarrow> 0 \<notin> set acc \<Longrightarrow> 0 \<notin> set line"
proof (induction cs arbitrary: acc es)
  case (Cons c cs)
  have "0 \<notin> set (butlast acc)" using Cons.prems(2) by (meson in_set_butlastD)
  then show ?case using Cons.prems Cons.IH [of acc] Cons.IH [of "butlast acc"] Cons.IH [of "acc @ [c]"]
    by (auto simp: Let_def split: if_splits)
qed (auto split: if_splits)

lemma char_of_byte: "char_of (unat (b :: u8)) = NUL \<longleftrightarrow> b = 0"
proof -
  have "(of_char (char_of (unat b)) :: nat) = unat b"
    using unsigned_less [of b, where 'a = nat] by simp
  then have "char_of (unat b) = NUL \<longleftrightarrow> unat b = of_char NUL" by (metis of_char_eq_iff)
  then show ?thesis by (simp add: unat_eq_zero)
qed

lemma text_of_nonzero: "0 \<notin> set line \<Longrightarrow> NUL \<notin> set (text_of line)"
  by (auto simp: text_of_def char_of_byte dest!: sym [of NUL])

text \<open>The line reader fills the buffer with what the line editor makes of the input, terminated.\<close>

lemma readline_edits:
  assumes "con_ok s" "length buff = n" "0 < n" "line_edit n [] (fifo_list (inpipe s)) = Some (line, rest, es)"
  shows "\<exists>b s'. readline buff n s = Ok (b, s') \<and> length b = n \<and> is_cstr b \<and> cstr b = text_of line \<and>
    fifo_list (inpipe s') = rest \<and> outpipe s' = fifo.put_all (outpipe s) es \<and> \<not> spin_held (tty_lock s') \<and>
    pipes_only (ck s) (ck s')"
proof -
  obtain b s' where b: "readline_from buff n 0 s = Ok ((length line, b), s')" "length b = n" "length line < n"
      "take (length line) b = text_of line" "fifo_list (inpipe s') = rest" "outpipe s' = fifo.put_all (outpipe s) es"
      "\<not> spin_held (tty_lock s')" "pipes_only (ck s) (ck s')"
    using readline_from_edit [of s "fifo_list (inpipe s)" buff n "[]" line rest es] assms
    by (auto simp: con_ok_def text_of_def)
  let ?b = "b[length line := NUL]"
  have nz: "NUL \<notin> set (text_of line)" using text_of_nonzero line_edit_nonzero [OF assms(4)] by simp
  have "?b = text_of line @ NUL # drop (Suc (length line)) b"
    using b(2-4) by (simp add: upd_conv_take_nth_drop)
  then have "is_cstr ?b" "cstr ?b = text_of line"
    using nz by (auto simp: is_cstr_def cstr_append_NUL)
  then show ?thesis using b by (auto simp: readline_def)
qed

text \<open>Without a whole line the reader waits forever, holding the terminal's lock.\<close>

lemma readline_from_waits:
  assumes "\<not> spin_held (tty_lock s)" "fifo_inv (inpipe s)" "fifo_list (inpipe s) = cs" "length buff = n" "length acc < n"
    "line_edit n acc cs = None"
  shows "readline_from buff n (length acc) s = Fail Diverges"
  using assms
proof (induction cs arbitrary: s buff acc)
  case Nil
  then have "tty_read s = Fail Diverges"
    by (simp add: tty_read_def tty_section_run fifo.take_none)
  then show ?case using Nil by (subst readline_from.simps) (auto split: if_splits)
next
  case (Cons c cs)
  have True: "length acc + 1 < n" using Cons.prems(6) by (auto split: if_splits)
  obtain f where f: "read_unsafe (inpipe s) = Ok (c, f)" "fifo_inv f" "fifo_list f = cs"
    using fifo.take_some [OF Cons.prems(2,3)] by blast
  let ?s1 = "set_pipe INPIPE f s"
  let ?w = "set_pipe OUTPIPE (write_unsafe (outpipe s) c) ?s1"
  let ?u = "set_pipe OUTPIPE (fifo.put_all (outpipe s) [0x08, 0x20, 0x08]) ?s1"
  have r: "tty_read s = Ok (c, ?s1)" by (rule tty_read_run [OF Cons.prems(1) f(1)])
  have w: "tty_write c ?s1 = Ok ((), ?w)" using tty_write_run [of ?s1] Cons.prems(1) by simp
  have u: "tty_rubout ?s1 = Ok ((), ?u)" using tty_rubout_run [of ?s1] Cons.prems(1) by simp
  note ih = Cons.IH [of ?s1 buff acc] Cons.IH [of ?u buff "butlast acc"] Cons.IH [of ?w buff acc]
    Cons.IH [of ?w "buff[length acc := char_of (unat c)]" "acc @ [c]"]
  show ?case using ih Cons.prems True f r w u
    by (subst readline_from.simps) (auto simp: Let_def split: if_splits)
qed

end
