(* ===== verification/Log.thy ===== *)
theory Log
  imports Tty Vector
begin

text \<open>
  The kernel log (\<open>include/tupai/util/log.hpp\<close>, \<open>kernel/util/log.cpp\<close>): every character goes to the current
  entry and to the terminal, and a call ends by moving the entry to the list of entries. The log is a second
  instance of \<open>char_sink\<close>, one that never cuts.
\<close>

record logger =
  lcon :: console
  logs :: "char vector vector"
  clog :: "char vector"

definition log_end :: "logger \<Rightarrow> logger res" where
  "log_end s =
     (if vec_size (clog s) > 0
      then bind_res (vec_copy (clog s)) (\<lambda>c.
           bind_res (vec_push (logs s) c) (\<lambda>l.
           Ok (s\<lparr>logs := l, clog := fst (vec_move vec_new)\<rparr>)))
      else Ok s)"

definition log_write :: "char \<Rightarrow> logger \<Rightarrow> logger res" where
  "log_write c s =
     (let s = s\<lparr>lcon := (lcon s)\<lparr>ck := k_lock (ck (lcon s))\<rparr>\<rparr>
      in bind_res (vec_push (clog s) c) (\<lambda>v.
         bind_res (tty_write (of_char c) (lcon s)) (\<lambda>(_, con).
         Ok (s\<lparr>clog := v, lcon := con\<lparr>ck := k_unlock (ck con)\<rparr>\<rparr>))))"

definition log_put :: "char \<Rightarrow> logger res \<Rightarrow> logger res" where
  "log_put c r = bind_res r (log_write c)"

definition log :: "fmt_arg list \<Rightarrow> logger \<Rightarrow> logger res" where
  "log args s = bind_res (fmt_args log_put args (Ok s)) (\<lambda>r. bind_res r log_end)"

definition logln :: "fmt_arg list \<Rightarrow> logger \<Rightarrow> logger res" where
  "logln args = log (args @ [Chr CHR 0x0A])"

section \<open>What a call leaves behind\<close>

text \<open>\<open>kframe k k'\<close>: \<open>k'\<close> differs from \<open>k\<close> in the contents of pipes and the state of the hardware lock only.\<close>

definition kframe :: "kernel \<Rightarrow> kernel \<Rightarrow> bool" where
  "kframe k k' \<longleftrightarrow> k'\<lparr>pipe_store := pipe_store k, k_mem := k_mem k\<rparr> = k \<and>
     km_heap (k_mem k') = km_heap (k_mem k) \<and> km_end_offset (k_mem k') = km_end_offset (k_mem k)"

lemma kframe_refl [simp]: "kframe k k"
  by (simp add: kframe_def)

lemma kframe_fields:
  assumes "kframe k k'"
  shows "thread_table k' = thread_table k" "proc_table k' = proc_table k" "schedule k' = schedule k" "ctask k' = ctask k"
    "cthread k' = cthread k" "cproc k' = cproc k" "k_vfs k' = k_vfs k" "km_heap (k_mem k') = km_heap (k_mem k)"
    "thread_counter k' = thread_counter k" "proc_counter k' = proc_counter k"
    "vtables k' = vtables k" "rd_inodes k' = rd_inodes k" "pipes k' = pipes k" "ram k' = ram k"
proof -
  have eq: "k'\<lparr>pipe_store := pipe_store k, k_mem := k_mem k\<rparr> = k" using assms by (simp add: kframe_def)
  show "thread_table k' = thread_table k" using arg_cong [OF eq, of thread_table] by simp
  show "proc_table k' = proc_table k" using arg_cong [OF eq, of proc_table] by simp
  show "schedule k' = schedule k" using arg_cong [OF eq, of schedule] by simp
  show "ctask k' = ctask k" using arg_cong [OF eq, of ctask] by simp
  show "cthread k' = cthread k" using arg_cong [OF eq, of cthread] by simp
  show "cproc k' = cproc k" using arg_cong [OF eq, of cproc] by simp
  show "k_vfs k' = k_vfs k" using arg_cong [OF eq, of k_vfs] by simp
  show "thread_counter k' = thread_counter k" using arg_cong [OF eq, of thread_counter] by simp
  show "proc_counter k' = proc_counter k" using arg_cong [OF eq, of proc_counter] by simp
  show "vtables k' = vtables k" using arg_cong [OF eq, of vtables] by simp
  show "rd_inodes k' = rd_inodes k" using arg_cong [OF eq, of rd_inodes] by simp
  show "pipes k' = pipes k" using arg_cong [OF eq, of pipes] by simp
  show "km_heap (k_mem k') = km_heap (k_mem k)" using assms by (simp add: kframe_def)
  then show "ram k' = ram k" by (simp add: ram_def)
qed

lemma kframe_inv: "kframe k k' \<Longrightarrow> k_inv k' = k_inv k"
  using kframe_fields [of k k'] by (simp add: k_inv_def)

lemma kframe_trans: "kframe k k1 \<Longrightarrow> kframe k1 k2 \<Longrightarrow> kframe k k2"
  by (cases k; cases k1; cases k2) (simp add: kframe_def)

lemma kframe_lock: "kframe k (k_unlock ((k_lock k)\<lparr>pipe_store := f\<rparr>))"
  by (cases k) (simp add: kframe_def k_lock_def k_unlock_def)

text \<open>\<open>log_sound c0 ls r\<close>: the state \<open>r\<close> has been reached from the console \<open>c0\<close> by writing the characters of the
  current entry, which also went to the output pipe.\<close>

definition log_sound :: "console \<Rightarrow> char vector vector \<Rightarrow> logger res \<Rightarrow> bool" where
  "log_sound c0 ls r \<longleftrightarrow> (\<exists>s. r = Ok s \<and> vec_inv (clog s) \<and> \<not> spin_held (tty_lock c0) \<and> logs s = ls \<and>
     (lcon s)\<lparr>ck := ck c0\<rparr> = c0 \<and> kframe (ck c0) (ck (lcon s)) \<and>
     pipe_store (ck (lcon s)) = (pipe_store (ck c0))
       (OUTPIPE := fifo.put_all (outpipe c0) (map of_char (vec_list (clog s)))))"

definition log_text :: "logger res \<Rightarrow> string" where
  "log_text r = (case r of Ok s \<Rightarrow> vec_list (clog s) | Fail e \<Rightarrow> [])"

lemma put_all_snoc: "fifo.put_all p (xs @ [x]) = write_unsafe (fifo.put_all p xs) x"
  by (induction xs arbitrary: p) auto

lemma console_kernel:
  assumes "c\<lparr>ck := ck c0\<rparr> = c0"
  shows "tty_lock c = tty_lock c0" "screen c = screen c0" "uart c = uart c0" "tty_serial_port c = tty_serial_port c0"
    "tty_initiated c = tty_initiated c0"
  using assms by (metis console.surjective console.update_convs(1) console.select_convs)+

lemma log_put_step:
  assumes "log_sound c0 ls r"
  shows "log_sound c0 ls (log_put c r) \<and> log_text (log_put c r) = log_text r @ [c]"
proof -
  obtain s where s: "r = Ok s" "vec_inv (clog s)" "\<not> spin_held (tty_lock c0)" "logs s = ls"
      "(lcon s)\<lparr>ck := ck c0\<rparr> = c0" "kframe (ck c0) (ck (lcon s))"
      "pipe_store (ck (lcon s)) = (pipe_store (ck c0))
        (OUTPIPE := fifo.put_all (outpipe c0) (map of_char (vec_list (clog s))))"
    using assms by (auto simp: log_sound_def)
  obtain v where v: "vec_push (clog s) c = Ok v" "vec_inv v" "vec_list v = vec_list (clog s) @ [c]"
    using vec_push_ok [OF s(2)] by blast
  have "\<not> spin_held (tty_lock (lcon s))" using console_kernel(1) [OF s(5)] s(3) by simp
  then show ?thesis using s v kframe_trans [OF s(6) kframe_lock]
    by (simp add: log_put_def log_write_def log_sound_def log_text_def tty_write_run set_pipe_def put_all_snoc Let_def)
qed

interpretation log_out: char_sink log_put log_text "\<lambda>_. None" "log_sound c0 ls" for c0 ls
  by unfold_locales (simp_all add: log_put_step)

text \<open>The logger between two calls.\<close>

definition log_ok :: "logger \<Rightarrow> bool" where
  "log_ok s \<longleftrightarrow> vec_inv (clog s) \<and> vec_list (clog s) = [] \<and> vec_inv (logs s) \<and> \<not> spin_held (tty_lock (lcon s))"

text \<open>A call appends one entry with the text of its arguments, and sends the same text to the terminal.\<close>

lemma log_spec:
  assumes "log_ok s" "args_text args = Ok t" "t \<noteq> []"
  shows "\<exists>s' e. log args s = Ok s' \<and> log_ok s' \<and> vec_list (logs s') = vec_list (logs s) @ [e] \<and> vec_list e = t \<and>
    pipe_store (ck (lcon s')) = (pipe_store (ck (lcon s)))
      (OUTPIPE := fifo.put_all (outpipe (lcon s)) (map of_char t)) \<and>
    kframe (ck (lcon s)) (ck (lcon s')) \<and> (lcon s')\<lparr>ck := ck (lcon s)\<rparr> = lcon s"
proof -
  have ok: "vec_inv (clog s)" "vec_list (clog s) = []" "vec_inv (logs s)" "\<not> spin_held (tty_lock (lcon s))"
    using assms(1) by (auto simp: log_ok_def)
  then have "log_sound (lcon s) (logs s) (Ok s)" by (simp add: log_sound_def)
  from log_out.fmt_args_out [OF this assms(2)] obtain s1 where s1:
      "fmt_args log_put args (Ok s) = Ok (Ok s1)" "vec_inv (clog s1)" "vec_list (clog s1) = t" "logs s1 = logs s"
      "(lcon s1)\<lparr>ck := ck (lcon s)\<rparr> = lcon s" "kframe (ck (lcon s)) (ck (lcon s1))"
      "pipe_store (ck (lcon s1)) = (pipe_store (ck (lcon s)))
        (OUTPIPE := fifo.put_all (outpipe (lcon s)) (map of_char t))"
    using ok(2) by (auto simp: log_sound_def log_text_def)
  have n: "vec_size (clog s1) > 0" using s1(2,3) assms(3) by (auto simp: vec_size_def vec_list_def)
  obtain e where e: "vec_copy (clog s1) = Ok e" "vec_list e = t" using vec_copy_ok [OF s1(2)] s1(3) by auto
  obtain l where l: "vec_push (logs s) e = Ok l" "vec_inv l" "vec_list l = vec_list (logs s) @ [e]"
    using vec_push_ok [OF ok(3)] by blast
  have "vec_inv (vec_new :: char vector)" "vec_list (vec_new :: char vector) = []"
    by (simp_all add: vec_new_def vec_inv_def vec_list_def vec_buf_def)
  then show ?thesis using s1 n e l ok(4) console_kernel(1) [OF s1(5)]
    by (simp add: log_def log_end_def vec_move_def log_ok_def)
qed

end
