(* ===== verification/Exception.thy ===== *)
theory Exception
  imports Log Syscall
begin

text \<open>
  Processor exceptions (\<open>kernel/exception.cpp\<close>) and the register dump (\<open>kernel/x86/amd64/arch.cpp\<close>). An exception
  either stops the machine or kills the running thread and switches to the next one.
\<close>

definition exceptions_msg :: "string list" where
  "exceptions_msg = map lit
     [''Division By Zero'', ''Debug'', ''Non-Maskable Interrupt'', ''Breakpoint'', ''Overflow'', ''Out of Bounds'',
      ''Invalid Opcode'', ''No FPU Coprocessor'', ''Double Fault'', ''Coprocessor Segment Overrun'', ''Bad TSS'',
      ''Segment Not Present'', ''Stack Fault'', ''General Protection Fault'', ''Page Fault'', ''Reserved Exception'',
      ''x87 Floating-Point'', ''Alignment Check'', ''Machine Check'']"

definition exception_panic :: "bool list" where
  "exception_panic =
     [False, False, True, False, True, False, False, False, True, True, True, False, False, False, False, True,
      False, False, True]"

text \<open>The register block of \<open>isr.s\<close>: 8 bytes per register, \<open>r15\<close> first.\<close>

definition reg_names :: "string list" where
  "reg_names = [''r15'', ''r14'', ''r13'', ''r12'', ''r11'', ''r10'', ''r9'', ''r8'', ''rbp'', ''rdi'', ''rsi'', ''rdx'',
     ''rcx'', ''rbx'', ''rax'', ''rip'', ''cs'', ''rflags'']"

definition reg_offset :: "string \<Rightarrow> addr" where
  "reg_offset r = 8 * of_nat (length (takeWhile (\<lambda>x. x \<noteq> r) reg_names))"

definition arch_get_reg_state_size :: size_t where
  "arch_get_reg_state_size = 8 * of_nat (length reg_names)"

definition reg_line :: "memory \<Rightarrow> addr \<Rightarrow> string \<times> string \<Rightarrow> fmt_arg list" where
  "reg_line m state = (\<lambda>(label, r).
     [Str (lit (''  '' @ label @ '' = '')),
      Num False 64 (uint (if r = ''rsp'' then state + 8 else load64 m (state + reg_offset r))) 16 16])"

definition reg_lines :: "memory \<Rightarrow> addr \<Rightarrow> fmt_arg list list" where
  "reg_lines m state =
     [[Str (lit ''--- Register Dump ---'')], [Str (lit ''Execution registers:'')]] @
     map (reg_line m state) [(''RIP   '', ''rip''), (''RFLAGS'', ''rflags''), (''CS    '', ''cs''), (''RSP   '', ''rsp'')] @
     [[Str (lit ''General-purpose registers:'')]] @
     map (reg_line m state) [(''RAX   '', ''rax''), (''RBX   '', ''rbx''), (''RCX   '', ''rcx''), (''RDX   '', ''rdx''),
       (''RSI   '', ''rsi''), (''RDI   '', ''rdi''), (''RBP   '', ''rbp'')] @
     [[Str (lit ''Other registers:'')]] @
     map (reg_line m state) [(''R8    '', ''r8''), (''R9    '', ''r9''), (''R10   '', ''r10''), (''R11   '', ''r11''),
       (''R12   '', ''r12''), (''R13   '', ''r13''), (''R14   '', ''r14''), (''R15   '', ''r15'')]"

fun loglns :: "fmt_arg list list \<Rightarrow> logger \<Rightarrow> logger res" where
  "loglns [] s = Ok s"
| "loglns (l # ls) s = bind_res (logln l s) (loglns ls)"

definition arch_display_reg_state :: "addr \<Rightarrow> logger \<Rightarrow> logger res" where
  "arch_display_reg_state state s = loglns (reg_lines (ram (ck (lcon s))) state) s"

definition on_lk :: "(kernel \<Rightarrow> ('a \<times> kernel) res) \<Rightarrow> logger \<Rightarrow> ('a \<times> logger) res" where
  "on_lk f s = bind_res (on_k f (lcon s)) (\<lambda>(x, c). Ok (x, s\<lparr>lcon := c\<rparr>))"

definition quote :: string where "quote = [CHR 0x27]"

definition exception_line :: "id_t \<Rightarrow> string \<Rightarrow> string \<Rightarrow> size_t \<Rightarrow> fmt_arg list" where
  "exception_line tid pname msg error =
     [Str (lit (''Exception in thread '' @ quote)), Num True 64 (sint tid) 10 0, Str (lit (quote @ '' of process '' @ quote)),
      Str pname, Str (lit (quote @ '' : '')), Str msg, Str (lit '' [''), Num True 64 (sint error) 16 0, Chr CHR '']'']"

text \<open>\<open>debug\<close>: whether \<open>DEBUG_ENABLED\<close> is defined; \<open>raw\<close>: what the stack holds where \<open>pname\<close> is placed.\<close>

definition exception_handle ::
    "bool \<Rightarrow> string \<Rightarrow> size_t \<Rightarrow> size_t \<Rightarrow> size_t \<Rightarrow> logger \<Rightarrow> (switch \<times> logger) res" where
  "exception_handle debug raw stack code error s =
     bind_res (on_lk get_current_thread s) (\<lambda>(tid, s).
     bind_res (on_lk (thread_get_process tid) s) (\<lambda>(p, s).
     bind_res (on_lk (proc_get_name p raw PROC_NAME_MAX) s) (\<lambda>((_, pname), s).
     bind_res (arr_get exception_panic (unat code)) (\<lambda>stops.
     bind_res (arr_get exceptions_msg (unat code)) (\<lambda>msg.
     if stops then Fail (Panic (cstr msg))
     else bind_res (logln (exception_line tid pname msg error) s) (\<lambda>s.
          bind_res (if debug then arch_display_reg_state stack s else Ok s) (\<lambda>s.
          bind_res (on_lk (thread_kill tid) s) (\<lambda>(_, s).
          on_lk (scheduler_preempt stack) s))))))))"

section \<open>What an exception does\<close>

lemma exception_tables: "length exceptions_msg = 19" "length exception_panic = 19"
  by (simp_all add: exceptions_msg_def exception_panic_def)

lemma get_current_thread_run: "get_current_thread k = Ok (cthread k, k_unlock (k_lock k))"
  by (simp add: get_current_thread_def hw_section_def)

lemma kframe_unlock_lock [simp]: "kframe k (k_unlock (k_lock k))"
  using kframe_lock [of k "pipe_store k"] by (cases k) (simp add: kframe_def k_lock_def k_unlock_def)

lemma on_lk_run: "f (ck (lcon s)) = Ok (x, k) \<Longrightarrow> on_lk f s = Ok (x, s\<lparr>lcon := (lcon s)\<lparr>ck := k\<rparr>\<rparr>)"
  by (simp add: on_lk_def on_k_def)

lemma exception_text:
  assumes "is_cstr pname" "is_cstr msg" "sint tid \<noteq> - (2 ^ 63)" "sint error \<noteq> - (2 ^ 63)"
  shows "\<exists>t. args_text (exception_line tid pname msg error @ [Chr CHR 0x0A]) = Ok t \<and> t \<noteq> []"
proof -
  have r: "in_range True 64 (sint w)" for w :: "64 word"
    using sint_greater_eq [of w] sint_less [of w] by (simp add: in_range_def)
  have q: "is_cstr (lit x)" for x by (simp add: lit_def is_cstr_def)
  have "fmt_int_text True 64 (sint tid) 10 0 = Ok (int_text 64 (sint tid) 10 0)"
      "fmt_int_text True 64 (sint error) 16 0 = Ok (int_text 64 (sint error) 16 0)"
    using fmt_int_text_ok [OF _ _ _ r, of 10 tid 0] fmt_int_text_ok [OF _ _ _ r, of 16 error 0] assms(3,4) by simp_all
  then show ?thesis using assms(1,2) q by (simp add: exception_line_def)
qed

text \<open>
  An exception that does not stop the machine: a line is logged, the running thread is killed and taken out of
  the thread table, and the first waiting task runs.
\<close>

lemma exception_kills:
  assumes "log_ok s" "k_inv (ck (lcon s))" "unat code < 19" "\<not> exception_panic ! unat code"
    "cthread (ck (lcon s)) = t_thread (ctask (ck (lcon s)))" "t_thread (ctask (ck (lcon s))) = tid" "tid \<noteq> ID_INVALID"
    "ht_lookup (thread_table (ck (lcon s))) tid = Some th" "ht_lookup (proc_table (ck (lcon s))) (th_proc th) = Some p"
    "waiting (ck (lcon s)) = t # ts" "sint (cpriority t) \<le> 0"
    "is_cstr (p_name p)" "length raw = 256" "sint tid \<noteq> - (2 ^ 63)" "sint error \<noteq> - (2 ^ 63)"
  shows "\<exists>sw s'. exception_handle False raw stack code error s = Ok (sw, s') \<and> k_inv (ck (lcon s')) \<and>
    ctask (ck (lcon s')) = t \<and> cthread (ck (lcon s')) = t_thread t \<and> ht_lookup (thread_table (ck (lcon s'))) tid = None"
proof -
  let ?k = "ck (lcon s)" and ?u = "\<lambda>k. k_unlock (k_lock k)"
  have cur: "get_current_thread ?k = Ok (tid, ?u ?k)" using assms(5,6) by (simp add: get_current_thread_run)
  have prc: "thread_get_process tid (?u ?k) = Ok (th_proc th, ?u (?u ?k))"
    using assms(8) by (simp add: thread_get_process_def thread_get_run)
  obtain nm where nm: "str_cpy_n (p_name p) raw PROC_NAME_MAX = Ok nm" "is_cstr nm"
    using str_cpy_n_ok [OF assms(12), of PROC_NAME_MAX raw] assms(13) by (auto simp: PROC_NAME_MAX_def)
  let ?k3 = "?u (?u (?u ?k))" and ?msg = "exceptions_msg ! unat code"
  have name: "proc_get_name (th_proc th) raw PROC_NAME_MAX (?u (?u ?k)) = Ok ((0, nm), ?k3)"
    using assms(9) nm(1) by (simp add: proc_get_name_def hw_section_def)
  have "?msg \<in> set exceptions_msg" using assms(3) exception_tables by simp
  then have msg: "is_cstr ?msg" by (auto simp: exceptions_msg_def lit_def is_cstr_def)
  obtain tx where tx: "args_text (exception_line tid nm ?msg error @ [Chr CHR 0x0A]) = Ok tx" "tx \<noteq> []"
    using exception_text [OF nm(2) msg assms(14,15)] by blast
  define s1 where "s1 = s\<lparr>lcon := (lcon s)\<lparr>ck := ?k3\<rparr>\<rparr>"
  have ok1: "log_ok s1" "ck (lcon s1) = ?k3" using assms(1) by (simp_all add: log_ok_def s1_def)
  obtain s2 where s2: "logln (exception_line tid nm ?msg error) s1 = Ok s2" "kframe ?k3 (ck (lcon s2))"
    using log_spec [OF ok1(1) tx] ok1(2) by (auto simp: logln_def)
  have f: "kframe ?k (ck (lcon s2))" using kframe_trans [OF _ s2(2)] kframe_trans kframe_unlock_lock by metis
  note fields = kframe_fields [OF f]
  have i2: "k_inv (ck (lcon s2))" using kframe_inv [OF f] assms(2) by simp
  obtain k3 where k3: "thread_set tid (\<lambda>th. th\<lparr>th_state := DEAD\<rparr>) (ck (lcon s2)) = Ok ((), k3)" by (simp add: thread_set_run)
  have "ht_inv (thread_table (ck (lcon s2)))" using i2 by (simp add: k_inv_def)
  note look = thread_set_lookup [OF this k3]
  have same: "ctask k3 = ctask ?k" "waiting k3 = t # ts" "proc_table k3 = proc_table ?k"
    using k3 fields assms(10) by (auto simp: thread_set_run waiting_def split: option.splits)
  obtain sw k' where k': "scheduler_preempt stack k3 = Ok (sw, k')" "k_inv k'" "ctask k' = t" "cthread k' = t_thread t"
      "ht_lookup (thread_table k') tid = None"
    using scheduler_preempt_dead [of k3 "th\<lparr>th_state := DEAD\<rparr>" t ts stack] thread_set_inv(1) [OF i2 k3] look fields(1) same
      assms(6-9,11) by auto
  show ?thesis
    using cur prc name s2(1) k3 k' assms(3,4) exception_tables
    by (simp add: exception_handle_def on_lk_run s1_def [symmetric] thread_kill_def thread_set_state_def)
qed

end
