(* ===== verification/Cmos.thy ===== *)
theory Cmos
  imports Port_IO
begin

text \<open>
  The real-time clock: \<open>kernel/x86/cmos.cpp\<close>, \<open>include/tupai/dev/clock.hpp\<close> and \<open>kernel/dev/clock.cpp\<close>.
\<close>

record datetime_t =
  year :: "16 word"
  month :: u8
  day :: u8
  hour :: u8
  minute :: u8
  sec :: u8

definition datetime_new :: datetime_t where
  "datetime_new = \<lparr>year = 1970, month = 1, day = 1, hour = 0, minute = 0, sec = 0\<rparr>"

definition CMOS_CMD :: u16 where "CMOS_CMD = 0x70"
definition CMOS_DATA :: u16 where "CMOS_DATA = 0x71"
definition CURRENT_YEAR :: "16 word" where "CURRENT_YEAR = 2017"

text \<open>\<open>cent_reg\<close> is a static variable that nothing assigns.\<close>

definition cent_reg :: u8 where "cent_reg = 0"

definition cmos_updating :: "device \<Rightarrow> trace \<Rightarrow> bool \<times> trace" where
  "cmos_updating dev tr =
     (let tr = outb CMOS_CMD 0x0A tr; (v, tr) = inb dev CMOS_DATA tr in (v AND 0x80 > 0, tr))"

definition cmos_get_reg :: "device \<Rightarrow> u8 \<Rightarrow> trace \<Rightarrow> u8 \<times> trace" where
  "cmos_get_reg dev reg tr = (let tr = outb CMOS_CMD reg tr in inb dev CMOS_DATA tr)"

partial_function (option) cmos_wait :: "device \<Rightarrow> trace \<Rightarrow> trace option" where
  "cmos_wait dev tr = (let (busy, tr) = cmos_updating dev tr in if busy then cmos_wait dev tr else Some tr)"

text \<open>One pass over the registers, after the wait.\<close>

definition cmos_sample :: "device \<Rightarrow> u8 \<Rightarrow> trace \<Rightarrow> datetime_t \<times> u8 \<times> trace" where
  "cmos_sample dev cent tr =
     (let (s, tr) = cmos_get_reg dev 0x00 tr;
          (mi, tr) = cmos_get_reg dev 0x02 tr;
          (h, tr) = cmos_get_reg dev 0x04 tr;
          (d, tr) = cmos_get_reg dev 0x07 tr;
          (mo, tr) = cmos_get_reg dev 0x08 tr;
          (y, tr) = cmos_get_reg dev 0x09 tr;
          (c, tr) = (if cent_reg \<noteq> 0 then cmos_get_reg dev cent_reg tr else (cent, tr))
      in (\<lparr>year = ucast y, month = mo, day = d, hour = h, minute = mi, sec = s\<rparr>, c, tr))"

text \<open>The \<open>do\<close> loop; \<open>l_cent\<close> stays 0.\<close>

partial_function (option) cmos_loop ::
    "device \<Rightarrow> nat \<Rightarrow> datetime_t \<Rightarrow> u8 \<Rightarrow> trace \<Rightarrow> (datetime_t \<times> u8 \<times> trace) option" where
  "cmos_loop dev i time cent tr =
     (case cmos_wait dev tr of
        None \<Rightarrow> None
      | Some tr \<Rightarrow>
          (let l_time = time; (time, cent, tr) = cmos_sample dev cent tr; i = i + 1
           in if i \<le> 1 \<or> time \<noteq> l_time \<or> cent \<noteq> 0 then cmos_loop dev i time cent tr
              else Some (time, cent, tr)))"

definition bcd :: "u8 \<Rightarrow> u8" where
  "bcd x = (x AND 0x0F) + (x div 16) * 10"

definition cmos_convert :: "u8 \<Rightarrow> u8 \<Rightarrow> datetime_t \<Rightarrow> datetime_t" where
  "cmos_convert regb cent t =
     (let t = (if regb AND 0x04 = 0
               then \<lparr>year = (year t AND 0x0F) + (year t div 16) * 10, month = bcd (month t), day = bcd (day t),
                     hour = (hour t AND 0x0F) + (((hour t AND 0x70) div 16) * 10 OR (hour t AND 0x80)),
                     minute = bcd (minute t), sec = bcd (sec t)\<rparr>
               else t);
          t = (if regb AND 0x02 = 0 \<and> hour t AND 0x80 \<noteq> 0
               then t\<lparr>hour := ((hour t AND 0x7F) + 12) mod 24\<rparr> else t)
      in if cent_reg \<noteq> 0 then t\<lparr>year := year t + ucast cent * 100\<rparr>
         else let t = t\<lparr>year := year t + CURRENT_YEAR div 100 * 100\<rparr>
              in if year t <s CURRENT_YEAR then t\<lparr>year := year t + 100\<rparr> else t)"

definition cmos_read :: "device \<Rightarrow> trace \<Rightarrow> (datetime_t \<times> trace) option" where
  "cmos_read dev tr =
     (case cmos_loop dev 0 datetime_new 0 tr of
        None \<Rightarrow> None
      | Some (time, cent, tr) \<Rightarrow>
          (let (regb, tr) = cmos_get_reg dev 0x0B tr in Some (cmos_convert regb cent time, tr)))"

definition clock_init :: "bool \<Rightarrow> bool" where
  "clock_init clock_initiated = True"

definition clock_read :: "device \<Rightarrow> trace \<Rightarrow> (datetime_t \<times> trace) option" where
  "clock_read dev tr = cmos_read dev tr"

text \<open>What \<open>clock_read\<close> returns where there is no such clock.\<close>

definition clock_read_none :: datetime_t where
  "clock_read_none = datetime_new\<lparr>sec := 0, minute := 0, hour := 0, day := 1, month := 1, year := 2017\<rparr>"

section \<open>A clock that stands still\<close>

text \<open>
  What the code relies on: the data port shows the register selected by the last byte written to the
  command port. \<open>rtc dev regs\<close> says so for register contents \<open>regs\<close> that do not change during the read.
\<close>

definition rtc :: "device \<Rightarrow> (u8 \<Rightarrow> u8) \<Rightarrow> bool" where
  "rtc dev regs \<longleftrightarrow> (\<forall>tr. ucast (dev tr CMOS_DATA) = regs (last_out CMOS_CMD tr 0))"

definition raw_time :: "(u8 \<Rightarrow> u8) \<Rightarrow> datetime_t" where
  "raw_time regs = \<lparr>year = ucast (regs 0x09), month = regs 0x08, day = regs 0x07, hour = regs 0x04,
     minute = regs 0x02, sec = regs 0x00\<rparr>"

lemma cmos_get_reg_rtc: "rtc dev regs \<Longrightarrow> \<exists>tr'. cmos_get_reg dev reg tr = (regs reg, tr')"
  by (simp add: rtc_def cmos_get_reg_def inb_def Let_def)

lemma cmos_wait_rtc:
  assumes "rtc dev regs" "regs 0x0A AND 0x80 = 0"
  shows "\<exists>tr'. cmos_wait dev tr = Some tr'"
  using assms by (subst cmos_wait.simps) (simp add: rtc_def cmos_updating_def inb_def Let_def)

lemma cmos_sample_rtc:
  assumes "rtc dev regs"
  shows "\<exists>tr'. cmos_sample dev 0 tr = (raw_time regs, 0, tr')"
  using assms by (simp add: cmos_sample_def cmos_get_reg_def rtc_def inb_def Let_def raw_time_def cent_reg_def)

lemma cmos_loop_rtc:
  assumes "rtc dev regs" "regs 0x0A AND 0x80 = 0"
  shows "\<exists>tr'. cmos_loop dev 0 t0 0 tr = Some (raw_time regs, 0, tr')"
proof -
  obtain t1 where t1: "cmos_wait dev tr = Some t1" using cmos_wait_rtc [OF assms] by blast
  obtain t2 where t2: "cmos_sample dev 0 t1 = (raw_time regs, 0, t2)" using cmos_sample_rtc [OF assms(1)] by blast
  obtain t3 where t3: "cmos_wait dev t2 = Some t3" using cmos_wait_rtc [OF assms] by blast
  obtain t4 where t4: "cmos_sample dev 0 t3 = (raw_time regs, 0, t4)" using cmos_sample_rtc [OF assms(1)] by blast
  have "cmos_loop dev 1 (raw_time regs) 0 t2 = Some (raw_time regs, 0, t4)"
    using t3 t4 by (subst cmos_loop.simps) simp
  then show ?thesis using t1 t2 by (subst cmos_loop.simps) simp
qed

text \<open>The read returns, after two equal passes, with the converted contents of the registers.\<close>

lemma cmos_read_rtc:
  assumes "rtc dev regs" "regs 0x0A AND 0x80 = 0"
  shows "\<exists>tr'. cmos_read dev tr = Some (cmos_convert (regs 0x0B) 0 (raw_time regs), tr')"
proof -
  obtain t1 where t1: "cmos_loop dev 0 datetime_new 0 tr = Some (raw_time regs, 0, t1)"
    using cmos_loop_rtc [OF assms] by blast
  obtain t2 where "cmos_get_reg dev 0x0B t1 = (regs 0x0B, t2)" using cmos_get_reg_rtc [OF assms(1)] by blast
  then show ?thesis using t1 by (simp add: cmos_read_def)
qed

text \<open>Two decimal digits packed in a byte are decoded.\<close>

lemma bcd_digits: "a < 10 \<Longrightarrow> b < 10 \<Longrightarrow> bcd (of_nat (16 * a + b)) = of_nat (10 * a + b)"
proof -
  assume "a < 10" "b < 10"
  then have "a \<in> {0, 1, 2, 3, 4, 5, 6, 7, 8, 9}" "b \<in> {0, 1, 2, 3, 4, 5, 6, 7, 8, 9}" by auto
  then show ?thesis by (elim insertE emptyE) (simp_all add: bcd_def)
qed

section \<open>Decoding\<close>

definition to_bcd :: "nat \<Rightarrow> u8" where
  "to_bcd v = of_nat (16 * (v div 10) + v mod 10)"

lemma bcd_to_bcd: "v < 100 \<Longrightarrow> bcd (to_bcd v) = of_nat v"
  using bcd_digits [of "v div 10" "v mod 10"] by (simp add: to_bcd_def)

lemma bcd_hour:
  assumes "v < 24"
  shows "(to_bcd v AND 0x0F) + (((to_bcd v AND 0x70) div 16) * 10 OR (to_bcd v AND 0x80)) = of_nat v"
proof -
  have "a < 3 \<Longrightarrow> b < 10 \<Longrightarrow> ((of_nat (16 * a + b) :: u8) AND 0x0F) + (((of_nat (16 * a + b) AND 0x70) div 16) * 10 OR
     (of_nat (16 * a + b) AND 0x80)) = of_nat (10 * a + b)" for a b
  proof -
    assume "a < 3" "b < 10"
    then have "a \<in> {0, 1, 2}" "b \<in> {0, 1, 2, 3, 4, 5, 6, 7, 8, 9}" by auto
    then show ?thesis by (elim insertE emptyE) simp_all
  qed
  from this [of "v div 10" "v mod 10"] show ?thesis using assms by (simp add: to_bcd_def)
qed

lemma bcd_year:
  assumes "v < 100"
  shows "((ucast (to_bcd v) :: 16 word) AND 0x0F) + (ucast (to_bcd v) div 16) * 10 = of_nat v"
proof -
  have "a < 10 \<Longrightarrow> b < 10 \<Longrightarrow> (ucast (of_nat (16 * a + b) :: u8) AND 0x0F :: 16 word) +
     (ucast (of_nat (16 * a + b) :: u8) div 16) * 10 = of_nat (10 * a + b)" for a b
  proof -
    assume "a < 10" "b < 10"
    then have "a \<in> {0, 1, 2, 3, 4, 5, 6, 7, 8, 9}" "b \<in> {0, 1, 2, 3, 4, 5, 6, 7, 8, 9}" by auto
    then show ?thesis by (elim insertE emptyE) simp_all
  qed
  from this [of "v div 10" "v mod 10"] show ?thesis using assms by (simp add: to_bcd_def)
qed

lemma hour_small: "v < 24 \<Longrightarrow> (of_nat v :: u8) AND 0x80 = 0"
proof -
  assume "v < 24"
  then have "\<not> bit (of_nat v :: u8) 7" by (simp add: bit_of_nat_iff bit_nat_def)
  then show ?thesis using and_exp_eq_0_iff_not_bit [of "of_nat v :: u8" 7] by simp
qed

lemma sint_small16: "n < 2 ^ 15 \<Longrightarrow> sint (of_nat n :: 16 word) = int n"
  by (simp add: signed_of_nat signed_take_bit_int_eq_self)

text \<open>Two digits stand for a year from 2017 to 2116.\<close>

definition full_year :: "nat \<Rightarrow> nat" where
  "full_year v = (if v < 17 then 2100 + v else 2000 + v)"

lemma year_rule:
  assumes "v < 100"
  shows "(let y = of_nat v + CURRENT_YEAR div 100 * 100 in if y <s CURRENT_YEAR then y + 100 else y) =
    of_nat (full_year v)"
proof -
  have y: "(of_nat v + CURRENT_YEAR div 100 * 100 :: 16 word) = of_nat (v + 2000)" by (simp add: CURRENT_YEAR_def)
  have s: "sint (of_nat (v + 2000) :: 16 word) = int v + 2000" using assms sint_small16 [of "v + 2000"] by simp
  have c: "sint CURRENT_YEAR = 2017" by (simp add: CURRENT_YEAR_def)
  have "(of_nat (v + 2000) <s CURRENT_YEAR) = (v < 17)" unfolding word_sless_alt s c by auto
  then show ?thesis unfolding y Let_def full_year_def by simp
qed

text \<open>In 24-hour mode every field is the number its two decimal digits stand for.\<close>

lemma cmos_convert_24h:
  assumes "regb AND 0x04 = 0" "regb AND 0x02 \<noteq> 0" "y < 100" "mo < 100" "d < 100" "h < 24" "mi < 100" "s < 100"
  shows "cmos_convert regb 0 \<lparr>year = ucast (to_bcd y), month = to_bcd mo, day = to_bcd d, hour = to_bcd h,
      minute = to_bcd mi, sec = to_bcd s\<rparr> =
    \<lparr>year = of_nat (full_year y), month = of_nat mo, day = of_nat d, hour = of_nat h, minute = of_nat mi, sec = of_nat s\<rparr>"
  using assms year_rule [OF assms(3)]
  by (simp add: cmos_convert_def cent_reg_def bcd_to_bcd bcd_hour bcd_year Let_def split: if_splits)

text \<open>In 12-hour mode noon becomes midnight and midnight becomes noon.\<close>

lemma cmos_noon_midnight:
  "hour (cmos_convert 0 0 (t\<lparr>hour := 0x92\<rparr>)) = 0" "hour (cmos_convert 0 0 (t\<lparr>hour := 0x12\<rparr>)) = 12"
  by (simp_all add: cmos_convert_def cent_reg_def Let_def)

end
