(* ===== verification/Stream_Read.thy ===== *)
theory Stream_Read
  imports Syscall
begin

text \<open>
  Reading a file piece by piece: what a read through a descriptor and through \<open>fread\<close> (\<open>kernel/vfs/fd.cpp\<close>,
  \<open>kernel/libk/stdio.cpp\<close>) leaves unchanged, and where it moves the descriptor's offset, so that reads can be
  repeated.
\<close>

lemma initrd_read_frame:
  assumes "initrd_read_call fd rbuff n k = Ok (x, k')"
  shows "proc_table k' = proc_table k" "cproc k' = cproc k" "vtables k' = vtables k" "rd_inodes k' = rd_inodes k"
    "pipes k' = pipes k" "pipe_store k' = pipe_store k" "hw k' = hw k"
  using assms by (auto simp: initrd_read_call_def on_vfs_def Let_def case_prod_unfold split: option.splits)

lemma fd_target_hw:
  assumes "fd_target cp lfd k = Ok (x, k')" "hw_ok k"
  shows "hw_ok k'"
proof -
  have "hw_ok k2" if "proc_get_fd cp lfd k = Ok (y, k2)" for y k2
    using that [unfolded proc_get_fd_def] assms(2) by (rule hw_section_ok) (auto split: option.splits)
  then show ?thesis using assms(1) by (auto simp: fd_target_def hw_ok_def dest!: on_vfs_hw)
qed

lemma get_current_hw: "get_current k = Ok (x, k') \<Longrightarrow> hw_ok k \<Longrightarrow> hw_ok k'"
  unfolding get_current_def by (erule hw_section_ok) auto

text \<open>A read of an open file of the ram disk moves its offset and changes nothing but the buffer.\<close>

lemma fd_read_opened:
  assumes opn: "opened k lfd header d" and hwk: "hw_ok k" and off: "d_offset d \<le> tar_size (ram k) header"
    and apart: "\<And>j l. j < unat n \<Longrightarrow> l < unat (tar_size (ram k) header) \<Longrightarrow>
      rbuff + of_nat j \<noteq> tar_data header + of_nat l"
  defines "cnt \<equiv> min (unat n - 1) (unat (tar_size (ram k) header) - unat (d_offset d))"
  shows "\<exists>k'. fd_read lfd rbuff n k = Ok (of_nat cnt, k') \<and>
    bytes_at (ram k') rbuff cnt = bytes_at (ram k) (tar_data header + d_offset d) cnt \<and>
    (\<forall>a. (\<forall>j\<le>cnt. a \<noteq> rbuff + of_nat j) \<longrightarrow> ram k' a = ram k a) \<and>
    opened k' lfd header (d\<lparr>d_offset := d_offset d + of_nat cnt\<rparr>) \<and> hw_ok k' \<and> pipe_store k' = pipe_store k"
proof -
  have inv: "vfs_inv (k_vfs k)" and cp: "cproc k \<noteq> ID_INVALID" using opn by (simp_all add: opened_def)
  let ?fd = "lfd_of k lfd"
  obtain k1 k2 where k: "get_current k = Ok (cproc k, k1)" "same k k2"
      "fd_target (cproc k) lfd k1 = Ok ((?fd, vtable_of k ?fd), k2)"
    using fd_dispatch [OF inv cp] by blast
  have hw2: "hw_ok k2" using fd_target_hw [OF k(3)] get_current_hw [OF k(1) hwk] by blast
  have run: "fd_read lfd rbuff n k = initrd_read_call ?fd rbuff n k2"
    using k(1,3) cp opn same_fields(4) [OF k(2)] by (simp add: fd_read_def opened_def initrd_table_ok_def call_read_def)
  note f = same_fields [OF k(2)]
  obtain k' v where k': "initrd_read_call ?fd rbuff n k2 = Ok (of_nat cnt, k')"
      "fd_set_offset ?fd (d_offset d + of_nat cnt) (k_vfs k2) = Ok (0, v)" "k_vfs k' = v" "vfs_inv v"
      "bytes_at (ram k') rbuff cnt = bytes_at (ram k2) (tar_data header + d_offset d) cnt"
      "\<forall>a. (\<forall>j\<le>cnt. a \<noteq> rbuff + of_nat j) \<longrightarrow> ram k' a = ram k2 a"
    using initrd_read_call_spec [of k2 ?fd d header n rbuff] opn off apart f by (auto simp: cnt_def opened_def)
  note g = initrd_read_frame [OF k'(1)]
  have v: "ht_lookup (fd_table v) ?fd = Some (d\<lparr>d_offset := d_offset d + of_nat cnt\<rparr>)" "inode_table v = inode_table (k_vfs k)"
    using fd_update_inv [OF inv, of ?fd "\<lambda>d'. d'\<lparr>d_offset := d_offset d + of_nat cnt\<rparr>"] k'(2) opn f(1)
    by (auto simp: fd_set_offset_def opened_def)
  have "lfd_of k' lfd = ?fd" using g f by (simp add: lfd_of_def)
  moreover have "vtable_of k' ?fd = vtable_of k ?fd" using v k'(3) opn by (simp add: vtable_of_def opened_def)
  ultimately have "opened k' lfd header (d\<lparr>d_offset := d_offset d + of_nat cnt\<rparr>)"
    using opn v g f k'(3,4) by (simp add: opened_def initrd_table_ok_def)
  moreover have "hw_ok k'" using hw2 g(7) by (simp add: hw_ok_def)
  ultimately show ?thesis using run k' f g by auto
qed

lemma opened_valid:
  assumes "opened k lfd header d"
  shows "lfd_of k lfd \<noteq> ID_INVALID"
  using assms lookup_not_invalid [of "fd_table (k_vfs k)" "fd_counter (k_vfs k)" "lfd_of k lfd"]
  by (auto simp: opened_def vfs_inv_def)

lemma fd_close_returns:
  assumes "opened k lfd header d"
  shows "\<exists>k'. fd_close lfd k = Ok (0, k') \<and> pipe_store k' = pipe_store k"
proof -
  have inv: "vfs_inv (k_vfs k)" and cp: "cproc k \<noteq> ID_INVALID" using assms by (simp_all add: opened_def)
  obtain k1 k2 where k: "get_current k = Ok (cproc k, k1)" "same k k2"
      "fd_target (cproc k) lfd k1 = Ok ((lfd_of k lfd, vtable_of k (lfd_of k lfd)), k2)"
    using fd_dispatch [OF inv cp] by blast
  note f = same_fields [OF k(2)]
  obtain x v where v: "delete_fd (lfd_of k lfd) (k_vfs k2) = Ok (x, v)" using delete_fd_inv inv f(1) by metis
  have "\<exists>y k'. proc_delete_fd (cproc k) lfd k3 = Ok (y, k') \<and> pipe_store k' = pipe_store k3" for k3
    by (simp add: proc_delete_fd_def hw_section_def split: option.split)
  from this [of "k2\<lparr>k_vfs := v\<rparr>"] obtain y k' where
      "proc_delete_fd (cproc k) lfd (k2\<lparr>k_vfs := v\<rparr>) = Ok (y, k')" "pipe_store k' = pipe_store k2"
    by auto
  then show ?thesis using k(1,3) v cp assms f opened_valid [OF assms]
    by (simp add: fd_close_def opened_def initrd_table_ok_def call_close_def initrd_close_call_def on_vfs_def)
qed

lemma fclose_returns:
  assumes "opened k lfd header d" "hw_ok k"
  shows "\<exists>k'. fclose stk (lfd + 1) k = Ok (0, k') \<and> pipe_store k' = pipe_store k"
proof -
  have "opened (enable_interrupts k) lfd header d" using assms(1) by (rule same_opened [OF same_enable])
  from fd_close_returns [OF this] show ?thesis using assms(2) same_fields(6) [OF same_enable [of k]]
    by (auto simp: fclose_def sys_call_def syscall_isr_main_def Let_def call_numbers ucast_call hw_ok_def)
qed

section \<open>The archive is not disturbed\<close>

text \<open>The bytes of a record, header and file, are the same in both stores.\<close>

definition same_record :: "addr \<Rightarrow> nat \<Rightarrow> memory \<Rightarrow> memory \<Rightarrow> bool" where
  "same_record header filesize m m' \<longleftrightarrow> (\<forall>i < 512 + filesize. m' (header + of_nat i) = m (header + of_nat i))"

lemma same_record_refl [simp]: "same_record header filesize m m"
  by (simp add: same_record_def)

lemma same_record_trans: "same_record h n m1 m2 \<Longrightarrow> same_record h n m2 m3 \<Longrightarrow> same_record h n m1 m3"
  by (simp add: same_record_def)

lemma same_record_size:
  assumes "same_record header filesize m m'"
  shows "tar_size m' header = tar_size m header"
proof -
  have "m' (header + TAR_SIZE_OFF + of_nat i) = m (header + TAR_SIZE_OFF + of_nat i)" if "i < 12" for i
  proof -
    have "header + TAR_SIZE_OFF + of_nat i = header + of_nat (124 + i)" by (simp add: TAR_SIZE_OFF_def add.assoc)
    moreover have "124 + i < 512 + filesize" using that by simp
    ultimately show ?thesis using assms unfolding same_record_def by metis
  qed
  then show ?thesis unfolding tar_size_def by (intro tar_size_loop_cong) simp_all
qed

lemma same_record_data:
  assumes "same_record header filesize m m'" "a + n \<le> filesize"
  shows "bytes_at m' (header + 512 + of_nat a) n = bytes_at m (header + 512 + of_nat a) n"
proof -
  have "m' (header + 512 + of_nat a + of_nat i) = m (header + 512 + of_nat a + of_nat i)" if "i < n" for i
  proof -
    have "header + 512 + of_nat a + of_nat i = header + of_nat (512 + (a + i))" by (simp add: add.assoc)
    moreover have "512 + (a + i) < 512 + filesize" using that assms(2) by simp
    ultimately show ?thesis using assms(1) unfolding same_record_def by metis
  qed
  then show ?thesis by (simp add: bytes_at_def)
qed

lemma same_record_store64: "clear_of p 8 header (512 + filesize) \<Longrightarrow> same_record header filesize m (store64 p v m)"
  by (simp add: same_record_def store64_clear)

lemma hw_ok_set_ram [simp]: "hw_ok (set_ram m k) = hw_ok k"
  by (simp add: hw_ok_def interrupt_enabled_fields)

lemma hw_ok_enable: "hw_ok k \<Longrightarrow> hw_ok (enable_interrupts k)"
  by (simp add: hw_ok_def enable_interrupts_def)

section \<open>One character at a time\<close>

text \<open>
  \<open>fread(buff, 1, 2, f)\<close> delivers the next character of the file, or reports its end. The buffer, the local of the
  C library and the record must not overlap.
\<close>

definition apart_from :: "addr \<Rightarrow> addr \<Rightarrow> addr \<Rightarrow> nat \<Rightarrow> bool" where
  "apart_from loc ptr header filesize \<longleftrightarrow>
     clear_of loc 8 header (512 + filesize) \<and> clear_of ptr 2 header (512 + filesize) \<and> clear_of loc 8 ptr 2"

lemma fread_char:
  assumes opn: "opened k lfd header d" and hwk: "hw_ok k" and size: "unat (tar_size (ram k) header) = filesize"
    and off: "unat (d_offset d) \<le> filesize" and apart: "apart_from loc ptr header filesize"
  shows "\<exists>n k'. fread stk loc ptr 1 2 (lfd + 1) k = Ok (n, k') \<and> hw_ok k' \<and> pipe_store k' = pipe_store k \<and>
    same_record header filesize (ram k) (ram k') \<and>
    (if unat (d_offset d) < filesize
     then n = 1 \<and> ram k' ptr = ram k (header + 512 + d_offset d) \<and> opened k' lfd header (d\<lparr>d_offset := d_offset d + 1\<rparr>)
     else n = 0 \<and> opened k' lfd header d)"
proof -
  note c = apart [unfolded apart_from_def]
  let ?k0 = "set_ram (store64 loc 2 (ram k)) k"
  let ?ke = "enable_interrupts ?k0"
  note f = same_fields [OF same_enable [of ?k0]]
  have rec0: "same_record header filesize (ram k) (ram ?ke)" using c f(8) by (simp add: same_record_store64)
  have opn0: "opened ?ke lfd header d" using opn by (intro same_opened [OF same_enable] set_ram_opened)
  have hw0: "hw_ok ?ke" using hwk by (intro hw_ok_enable) simp
  have size0: "tar_size (ram ?ke) header = tar_size (ram k) header" using same_record_size [OF rec0] .
  have off0: "d_offset d \<le> tar_size (ram ?ke) header" using off size size0 by (simp add: word_le_nat_alt)
  have sep: "ptr + of_nat j \<noteq> tar_data header + of_nat l"
    if "j < unat (2 :: size_t)" "l < unat (tar_size (ram ?ke) header)" for j l
  proof -
    have "512 + l < 512 + filesize" using that(2) size size0 by simp
    moreover have "j < 2" using that(1) by simp
    ultimately have "ptr + of_nat j \<noteq> header + of_nat (512 + l)" using c unfolding clear_of_def by blast
    then show ?thesis by (simp add: tar_data_def add.assoc)
  qed
  let ?cnt = "min 1 (filesize - unat (d_offset d))"
  obtain k1 where k1: "fd_read lfd ptr 2 ?ke = Ok (of_nat ?cnt, k1)"
      "bytes_at (ram k1) ptr ?cnt = bytes_at (ram ?ke) (tar_data header + d_offset d) ?cnt"
      "\<forall>a. (\<forall>j\<le>?cnt. a \<noteq> ptr + of_nat j) \<longrightarrow> ram k1 a = ram ?ke a"
      "opened k1 lfd header (d\<lparr>d_offset := d_offset d + of_nat ?cnt\<rparr>)" "hw_ok k1" "pipe_store k1 = pipe_store ?ke"
    using fd_read_opened [where n = 2 and rbuff = ptr, OF opn0 hw0 off0 sep] size0 size by auto
  let ?k' = "set_ram (store64 loc (of_nat ?cnt) (ram k1)) k1"
  have run: "fread stk loc ptr 1 2 (lfd + 1) k = Ok (of_nat ?cnt, ?k')"
    using hwk k1(1) by (intro fread_run) (simp_all add: hw_ok_def)
  have rec1: "same_record header filesize (ram ?ke) (ram k1)"
    unfolding same_record_def
  proof (intro allI impI)
    fix i assume i: "i < 512 + filesize"
    have "header + of_nat i \<noteq> ptr + of_nat j" if "j \<le> ?cnt" for j
      using c i that unfolding clear_of_def by (metis le_imp_less_Suc min.bounded_iff numeral_2_eq_2 One_nat_def)
    then show "ram k1 (header + of_nat i) = ram ?ke (header + of_nat i)" using k1(3) by blast
  qed
  have rec: "same_record header filesize (ram k) (ram ?k')"
    using same_record_trans [OF same_record_trans [OF rec0 rec1]] c by (simp add: same_record_store64)
  have first: "ram ?k' ptr = ram k (header + 512 + d_offset d)" if lt: "unat (d_offset d) < filesize"
  proof -
    have one: "?cnt = 1" using lt by simp
    have "ram ?k' ptr = ram k1 ptr" using store64_clear [of loc ptr 2 0] c by simp
    also have "\<dots> = ram ?ke (header + 512 + d_offset d)" using k1(2) one by (simp add: bytes_at_def tar_data_def)
    also have "\<dots> = ram k (header + 512 + d_offset d)"
      using same_record_data [OF rec0, of "unat (d_offset d)" 1] lt by (simp add: bytes_at_def)
    finally show ?thesis .
  qed
  have fields: "hw_ok ?k'" "pipe_store ?k' = pipe_store k"
    using k1(5,6) f(6) by simp_all
  have "opened ?k' lfd header (d\<lparr>d_offset := d_offset d + of_nat ?cnt\<rparr>)" using k1(4) by (rule set_ram_opened)
  then show ?thesis using run rec first fields by (cases "unat (d_offset d) < filesize") auto
qed

end
