(* ===== verification/Shell.thy ===== *)
theory Shell
  imports Input Exception Cmos Vfs_Trace Stream_Read
begin

text \<open>
  The kernel shell (\<open>kernel/shell.cpp\<close>): splitting a command line into arguments, the commands and the command loop.
  The line buffer and the buffers of \<open>cat\<close> are arrays of the thread's stack and lie in the byte store, since the C
  library takes addresses; \<open>argv\<close> holds positions in the line buffer. The loop never ends: \<open>shell_turn\<close> is one turn.
\<close>

section \<open>Splitting a line\<close>

text \<open>\<open>argv\<close> holds the positions written to \<open>buff\<close> so far.\<close>

definition is_blank :: "char \<Rightarrow> bool" where
  "is_blank c \<longleftrightarrow> c = CHR '' '' \<or> c = CHR 0x09"

function split_from :: "string \<Rightarrow> nat \<Rightarrow> nat \<Rightarrow> bool \<Rightarrow> nat list \<Rightarrow> (nat list \<times> string) res" where
  "split_from cmd siz i in_arg argv =
     bind_res (arr_get cmd i) (\<lambda>c.
       if c = NUL then Ok (argv, cmd)
       else if is_blank c then split_from (cmd[i := NUL]) siz (Suc i) False argv
       else if in_arg then split_from cmd siz (Suc i) True argv
       else if length argv \<ge> siz then Ok (argv, cmd)
       else split_from cmd siz (Suc i) True (argv @ [i]))"
  by pat_completeness auto
termination
  by (relation "measure (\<lambda>(cmd, siz, i, in_arg, argv). length cmd - i)") (auto simp: arr_get_eq_Ok)

declare split_from.simps [simp del]

definition split_args :: "string \<Rightarrow> nat \<Rightarrow> (nat list \<times> string) res" where
  "split_args cmd siz = split_from cmd siz 0 False []"

text \<open>The abstract splitting: the maximal runs of characters that are no blanks.\<close>

function split_words :: "string \<Rightarrow> string list" where
  "split_words [] = []"
| "split_words (c # s) =
     (if is_blank c then split_words s
      else (c # takeWhile (\<lambda>x. \<not> is_blank x) s) # split_words (dropWhile (\<lambda>x. \<not> is_blank x) s))"
  by pat_completeness auto
termination
  by (relation "measure length") (auto simp: length_dropWhile_le le_imp_less_Suc)

definition arg_at :: "string \<Rightarrow> nat \<Rightarrow> string" where
  "arg_at cmd i = cstr (drop i cmd)"

lemma cstr_simps [simp]: "cstr [] = []" "cstr (c # s) = (if c = NUL then [] else c # cstr s)"
  by (simp_all add: cstr_def)

lemma arg_at_simps [simp]: "arg_at s 0 = cstr s" "arg_at (c # s) (Suc j) = arg_at s j"
  by (simp_all add: arg_at_def)

text \<open>
  From position \<open>length pre\<close> on: the blanks of the rest are cleared, the word that is being read goes on to the next
  blank, and the new positions are those of the words that follow, as many as there is room for.
\<close>

lemma split_from_rest:
  assumes "is_cstr rest"
  shows "\<exists>new rest'. split_from (pre @ rest) siz (length pre) in_arg argv =
      Ok (argv @ map (\<lambda>j. length pre + j) new, pre @ rest') \<and> length rest' = length rest \<and> is_cstr rest' \<and>
    (in_arg \<longrightarrow> cstr rest' = takeWhile (\<lambda>x. \<not> is_blank x) (cstr rest)) \<and>
    (\<forall>j\<in>set new. is_cstr (drop j rest')) \<and> map (arg_at rest') new = take (siz - length argv)
      (split_words (if in_arg then dropWhile (\<lambda>x. \<not> is_blank x) (cstr rest) else cstr rest))"
  using assms
proof (induction rest arbitrary: pre in_arg argv)
  case Nil
  then show ?case by (simp add: is_cstr_def)
next
  case (Cons c cs)
  have get: "arr_get (pre @ c # cs) (length pre) = Ok c" by (simp add: nth_append)
  note step = split_from.simps [of "pre @ c # cs" siz "length pre" in_arg argv] get
  consider "c = NUL" | "c \<noteq> NUL" "is_blank c" | "c \<noteq> NUL" "\<not> is_blank c" "\<not> in_arg" "length argv \<ge> siz"
    | "c \<noteq> NUL" "\<not> is_blank c" "in_arg \<or> length argv < siz" by linarith
  then show ?case
  proof cases
    case 1
    have "split_from (pre @ c # cs) siz (length pre) in_arg argv = Ok (argv, pre @ c # cs)"
      using get 1 by (subst split_from.simps) simp
    then show ?thesis using Cons.prems 1 by (intro exI [of _ "[]"] exI [of _ "c # cs"]) simp
  next
    case 2
    have cs: "is_cstr cs" using Cons.prems 2 by (auto simp: is_cstr_def)
    obtain new cs' where IH: "split_from ((pre @ [NUL]) @ cs) siz (length (pre @ [NUL])) False argv =
        Ok (argv @ map (\<lambda>j. length (pre @ [NUL]) + j) new, (pre @ [NUL]) @ cs')" "length cs' = length cs"
        "\<forall>j\<in>set new. is_cstr (drop j cs')" "map (arg_at cs') new = take (siz - length argv) (split_words (cstr cs))"
      using Cons.IH [OF cs, of "pre @ [NUL]" False argv] by auto
    show ?thesis
      using IH 2 by (intro exI [of _ "map Suc new"] exI [of _ "NUL # cs'"])
        (simp add: step list_update_append comp_def is_cstr_def)
  next
    case 3
    have "split_from (pre @ c # cs) siz (length pre) in_arg argv = Ok (argv, pre @ c # cs)"
      using get 3 by (subst split_from.simps) simp
    then show ?thesis using Cons.prems 3 by (intro exI [of _ "[]"] exI [of _ "c # cs"]) simp
  next
    case 4
    have cs: "is_cstr cs" using Cons.prems 4 by (auto simp: is_cstr_def)
    let ?argv = "if in_arg then argv else argv @ [length pre]"
    obtain new cs' where IH: "split_from ((pre @ [c]) @ cs) siz (length (pre @ [c])) True ?argv =
        Ok (?argv @ map (\<lambda>j. length (pre @ [c]) + j) new, (pre @ [c]) @ cs')" "length cs' = length cs" "is_cstr cs'"
        "cstr cs' = takeWhile (\<lambda>x. \<not> is_blank x) (cstr cs)"
        "\<forall>j\<in>set new. is_cstr (drop j cs')"
        "map (arg_at cs') new = take (siz - length ?argv) (split_words (dropWhile (\<lambda>x. \<not> is_blank x) (cstr cs)))"
      using Cons.IH [OF cs, of "pre @ [c]" True ?argv] by auto
    have room: "\<not> in_arg \<Longrightarrow> siz - length argv = Suc (siz - Suc (length argv))" using 4 by simp
    show ?thesis
      using IH 4 room
      by (intro exI [of _ "if in_arg then map Suc new else 0 # map Suc new"] exI [of _ "c # cs'"])
        (auto simp: step comp_def is_cstr_def)
  qed
qed

text \<open>The arguments are the words of the line, as many as \<open>argv\<close> has room for.\<close>

lemma split_args_words:
  assumes "is_cstr cmd"
  shows "\<exists>argv cmd'. split_args cmd siz = Ok (argv, cmd') \<and> length cmd' = length cmd \<and> is_cstr cmd' \<and>
    (\<forall>j\<in>set argv. is_cstr (drop j cmd')) \<and> map (arg_at cmd') argv = take siz (split_words (cstr cmd))"
  using split_from_rest [OF assms, of "[]" siz False "[]"] by (auto simp: split_args_def)

section \<open>The shell's environment\<close>

text \<open>
  What the build and the compiler provide: where the arrays \<open>buff[64]\<close> and \<open>buff[2]\<close>, the C library's local and
  the literals used as pointers lie, the names of the project (\<open>P_NAME_DECORATIVE\<close> and so on), the bounds of the
  kernel image, the hardware, and the stack of the thread when it traps. \<open>e_depth\<close> is the fuel of the tree printer.
\<close>

record shell_env =
  e_stk :: size_t
  e_loc :: addr
  e_line :: addr
  e_pair :: addr
  e_out_name :: addr
  e_blank :: addr
  e_name :: string
  e_version :: string
  e_maintainer :: string
  e_kernel_start :: addr
  e_kernel_end :: addr
  e_dev :: device
  e_debug :: bool
  e_raw :: string
  e_depth :: nat

record shell =
  slog :: logger
  sbus :: trace
  sstdout :: addr

abbreviation sk :: "shell \<Rightarrow> kernel" where
  "sk s \<equiv> ck (lcon (slog s))"

definition on_log :: "(logger \<Rightarrow> logger res) \<Rightarrow> shell \<Rightarrow> shell res" where
  "on_log f s = bind_res (f (slog s)) (\<lambda>l. Ok (s\<lparr>slog := l\<rparr>))"

definition on_kernel :: "(kernel \<Rightarrow> ('a \<times> kernel) res) \<Rightarrow> shell \<Rightarrow> ('a \<times> shell) res" where
  "on_kernel f s = bind_res (on_lk f (slog s)) (\<lambda>(x, l). Ok (x, s\<lparr>slog := l\<rparr>))"

definition print :: "fmt_arg list \<Rightarrow> shell \<Rightarrow> shell res" where
  "print args = on_log (log args)"

fun log_all :: "fmt_arg list list \<Rightarrow> shell \<Rightarrow> shell res" where
  "log_all [] s = Ok s"
| "log_all (l # ls) s = bind_res (print l s) (log_all ls)"

definition text_line :: "string \<Rightarrow> fmt_arg" where
  "text_line s = Str (lit (s @ [CHR 0x0A]))"

definition tupai_get_name_decorative :: "shell_env \<Rightarrow> string" where
  "tupai_get_name_decorative e = e_name e"

definition tupai_get_version :: "shell_env \<Rightarrow> string" where
  "tupai_get_version e = e_version e"

definition arch_get_family :: string where "arch_get_family = lit ''x86''"
definition arch_get_target :: string where "arch_get_target = lit ''amd64''"

definition arch_get_kernel_start :: "shell_env \<Rightarrow> addr" where
  "arch_get_kernel_start e = e_kernel_start e"

section \<open>The commands\<close>

definition shell_motd :: "shell_env \<Rightarrow> shell \<Rightarrow> shell res" where
  "shell_motd e = print
     [Str (tupai_get_name_decorative e), Str (lit '' ''), Str (tupai_get_version e), Str (lit '' on ''),
      Str arch_get_family, Str (lit ''/''), Str arch_get_target, Chr CHR 0x0A,
      Str (lit ''Copyright 2017, ''), Str (e_maintainer e), Chr CHR 0x0A]"

definition shell_help :: "shell \<Rightarrow> shell res" where
  "shell_help = print
     [text_line ''Available commands:'',
      text_line ''  help    -> Show this help text'',
      text_line ''  fs      -> Show filesystem tree'',
      text_line ''  proc    -> Show running processes'',
      text_line ''  cat     -> Display the contents of a file'',
      text_line ''  echo    -> Echo the typed text to stdout'',
      text_line ''  pool    -> Show kernel memory pool'',
      text_line ''  motd    -> Show the MOTD'',
      text_line ''  div     -> Trigger a divided-by-zero exception'',
      text_line ''  panic   -> Trigger a kernel panic'',
      text_line ''  info    -> Show system info'',
      text_line ''  time    -> Show the system time'']"

definition shell_fs :: "shell_env \<Rightarrow> shell \<Rightarrow> shell res" where
  "shell_fs e s = bind_res (on_kernel (on_vfs (vfs_display (e_depth e))) s) (\<lambda>(ls, s). log_all ls s)"

definition shell_proc :: "shell \<Rightarrow> shell res" where
  "shell_proc s = bind_res (proc_display (sk s)) (\<lambda>ls. log_all ls s)"

text \<open>The loop of \<open>cat\<close> reads one character at a time, the second byte of its buffer being for the terminator.\<close>

partial_function (option) cat_loop :: "shell_env \<Rightarrow> addr \<Rightarrow> shell \<Rightarrow> shell res option" where
  "cat_loop e f s =
     (case on_kernel (fread (e_stk e) (e_loc e) (e_pair e) 1 2 f) s of
        Fail x \<Rightarrow> Some (Fail x)
      | Ok (n, s1) \<Rightarrow>
          if n > 0
          then (case print [Chr (char_of (unat (ram (sk s1) (e_pair e))))] s1 of
                  Fail x \<Rightarrow> Some (Fail x)
                | Ok s2 \<Rightarrow> cat_loop e f s2)
          else Some (Ok s1))"

definition shell_arg :: "shell_env \<Rightarrow> nat \<Rightarrow> addr" where
  "shell_arg e a = e_line e + of_nat a"

definition shell_cat :: "shell_env \<Rightarrow> nat list \<Rightarrow> shell \<Rightarrow> shell res" where
  "shell_cat e argv s =
     (if length argv > 1
      then bind_res (on_kernel (fopen (e_stk e) (e_loc e) (shell_arg e (argv ! 1))) s) (\<lambda>(f, s).
           case cat_loop e f s of
             None \<Rightarrow> Fail Diverges
           | Some r \<Rightarrow> bind_res r (\<lambda>s.
               bind_res (on_kernel (fclose (e_stk e) f) s) (\<lambda>(_, s). Ok s)))
      else print [text_line ''Usage: cat <file>''] s)"

fun echo_loop :: "shell_env \<Rightarrow> addr \<Rightarrow> bool \<Rightarrow> nat list \<Rightarrow> shell \<Rightarrow> shell res" where
  "echo_loop e f first [] s = Ok s"
| "echo_loop e f first (a # as) s =
     bind_res (if first then Ok s
               else bind_res (on_kernel (fwrite (e_stk e) (e_loc e) (e_blank e) 1 1 f) s) (\<lambda>(_, s). Ok s)) (\<lambda>s.
     bind_res (str_len (mem_string (ram (sk s)) (shell_arg e a))) (\<lambda>n.
     bind_res (on_kernel (fwrite (e_stk e) (e_loc e) (shell_arg e a) 1 (of_nat n) f) s) (\<lambda>(_, s).
     echo_loop e f False as s)))"

definition shell_echo :: "shell_env \<Rightarrow> nat list \<Rightarrow> shell \<Rightarrow> shell res" where
  "shell_echo e argv s =
     (if length argv > 1
      then bind_res (on_kernel (fopen (e_stk e) (e_loc e) (e_out_name e)) s) (\<lambda>(f, s).
           bind_res (echo_loop e f True (tl argv) s) (\<lambda>s.
           bind_res (on_kernel (fclose (e_stk e) f) s) (\<lambda>(_, s). print [Chr CHR 0x0A] s)))
      else Ok s)"

definition shell_pool :: "shell \<Rightarrow> shell res" where
  "shell_pool s = bind_res (on_kernel (on_mem kmem_log) s) (\<lambda>(ls, s). log_all ls s)"

definition shell_info :: "shell_env \<Rightarrow> shell \<Rightarrow> shell res" where
  "shell_info e s =
     bind_res (print
       [text_line ''System Info:'', Str (lit ''  address_size -> ''), Num True 64 64 10 0, text_line '' bits'',
        Str (lit ''  kernel_start -> ''), Ptr (arch_get_kernel_start e), Chr CHR 0x0A,
        Str (lit ''  kernel_end   -> ''), Ptr (arch_get_kernel_end (e_kernel_end e) (km_end_offset (k_mem (sk s)))),
        Chr CHR 0x0A, Chr CHR 0x0A] s) (\<lambda>s.
     print (kmem_info (k_mem (sk s))) s)"

definition time_text :: "datetime_t \<Rightarrow> fmt_arg list" where
  "time_text time =
     [Str (lit ''The system time is ''),
      Num True 16 (sint (year time)) 10 4, Chr CHR ''-'', Num False 8 (uint (month time)) 10 2, Chr CHR ''-'',
      Num False 8 (uint (day time)) 10 2, Chr CHR '' '',
      Num False 8 (uint (hour time)) 10 2, Chr CHR '':'', Num False 8 (uint (minute time)) 10 2, Chr CHR '':'',
      Num False 8 (uint (sec time)) 10 2, Chr CHR 0x0A]"

definition shell_time :: "shell_env \<Rightarrow> shell \<Rightarrow> shell res" where
  "shell_time e s =
     (case clock_read (e_dev e) (sbus s) of
        None \<Rightarrow> Fail Diverges
      | Some (time, tr) \<Rightarrow> print (time_text time) (s\<lparr>sbus := tr\<rparr>))"

text \<open>The division traps: exception 0 with the dummy error code 0.\<close>

definition shell_div :: "shell_env \<Rightarrow> shell \<Rightarrow> (switch option \<times> shell) res" where
  "shell_div e s =
     bind_res (exception_handle (e_debug e) (e_raw e) (e_stk e) 0 0 (slog s)) (\<lambda>(sw, l).
     Ok (Some sw, s\<lparr>slog := l\<rparr>))"

section \<open>The command loop\<close>

text \<open>The chain of comparisons, in order.\<close>

fun shell_find :: "string \<Rightarrow> (string \<times> 'a) list \<Rightarrow> 'a \<Rightarrow> 'a res" where
  "shell_find arg [] other = Ok other"
| "shell_find arg ((name, x) # cmds) other =
     bind_res (str_equal arg (lit name)) (\<lambda>eq. if eq then Ok x else shell_find arg cmds other)"

definition stay :: "shell res \<Rightarrow> (switch option \<times> shell) res" where
  "stay r = bind_res r (\<lambda>s. Ok (None, s))"

definition shell_commands :: "shell_env \<Rightarrow> nat list \<Rightarrow> shell \<Rightarrow> (string \<times> (switch option \<times> shell) res) list" where
  "shell_commands e argv s =
     [(''help'', stay (shell_help s)), (''fs'', stay (shell_fs e s)), (''proc'', stay (shell_proc s)),
      (''cat'', stay (shell_cat e argv s)), (''echo'', stay (shell_echo e argv s)), (''pool'', stay (shell_pool s)),
      (''motd'', stay (shell_motd e s)), (''div'', shell_div e s),
      (''panic'', Fail (Panic ''Panic triggered artificially'')),
      (''info'', stay (shell_info e s)), (''time'', stay (shell_time e s))]"

definition shell_unknown :: "string \<Rightarrow> shell \<Rightarrow> (switch option \<times> shell) res" where
  "shell_unknown arg s =
     bind_res (str_len arg) (\<lambda>n.
     if n > 0
     then stay (print [Str (lit (''Command '' @ quote)), Str arg, text_line (quote @ '' not found!'')] s)
     else Ok (None, s))"

definition shell_command :: "shell_env \<Rightarrow> nat list \<Rightarrow> shell \<Rightarrow> (switch option \<times> shell) res" where
  "shell_command e argv s =
     (if argv = [] then Ok (None, s)
      else let arg = mem_string (ram (sk s)) (shell_arg e (argv ! 0))
           in bind_res (shell_find arg (shell_commands e argv s) (shell_unknown arg s)) (\<lambda>r. r))"

text \<open>\<open>readline(buff)\<close> and \<open>split_args(buff, argv, 64)\<close> on the array at \<open>e_line\<close>.\<close>

definition store_text :: "addr \<Rightarrow> string \<Rightarrow> memory \<Rightarrow> memory" where
  "store_text p str m = (\<lambda>a. let i = unat (a - p) in if i < length str then of_char (str ! i) else m a)"

definition shell_readline :: "shell_env \<Rightarrow> shell \<Rightarrow> (nat list \<times> shell) res" where
  "shell_readline e s =
     bind_res (readline (text_of (bytes_at (ram (sk s)) (e_line e) 64)) 64 (lcon (slog s))) (\<lambda>(buff, c).
     bind_res (split_args buff 64) (\<lambda>(argv, buff).
     Ok (argv, s\<lparr>slog := (slog s)\<lparr>lcon := c\<lparr>ck := set_ram (store_text (e_line e) buff (ram (ck c))) (ck c)\<rparr>\<rparr>\<rparr>)))"

definition shell_turn :: "shell_env \<Rightarrow> shell \<Rightarrow> (switch option \<times> shell) res" where
  "shell_turn e s =
     bind_res (print [Str (lit ''$ '')] s) (\<lambda>s.
     bind_res (shell_readline e s) (\<lambda>(argv, s). shell_command e argv s))"

text \<open>\<open>halted\<close> is never set: the loop only ends when the thread is killed.\<close>

fun shell_turns :: "nat \<Rightarrow> shell_env \<Rightarrow> shell \<Rightarrow> (switch option \<times> shell) res" where
  "shell_turns 0 e s = Ok (None, s)"
| "shell_turns (Suc n) e s =
     bind_res (shell_turn e s) (\<lambda>(sw, s). case sw of None \<Rightarrow> shell_turns n e s | Some _ \<Rightarrow> Ok (sw, s))"

definition shell_main :: "nat \<Rightarrow> shell_env \<Rightarrow> shell \<Rightarrow> (switch option \<times> shell) res" where
  "shell_main n e s =
     bind_res (on_kernel (fopen (e_stk e) (e_loc e) (e_out_name e)) s) (\<lambda>(f, s).
     let s = s\<lparr>sstdout := f\<rparr>
     in bind_res (shell_motd e s) (\<lambda>s.
        bind_res (print [text_line (''Type '' @ quote @ ''help'' @ quote @ '' for more info.'' @ [CHR 0x0A])] s) (\<lambda>s.
        shell_turns n e s)))"

section \<open>Reading a command\<close>

lemma unat_of_char: "unat (of_char c :: u8) = of_char c"
proof -
  have "(of_char c :: u8) = of_nat (of_char c)" by (simp only: of_nat_of_char)
  then show ?thesis using nat_of_char_less_256 [of c] by (simp add: unat_of_nat take_bit_nat_eq_self)
qed

lemma of_char_byte [simp]: "char_of (unat (of_char c :: u8)) = c"
  by (simp add: unat_of_char)

lemma byte_of_char [simp]: "of_char (char_of (unat b)) = (b :: u8)"
proof -
  have "(of_char (char_of (unat b)) :: nat) = unat b" using unsigned_less [of b, where 'a = nat] by simp
  moreover have "(of_char (char_of (unat b)) :: u8) = of_nat (of_char (char_of (unat b)))" by (simp only: of_nat_of_char)
  ultimately show ?thesis by simp
qed

lemma of_char_zero: "(of_char c :: u8) = 0 \<longleftrightarrow> c = NUL"
  using char_of_byte [of "of_char c"] by simp

text \<open>The string at an address is read back from the store.\<close>

lemma mem_string_text:
  assumes "\<And>i. i < length t \<Longrightarrow> m (p + of_nat i) = of_char (t ! i)" "length t < 2 ^ 64" "is_cstr (drop i t)"
  shows "mem_string_from m p i = cstr (drop i t) @ [NUL]"
  using assms(3)
proof (induction "length t - i" arbitrary: i)
  case 0
  then show ?case by (simp add: is_cstr_def)
next
  case (Suc n)
  then have i: "i < length t" by linarith
  then have d: "drop i t = t ! i # drop (Suc i) t" by (simp add: Cons_nth_drop_Suc)
  have m: "m (p + of_nat i) = of_char (t ! i)" using assms(1) i .
  show ?case
  proof (cases "t ! i = NUL")
    case True
    then show ?thesis using i assms(2) m d by (subst mem_string_from.simps) simp
  next
    case False
    have "is_cstr (drop (Suc i) t)" using Suc.prems d False by (auto simp: is_cstr_def)
    then have "mem_string_from m p (Suc i) = cstr (drop (Suc i) t) @ [NUL]" using Suc.hyps by simp
    then show ?thesis using i assms(2) m d False by (subst mem_string_from.simps) (simp add: of_char_zero)
  qed
qed

lemma store_text_at:
  assumes "i < length t" "length t < 2 ^ 64"
  shows "store_text p t m (p + of_nat i) = of_char (t ! i)"
  using assms by (simp add: store_text_def unat_of_nat take_bit_nat_eq_self)

lemma mem_string_store:
  assumes "length t < 2 ^ 64" "is_cstr (drop i t)"
  shows "mem_string (store_text p t m) (p + of_nat i) = arg_at t i @ [NUL]"
proof -
  have "store_text p t m (p + of_nat i + of_nat j) = of_char (drop i t ! j)" if "j < length (drop i t)" for j
    using store_text_at [of "i + j" t p m] that assms(1) by (simp add: add.assoc)
  then show ?thesis
    unfolding mem_string_def arg_at_def using mem_string_text [of "drop i t" "store_text p t m" "p + of_nat i" 0] assms
    by simp
qed

lemma length_split_words: "length (split_words s) \<le> length s"
proof (induction s rule: split_words.induct)
  case (2 c s)
  have "length (dropWhile (\<lambda>x. \<not> is_blank x) s) \<le> length s" by (rule length_dropWhile_le)
  then show ?case using 2 by auto
qed simp

lemma line_edit_length: "line_edit n acc cs = Some (l, rest, es) \<Longrightarrow> length acc < n \<Longrightarrow> length l < n"
proof (induction cs arbitrary: acc es)
  case (Cons c cs)
  show ?case using Cons.prems Cons.IH [of acc] Cons.IH [of "butlast acc"] Cons.IH [of "acc @ [c]"]
    by (auto simp: Let_def split: if_splits)
qed (auto split: if_splits)

text \<open>
  A command line: what the line editor makes of the input arrives in the line buffer, and the arguments are the
  words of the line.
\<close>

lemma shell_readline_words:
  assumes "con_ok (lcon (slog s))" "line_edit 64 [] (fifo_list (inpipe (lcon (slog s)))) = Some (l, rest, es)"
  shows "\<exists>argv s'. shell_readline e s = Ok (argv, s') \<and>
    map (\<lambda>a. mem_string (ram (sk s')) (shell_arg e a)) argv = map lit (split_words (text_of l)) \<and>
    fifo_list (inpipe (lcon (slog s'))) = rest \<and>
    outpipe (lcon (slog s')) = foldl write_unsafe (outpipe (lcon (slog s))) es \<and>
    \<not> spin_held (tty_lock (lcon (slog s'))) \<and> logs (slog s') = logs (slog s) \<and> clog (slog s') = clog (slog s) \<and>
    (\<exists>b k. length b = 64 \<and> pipes_only (sk s) k \<and> sk s' = set_ram (store_text (e_line e) b (ram k)) k)"
proof -
  let ?b0 = "text_of (bytes_at (ram (sk s)) (e_line e) 64)"
  have len: "length ?b0 = 64" by (simp add: text_of_def)
  obtain b c where b: "readline ?b0 64 (lcon (slog s)) = Ok (b, c)" "length b = 64" "is_cstr b" "cstr b = text_of l"
      "fifo_list (inpipe c) = rest" "outpipe c = fifo.put_all (outpipe (lcon (slog s))) es"
      "\<not> spin_held (tty_lock c)" "pipes_only (sk s) (ck c)"
    using readline_edits [OF assms(1) len _ assms(2)] by auto
  obtain argv b' where a: "split_args b 64 = Ok (argv, b')" "length b' = 64" "\<forall>j\<in>set argv. is_cstr (drop j b')"
      "map (arg_at b') argv = take 64 (split_words (cstr b))"
    using split_args_words [OF b(3), of 64] b(2) by auto
  have "length l < 64" using line_edit_length [OF assms(2)] by simp
  then have "take 64 (split_words (cstr b)) = split_words (text_of l)"
    using length_split_words [of "text_of l"] b(4) by (simp add: text_of_def)
  then have "map lit (map (arg_at b') argv) = map lit (split_words (text_of l))" using a(4) by metis
  then have "map (\<lambda>i. arg_at b' i @ [NUL]) argv = map lit (split_words (text_of l))"
    by (simp add: comp_def lit_def)
  moreover have "mem_string (store_text (e_line e) b' m) (shell_arg e i) = arg_at b' i @ [NUL]" if "i \<in> set argv" for i m
    using mem_string_store [of b' i "e_line e" m] a(2,3) that by (simp add: shell_arg_def)
  ultimately show ?thesis using a(1,2) b by (auto simp: shell_readline_def put_all_foldl cong: map_cong)
qed

section \<open>Showing a file\<close>

lemma fmt_args_keeps:
  assumes "fmt_args put as s = Ok s'" "P s" "\<And>c s. P s \<Longrightarrow> P (put c s)"
  shows "P s'"
proof -
  have "P (write_chars put t s)" if "P s" for t s
    using that assms(3) by (induction t arbitrary: s) simp_all
  then show ?thesis using assms(1,2) by (induction as arbitrary: s) auto
qed

lemma tty_write_hw: "tty_write c s = Ok (x, s') \<Longrightarrow> hw (ck s') = hw (ck s)"
  by (auto simp: tty_write_def with_lock_def tty_lock_it_def tty_unlock_it_def set_pipe_def)

lemma log_hw:
  assumes "log args s = Ok s'" "hw_ok (ck (lcon s))"
  shows "hw_ok (ck (lcon s'))"
proof -
  let ?P = "\<lambda>r. \<forall>s. r = Ok s \<longrightarrow> hw_ok (ck (lcon s))"
  have put: "?P (log_put c r)" if "?P r" for c r
    using that hw_cycle
    by (auto simp: log_put_def log_write_def Let_def hw_ok_def hw_lock_unlock dest!: tty_write_hw)
  obtain r s1 where r: "fmt_args log_put args (Ok s) = Ok r" "r = Ok s1" "log_end s1 = Ok s'"
    using assms(1) by (auto simp: log_def)
  have "?P r" by (rule fmt_args_keeps [OF r(1)]) (use assms(2) put in auto)
  then show ?thesis using r(2,3) by (auto simp: log_end_def split: if_splits)
qed

lemma bytes_at_Suc: "bytes_at m p (Suc n) = m p # bytes_at m (p + 1) n"
proof -
  have "[0..<Suc n] = 0 # map Suc [0..<n]" by (simp add: upt_conv_Cons map_Suc_upt)
  then show ?thesis unfolding bytes_at_def by (simp del: upt_Suc add: add.assoc)
qed

lemma on_kernel_run:
  "f (sk s) = Ok (x, k) \<Longrightarrow> on_kernel f s = Ok (x, s\<lparr>slog := (slog s)\<lparr>lcon := (lcon (slog s))\<lparr>ck := k\<rparr>\<rparr>\<rparr>)"
  by (simp add: on_kernel_def on_lk_run)

lemma log_ok_kernel: "log_ok (l\<lparr>lcon := (lcon l)\<lparr>ck := k\<rparr>\<rparr>) = log_ok l"
  by (simp add: log_ok_def)

text \<open>Printing text that is not empty.\<close>

lemma print_run:
  assumes "log_ok (slog s)" "hw_ok (sk s)" "args_text args = Ok t" "t \<noteq> []"
  shows "\<exists>s' en. print args s = Ok s' \<and> log_ok (slog s') \<and> hw_ok (sk s') \<and> kframe (sk s) (sk s') \<and>
    vec_list (logs (slog s')) = vec_list (logs (slog s)) @ [en] \<and> vec_list en = t \<and>
    pipe_store (sk s') = (pipe_store (sk s)) (OUTPIPE := foldl write_unsafe (outpipe (lcon (slog s))) (map of_char t)) \<and>
    (lcon (slog s'))\<lparr>ck := sk s\<rparr> = lcon (slog s)"
proof -
  obtain l en where l: "log args (slog s) = Ok l" "log_ok l" "vec_list (logs l) = vec_list (logs (slog s)) @ [en]"
      "vec_list en = t" "kframe (sk s) (ck (lcon l))" "(lcon l)\<lparr>ck := sk s\<rparr> = lcon (slog s)"
      "pipe_store (ck (lcon l)) = (pipe_store (sk s)) (OUTPIPE := fifo.put_all (outpipe (lcon (slog s))) (map of_char t))"
    using log_spec [OF assms(1,3,4)] by blast
  then show ?thesis using log_hw [OF l(1) assms(2)] by (simp add: print_def on_log_def put_all_foldl)
qed

lemma kframe_opened:
  assumes "kframe k k'" "opened k lfd header d"
  shows "opened k' lfd header d"
  using opened_fields [OF assms(2)] kframe_fields [OF assms(1)] by simp

text \<open>
  The loop of \<open>cat\<close> ends, and logs the rest of the file character by character; the same bytes go to the terminal.
\<close>

definition shown :: "u8 list \<Rightarrow> shell \<Rightarrow> shell \<Rightarrow> bool" where
  "shown bs s s' \<longleftrightarrow> log_ok (slog s') \<and>
     map vec_list (vec_list (logs (slog s'))) = map vec_list (vec_list (logs (slog s))) @ map (\<lambda>b. [char_of (unat b)]) bs \<and>
     outpipe (lcon (slog s')) = foldl write_unsafe (outpipe (lcon (slog s))) bs"

lemma cat_loop_shows:
  assumes "opened (sk s) lfd header d" "hw_ok (sk s)" "unat (tar_size (ram (sk s)) header) = filesize"
    "unat (d_offset d) \<le> filesize" "apart_from (e_loc e) (e_pair e) header filesize" "log_ok (slog s)"
  shows "\<exists>s' d'. cat_loop e (lfd + 1) s = Some (Ok s') \<and> opened (sk s') lfd header d' \<and> hw_ok (sk s') \<and>
    shown (bytes_at (ram (sk s)) (header + 512 + d_offset d) (filesize - unat (d_offset d))) s s'"
  using assms(1-4,6)
proof (induction "filesize - unat (d_offset d)" arbitrary: s d)
  case 0
  obtain k' where k': "fread (e_stk e) (e_loc e) (e_pair e) 1 2 (lfd + 1) (sk s) = Ok (0, k')" "hw_ok k'"
      "pipe_store k' = pipe_store (sk s)" "opened k' lfd header d"
    using fread_char [OF "0.prems"(1,2,3,4) assms(5), of "e_stk e"] "0.hyps" by auto
  then show ?case using "0.hyps" "0.prems"(5)
    by (subst cat_loop.simps) (simp add: on_kernel_run shown_def log_ok_kernel bytes_at_def, blast)
next
  case (Suc n)
  have lt: "unat (d_offset d) < filesize" using Suc.hyps(2) by linarith
  let ?k = "sk s" and ?a = "header + 512 + d_offset d"
  obtain k1 where k1: "fread (e_stk e) (e_loc e) (e_pair e) 1 2 (lfd + 1) ?k = Ok (1, k1)" "hw_ok k1"
      "pipe_store k1 = pipe_store ?k" "same_record header filesize (ram ?k) (ram k1)" "ram k1 (e_pair e) = ram ?k ?a"
      "opened k1 lfd header (d\<lparr>d_offset := d_offset d + 1\<rparr>)"
    using fread_char [OF Suc.prems(1,2,3,4) assms(5), of "e_stk e"] lt by auto
  let ?s1 = "s\<lparr>slog := (slog s)\<lparr>lcon := (lcon (slog s))\<lparr>ck := k1\<rparr>\<rparr>\<rparr>"
  let ?c = "char_of (unat (ram ?k ?a)) :: char"
  have ok1: "log_ok (slog ?s1)" "hw_ok (sk ?s1)" using Suc.prems(5) k1(2) by (simp_all add: log_ok_kernel)
  obtain s2 en where s2: "print [Chr ?c] ?s1 = Ok s2" "log_ok (slog s2)" "hw_ok (sk s2)" "kframe (sk ?s1) (sk s2)"
      "vec_list (logs (slog s2)) = vec_list (logs (slog ?s1)) @ [en]" "vec_list en = [?c]"
      "outpipe (lcon (slog s2)) = write_unsafe (outpipe (lcon (slog ?s1))) (of_char ?c)"
    using print_run [OF ok1, of "[Chr ?c]" "[?c]"] by auto
  let ?d = "d\<lparr>d_offset := d_offset d + 1\<rparr>"
  have "unat (d_offset d) + 1 < 2 ^ 64" using lt Suc.prems(3) unat_lt64 [of "tar_size (ram (sk s)) header"] by linarith
  then have off: "unat (d_offset ?d) = Suc (unat (d_offset d))" using unat_add_offset64 [of "d_offset d" 1] by simp
  have ram2: "ram (sk s2) = ram k1" using kframe_fields(14) [OF s2(4)] by simp
  have rec: "same_record header filesize (ram ?k) (ram (sk s2))" using k1(4) ram2 by simp
  have pre: "n = filesize - unat (d_offset ?d)" "opened (sk s2) lfd header ?d"
      "unat (tar_size (ram (sk s2)) header) = filesize" "unat (d_offset ?d) \<le> filesize"
    using Suc.hyps(2) off kframe_opened [OF s2(4)] k1(6) same_record_size [OF rec] Suc.prems(3) lt by auto
  obtain s' d' where IH: "cat_loop e (lfd + 1) s2 = Some (Ok s')" "opened (sk s') lfd header d'" "hw_ok (sk s')"
      "shown (bytes_at (ram (sk s2)) (header + 512 + d_offset ?d) (filesize - unat (d_offset ?d))) s2 s'"
    using Suc.hyps(1) [OF pre(1,2) s2(3) pre(3,4) s2(2)] by blast
  have run: "cat_loop e (lfd + 1) s = Some (Ok s')"
    using k1(1,5) s2(1) IH(1) by (subst cat_loop.simps) (simp add: on_kernel_run)
  have data: "bytes_at (ram (sk s2)) (header + 512 + d_offset ?d) n = bytes_at (ram ?k) (?a + 1) n"
    using same_record_data [OF rec, of "unat (d_offset ?d)" n] off pre(1,4) by (simp add: add.assoc)
  have "shown (bytes_at (ram ?k) ?a (Suc n)) s s'"
    using IH(4) s2(5-7) k1(3) pre(1) data by (simp add: shown_def bytes_at_Suc)
  then show ?case using run IH(2,3) Suc.hyps(2) by metis
qed

text \<open>The whole command: open, show, close.\<close>

lemma shell_cat_shows:
  assumes "hw_ok (sk s)" "can_open (sk s) p" "cproc (sk s) \<noteq> ID_INVALID" "log_ok (slog s)" "length argv > 1"
    "mem_string (ram (sk s)) (shell_arg e (argv ! 1)) = path" "is_cstr path"
    "resolve (tab (sk s)) (vfs_root (k_vfs (sk s))) (path_elems (cstr path)) = ino" "ino \<noteq> ID_INVALID"
    "ht_lookup (tab (sk s)) ino = Some nd" "i_vtable nd = Some Initrd_vtable"
    "ht_lookup (rd_inodes (sk s)) ino = Some header" "unat (tar_size (ram (sk s)) header) = filesize"
    "apart_from (e_loc e) (e_pair e) header filesize"
  shows "\<exists>s'. shell_cat e argv s = Ok s' \<and> shown (bytes_at (ram (sk s)) (header + 512) filesize) s s'"
proof -
  let ?file = "shell_arg e (argv ! 1)"
  obtain lfd d k1 where k1: "fopen (e_stk e) (e_loc e) ?file (sk s) = Ok (lfd + 1, k1)" "opened k1 lfd header d"
      "d_offset d = 0" "hw_ok k1" "ram k1 = store64 (e_loc e) lfd (ram (sk s))" "pipe_store k1 = pipe_store (sk s)"
    using fopen_opened [OF assms(1-3), of ?file ino nd header "e_stk e" "e_loc e"] assms(6-12) by auto
  let ?s1 = "s\<lparr>slog := (slog s)\<lparr>lcon := (lcon (slog s))\<lparr>ck := k1\<rparr>\<rparr>\<rparr>"
  have rec: "same_record header filesize (ram (sk s)) (ram k1)"
    using assms(14) k1(5) by (simp add: same_record_store64 apart_from_def)
  obtain s2 d' where s2: "cat_loop e (lfd + 1) ?s1 = Some (Ok s2)" "opened (sk s2) lfd header d'" "hw_ok (sk s2)"
      "shown (bytes_at (ram k1) (header + 512) filesize) ?s1 s2"
    using cat_loop_shows [of ?s1 lfd header d filesize e] k1(2-4) same_record_size [OF rec] assms(4,13,14)
    by (auto simp: log_ok_kernel)
  obtain k3 where k3: "fclose (e_stk e) (lfd + 1) (sk s2) = Ok (0, k3)" "pipe_store k3 = pipe_store (sk s2)"
    using fclose_returns [OF s2(2,3)] by blast
  have "bytes_at (ram k1) (header + 512) filesize = bytes_at (ram (sk s)) (header + 512) filesize"
    using same_record_data [OF rec, of 0 filesize] by simp
  then show ?thesis
    using k1(1,6) s2(1,4) k3 assms(5) by (simp add: shell_cat_def on_kernel_run shown_def log_ok_kernel)
qed

section \<open>A whole turn\<close>

text \<open>The chain of comparisons finds the command with the name typed.\<close>

lemma shell_find_spec:
  assumes "is_cstr arg" "\<forall>(n, x)\<in>set cmds. n \<noteq> [] \<and> NUL \<notin> set n"
  shows "shell_find arg cmds other = Ok (case map_of cmds (cstr arg) of None \<Rightarrow> other | Some x \<Rightarrow> x)"
  using assms(2)
proof (induction cmds)
  case (Cons c cmds)
  obtain n x where c: "c = (n, x)" by (cases c)
  have "str_equal arg (lit n) = Ok (cstr arg = n)"
    using str_equal_cstr [OF assms(1), of "lit n"] Cons.prems c by simp
  then show ?case using Cons c by simp
qed simp

lemma shell_commands_ok: "\<forall>(n, x)\<in>set (shell_commands e argv s). n \<noteq> [] \<and> NUL \<notin> set n"
  by (simp add: shell_commands_def)

lemma set_split_words: "w \<in> set (split_words s) \<Longrightarrow> set w \<subseteq> set s"
proof (induction s rule: split_words.induct)
  case (2 c s)
  have "set (takeWhile (\<lambda>x. \<not> is_blank x) s) \<subseteq> set s" "set (dropWhile (\<lambda>x. \<not> is_blank x) s) \<subseteq> set s"
    by (auto dest: set_takeWhileD set_dropWhileD)
  then show ?case using 2 by (auto split: if_splits)
qed simp

text \<open>A file of the ram disk: the path leads to an inode with the ram disk's operations and a recorded header.\<close>

definition ramdisk_file :: "kernel \<Rightarrow> string \<Rightarrow> addr \<Rightarrow> nat \<Rightarrow> bool" where
  "ramdisk_file k path header filesize \<longleftrightarrow>
     (\<exists>ino nd. resolve (tab k) (vfs_root (k_vfs k)) (path_elems path) = ino \<and> ino \<noteq> ID_INVALID \<and>
        ht_lookup (tab k) ino = Some nd \<and> i_vtable nd = Some Initrd_vtable \<and>
        ht_lookup (rd_inodes k) ino = Some header) \<and>
     unat (tar_size (ram k) header) = filesize"

definition heap_map_clear :: "addr \<Rightarrow> nat \<Rightarrow> kernel \<Rightarrow> bool" where
  "heap_map_clear p n k \<longleftrightarrow> (let pool = fst (km_heap (k_mem k)) in clear_of p n (pmap pool) ((blocks pool + 3) div 4))"

lemma store_text_other:
  assumes "clear_of p (length t) q n" "j < n"
  shows "store_text p t m (q + of_nat j) = m (q + of_nat j)"
proof -
  have "p + of_nat (unat (q + of_nat j - p)) = q + of_nat j" by simp
  then have "\<not> unat (q + of_nat j - p) < length t" using assms unfolding clear_of_def by metis
  then show ?thesis by (simp add: store_text_def)
qed

lemma pipes_only_fields:
  assumes "pipes_only k k'"
  shows "k_vfs k' = k_vfs k" "proc_table k' = proc_table k" "cproc k' = cproc k" "vtables k' = vtables k"
    "rd_inodes k' = rd_inodes k" "k_mem k' = k_mem k" "ram k' = ram k" "k_inv k' = k_inv k" "hw_ok k' = hw_ok k"
  using assms by (auto simp: pipes_only_def ram_def k_inv_def hw_ok_def)

lemma can_open_fields:
  assumes "can_open k p" "k_inv k'" "k_vfs k' = k_vfs k" "proc_table k' = proc_table k" "cproc k' = cproc k"
    "vtables k' = vtables k"
  shows "can_open k' p"
  using assms by (simp add: can_open_def initrd_table_ok_def)

text \<open>Reading a line keeps what opening a file needs.\<close>

lemma line_keeps:
  assumes "pipes_only k k1" "can_open k p" "length b = 64" "heap_map_clear line 64 k"
    "ramdisk_file k path header filesize" "clear_of line 64 header (512 + filesize)"
  defines "k' \<equiv> set_ram (store_text line b (ram k1)) k1"
  shows "can_open k' p" "ramdisk_file k' path header filesize" "same_record header filesize (ram k) (ram k')"
proof -
  note f = pipes_only_fields [OF assms(1)]
  have ram: "ram k' = store_text line b (ram k)" using f by (simp add: k'_def)
  have inv: "k_inv k" using assms(2) by (simp add: can_open_def)
  let ?pool = "fst (km_heap (k_mem k))"
  have "heap_inv (?pool, ram k)" using inv by (simp add: k_inv_def ram_def)
  moreover have "store_text line b (ram k) (pmap ?pool + of_nat j) = ram k (pmap ?pool + of_nat j)"
    if "j < (blocks ?pool + 3) div 4" for j
    using store_text_other [of line b "pmap ?pool" "(blocks ?pool + 3) div 4" j] assms(3,4) that
    by (simp add: heap_map_clear_def Let_def)
  ultimately have "heap_inv (?pool, store_text line b (ram k))" by (rule heap_inv_cong)
  then have inv': "k_inv k'" using inv assms(1) f
    by (auto simp: k'_def k_inv_def set_ram_def pipes_only_def)
  then show "can_open k' p" using can_open_fields [OF assms(2)] f by (simp add: k'_def)
  show rec: "same_record header filesize (ram k) (ram k')"
    using store_text_other [of line b header "512 + filesize"] assms(3,6) ram by (simp add: same_record_def)
  have "tab k' = tab k" "vfs_root (k_vfs k') = vfs_root (k_vfs k)" "rd_inodes k' = rd_inodes k"
    using f by (simp_all add: k'_def)
  then show "ramdisk_file k' path header filesize"
    using assms(5) same_record_size [OF rec] by (simp add: ramdisk_file_def)
qed

text \<open>The prompt leaves the console ready for input.\<close>

lemma prompt_run:
  assumes "con_ok (lcon (slog s))" "log_ok (slog s)" "hw_ok (sk s)"
  shows "\<exists>s1 en. print [Str (lit ''$ '')] s = Ok s1 \<and> log_ok (slog s1) \<and> hw_ok (sk s1) \<and> kframe (sk s) (sk s1) \<and>
    vec_list (logs (slog s1)) = vec_list (logs (slog s)) @ [en] \<and> vec_list en = ''$ '' \<and> con_ok (lcon (slog s1)) \<and>
    inpipe (lcon (slog s1)) = inpipe (lcon (slog s)) \<and>
    outpipe (lcon (slog s1)) = foldl write_unsafe (outpipe (lcon (slog s))) [0x24, 0x20]"
proof -
  have t: "args_text [Str (lit ''$ '')] = Ok ''$ ''" "map of_char ''$ '' = [0x24, 0x20 :: u8]" by code_simp+
  obtain s1 en where s1: "print [Str (lit ''$ '')] s = Ok s1" "log_ok (slog s1)" "hw_ok (sk s1)" "kframe (sk s) (sk s1)"
      "vec_list (logs (slog s1)) = vec_list (logs (slog s)) @ [en]" "vec_list en = ''$ ''"
      "pipe_store (sk s1) = (pipe_store (sk s)) (OUTPIPE := foldl write_unsafe (outpipe (lcon (slog s))) [0x24, 0x20])"
      "(lcon (slog s1))\<lparr>ck := sk s\<rparr> = lcon (slog s)"
    using print_run [OF assms(2,3) t(1)] unfolding t(2) by blast
  have "con_ok (lcon (slog s1))"
    using assms(1) console_kernel [OF s1(8)] s1(7) fifo_inv_foldl [of "outpipe (lcon (slog s))" "[0x24, 0x20]"]
    by (simp add: con_ok_def)
  then show ?thesis using s1 by auto
qed

text \<open>
  Typing \<open>cat\<close> and the path of a file of the ram disk shows the file: the turn returns, the log gains the prompt and
  one entry per character of the file, and the terminal gets the prompt, the echo of the line and the file.
\<close>

lemma shell_turn_cat:
  assumes "con_ok (lcon (slog s))" "log_ok (slog s)" "hw_ok (sk s)" "can_open (sk s) p" "cproc (sk s) \<noteq> ID_INVALID"
    "line_edit 64 [] (fifo_list (inpipe (lcon (slog s)))) = Some (l, rest, es)"
    "split_words (text_of l) = ''cat'' # path # ws" "ramdisk_file (sk s) path header filesize"
    "apart_from (e_loc e) (e_pair e) header filesize" "clear_of (e_line e) 64 header (512 + filesize)"
    "heap_map_clear (e_line e) 64 (sk s)"
  defines "bs \<equiv> bytes_at (ram (sk s)) (header + 512) filesize"
  shows "\<exists>s'. shell_turn e s = Ok (None, s') \<and>
    map vec_list (vec_list (logs (slog s'))) =
      map vec_list (vec_list (logs (slog s))) @ [''$ ''] @ map (\<lambda>b. [char_of (unat b)]) bs \<and>
    outpipe (lcon (slog s')) = foldl write_unsafe (outpipe (lcon (slog s))) ([0x24, 0x20] @ es @ bs)"
proof -
  obtain s1 en where s1: "print [Str (lit ''$ '')] s = Ok s1" "log_ok (slog s1)" "hw_ok (sk s1)" "kframe (sk s) (sk s1)"
      "vec_list (logs (slog s1)) = vec_list (logs (slog s)) @ [en]" "vec_list en = ''$ ''" "con_ok (lcon (slog s1))"
      "inpipe (lcon (slog s1)) = inpipe (lcon (slog s))"
      "outpipe (lcon (slog s1)) = foldl write_unsafe (outpipe (lcon (slog s))) [0x24, 0x20]"
    using prompt_run [OF assms(1-3)] by blast
  note f1 = kframe_fields [OF s1(4)]
  have pre1: "can_open (sk s1) p" "ramdisk_file (sk s1) path header filesize" "heap_map_clear (e_line e) 64 (sk s1)"
    using can_open_fields [OF assms(4)] kframe_inv [OF s1(4)] assms(4,8,11) f1
    by (simp_all add: can_open_def ramdisk_file_def heap_map_clear_def)
  have le1: "line_edit 64 [] (fifo_list (inpipe (lcon (slog s1)))) = Some (l, rest, es)" using assms(6) s1(8) by simp
  obtain argv s2 b k where s2: "shell_readline e s1 = Ok (argv, s2)"
      "map (\<lambda>a. mem_string (ram (sk s2)) (shell_arg e a)) argv = map lit (''cat'' # path # ws)"
      "outpipe (lcon (slog s2)) = foldl write_unsafe (outpipe (lcon (slog s1))) es"
      "\<not> spin_held (tty_lock (lcon (slog s2)))" "logs (slog s2) = logs (slog s1)" "clog (slog s2) = clog (slog s1)"
      "length b = 64" "pipes_only (sk s1) k" "sk s2 = set_ram (store_text (e_line e) b (ram k)) k"
    using shell_readline_words [OF s1(7) le1, of e] assms(7) by auto
  note keep = line_keeps [OF s2(8) pre1(1) s2(7) pre1(3,2) assms(10), folded s2(9)]
  note f2 = pipes_only_fields [OF s2(8)]
  have ok2: "log_ok (slog s2)" "hw_ok (sk s2)" "cproc (sk s2) \<noteq> ID_INVALID"
    using s1(2,3) s2(4-6,9) f2 assms(5) f1(6) by (simp_all add: log_ok_def)
  obtain a0 a1 as where argv: "argv = a0 # a1 # as" "mem_string (ram (sk s2)) (shell_arg e a0) = lit ''cat''"
      "mem_string (ram (sk s2)) (shell_arg e a1) = lit path"
    using s2(2) by (cases argv; cases "tl argv") auto
  have "path \<in> set (split_words (text_of l))" using assms(7) by simp
  then have nn: "NUL \<notin> set path"
    using set_split_words text_of_nonzero line_edit_nonzero [OF assms(6)] by fastforce
  obtain ino nd where ino: "resolve (tab (sk s2)) (vfs_root (k_vfs (sk s2))) (path_elems path) = ino" "ino \<noteq> ID_INVALID"
      "ht_lookup (tab (sk s2)) ino = Some nd" "i_vtable nd = Some Initrd_vtable"
      "ht_lookup (rd_inodes (sk s2)) ino = Some header" "unat (tar_size (ram (sk s2)) header) = filesize"
    using keep(2) by (auto simp: ramdisk_file_def)
  have same: "bytes_at (ram (sk s2)) (header + 512) filesize = bs"
    using same_record_data [OF keep(3), of 0 filesize] f1(14) by (simp add: bs_def)
  obtain s' where s': "shell_cat e argv s2 = Ok s'" "shown bs s2 s'"
    using shell_cat_shows [OF ok2(2) keep(1) ok2(3,1), of argv e "lit path" ino nd header filesize] argv ino nn assms(9) same
    by auto
  have cmd: "shell_command e argv s2 = Ok (None, s')"
    using argv s'(1) shell_find_spec [OF _ shell_commands_ok, of "lit ''cat''" e argv s2]
    by (simp add: shell_command_def shell_commands_def stay_def Let_def)
  show ?thesis
    using s1(1,5,6,9) s2(1,3,5) cmd s'(2) by (simp add: shell_turn_def shown_def)
qed

end
