(* ===== verification/Sample_Console.thy ===== *)
theory Sample_Console
  imports Sample_State Shell
begin

text \<open>
  The concrete console on top of the sample machine: an empty screen, empty pipes, a keyboard controller with
  queued scan codes and an empty log. The theorems about the terminal, the keyboard and exceptions are evaluated here.
\<close>

definition sample_console :: console where
  "sample_console = console_start sample (replicate 2000 0)"

definition sample_logger :: logger where
  "sample_logger = \<lparr>lcon = sample_console, logs = vec_new, clog = vec_new\<rparr>"

text \<open>A device whose ports all read as zero, and a keyboard controller with the codes of a queue.\<close>

definition dev_zero :: device where
  "dev_zero tr port = 0"

definition key_dev :: "u8 list \<Rightarrow> device" where
  "key_dev codes tr port =
     (if port = KBD_STATUS_PORT then (if data_reads tr < length codes then 1 else 0) else ucast (codes ! data_reads tr))"

lemma key_dev_queued: "data_reads tr0 = 0 \<Longrightarrow> queued (key_dev codes) codes tr0"
proof -
  have "ucast (ucast (x :: u8) :: u32) = x" for x by (rule bit_word_eqI) (simp add: bit_simps)
  then show "data_reads tr0 = 0 \<Longrightarrow> ?thesis"
    using kbd_ports_differ [symmetric] by (auto simp: queued_def key_dev_def Let_def)
qed

lemma sample_console_ok:
  "con_ok sample_console" "fifo_list (inpipe sample_console) = []" "fifo_cap (inpipe sample_console) = 4096"
  "fifo_list (outpipe sample_console) = []" "fifo_cap (outpipe sample_console) = 4096"
  "screen sample_console = textmode_start (replicate 2000 0)"
proof -
  have p: "pipe_store (ck sample_console) i = pipe_new" for i
    by (simp add: sample_console_def console_start_def sample_def kernel_start_def)
  have f: "fifo_inv pipe_new" "fifo_list pipe_new = []" "fifo_cap pipe_new = 4096"
    using sample_pipe_ok(4-6) by (simp_all add: sample_pipe_def sample_def kernel_start_def)
  show "con_ok sample_console"
    using f p unfolding con_ok_def
    by (simp add: sample_console_def console_start_def textmode_start_def tm_ok_def serial_start_def spin_held_def
        spinlock_new_def)
qed (use sample_pipe_ok(4-6) in \<open>simp_all add: sample_pipe_def sample_def kernel_start_def sample_console_def console_start_def\<close>)

lemma sample_logger_ok: "log_ok sample_logger"
  using sample_console_ok(1) by (simp add: log_ok_def sample_logger_def con_ok_def vec.invar_new vec.elems_new)

section \<open>The shell with a line typed\<close>

definition sample_line :: "u8 list" where
  "sample_line = [0x63, 0x61, 0x74, 0x20, 0x2F, 0x61, 0x0A]"

definition sample_kernel :: kernel where
  "sample_kernel = sample_file\<lparr>pipe_store := (\<lambda>_. pipe_new)(INPIPE := foldl write_unsafe pipe_new sample_line)\<rparr>"

definition sample_shell :: shell where
  "sample_shell = \<lparr>slog = \<lparr>lcon = console_start sample_kernel (replicate 2000 0), logs = vec_new, clog = vec_new\<rparr>,
     sbus = [], sstdout = 0\<rparr>"

definition sample_env :: shell_env where
  "sample_env = \<lparr>e_stk = 0, e_loc = 0x5000, e_line = 0x6000, e_pair = 0x4000, e_out_name = 0, e_blank = 0,
     e_name = lit ''Tupai'', e_version = lit ''0'', e_maintainer = lit ''x'', e_kernel_start = 0, e_kernel_end = 0,
     e_dev = dev_zero, e_debug = False, e_raw = replicate 256 NUL, e_depth = 10\<rparr>"

lemma pipe_new_ok: "fifo_inv pipe_new" "fifo_list pipe_new = []" "fifo_cap pipe_new = 4096"
  using sample_pipe_ok(4-6) by (simp_all add: sample_pipe_def sample_def kernel_start_def)

lemma sample_shell_console:
  "con_ok (lcon (slog sample_shell))" "log_ok (slog sample_shell)" "outpipe (lcon (slog sample_shell)) = pipe_new"
  "fifo_list (inpipe (lcon (slog sample_shell))) = sample_line" "sk sample_shell = sample_kernel"
  "vec_list (logs (slog sample_shell)) = []"
proof -
  let ?f = "foldl write_unsafe pipe_new sample_line"
  have in_p: "inpipe (lcon (slog sample_shell)) = ?f" and out_p: "outpipe (lcon (slog sample_shell)) = pipe_new"
    by (simp_all add: sample_shell_def console_start_def sample_kernel_def)
  have "fifo_inv ?f \<and> fifo_list ?f = sample_line"
    using fifo.put_all_room [OF pipe_new_ok(1), of sample_line] pipe_new_ok(2,3)
    by (simp add: put_all_foldl sample_line_def del: foldl_Cons)
  then show "con_ok (lcon (slog sample_shell))" "fifo_list (inpipe (lcon (slog sample_shell))) = sample_line"
    using in_p out_p pipe_new_ok(1) unfolding con_ok_def
    by (simp_all add: sample_shell_def console_start_def textmode_start_def tm_ok_def serial_start_def spin_held_def
        spinlock_new_def)
  show "log_ok (slog sample_shell)" "outpipe (lcon (slog sample_shell)) = pipe_new" "sk sample_shell = sample_kernel"
      "vec_list (logs (slog sample_shell)) = []"
    using out_p by (simp_all add: log_ok_def sample_shell_def console_start_def spin_held_def spinlock_new_def
        vec.invar_new vec.elems_new)
qed

lemma sample_kernel_ok:
  "hw_ok sample_kernel" "can_open sample_kernel sample_proc" "cproc sample_kernel \<noteq> ID_INVALID"
  "ramdisk_file sample_kernel ''/a'' 0x1000 5" "ram sample_kernel = sample_mem" "heap_map_clear 0x6000 64 sample_kernel"
proof -
  have "pipes_only sample_file sample_kernel" by (auto simp: pipes_only_def sample_kernel_def)
  note f = pipes_only_fields [OF this]
  show "hw_ok sample_kernel" using f sample_file_fields
    by (simp add: hw_ok_def sample_hw_def interrupt_enabled_def)
  show "can_open sample_kernel sample_proc"
    using can_open_fields [OF sample_can_open] f sample_can_open by (simp add: can_open_def)
  show "cproc sample_kernel \<noteq> ID_INVALID" using f sample_file_fields(2) by (simp add: ID_INVALID_def)
  show ram: "ram sample_kernel = sample_mem" using f sample_file_fields(5) by simp
  have "path_elems ''/a'' = [''a'']" by code_simp
  then show "ramdisk_file sample_kernel ''/a'' 0x1000 5"
    using sample_unpack(4-7) f sample_size ram by (auto simp: ramdisk_file_def)
  have "fst (km_heap (k_mem sample_kernel)) = sample_pool" using f(6) sample_file_fields(9) by simp
  then show "heap_map_clear 0x6000 64 sample_kernel"
    by (simp add: heap_map_clear_def sample_pool_def sample_blocks clear_ofI)
qed

end
