(* ===== verification/Multiboot.thy ===== *)
theory Multiboot
  imports Syscall
begin

text \<open>
  The boot loader's information (\<open>kernel/x86/multiboot.cpp\<close>, \<open>include/tupai/x86/multiboot.hpp\<close>): a list of tags in
  memory, each with a type and a size. Modules are copied behind the kernel, and one called \<open>initrd\<close> is entered in
  the table of ram disks. The loop over the tags has its own bound, \<open>MAX_TAGS\<close>.
\<close>

definition MULTIBOOT_EAX_MAGIC :: u64 where "MULTIBOOT_EAX_MAGIC = 0x36D76289"
definition MAX_TAGS :: nat where "MAX_TAGS = 1024"

definition load32 :: "memory \<Rightarrow> addr \<Rightarrow> u32" where
  "load32 m p = ucast (m p) OR push_bit 8 (ucast (m (p + 1))) OR push_bit 16 (ucast (m (p + 2))) OR
     push_bit 24 (ucast (m (p + 3)))"

definition store32 :: "addr \<Rightarrow> u32 \<Rightarrow> memory \<Rightarrow> memory" where
  "store32 p v m = m(p := ucast v, p + 1 := ucast (drop_bit 8 v), p + 2 := ucast (drop_bit 16 v),
     p + 3 := ucast (drop_bit 24 v))"

record mb_meminfo_t =
  mi_type :: u32
  mi_size :: u32
  lower :: u32
  upper :: u32

record boot =
  bk :: kernel
  mb_meminfo :: mb_meminfo_t

definition multiboot_parse_meminfo :: "addr \<Rightarrow> boot \<Rightarrow> boot" where
  "multiboot_parse_meminfo tag b =
     (let m = ram (bk b)
      in b\<lparr>mb_meminfo := \<lparr>mi_type = load32 m tag, mi_size = load32 m (tag + 4), lower = load32 m (tag + 8),
           upper = load32 m (tag + 12)\<rparr>\<rparr>)"

text \<open>The tags for the boot device and the command line are only printed in a debug build.\<close>

definition multiboot_parse_biosdev :: "addr \<Rightarrow> boot \<Rightarrow> boot" where
  "multiboot_parse_biosdev tag b = b"

definition multiboot_parse_bootcmd :: "addr \<Rightarrow> boot \<Rightarrow> boot" where
  "multiboot_parse_bootcmd tag b = b"

text \<open>\<open>kernel_end\<close> is the address of the end of the image.\<close>

definition multiboot_parse_module :: "addr \<Rightarrow> addr \<Rightarrow> boot \<Rightarrow> boot res" where
  "multiboot_parse_module kernel_end tag b =
     (let k = bk b; m = ram k;
          mod_size = ucast (load32 m (tag + 12) - load32 m (tag + 8)) :: size_t;
          (naddr, off) = arch_kernel_alloc kernel_end mod_size (km_end_offset (k_mem k));
          m = mem_copy (ucast (load32 m (tag + 8))) naddr mod_size m;
          m = store32 (tag + 8) (ucast (naddr - arch_get_offset)) m;
          m = store32 (tag + 12) (ucast (ucast (load32 m (tag + 8)) + mod_size)) m;
          k = set_ram m (k\<lparr>k_mem := (k_mem k)\<lparr>km_end_offset := off\<rparr>\<rparr>)
      in bind_res (str_equal (mem_string m (tag + 16)) (lit ''initrd'')) (\<lambda>eq.
         Ok (b\<lparr>bk := if eq
           then initrd_add (ucast (load32 m (tag + 8)) + arch_get_offset)
                  (ucast (load32 m (tag + 12) - load32 m (tag + 8) + 1) + arch_get_offset) (tag + 16) k
           else k\<rparr>)))"

definition multiboot_parse :: "addr \<Rightarrow> addr \<Rightarrow> boot \<Rightarrow> boot res" where
  "multiboot_parse kernel_end tag b =
     (let type = load32 (ram (bk b)) tag
      in if type = 4 then Ok (multiboot_parse_meminfo tag b)
         else if type = 5 then Ok (multiboot_parse_biosdev tag b)
         else if type = 1 then Ok (multiboot_parse_bootcmd tag b)
         else if type = 3 then multiboot_parse_module kernel_end tag b
         else Ok b)"

definition next_tag :: "memory \<Rightarrow> addr \<Rightarrow> addr" where
  "next_tag m tag = align_ceiling (tag + ucast (load32 m (tag + 4))) 8"

text \<open>The second argument counts down from \<open>MAX_TAGS\<close>.\<close>

fun multiboot_loop :: "addr \<Rightarrow> nat \<Rightarrow> addr \<Rightarrow> u32 \<Rightarrow> addr \<Rightarrow> boot \<Rightarrow> boot res" where
  "multiboot_loop kernel_end 0 start total_size ctag b = Ok b"
| "multiboot_loop kernel_end (Suc r) start total_size ctag b =
     (if ctag - start < ucast total_size
      then bind_res (multiboot_parse kernel_end ctag b) (\<lambda>b.
           multiboot_loop kernel_end r start total_size (next_tag (ram (bk b)) ctag) b)
      else Ok b)"

definition multiboot_set_header :: "addr \<Rightarrow> u64 \<Rightarrow> addr \<Rightarrow> boot \<Rightarrow> boot res" where
  "multiboot_set_header kernel_end magic header b =
     (if magic \<noteq> MULTIBOOT_EAX_MAGIC then Ok b
      else let start = header + arch_get_offset;
               total_size = load32 (ram (bk b)) start;
               ctag = align_ceiling (start + 8) 8
           in multiboot_loop kernel_end MAX_TAGS start total_size ctag b)"

definition multiboot_get_meminfo :: "boot \<Rightarrow> mb_meminfo_t" where
  "multiboot_get_meminfo b = mb_meminfo b"

section \<open>Words of 32 bits\<close>

lemma bit_byte_at32:
  "bit (push_bit i (ucast (ucast (drop_bit i v) :: u8)) :: u32) n \<longleftrightarrow> i \<le> n \<and> n < i + 8 \<and> bit (v :: u32) n"
  by (auto simp: bit_simps dest: bit_imp_le_length)

lemma bytes_of_word32:
  "ucast (ucast v :: u8) OR push_bit 8 (ucast (ucast (drop_bit 8 v) :: u8)) OR
    push_bit 16 (ucast (ucast (drop_bit 16 v) :: u8)) OR push_bit 24 (ucast (ucast (drop_bit 24 v) :: u8)) = (v :: u32)"
  (is "?l = _")
proof (rule bit_word_eqI)
  fix n assume n: "n < LENGTH(32)"
  have zero: "bit (ucast (ucast v :: u8) :: u32) n \<longleftrightarrow> n < 8 \<and> bit v n" using bit_byte_at32 [of 0 v n] by simp
  show "bit ?l n = bit v n" unfolding bit_or_iff bit_byte_at32 zero using n by auto
qed

lemma load32_store32 [simp]: "load32 (store32 p v m) p = v"
proof -
  have "p + 1 \<noteq> p" "p + 2 \<noteq> p" "p + 3 \<noteq> (p :: addr)" by simp_all
  then show ?thesis unfolding load32_def store32_def using bytes_of_word32 [of v] by simp
qed

lemma store32_other: "(\<And>i. i < 4 \<Longrightarrow> a \<noteq> p + of_nat i) \<Longrightarrow> store32 p v m a = m a"
proof -
  assume a: "\<And>i. i < 4 \<Longrightarrow> a \<noteq> p + of_nat i"
  show ?thesis using a [of 0] a [of 1] a [of 2] a [of 3] by (simp add: store32_def)
qed

lemma load32_cong: "(\<And>i. i < 4 \<Longrightarrow> m (p + of_nat i) = m' (p + of_nat i)) \<Longrightarrow> load32 m p = load32 m' p"
proof -
  assume a: "\<And>i. i < 4 \<Longrightarrow> m (p + of_nat i) = m' (p + of_nat i)"
  show ?thesis using a [of 0] a [of 1] a [of 2] a [of 3] by (simp add: load32_def)
qed

lemma load32_store32_next: "load32 (store32 (p + 4) v m) p = load32 m p"
proof (rule load32_cong)
  fix i :: nat assume "i < 4"
  then have "p + of_nat i \<noteq> p + of_nat (4 + j)" if "j < 4" for j using that addr_offsets [of i "4 + j" p] by simp
  then have "p + of_nat i \<noteq> p + 4 + of_nat j" if "j < 4" for j using that by (simp add: add.assoc)
  then show "store32 (p + 4) v m (p + of_nat i) = m (p + of_nat i)" by (rule store32_other)
qed

lemma ucast_add32: "(ucast (x + y :: 64 word) :: 32 word) = ucast x + ucast y"
proof -
  have "take_bit 32 (a + b) = take_bit 32 (take_bit 64 a + take_bit 64 b)" for a b :: int
    using take_bit_add [of 32 a b] take_bit_add [of 32 "take_bit 64 a" "take_bit 64 b"] by (simp add: min_def)
  then show ?thesis by transfer simp
qed

section \<open>A module\<close>

lemma mem_string_from_cong:
  assumes "\<And>i. i < n \<Longrightarrow> m (p + of_nat i) = m' (p' + of_nat i)" "i + length (mem_string_from m' p' i) \<le> n"
  shows "mem_string_from m p i = mem_string_from m' p' i"
  using assms
proof (induction m' p' i rule: mem_string_from.induct)
  case (1 m' p' i)
  show ?case
  proof (cases "i < 2 ^ 64")
    case True
    then have i: "i < n" using "1.prems"(2) by (subst (asm) mem_string_from.simps) (auto split: if_splits)
    then have eq: "m (p + of_nat i) = m' (p' + of_nat i)" by (rule "1.prems"(1))
    show ?thesis
    proof (cases "m' (p' + of_nat i) = 0")
      case False
      then have "Suc i + length (mem_string_from m' p' (Suc i)) \<le> n"
        using "1.prems"(2) True by (subst (asm) mem_string_from.simps) simp
      then have "mem_string_from m p (Suc i) = mem_string_from m' p' (Suc i)"
        using "1.IH" [OF True False] "1.prems"(1) by blast
      then show ?thesis using True False eq mem_string_from.simps [of m p i] mem_string_from.simps [of m' p' i] by simp
    qed (use True eq mem_string_from.simps [of m p i] mem_string_from.simps [of m' p' i] in simp)
  qed (simp add: mem_string_from.simps)
qed

text \<open>Fields of the tag are not touched by the copy, and the copy is not touched by the fields.\<close>

lemma store32_in:
  assumes "i < 23" "j + 4 \<le> 23" "i < j \<or> j + 4 \<le> i"
  shows "store32 (tag + of_nat j) v m (tag + of_nat i) = m (tag + of_nat i)"
proof (rule store32_other)
  fix l :: nat assume "l < 4"
  then show "tag + of_nat i \<noteq> tag + of_nat j + of_nat l"
    using assms addr_offsets [of i "j + l" tag] by (auto simp: add.assoc)
qed

lemma store32_copy:
  assumes "clear_of naddr n tag 23" "j + 4 \<le> 23" "i < n"
  shows "store32 (tag + of_nat j) v m (naddr + of_nat i) = m (naddr + of_nat i)"
proof (rule store32_other)
  fix l :: nat assume "l < 4"
  then show "naddr + of_nat i \<noteq> tag + of_nat j + of_nat l"
    using assms unfolding clear_of_def by (auto simp: add.assoc simp flip: of_nat_add)
qed

lemma module_spec:
  fixes b tag kernel_end
  defines "m \<equiv> ram (bk b)"
  defines "start \<equiv> load32 m (tag + 8)"
  defines "siz \<equiv> (ucast (load32 m (tag + 12) - start) :: size_t)"
  defines "naddr \<equiv> fst (arch_kernel_alloc kernel_end siz (km_end_offset (k_mem (bk b))))"
  assumes "clear_of naddr (unat siz) tag 23" "clear_of naddr (unat siz) (ucast start) (unat siz)"
    "mem_string m (tag + 16) = lit ''initrd''"
    "ucast (ucast (naddr - arch_get_offset) :: u32) = naddr - arch_get_offset"
  shows "\<exists>b'. multiboot_parse_module kernel_end tag b = Ok b' \<and>
    bytes_at (ram (bk b')) naddr (unat siz) = bytes_at m (ucast start) (unat siz) \<and>
    initrds (bk b') = initrd_add_from naddr (ucast (ucast siz + 1 :: u32) + arch_get_offset) (tag + 16) (initrds (bk b)) \<and>
    km_end_offset (k_mem (bk b')) = snd (arch_kernel_alloc kernel_end siz (km_end_offset (k_mem (bk b)))) \<and>
    (\<forall>i<8. ram (bk b') (tag + of_nat i) = m (tag + of_nat i))"
proof -
  let ?n = "unat siz"
  define off where "off = snd (arch_kernel_alloc kernel_end siz (km_end_offset (k_mem (bk b))))"
  define m1 where "m1 = mem_copy (ucast start) naddr siz m"
  define m2 where "m2 = store32 (tag + 8) (ucast (naddr - arch_get_offset)) m1"
  define m3 where "m3 = store32 (tag + 12) (ucast (ucast (load32 m2 (tag + 8)) + siz)) m2"
  have l2: "load32 m2 (tag + 8) = ucast (naddr - arch_get_offset)" by (simp add: m2_def)
  have l8: "load32 m3 (tag + 8) = ucast (naddr - arch_get_offset)"
    using load32_store32_next [of "tag + 8" _ m2] l2 by (simp add: m3_def add.assoc)
  have l12: "load32 m3 (tag + 12) = ucast (naddr - arch_get_offset) + ucast siz"
    using assms(8) by (simp add: m3_def l2 ucast_add32)
  have "m1 (naddr + of_nat i) = m (ucast start + of_nat i)" if "i < ?n" for i
    unfolding m1_def by (rule mem_copy_disjoint) (use assms(6) that in \<open>metis clear_of_def\<close>)+
  then have copy: "m3 (naddr + of_nat i) = m (ucast start + of_nat i)" if "i < ?n" for i
    using that store32_copy [OF assms(5), of 8] store32_copy [OF assms(5), of 12] by (simp add: m3_def m2_def)
  have keep: "m3 (tag + of_nat i) = m (tag + of_nat i)" if "i < 8 \<or> 16 \<le> i" "i < 23" for i
  proof -
    have "m1 (tag + of_nat i) = m (tag + of_nat i)"
      unfolding m1_def by (rule mem_copy_outside) (use assms(5) that(2) in \<open>fastforce simp: clear_of_def\<close>)
    then show ?thesis using that store32_in [of i 8 tag] store32_in [of i 12 tag] by (auto simp: m3_def m2_def)
  qed
  from keep [of "16 + i" for i] have "m3 (tag + 16 + of_nat i) = m (tag + 16 + of_nat i)" if "i < 7" for i
    using that by (simp add: add.assoc)
  moreover have "length (mem_string m (tag + 16)) = 7" using assms(7) by (simp add: lit_def)
  ultimately have "mem_string m3 (tag + 16) = mem_string m (tag + 16)"
    unfolding mem_string_def by (intro mem_string_from_cong [of 7]) simp_all
  then have eq: "str_equal (mem_string m3 (tag + 16)) (lit ''initrd'') = Ok True"
    using assms(7) by (simp add: str_equal_cstr)
  define k where "k = set_ram m3 ((bk b)\<lparr>k_mem := (k_mem (bk b))\<lparr>km_end_offset := off\<rparr>\<rparr>)"
  have "multiboot_parse_module kernel_end tag b =
      bind_res (str_equal (mem_string m3 (tag + 16)) (lit ''initrd'')) (\<lambda>eq.
        Ok (b\<lparr>bk := if eq then initrd_add (ucast (load32 m3 (tag + 8)) + arch_get_offset)
          (ucast (load32 m3 (tag + 12) - load32 m3 (tag + 8) + 1) + arch_get_offset) (tag + 16) k else k\<rparr>))"
    unfolding multiboot_parse_module_def Let_def case_prod_unfold k_def m3_def m2_def m1_def off_def naddr_def siz_def
      start_def m_def by (rule refl)
  then have "multiboot_parse_module kernel_end tag b = Ok (b\<lparr>bk := initrd_add naddr
      (ucast (ucast siz + 1 :: u32) + arch_get_offset) (tag + 16) k\<rparr>)"
    using eq l8 l12 assms(8) by simp
  then show ?thesis using copy keep
    by (simp add: initrd_add_def k_def set_ram_def ram_def bytes_at_def off_def)
qed

end
