(* ===== verification/Descriptors.thy ===== *)
theory Descriptors
  imports Pic Kmem
begin

text \<open>
  Segment and interrupt descriptor tables: \<open>kernel/x86/amd64/gdt.cpp\<close>, \<open>kernel/x86/amd64/idt.cpp\<close>, their i386
  versions, and \<open>interrupt_bind\<close> of \<open>kernel/x86/interrupt.cpp\<close>. The fields of a descriptor are scattered over
  the record as the processor wants them; the decoders say what the processor reads back.
\<close>

section \<open>Segments\<close>

record gdt_desc_t =
  size_lo :: u16
  offset_lo :: u16
  offset_mid :: u8
  access_flags :: u8
  granularity_flags :: u8
  offset_hi :: u8

record gdt_ptr_t =
  gp_size :: u16
  gp_offset :: u64

definition GDT_LENGTH :: nat where "GDT_LENGTH = 3"

definition gdt_zero :: gdt_desc_t where
  "gdt_zero = \<lparr>size_lo = 0, offset_lo = 0, offset_mid = 0, access_flags = 0, granularity_flags = 0, offset_hi = 0\<rparr>"

definition gdt_entry :: "u32 \<Rightarrow> u32 \<Rightarrow> u8 \<Rightarrow> u8 \<Rightarrow> gdt_desc_t" where
  "gdt_entry offset siz access granularity =
     \<lparr>size_lo = ucast (siz AND 0xFFFF),
      offset_lo = ucast (drop_bit 0 offset AND 0xFFFF),
      offset_mid = ucast (drop_bit 16 offset AND 0xFF),
      access_flags = access,
      granularity_flags = ucast (drop_bit 16 siz AND 0xF) OR ucast (push_bit 4 (ucast granularity :: u32) AND 0xF0),
      offset_hi = ucast (drop_bit 24 offset AND 0xFF)\<rparr>"

definition gdt_set_entry :: "nat \<Rightarrow> u32 \<Rightarrow> u32 \<Rightarrow> u8 \<Rightarrow> u8 \<Rightarrow> gdt_desc_t list \<Rightarrow> gdt_desc_t list res" where
  "gdt_set_entry n offset siz access granularity gdt = arr_set gdt n (gdt_entry offset siz access granularity)"

definition READABLE :: u8 where "READABLE = 0b00000010"
definition WRITABLE :: u8 where "WRITABLE = 0b00000010"
definition EXECUTE :: u8 where "EXECUTE = 0b00001000"
definition PRESENT :: u8 where "PRESENT = 0b10000000"
definition ONE :: u8 where "ONE = 0b00010000"
definition CONFORMING :: u8 where "CONFORMING = 0b00000100"
definition PAGE :: u8 where "PAGE = 0b1000"
definition PROTECTED_32 :: u8 where "PROTECTED_32 = 0b0100"
definition LONG_64 :: u8 where "LONG_64 = 0b0010"

lemmas gdt_flags = READABLE_def WRITABLE_def EXECUTE_def PRESENT_def ONE_def CONFORMING_def PAGE_def PROTECTED_32_def LONG_64_def

definition gdt_init :: "gdt_desc_t list \<Rightarrow> gdt_desc_t list res" where
  "gdt_init gdt =
     (let code_access_flags = READABLE OR EXECUTE OR ONE OR CONFORMING OR PRESENT;
          data_access_flags = WRITABLE OR ONE OR PRESENT;
          granularity = PAGE OR LONG_64
      in bind_res (gdt_set_entry 0 0 0 0 0 gdt) (\<lambda>gdt.
         bind_res (gdt_set_entry 1 0 0xFFFFF code_access_flags granularity gdt) (\<lambda>gdt.
         gdt_set_entry 2 0 0xFFFFF data_access_flags granularity gdt)))"

definition i386_gdt_set_entry :: "nat \<Rightarrow> u32 \<Rightarrow> u32 \<Rightarrow> u8 \<Rightarrow> u8 \<Rightarrow> gdt_desc_t list \<Rightarrow> gdt_desc_t list res" where
  "i386_gdt_set_entry n offset siz access granularity gdt = arr_set gdt n (gdt_entry offset siz access granularity)"

text \<open>The i386 table has no conforming code segment and 32-bit granularity.\<close>

definition i386_gdt_init :: "gdt_desc_t list \<Rightarrow> gdt_desc_t list res" where
  "i386_gdt_init gdt =
     (let code_access_flags = READABLE OR EXECUTE OR ONE OR PRESENT;
          data_access_flags = WRITABLE OR ONE OR PRESENT;
          granularity = PAGE OR PROTECTED_32
      in bind_res (i386_gdt_set_entry 0 0 0 0 0 gdt) (\<lambda>gdt.
         bind_res (i386_gdt_set_entry 1 0 0xFFFFF code_access_flags granularity gdt) (\<lambda>gdt.
         i386_gdt_set_entry 2 0 0xFFFFF data_access_flags granularity gdt)))"

record i386_gdt_ptr_t =
  i386_gp_size :: u16
  i386_gp_offset :: u32

definition i386_gdt_install :: "u32 \<Rightarrow> i386_gdt_ptr_t" where
  "i386_gdt_install at = \<lparr>i386_gp_size = of_nat (8 * GDT_LENGTH - 1), i386_gp_offset = at\<rparr>"

text \<open>What \<open>lgdt\<close> loads; \<open>at\<close> is the address of the table, a descriptor has 8 bytes.\<close>

definition gdt_install :: "addr \<Rightarrow> gdt_ptr_t" where
  "gdt_install at = \<lparr>gp_size = of_nat (8 * GDT_LENGTH - 1), gp_offset = at\<rparr>"

text \<open>What the processor reads.\<close>

definition seg_base :: "gdt_desc_t \<Rightarrow> u32" where
  "seg_base d = ucast (offset_lo d) OR push_bit 16 (ucast (offset_mid d)) OR push_bit 24 (ucast (offset_hi d))"

definition seg_limit :: "gdt_desc_t \<Rightarrow> u32" where
  "seg_limit d = ucast (size_lo d) OR push_bit 16 (ucast (granularity_flags d AND 0xF))"

definition seg_flags :: "gdt_desc_t \<Rightarrow> u8" where
  "seg_flags d = drop_bit 4 (granularity_flags d)"

section \<open>Interrupt gates\<close>

record idt_desc_t =
  gate_lo :: u16
  selector :: u16
  ist :: u8
  type_attr :: u8
  gate_mid :: u16
  gate_hi :: u32
  gate_zero :: u32

record idt_ptr_t =
  ip_size :: u16
  ip_offset :: u64

definition IDT_LENGTH :: nat where "IDT_LENGTH = 256 + unat PIC_REMAP_OFFSET"
definition GATE_INT :: u8 where "GATE_INT = 0b1110"
definition GATE_PRESENT :: u8 where "GATE_PRESENT = 0b10000000"

definition idt_zero :: idt_desc_t where
  "idt_zero = \<lparr>gate_lo = 0, selector = 0, ist = 0, type_attr = 0, gate_mid = 0, gate_hi = 0, gate_zero = 0\<rparr>"

definition idt_entry :: "addr \<Rightarrow> u16 \<Rightarrow> idt_desc_t \<Rightarrow> idt_desc_t" where
  "idt_entry address selector_id d =
     d\<lparr>gate_lo := ucast (drop_bit 0 address AND 0xFFFF),
       gate_mid := ucast (drop_bit 16 address AND 0xFFFF),
       gate_hi := ucast (drop_bit 32 address AND 0xFFFFFFFF),
       selector := selector_id * 8, gate_zero := 0, type_attr := GATE_INT OR GATE_PRESENT\<rparr>"

text \<open>The default of \<open>selector_id\<close> is 1.\<close>

definition idt_set_entry :: "nat \<Rightarrow> addr \<Rightarrow> u16 \<Rightarrow> idt_desc_t list \<Rightarrow> idt_desc_t list res" where
  "idt_set_entry irq address selector_id idt =
     bind_res (arr_get idt irq) (\<lambda>d. arr_set idt irq (idt_entry address selector_id d))"

text \<open>\<open>isr\<close>, \<open>stub\<close> and \<open>spurious\<close> are the addresses of the assembly entry points.\<close>

definition idt_init :: "(nat \<Rightarrow> addr) \<Rightarrow> addr \<Rightarrow> addr \<Rightarrow> idt_desc_t list \<Rightarrow> idt_desc_t list res" where
  "idt_init isr stub spurious idt =
     bind_res (for_up 0 19 (\<lambda>i. idt_set_entry i (isr i) 1) idt) (\<lambda>idt.
     bind_res (for_up (unat PIC_REMAP_OFFSET) IDT_LENGTH (\<lambda>i. idt_set_entry i stub 1) idt) (\<lambda>idt.
     idt_set_entry (unat PIC_REMAP_OFFSET + 7) spurious 1 idt))"

definition idt_install :: "addr \<Rightarrow> idt_ptr_t" where
  "idt_install at = \<lparr>ip_size = of_nat (16 * IDT_LENGTH - 1), ip_offset = at\<rparr>"

definition interrupt_bind :: "u8 \<Rightarrow> addr \<Rightarrow> bool \<Rightarrow> addr \<Rightarrow> idt_desc_t list \<Rightarrow> (idt_ptr_t \<times> idt_desc_t list) res" where
  "interrupt_bind irq address hardware at idt =
     bind_res (idt_set_entry ((if hardware then unat PIC_REMAP_OFFSET else 0) + unat irq) address 1 idt) (\<lambda>idt.
     Ok (idt_install at, idt))"

text \<open>The clients: the timer, the keyboard and the system call gate.\<close>

definition pit_bind :: "addr \<Rightarrow> addr \<Rightarrow> idt_desc_t list \<Rightarrow> (idt_ptr_t \<times> idt_desc_t list) res" where
  "pit_bind isr_pit = interrupt_bind 0 isr_pit True"

definition kbd_bind :: "addr \<Rightarrow> addr \<Rightarrow> idt_desc_t list \<Rightarrow> (idt_ptr_t \<times> idt_desc_t list) res" where
  "kbd_bind isr_kbd = interrupt_bind 1 isr_kbd True"

definition CALL_IRQ :: u8 where "CALL_IRQ = 0x80"

definition call_bind :: "addr \<Rightarrow> addr \<Rightarrow> idt_desc_t list \<Rightarrow> (idt_ptr_t \<times> idt_desc_t list) res" where
  "call_bind isr_syscall = interrupt_bind CALL_IRQ isr_syscall False"

definition gate_addr :: "idt_desc_t \<Rightarrow> addr" where
  "gate_addr d = ucast (gate_lo d) OR push_bit 16 (ucast (gate_mid d)) OR push_bit 32 (ucast (gate_hi d))"

definition gate_present :: "idt_desc_t \<Rightarrow> bool" where
  "gate_present d \<longleftrightarrow> bit (type_attr d) 7"

text \<open>The i386 gate.\<close>

record i386_idt_desc_t =
  i386_lo :: u16
  i386_selector :: u16
  i386_zero :: u8
  i386_type_attr :: u8
  i386_hi :: u16

definition i386_idt_entry :: "u32 \<Rightarrow> u16 \<Rightarrow> i386_idt_desc_t" where
  "i386_idt_entry address selector_id =
     \<lparr>i386_lo = ucast (drop_bit 0 address AND 0xFFFF), i386_selector = selector_id * 8, i386_zero = 0,
      i386_type_attr = GATE_INT OR GATE_PRESENT, i386_hi = ucast (drop_bit 16 address AND 0xFFFF)\<rparr>"

definition i386_idt_set_entry :: "nat \<Rightarrow> u32 \<Rightarrow> u16 \<Rightarrow> i386_idt_desc_t list \<Rightarrow> i386_idt_desc_t list res" where
  "i386_idt_set_entry irq address selector_id idt = arr_set idt irq (i386_idt_entry address selector_id)"

definition i386_idt_zero :: i386_idt_desc_t where
  "i386_idt_zero = \<lparr>i386_lo = 0, i386_selector = 0, i386_zero = 0, i386_type_attr = 0, i386_hi = 0\<rparr>"

definition i386_idt_init :: "(nat \<Rightarrow> u32) \<Rightarrow> u32 \<Rightarrow> u32 \<Rightarrow> i386_idt_desc_t list \<Rightarrow> i386_idt_desc_t list res" where
  "i386_idt_init isr stub spurious idt =
     bind_res (for_up 0 19 (\<lambda>i. i386_idt_set_entry i (isr i) 1) idt) (\<lambda>idt.
     bind_res (for_up (unat PIC_REMAP_OFFSET) IDT_LENGTH (\<lambda>i. i386_idt_set_entry i stub 1) idt) (\<lambda>idt.
     i386_idt_set_entry (unat PIC_REMAP_OFFSET + 7) spurious 1 idt))"

record i386_idt_ptr_t =
  i386_ip_size :: u16
  i386_ip_offset :: u32

text \<open>A gate has 8 bytes.\<close>

definition i386_idt_install :: "u32 \<Rightarrow> i386_idt_ptr_t" where
  "i386_idt_install at = \<lparr>i386_ip_size = of_nat (8 * IDT_LENGTH - 1), i386_ip_offset = at\<rparr>"

text \<open>The default handlers: the first stops the machine, the second returns to where it came from.\<close>

definition stub_isr_main :: "size_t \<Rightarrow> size_t res" where
  "stub_isr_main stack = Fail (Panic ''Undefined interrupt occured'')"

definition spurious_isr_main :: "size_t \<Rightarrow> size_t res" where
  "spurious_isr_main stack = Ok stack"

definition i386_gate_addr :: "i386_idt_desc_t \<Rightarrow> u32" where
  "i386_gate_addr d = ucast (i386_lo d) OR push_bit 16 (ucast (i386_hi d))"

section \<open>Encoding and decoding\<close>

lemma low_masks:
  "(0xF :: u8) = mask 4" "(0xF :: u32) = mask 4" "(0xFF :: u32) = mask 8" "(0xFFFF :: u32) = mask 16" "(0xFFFF :: u64) = mask 16"
  "(0xFFFFFFFF :: u64) = mask 32" "(0xF0 :: u32) = push_bit 4 (mask 4)"
  by (simp_all add: mask_eq_exp_minus_1)

lemmas desc_bits = bit_unsigned_iff bit_drop_bit_eq bit_push_bit_iff bit_or_iff bit_and_iff bit_mask_iff comp_apply

lemma seg_base_entry: "seg_base (gdt_entry offset siz access granularity) = offset"
proof (rule bit_word_eqI)
  fix n assume "n < LENGTH(32)"
  then consider "n < 16" | "16 \<le> n" "n < 24" "n - 16 < 8" "16 + (n - 16) = n" "\<not> 24 \<le> n" | "24 \<le> n" "n < 32" "24 + (n - 24) = n" "n - 24 < 8" "\<not> n < 24"
    by (simp only: len_num1 len_bit0 len_bit1) linarith
  then show "bit (seg_base (gdt_entry offset siz access granularity)) n = bit offset n"
    unfolding seg_base_def gdt_entry_def gdt_desc_t.simps low_masks by cases (auto simp: desc_bits)
qed

lemma seg_limit_entry:
  assumes "take_bit 20 siz = siz"
  shows "seg_limit (gdt_entry offset siz access granularity) = siz"
proof (rule bit_word_eqI)
  fix n assume "n < LENGTH(32)"
  then consider "n < 16" | "16 \<le> n" "n < 20" "n - 16 < 4" "16 + (n - 16) = n" | "20 \<le> n" "16 \<le> n" "\<not> n - 16 < 4"
    by (simp only: len_num1 len_bit0 len_bit1) linarith
  moreover have "20 \<le> n \<Longrightarrow> \<not> bit siz n" by (metis assms bit_take_bit_iff not_le)
  ultimately show "bit (seg_limit (gdt_entry offset siz access granularity)) n = bit siz n"
    unfolding seg_limit_def gdt_entry_def gdt_desc_t.simps low_masks by cases (simp_all add: desc_bits)
qed

lemma seg_flags_entry:
  assumes "take_bit 4 granularity = granularity"
  shows "seg_flags (gdt_entry offset siz access granularity) = granularity"
proof (rule bit_word_eqI)
  fix n assume "n < LENGTH(8)"
  moreover have "4 \<le> n \<Longrightarrow> \<not> bit granularity n" by (metis assms bit_take_bit_iff not_le)
  ultimately show "bit (seg_flags (gdt_entry offset siz access granularity)) n = bit granularity n"
    unfolding seg_flags_def gdt_entry_def gdt_desc_t.simps low_masks by (cases "n < 4") (auto simp: desc_bits)
qed

lemma gate_addr_entry: "gate_addr (idt_entry address sel d) = address"
proof (rule bit_word_eqI)
  fix n assume "n < LENGTH(64)"
  then consider "n < 16" | "16 \<le> n" "n < 32" "n - 16 < 16" "16 + (n - 16) = n" "\<not> 32 \<le> n"
    | "32 \<le> n" "n < 64" "32 + (n - 32) = n" "n - 32 < 32" "\<not> n - 16 < 16"
    by (simp only: len_num1 len_bit0 len_bit1) linarith
  then show "bit (gate_addr (idt_entry address sel d)) n = bit address n"
    unfolding gate_addr_def idt_entry_def low_masks by cases (auto simp: desc_bits)
qed

lemma i386_gate_addr_entry: "i386_gate_addr (i386_idt_entry address sel) = address"
proof (rule bit_word_eqI)
  fix n assume "n < LENGTH(32)"
  then consider "n < 16" | "16 \<le> n" "n < 32" "n - 16 < 16" "16 + (n - 16) = n"
    by (simp only: len_num1 len_bit0 len_bit1) linarith
  then show "bit (i386_gate_addr (i386_idt_entry address sel)) n = bit address n"
    unfolding i386_gate_addr_def i386_idt_entry_def i386_idt_desc_t.simps low_masks by cases (simp_all add: desc_bits)
qed

lemma gate_present_entry: "gate_present (idt_entry address sel d)"
  by (simp add: gate_present_def idt_entry_def GATE_INT_def GATE_PRESENT_def)

section \<open>The table after initialisation\<close>

lemma remap_32 [simp]: "unat PIC_REMAP_OFFSET = 32" "IDT_LENGTH = 288"
  by (simp_all add: PIC_REMAP_OFFSET_def IDT_LENGTH_def)

text \<open>The handler each vector gets: the 19 exceptions, the stub for the hardware vectors and above, the spurious
  handler for line 7. The vectors from 19 to 31 stay absent.\<close>

definition handler :: "(nat \<Rightarrow> 'a) \<Rightarrow> 'a \<Rightarrow> 'a \<Rightarrow> nat \<Rightarrow> 'a option" where
  "handler isr stub spurious i =
     (if i < 19 then Some (isr i) else if i < 32 then None else if i = 39 then Some spurious else Some stub)"

definition gate_of :: "idt_desc_t \<Rightarrow> addr option" where
  "gate_of d = (if gate_present d then Some (gate_addr d) else None)"

definition i386_gate_of :: "i386_idt_desc_t \<Rightarrow> u32 option" where
  "i386_gate_of d = (if bit (i386_type_attr d) 7 then Some (i386_gate_addr d) else None)"

text \<open>
  What both processors' tables promise: writing an entry replaces one descriptor by one that leads to the handler. The
  initialisation of a table is proved from this alone.
\<close>

locale gate_table =
  fixes set_entry :: "nat \<Rightarrow> 'a \<Rightarrow> 'd list \<Rightarrow> 'd list res"
    and gate :: "'d \<Rightarrow> 'a option"
  assumes set_gate: "i < length t \<Longrightarrow> \<exists>d. set_entry i a t = Ok (t[i := d]) \<and> gate d = Some a"
begin

lemma gate_loop:
  assumes "a \<le> b" "b \<le> length t0"
  shows "\<exists>t. for_up a b (\<lambda>i. set_entry i (h i)) t0 = Ok t \<and> length t = length t0 \<and>
    (\<forall>i<length t0. gate (t ! i) = (if a \<le> i \<and> i < b then Some (h i) else gate (t0 ! i)))"
proof (rule for_up_inv [where P = "\<lambda>j t. length t = length t0 \<and>
    (\<forall>i<length t0. gate (t ! i) = (if a \<le> i \<and> i < j then Some (h i) else gate (t0 ! i)))"])
  fix j t
  assume j: "a \<le> j" "j < b" and t: "length t = length t0 \<and>
    (\<forall>i<length t0. gate (t ! i) = (if a \<le> i \<and> i < j then Some (h i) else gate (t0 ! i)))"
  obtain d where "set_entry j (h j) t = Ok (t[j := d])" "gate d = Some (h j)"
    using set_gate [of j t "h j"] j t assms(2) by auto
  then show "\<exists>u. set_entry j (h j) t = Ok u \<and> length u = length t0 \<and>
      (\<forall>i<length t0. gate (u ! i) = (if a \<le> i \<and> i < Suc j then Some (h i) else gate (t0 ! i)))"
    using t j assms(2) by (cases "j < length t0") (auto simp: nth_list_update less_Suc_eq)
qed (use assms in auto)

lemma table_init:
  assumes "length t0 = 288" "\<forall>i<288. gate (t0 ! i) = None"
  shows "\<exists>t. bind_res (for_up 0 19 (\<lambda>i. set_entry i (isr i)) t0) (\<lambda>t.
      bind_res (for_up 32 288 (\<lambda>i. set_entry i stub) t) (set_entry 39 spurious)) = Ok t \<and> length t = 288 \<and>
    (\<forall>i<288. gate (t ! i) = handler isr stub spurious i)"
proof -
  obtain t1 where t1: "for_up 0 19 (\<lambda>i. set_entry i (isr i)) t0 = Ok t1" "length t1 = 288"
      "\<forall>i<288. gate (t1 ! i) = (if i < 19 then Some (isr i) else None)"
    using gate_loop [of 0 19 t0 isr] assms by auto
  obtain t2 where t2: "for_up 32 288 (\<lambda>i. set_entry i stub) t1 = Ok t2" "length t2 = 288"
      "\<forall>i<288. gate (t2 ! i) = (if 32 \<le> i then Some stub else gate (t1 ! i))"
    using gate_loop [of 32 288 t1 "\<lambda>_. stub"] t1(2) by auto
  obtain d where "set_entry 39 spurious t2 = Ok (t2[39 := d])" "gate d = Some spurious"
    using set_gate [of 39 t2 spurious] t2(2) by auto
  then show ?thesis using t1 t2 by (auto simp: handler_def nth_list_update)
qed

lemma entry_only:
  assumes "i < length t"
  shows "\<exists>u. set_entry i a t = Ok u \<and> length u = length t \<and>
    (\<forall>j<length t. gate (u ! j) = (if j = i then Some a else gate (t ! j)))"
  using set_gate [OF assms, of a] by (auto simp: nth_list_update)

end

lemma gate_of_entry [simp]: "gate_of (idt_entry a s d) = Some a"
  by (simp add: gate_of_def gate_present_entry gate_addr_entry)

lemma gate_of_zero [simp]: "gate_of idt_zero = None" "i386_gate_of i386_idt_zero = None"
  by (simp_all add: gate_of_def gate_present_def idt_zero_def i386_gate_of_def i386_idt_zero_def)

lemma i386_gate_of_entry [simp]: "i386_gate_of (i386_idt_entry a s) = Some a"
proof -
  have "bit (i386_type_attr (i386_idt_entry a s)) 7" by (simp add: i386_idt_entry_def GATE_INT_def GATE_PRESENT_def)
  then show ?thesis by (simp add: i386_gate_of_def i386_gate_addr_entry)
qed

interpretation amd64: gate_table "\<lambda>i a. idt_set_entry i a 1" gate_of
  by unfold_locales (auto simp: idt_set_entry_def)

interpretation i386: gate_table "\<lambda>i a. i386_idt_set_entry i a 1" i386_gate_of
  by unfold_locales (auto simp: i386_idt_set_entry_def)

lemma idt_init_spec:
  "\<exists>idt. idt_init isr stub spurious (replicate 288 idt_zero) = Ok idt \<and> length idt = 288 \<and>
    (\<forall>i<288. gate_of (idt ! i) = handler isr stub spurious i)"
  using amd64.table_init [of "replicate 288 idt_zero" isr stub spurious] by (simp add: idt_init_def)

lemma i386_idt_init_spec:
  "\<exists>idt. i386_idt_init isr stub spurious (replicate 288 i386_idt_zero) = Ok idt \<and> length idt = 288 \<and>
    (\<forall>i<288. i386_gate_of (idt ! i) = handler isr stub spurious i)"
  using i386.table_init [of "replicate 288 i386_idt_zero" isr stub spurious] by (simp add: i386_idt_init_def)

text \<open>Binding a handler changes the gate of its line and no other; the vector is always inside the table.\<close>

lemma interrupt_bind_spec:
  assumes "length idt = 288"
  shows "\<exists>idt'. interrupt_bind irq address hardware at idt = Ok (idt_install at, idt') \<and> length idt' = 288 \<and>
    (\<forall>i<288. gate_of (idt' ! i) =
      (if i = (if hardware then 32 else 0) + unat irq then Some address else gate_of (idt ! i)))"
proof -
  let ?v = "(if hardware then 32 else 0) + unat irq"
  have "?v < length idt" using assms unsigned_less [of irq, where 'a = nat] by simp
  from amd64.entry_only [OF this, of address] show ?thesis
    using assms by (auto simp: interrupt_bind_def)
qed

lemma idt_limit: "unat (ip_size (idt_install at)) = 16 * 288 - 1"
  by (simp add: idt_install_def)

lemma gdt_init_spec:
  assumes "length gdt = 3"
  shows "\<exists>g. gdt_init gdt = Ok g \<and> length g = 3 \<and> seg_base (g ! 1) = 0 \<and> seg_base (g ! 2) = 0 \<and>
    seg_limit (g ! 1) = 0xFFFFF \<and> seg_limit (g ! 2) = 0xFFFFF \<and>
    bit (access_flags (g ! 1)) 3 \<and> \<not> bit (access_flags (g ! 2)) 3 \<and> seg_flags (g ! 1) = PAGE OR LONG_64"
  using assms by (simp add: gdt_init_def gdt_set_entry_def Let_def seg_base_entry seg_limit_entry seg_flags_entry)
    (simp add: gdt_entry_def gdt_flags seg_flags_def)

lemma i386_gdt_init_spec:
  assumes "length gdt = 3"
  shows "\<exists>g. i386_gdt_init gdt = Ok g \<and> length g = 3 \<and> seg_base (g ! 1) = 0 \<and> seg_base (g ! 2) = 0 \<and>
    seg_limit (g ! 1) = 0xFFFFF \<and> seg_limit (g ! 2) = 0xFFFFF \<and>
    bit (access_flags (g ! 1)) 3 \<and> \<not> bit (access_flags (g ! 2)) 3 \<and> seg_flags (g ! 1) = PAGE OR PROTECTED_32"
  using assms by (simp add: i386_gdt_init_def i386_gdt_set_entry_def Let_def seg_base_entry seg_limit_entry seg_flags_entry)
    (simp add: gdt_entry_def gdt_flags seg_flags_def)

end
