(* ===== verification/Pit.thy ===== *)
theory Pit
  imports Pic Scheduler
begin

text \<open>
  The interval timer and its interrupt handler (\<open>kernel/x86/pit.cpp\<close>), and the PCI configuration space
  (\<open>kernel/x86/pci.cpp\<close>).
\<close>

definition PORT_PIT_CMD :: u16 where "PORT_PIT_CMD = 0x43"
definition PORT_PIT_DATA_CH0 :: u16 where "PORT_PIT_DATA_CH0 = 0x40"
definition PIT_MAX_RATE :: u32 where "PIT_MAX_RATE = 1193180"

record pit =
  pit_time :: u64
  pit_rate :: u32

definition pit_start :: pit where
  "pit_start = \<lparr>pit_time = 0, pit_rate = 0\<rparr>"

definition pit_set_rate :: "u32 \<Rightarrow> pit \<Rightarrow> trace \<Rightarrow> (pit \<times> trace) res" where
  "pit_set_rate rate p tr =
     (let p = p\<lparr>pit_rate := rate\<rparr>
      in if pit_rate p = 0 then Fail DivByZero
         else let div' = ucast (PIT_MAX_RATE div pit_rate p) :: u16;
                  cmd = push_bit 1 0x3 OR push_bit 4 0x3 :: u8;
                  tr = outb PORT_PIT_CMD cmd tr;
                  tr = outb PORT_PIT_DATA_CH0 (ucast (drop_bit 0 div' AND 0xFF)) tr;
                  tr = outb PORT_PIT_DATA_CH0 (ucast (drop_bit 8 div' AND 0xFF)) tr
              in Ok (p, tr))"

definition pit_init :: "device \<Rightarrow> pit \<Rightarrow> trace \<Rightarrow> (pit \<times> trace) res" where
  "pit_init dev p tr = bind_res (pit_set_rate 1000 p tr) (\<lambda>(p, tr). Ok (p, interrupt_mask dev 0 True tr))"

text \<open>The division is one of \<open>int\<close> by \<open>uint32_t\<close>.\<close>

definition pit_isr_main :: "size_t \<Rightarrow> pit \<times> trace \<times> kernel \<Rightarrow> (switch \<times> pit \<times> trace \<times> kernel) res" where
  "pit_isr_main stack_ptr = (\<lambda>(p, tr, k).
     let tr = interrupt_ack 0 tr
     in if pit_rate p = 0 then Fail DivByZero
        else let p = p\<lparr>pit_time := pit_time p + ucast ((1000000 :: u32) div pit_rate p)\<rparr>
             in bind_res (scheduler_preempt stack_ptr k) (\<lambda>(s, k). Ok (s, p, tr, k)))"

section \<open>The programmed rate\<close>

lemma pit_set_rate_divisor:
  assumes "19 \<le> unat rate" "unat rate \<le> 1193180"
  shows "\<exists>lo hi. pit_set_rate rate p tr = Ok (p\<lparr>pit_rate := rate\<rparr>,
      tr @ [Out8 PORT_PIT_CMD 0x36, Out8 PORT_PIT_DATA_CH0 lo, Out8 PORT_PIT_DATA_CH0 hi]) \<and>
    le16 lo hi = 1193180 div unat rate"
proof -
  let ?d = "ucast (PIT_MAX_RATE div rate) :: u16"
  have nz: "rate \<noteq> 0" using assms(1) by auto
  have "1193180 div unat rate \<le> 1193180 div 19" using assms(1) by (intro div_le_mono2) simp_all
  then have "1193180 div unat rate < 65536" by simp
  then have "unat ?d = 1193180 div unat rate"
    by (simp add: unsigned_ucast_eq take_bit_eq_mod unat_div_distrib PIT_MAX_RATE_def)
  then show ?thesis
    using nz le16_word [of ?d]
    by (intro exI [of _ "ucast (drop_bit 0 ?d AND 0xFF)"] exI [of _ "ucast (drop_bit 8 ?d AND 0xFF)"])
      (simp add: pit_set_rate_def outb_def Let_def)
qed

text \<open>Below 19 Hz the divisor does not fit its 16 bits.\<close>

lemma pit_set_rate_18:
  "\<exists>lo hi. pit_set_rate 18 p tr = Ok (p\<lparr>pit_rate := 18\<rparr>,
      tr @ [Out8 PORT_PIT_CMD 0x36, Out8 PORT_PIT_DATA_CH0 lo, Out8 PORT_PIT_DATA_CH0 hi]) \<and> le16 lo hi = 751"
proof -
  let ?d = "ucast (PIT_MAX_RATE div 18) :: u16"
  have "unat ?d = 751" by (simp add: PIT_MAX_RATE_def)
  then show ?thesis
    using le16_word [of ?d]
    by (intro exI [of _ "ucast (drop_bit 0 ?d AND 0xFF)"] exI [of _ "ucast (drop_bit 8 ?d AND 0xFF)"])
      (simp add: pit_set_rate_def outb_def Let_def)
qed

text \<open>A tick acknowledges the interrupt, advances the time and preempts.\<close>

lemma pit_isr_main_spec:
  assumes "pit_rate p \<noteq> 0" "scheduler_preempt stk k = Ok (s, k')"
  shows "pit_isr_main stk (p, tr, k) =
    Ok (s, p\<lparr>pit_time := pit_time p + ucast (1000000 div pit_rate p)\<rparr>, tr @ [Out8 PORT_PIC1_CMD PIC_EOI], k')"
  using assms by (simp add: pit_isr_main_def interrupt_ack_def pic_ack_def outb_def Let_def)

lemma pit_isr_main_unset: "pit_isr_main stk (pit_start, tr, k) = Fail DivByZero"
  by (simp add: pit_isr_main_def pit_start_def)

section \<open>PCI configuration space\<close>

definition PCI_ADDR_PORT :: u16 where "PCI_ADDR_PORT = 0xCF8"
definition PCI_DATA_PORT :: u16 where "PCI_DATA_PORT = 0xCFC"

definition pci_addr :: "u8 \<Rightarrow> u8 \<Rightarrow> u8 \<Rightarrow> u8 \<Rightarrow> u32" where
  "pci_addr bus slot func offset =
     push_bit 16 (ucast bus) OR push_bit 11 (ucast slot) OR push_bit 8 (ucast func) OR
     (ucast offset AND 0xFC) OR 0x80000000"

definition pci_cfg_read :: "device \<Rightarrow> u8 \<Rightarrow> u8 \<Rightarrow> u8 \<Rightarrow> u8 \<Rightarrow> trace \<Rightarrow> u16 \<times> trace" where
  "pci_cfg_read dev bus slot func offset tr =
     (let tr = outl PCI_ADDR_PORT (pci_addr bus slot func offset) tr;
          (v, tr) = inl dev PCI_DATA_PORT tr
      in (ucast (drop_bit (unat (offset AND 0x2) * 8) v AND 0xFFFF), tr))"

text \<open>Fields of an address as the bridge reads them.\<close>

definition pci_bus :: "u32 \<Rightarrow> u8" where "pci_bus a = ucast (drop_bit 16 a)"
definition pci_slot :: "u32 \<Rightarrow> u8" where "pci_slot a = ucast (take_bit 5 (drop_bit 11 a))"
definition pci_func :: "u32 \<Rightarrow> u8" where "pci_func a = ucast (take_bit 3 (drop_bit 8 a))"

lemma small_word_bits: "take_bit k (x :: u8) = x \<Longrightarrow> bit x n \<Longrightarrow> n < k"
  by (metis bit_take_bit_iff)

lemma pci_bits:
  "bit (0x80000000 :: u32) n \<longleftrightarrow> n = 31" "bit (0xFC :: u32) n \<longleftrightarrow> 2 \<le> n \<and> n < 8"
proof -
  have "(0x80000000 :: u32) = push_bit 31 1" by simp
  then show "bit (0x80000000 :: u32) n \<longleftrightarrow> n = 31" by (simp only: bit_push_bit_iff bit_1_iff) auto
  have "(0xFC :: u32) = push_bit 2 (mask 6)" by (simp add: mask_eq_exp_minus_1)
  then show "bit (0xFC :: u32) n \<longleftrightarrow> 2 \<le> n \<and> n < 8" by (simp only: bit_push_bit_iff bit_mask_iff) auto
qed

lemma pci_addr_fields:
  assumes "take_bit 5 slot = slot" "take_bit 3 func = func"
  shows "pci_bus (pci_addr bus slot func offset) = bus" "pci_slot (pci_addr bus slot func offset) = slot"
    "pci_func (pci_addr bus slot func offset) = func"
proof -
  note small = small_word_bits [OF assms(1)] small_word_bits [OF assms(2)]
  show "pci_bus (pci_addr bus slot func offset) = bus" unfolding pci_bus_def pci_addr_def
    by (rule bit_word_eqI)
      (simp only: bit_unsigned_iff bit_drop_bit_eq bit_take_bit_iff bit_or_iff bit_and_iff bit_push_bit_iff pci_bits comp_apply,
       auto dest: small)
  show "pci_slot (pci_addr bus slot func offset) = slot" unfolding pci_slot_def pci_addr_def
    by (rule bit_word_eqI)
      (simp only: bit_unsigned_iff bit_drop_bit_eq bit_take_bit_iff bit_or_iff bit_and_iff bit_push_bit_iff pci_bits comp_apply,
       auto dest: small)
  show "pci_func (pci_addr bus slot func offset) = func" unfolding pci_func_def pci_addr_def
    by (rule bit_word_eqI)
      (simp only: bit_unsigned_iff bit_drop_bit_eq bit_take_bit_iff bit_or_iff bit_and_iff bit_push_bit_iff pci_bits comp_apply,
       auto dest: small)
qed

end
