(* ===== verification/Boot.thy ===== *)
theory Boot
  imports Multiboot Descriptors Pit Input
begin

text \<open>
  The order of initialisation: \<open>kernel/main.cpp\<close>, \<open>kernel/x86/arch.cpp\<close> and \<open>kernel/x86/amd64/kentry.cpp\<close>. A \<open>machine\<close>
  is the console with the kernel behind it, the boot information, the two descriptor tables and their registers,
  the drivers' variables and the trace of the ports. \<open>boot_env\<close> holds the addresses the linker fixes (end of the
  image, the tables, the assembly entry points, the functions threads start in), the device, the stack contents
  under the local variable of \<open>proc::create\<close> and the fuel of the archive walk. The start-up code calls \<open>kentry\<close>
  and then \<open>kmain\<close>; the constructors it runs in between set nothing that \<open>kentry\<close> has written. Debug output is
  left out.
\<close>

section \<open>The machine\<close>

record machine =
  mcon :: console
  m_meminfo :: mb_meminfo_t
  m_gdt :: "gdt_desc_t list"
  m_gdtr :: gdt_ptr_t
  m_idt :: "idt_desc_t list"
  m_idtr :: idt_ptr_t
  m_pit :: pit
  m_ps2 :: ps2
  m_bus :: trace

abbreviation mk :: "machine \<Rightarrow> kernel" where
  "mk M \<equiv> ck (mcon M)"

record boot_env =
  be_end :: addr
  be_gdt :: addr
  be_idt :: addr
  be_isr :: "nat \<Rightarrow> addr"
  be_stub :: addr
  be_spurious :: addr
  be_isr_pit :: addr
  be_isr_kbd :: addr
  be_isr_syscall :: addr
  be_tty_out :: addr
  be_init :: addr
  be_shell :: addr
  be_dev :: device
  be_slot :: proc_t
  be_fuel :: nat

definition on_con :: "(console \<Rightarrow> ('a \<times> console) res) \<Rightarrow> machine \<Rightarrow> ('a \<times> machine) res" where
  "on_con f M = bind_res (f (mcon M)) (\<lambda>(x, s). Ok (x, M\<lparr>mcon := s\<rparr>))"

definition on_mk :: "(kernel \<Rightarrow> ('a \<times> kernel) res) \<Rightarrow> machine \<Rightarrow> ('a \<times> machine) res" where
  "on_mk f = on_con (on_k f)"

text \<open>A routine that binds a vector and reloads the register of the table.\<close>

definition on_idt :: "(idt_desc_t list \<Rightarrow> (idt_ptr_t \<times> idt_desc_t list) res) \<Rightarrow> machine \<Rightarrow> machine res" where
  "on_idt f M = bind_res (f (m_idt M)) (\<lambda>(r, idt). Ok (M\<lparr>m_idtr := r, m_idt := idt\<rparr>))"

section \<open>Routines with nothing to do\<close>

definition pic_bind :: "machine \<Rightarrow> machine" where
  "pic_bind M = M"

definition pci_init :: "machine \<Rightarrow> machine" where
  "pci_init M = M"

definition scheduler_init :: "machine \<Rightarrow> machine" where
  "scheduler_init M = M"

section \<open>Entry\<close>

definition arch_init :: "boot_env \<Rightarrow> machine \<Rightarrow> machine res" where
  "arch_init E M =
     (let M = pic_bind M;
          M = M\<lparr>m_bus := pic_init (m_bus M)\<rparr>
      in bind_res (on_idt (pit_bind (be_isr_pit E) (be_idt E)) M) (\<lambda>M.
         bind_res (pit_init (be_dev E) (m_pit M) (m_bus M)) (\<lambda>(p, tr).
         let M = M\<lparr>m_pit := p, m_bus := tr\<rparr>;
             M = pci_init M
         in bind_res (on_idt (kbd_bind (be_isr_kbd E) (be_idt E)) M) (\<lambda>M.
            bind_res (kbd_init (be_dev E) (m_ps2 M) (m_bus M)) (\<lambda>(p, tr).
            Ok (M\<lparr>m_ps2 := p, m_bus := tr\<rparr>))))))"

definition early :: "boot_env \<Rightarrow> machine \<Rightarrow> machine res" where
  "early E M = bind_res (on_mk (on_mem (kmem_init (be_end E))) M) (\<lambda>(_, M). Ok M)"

definition set_header :: "boot_env \<Rightarrow> u64 \<Rightarrow> addr \<Rightarrow> machine \<Rightarrow> machine res" where
  "set_header E magic header M =
     bind_res (multiboot_set_header (be_end E) magic header \<lparr>bk = mk M, mb_meminfo = m_meminfo M\<rparr>) (\<lambda>b.
     Ok (M\<lparr>mcon := (mcon M)\<lparr>ck := bk b\<rparr>, m_meminfo := mb_meminfo b\<rparr>))"

definition kentry :: "boot_env \<Rightarrow> u64 \<Rightarrow> addr \<Rightarrow> machine \<Rightarrow> machine res" where
  "kentry E magic header M =
     bind_res (set_header E magic header M) (\<lambda>M.
     bind_res (gdt_init (m_gdt M)) (\<lambda>g.
     let M = M\<lparr>m_gdt := g, m_gdtr := gdt_install (be_gdt E)\<rparr>
     in bind_res (idt_init (be_isr E) (be_stub E) (be_spurious E) (m_idt M)) (\<lambda>i.
        let M = M\<lparr>m_idt := i, m_idtr := idt_install (be_idt E)\<rparr>
        in bind_res (arch_init E M) (early E))))"

section \<open>Main\<close>

definition call_init :: "boot_env \<Rightarrow> machine \<Rightarrow> machine res" where
  "call_init E = on_idt (call_bind (be_isr_syscall E) (be_idt E))"

definition enable_all :: "machine \<Rightarrow> machine" where
  "enable_all M = M\<lparr>mcon := (mcon M)\<lparr>ck := enable_interrupts (mk M)\<rparr>\<rparr>"

definition main :: "boot_env \<Rightarrow> machine \<Rightarrow> machine res" where
  "main E M =
     bind_res (on_mk (on_vfs vfs_init) M) (\<lambda>(_, M).
     bind_res (on_mk (proc_init (be_slot E)) M) (\<lambda>(_, M).
     let M = scheduler_init M
     in bind_res (call_init E M) (\<lambda>M.
        bind_res (on_mk (initrd_init (be_fuel E)) M) (\<lambda>(_, M).
        bind_res (on_con (\<lambda>s. bind_res (serial_init (uart s)) (\<lambda>(x, u). Ok (x, s\<lparr>uart := u\<rparr>))) M) (\<lambda>(_, M).
        bind_res (on_con (tty_init (be_tty_out E)) M) (\<lambda>(_, M).
        bind_res (on_mk get_kernel M) (\<lambda>(p, M).
        bind_res (on_mk (spawn_thread p (be_init E)) M) (\<lambda>(_, M).
        Ok (enable_all M)))))))))"

definition kmain :: "boot_env \<Rightarrow> machine \<Rightarrow> machine res" where
  "kmain E M = main E M"

text \<open>
  The body of the first thread: a process for the shell, with the root of that moment as its directory. The thread runs on
  \<open>THREAD_STACK_SIZE\<close> bytes of the heap; a frame that does not fit there is written outside of them.
\<close>

definition init_thread :: "boot_env \<Rightarrow> machine \<Rightarrow> machine res" where
  "init_thread E M =
     bind_res (on_mk (on_vfs get_root) M) (\<lambda>(root, M).
     if unat THREAD_STACK_SIZE < proc_t_bytes then Fail OutOfBounds
     else bind_res (on_mk (proc_create (be_slot E) (lit ''shell'') root) M) (\<lambda>(p, M).
     bind_res (on_mk (spawn_thread p (be_shell E)) M) (\<lambda>(_, M). Ok M)))"

section \<open>Entry\<close>

lemma on_mk_run: "on_mk f M = bind_res (f (mk M)) (\<lambda>(x, k). Ok (x, M\<lparr>mcon := (mcon M)\<lparr>ck := k\<rparr>\<rparr>))"
  by (cases "f (mk M)") (auto simp: on_mk_def on_con_def on_k_def)

text \<open>The tags change memory, the end of the used space and the list of archives, nothing else.\<close>

definition bare :: "kernel \<Rightarrow> kernel" where
  "bare k = k\<lparr>k_mem := (k_mem k)\<lparr>km_heap := (fst (km_heap (k_mem k)), \<lambda>_. 0), km_end_offset := 0\<rparr>, initrds := []\<rparr>"

lemma bare_set_ram [simp]: "bare (set_ram m k) = bare k"
  by (simp add: bare_def set_ram_def)

lemma bare_upd [simp]: "bare (k\<lparr>k_mem := (k_mem k)\<lparr>km_end_offset := off\<rparr>\<rparr>) = bare k" "bare (initrd_add s n a k) = bare k"
  by (simp_all add: bare_def initrd_add_def)

lemma multiboot_parse_frame: "multiboot_parse e tag b = Ok b' \<Longrightarrow> bare (bk b') = bare (bk b)"
  by (auto simp: multiboot_parse_def multiboot_parse_module_def multiboot_parse_meminfo_def
      multiboot_parse_biosdev_def multiboot_parse_bootcmd_def Let_def case_prod_unfold split: if_splits)

lemma multiboot_loop_frame: "multiboot_loop e n start tot ctag b = Ok b' \<Longrightarrow> bare (bk b') = bare (bk b)"
proof (induction n arbitrary: ctag b)
  case (Suc n)
  then show ?case using multiboot_parse_frame by (fastforce split: if_splits)
qed simp

lemma multiboot_frame: "multiboot_set_header e magic header b = Ok b' \<Longrightarrow> bare (bk b') = bare (bk b)"
  by (auto simp: multiboot_set_header_def Let_def multiboot_loop_frame split: if_splits)

lemma bare_start:
  assumes "bare k = bare (kernel_start m0)" "km_hw m0 = h" "fst (km_heap m0) = p"
  shows "\<exists>m off. k = (kernel_start \<lparr>km_hw = h, km_heap = (p, m), km_end_offset = off\<rparr>)\<lparr>initrds := initrds k\<rparr>"
proof -
  have "km_hw (k_mem (bare k)) = km_hw (k_mem (bare (kernel_start m0)))"
      "fst (km_heap (k_mem (bare k))) = fst (km_heap (k_mem (bare (kernel_start m0))))" using assms(1) by simp_all
  then have "km_hw (k_mem k) = h" "fst (km_heap (k_mem k)) = p"
    using assms(2,3) unfolding bare_def kernel_start_def by simp_all
  moreover have "(bare k)\<lparr>k_mem := k_mem k, initrds := initrds k\<rparr> =
      (bare (kernel_start m0))\<lparr>k_mem := k_mem k, initrds := initrds k\<rparr>" using assms(1) by simp
  then have "k = (kernel_start (k_mem k))\<lparr>initrds := initrds k\<rparr>" by (simp add: bare_def kernel_start_def)
  ultimately show ?thesis
    by (metis kmem.surjective prod.collapse old.unit.exhaust)
qed

text \<open>The drivers: vectors bound, the timer programmed, two lines open.\<close>

lemma on_idt_bind:
  assumes "length (m_idt M) = 288"
  shows "\<exists>idt. on_idt (interrupt_bind irq address hardware at) M = Ok (M\<lparr>m_idtr := idt_install at, m_idt := idt\<rparr>) \<and>
    length idt = 288 \<and> (\<forall>i<288. gate_of (idt ! i) =
      (if i = (if hardware then 32 else 0) + unat irq then Some address else gate_of (m_idt M ! i)))"
  using interrupt_bind_spec [OF assms, of irq address hardware at] by (auto simp: on_idt_def)

lemma masked_pit: "port = PORT_PIT_CMD \<or> port = PORT_PIT_DATA_CH0 \<Longrightarrow> masked (tr @ [Out8 port v]) n = masked tr n"
  by (auto simp: masked_def last_out_append mask_port_def pic_consts PORT_PIT_CMD_def PORT_PIT_DATA_CH0_def)

lemma pit_init_spec:
  assumes "latching dev"
  shows "\<exists>tr'. pit_init dev p tr = Ok (p\<lparr>pit_rate := 1000\<rparr>, tr') \<and>
    (\<forall>n<16. masked tr' n \<longleftrightarrow> n \<noteq> 0 \<and> masked tr n)"
proof -
  obtain lo hi where r: "pit_set_rate 1000 p tr = Ok (p\<lparr>pit_rate := 1000\<rparr>,
      tr @ [Out8 PORT_PIT_CMD 0x36, Out8 PORT_PIT_DATA_CH0 lo, Out8 PORT_PIT_DATA_CH0 hi])"
    using pit_set_rate_divisor [of 1000 p tr] by auto
  let ?tr = "tr @ [Out8 PORT_PIT_CMD 0x36, Out8 PORT_PIT_DATA_CH0 lo, Out8 PORT_PIT_DATA_CH0 hi]"
  have "masked ?tr n = masked tr n" for n
    using masked_pit [of PORT_PIT_CMD tr "0x36" n] masked_pit [of PORT_PIT_DATA_CH0 "tr @ [Out8 PORT_PIT_CMD 0x36]" lo n]
      masked_pit [of PORT_PIT_DATA_CH0 "tr @ [Out8 PORT_PIT_CMD 0x36, Out8 PORT_PIT_DATA_CH0 lo]" hi n] by simp
  then show ?thesis using r pic_mask_bit [OF assms, of 0 _ True ?tr] by (simp add: pit_init_def interrupt_mask_def)
qed

lemma kbd_init_spec:
  assumes "latching dev" "ps2_channel_open p \<noteq> []"
  shows "\<exists>p' tr'. kbd_init dev p tr = Ok (p', tr') \<and> (\<forall>n<16. masked tr' n \<longleftrightarrow> n \<noteq> 1 \<and> masked tr n)"
proof -
  have "\<exists>x p'. ps2_8042_open_port 0 p = Ok (x, p')" using assms(2) by (simp add: ps2_8042_open_port_def) blast
  then obtain x p' where "ps2_8042_open_port 0 p = Ok (x, p')" by blast
  then show ?thesis using pic_mask_bit [OF assms(1), of 1 _ True tr] by (simp add: kbd_init_def interrupt_mask_def)
qed

lemma arch_init_spec:
  assumes "latching (be_dev E)" "ps2_channel_open (m_ps2 M) \<noteq> []" "length (m_idt M) = 288"
  shows "\<exists>M'. arch_init E M = Ok M' \<and> mcon M' = mcon M \<and> m_gdt M' = m_gdt M \<and> length (m_idt M') = 288 \<and>
    (\<forall>i<288. gate_of (m_idt M' ! i) = (if i = 32 then Some (be_isr_pit E) else if i = 33 then Some (be_isr_kbd E)
      else gate_of (m_idt M ! i))) \<and>
    pit_rate (m_pit M') = 1000 \<and> (\<forall>n<16. masked (m_bus M') n \<longleftrightarrow> 2 \<le> n)"
proof -
  define M0 where "M0 = M\<lparr>m_bus := pic_init (m_bus M)\<rparr>"
  obtain i1 where i1: "on_idt (pit_bind (be_isr_pit E) (be_idt E)) M0 = Ok (M0\<lparr>m_idtr := idt_install (be_idt E), m_idt := i1\<rparr>)"
      "length i1 = 288" "\<forall>i<288. gate_of (i1 ! i) = (if i = 32 then Some (be_isr_pit E) else gate_of (m_idt M ! i))"
    using on_idt_bind [of M0 0 "be_isr_pit E" True "be_idt E"] assms(3) by (auto simp: pit_bind_def M0_def)
  obtain t1 where t1: "pit_init (be_dev E) (m_pit M) (pic_init (m_bus M)) = Ok ((m_pit M)\<lparr>pit_rate := 1000\<rparr>, t1)"
      "\<forall>n<16. masked t1 n \<longleftrightarrow> n \<noteq> 0"
    using pit_init_spec [OF assms(1), of "m_pit M" "pic_init (m_bus M)"] by (auto simp: pic_init_masks)
  define M1 where "M1 = M0\<lparr>m_idtr := idt_install (be_idt E), m_idt := i1, m_pit := (m_pit M)\<lparr>pit_rate := 1000\<rparr>, m_bus := t1\<rparr>"
  obtain i2 where i2: "on_idt (kbd_bind (be_isr_kbd E) (be_idt E)) M1 = Ok (M1\<lparr>m_idtr := idt_install (be_idt E), m_idt := i2\<rparr>)"
      "length i2 = 288" "\<forall>i<288. gate_of (i2 ! i) = (if i = 33 then Some (be_isr_kbd E) else gate_of (i1 ! i))"
    using on_idt_bind [of M1 1 "be_isr_kbd E" True "be_idt E"] i1(2) by (auto simp: kbd_bind_def M1_def)
  obtain p2 t2 where t2: "kbd_init (be_dev E) (m_ps2 M) t1 = Ok (p2, t2)" "\<forall>n<16. masked t2 n \<longleftrightarrow> n \<noteq> 1 \<and> n \<noteq> 0"
    using kbd_init_spec [OF assms(1,2), of t1] t1(2) by auto
  have run: "arch_init E M = Ok (M1\<lparr>m_idtr := idt_install (be_idt E), m_idt := i2, m_ps2 := p2, m_bus := t2\<rparr>)"
    using i1(1) t1(1) i2(1) t2(1) by (simp add: arch_init_def pic_bind_def pci_init_def M0_def M1_def)
  show ?thesis unfolding run using i1(2,3) i2(2,3) t2(2) by (auto simp: M1_def M0_def)
qed

section \<open>The heap at boot\<close>

text \<open>Every block from \<open>n\<close> on is free.\<close>

definition unused_from :: "nat \<Rightarrow> heap \<Rightarrow> bool" where
  "unused_from n h \<longleftrightarrow> heap_inv h \<and> block_size (fst h) = 64 \<and> blocks (fst h) = 261123 \<and>
     (\<forall>i<261123. n \<le> i \<longrightarrow> pool_get (fst h) (snd h) i = UNUSED)"

lemma stack_alloc:
  assumes "unused_from n h" "n + 32 \<le> 261123"
  shows "\<exists>p h'. pool_alloc THREAD_STACK_SIZE h = Ok (p, h') \<and> p \<noteq> 0 \<and> unused_from (n + 32) h'"
proof -
  obtain pool m where h: "h = (pool, m)" by (cases h)
  have u: "heap_inv (pool, m)" "block_size pool = 64" "blocks pool = 261123"
      "\<forall>i<261123. n \<le> i \<longrightarrow> pool_get pool m i = UNUSED" using assms(1) by (simp_all add: unused_from_def h)
  have k: "unat (blocks_for pool THREAD_STACK_SIZE) = 32"
    using u(2) by (simp add: blocks_for_def align_ceiling_def THREAD_STACK_SIZE_def)
  have fit: "fits pool m 32 n" using assms(2) u(3,4) by (simp add: fits_def)
  obtain s m' where s: "\<forall>s' < s. \<not> fits pool m 32 s'"
      "pool_alloc THREAD_STACK_SIZE (pool, m) = Ok (block_addr pool s, (pool, m'))"
      "\<forall>l<2 ^ 64. pool_get pool m' l = (if l = s then HEAD else if s < l \<and> l < s + 32 then TAIL else pool_get pool m l)"
    using pool_alloc_first_fit [OF u(1) stack_small(1)] fit unfolding k by blast
  have sn: "s \<le> n" using s(1) fit by (meson not_le)
  then have nz: "block_addr pool s \<noteq> 0"
    using block_addr_nonzero [of pool s] u(1,3) assms(2) by (simp add: heap_inv_def)
  have "heap_inv (pool, m')" using pool_alloc_live [OF u(1) stack_small(1) s(2) nz] by auto
  moreover have "pool_get pool m' i = UNUSED" if "i < 261123" "n + 32 \<le> i" for i
    using that sn s(3) [rule_format, of i] u(4) by simp
  ultimately show ?thesis using s(2) nz u(2,3) by (auto simp: unused_from_def h)
qed

lemma kmem_init_spec:
  assumes "free_pool p" "pool = fst (arch_kernel_alloc e KMEM_SIZE off)" "16 dvd unat pool" "pool \<noteq> 0"
    "unat pool + 2 * 16777216 < 2 ^ 64"
  shows "\<exists>s. kmem_init e \<lparr>km_hw = h, km_heap = (p, m), km_end_offset = off\<rparr> = Ok ((), s) \<and>
    unused_from 0 (km_heap s) \<and> (\<forall>a. (\<forall>i<2 * 16777216. a \<noteq> pool + of_nat i) \<longrightarrow> snd (km_heap s) a = m a)"
proof -
  have sz: "unat KMEM_SIZE = 16777216" "unat KMEM_BLOCK_SIZE = 64" "KMEM_BLOCK_SIZE = 64"
    by (simp_all add: KMEM_SIZE_def KMEM_BLOCK_SIZE_def)
  obtain p' m' where r: "pool_construct pool KMEM_SIZE KMEM_BLOCK_SIZE (p, m) = Ok (True, (p', m'))"
      "heap_inv (p', m')" "body p' = pool" "block_size p' = KMEM_BLOCK_SIZE" "blocks p' = 261123"
      "\<forall>i<261123. pool_get p' m' i = UNUSED"
    using pool_construct_ok [OF assms(1,3,4), of KMEM_BLOCK_SIZE KMEM_SIZE m] assms(5) sz kmem_blocks by auto
  have "unat (pmap p') = unat pool + 64 * 261123"
    using r(2-5) sz by (simp add: heap_inv_def layout_ok_def)
  also have "\<dots> = unat (pool + 16711872)"
    using assms(5) by (subst unat_add_lem [THEN iffD1]) simp_all
  finally have map: "pmap p' = pool + 16711872" by (simp add: word_unat_eq_iff)
  have "m' = memset_loop (pmap p') UNUSED_BYTE 0 (unat (block_count p')) m"
    using r(1) assms(1)
    by (auto simp: pool_construct_def heap_section Let_def heap_unlock_def spinlock_unlock_def)
  then have frame: "m' a = m a" if "\<forall>i<2 * 16777216. a \<noteq> pool + of_nat i" for a
  proof -
    have "a \<noteq> pmap p' + of_nat j" if "j < 261123" for j
      using \<open>\<forall>i<2 * 16777216. a \<noteq> pool + of_nat i\<close> [rule_format, of "16711872 + j"] that map by (simp add: add.assoc)
    then show ?thesis using \<open>m' = _\<close> r(5) by (simp add: memset_loop_frame)
  qed
  obtain off' where "arch_kernel_alloc e KMEM_SIZE off = (pool, off')" using assms(2) by (metis prod.collapse)
  then have run: "kmem_init e \<lparr>km_hw = h, km_heap = (p, m), km_end_offset = off\<rparr> =
      Ok ((), \<lparr>km_hw = hwlock_unlock (hwlock_lock h), km_heap = (p', m'), km_end_offset = off'\<rparr>)"
    using r(1) assms(4) by (simp add: kmem_init_def Let_def)
  have "unused_from 0 (p', m')" using r sz by (simp add: unused_from_def)
  then show ?thesis using run frame by auto
qed

section \<open>From reset to the heap\<close>

text \<open>The machine the loader starts: interrupts off, every static variable at its initial value; \<open>m\<close> and \<open>page\<close>
  are what memory and the video page hold.\<close>

definition pool_start :: pool_t where
  "pool_start = \<lparr>pmap = 0, body = 0, block_size = 0, block_count = 0, plock = spinlock_new\<rparr>"

definition machine_start :: "memory \<Rightarrow> u16 list \<Rightarrow> machine" where
  "machine_start m page = \<lparr>mcon = console_start (kernel_start \<lparr>km_hw = hw_init, km_heap = (pool_start, m), km_end_offset = 0\<rparr>) page,
     m_meminfo = \<lparr>mi_type = 0, mi_size = 0, lower = 0, upper = 0\<rparr>, m_gdt = replicate GDT_LENGTH gdt_zero,
     m_gdtr = \<lparr>gp_size = 0, gp_offset = 0\<rparr>, m_idt = replicate IDT_LENGTH idt_zero, m_idtr = \<lparr>ip_size = 0, ip_offset = 0\<rparr>,
     m_pit = pit_start, m_ps2 = ps2_start hw_init, m_bus = []\<rparr>"

text \<open>Every vector after \<open>kentry\<close>: the table of \<open>idt_init\<close> with the timer and the keyboard in it.\<close>

definition entry_gate :: "boot_env \<Rightarrow> nat \<Rightarrow> addr option" where
  "entry_gate E i = (if i = 32 then Some (be_isr_pit E) else if i = 33 then Some (be_isr_kbd E)
     else handler (be_isr E) (be_stub E) (be_spurious E) i)"

lemma kentry_spec:
  assumes "latching (be_dev E)"
    "multiboot_set_header (be_end E) magic header
      \<lparr>bk = mk (machine_start m0 page), mb_meminfo = m_meminfo (machine_start m0 page)\<rparr> = Ok b"
    "pool = fst (arch_kernel_alloc (be_end E) KMEM_SIZE (km_end_offset (k_mem (bk b))))" "16 dvd unat pool"
    "pool \<noteq> 0" "unat pool + 2 * 16777216 < 2 ^ 64"
  shows "\<exists>M s. kentry E magic header (machine_start m0 page) = Ok M \<and>
    mcon M = console_start ((kernel_start s)\<lparr>initrds := initrds (bk b)\<rparr>) page \<and> unused_from 0 (km_heap s) \<and>
    (\<forall>a. (\<forall>i<2 * 16777216. a \<noteq> pool + of_nat i) \<longrightarrow> snd (km_heap s) a = ram (bk b) a) \<and>
    length (m_idt M) = 288 \<and> (\<forall>i<288. gate_of (m_idt M ! i) = entry_gate E i) \<and>
    pit_rate (m_pit M) = 1000 \<and> (\<forall>n<16. masked (m_bus M) n \<longleftrightarrow> 2 \<le> n)"
proof -
  let ?M0 = "machine_start m0 page"
  obtain m off where b: "bk b = (kernel_start \<lparr>km_hw = hw_init, km_heap = (pool_start, m), km_end_offset = off\<rparr>)\<lparr>initrds := initrds (bk b)\<rparr>"
    using bare_start [OF multiboot_frame [OF assms(2), unfolded machine_start_def console_start_def, simplified] refl refl]
    by auto
  have mb: "k_mem (bk b) = \<lparr>km_hw = hw_init, km_heap = (pool_start, m), km_end_offset = off\<rparr>"
    by (subst b) (simp add: kernel_start_def)
  define M1 where "M1 = ?M0\<lparr>mcon := (mcon ?M0)\<lparr>ck := bk b\<rparr>, m_meminfo := mb_meminfo b\<rparr>"
  obtain g where g: "gdt_init (m_gdt M1) = Ok g"
    using gdt_init_spec [of "m_gdt M1"] by (auto simp: M1_def machine_start_def GDT_LENGTH_def)
  obtain t where t: "idt_init (be_isr E) (be_stub E) (be_spurious E) (m_idt M1) = Ok t" "length t = 288"
      "\<forall>i<288. gate_of (t ! i) = handler (be_isr E) (be_stub E) (be_spurious E) i"
    using idt_init_spec [of "be_isr E" "be_stub E" "be_spurious E"] by (auto simp: M1_def machine_start_def)
  define M2 where "M2 = M1\<lparr>m_gdt := g, m_gdtr := gdt_install (be_gdt E), m_idt := t, m_idtr := idt_install (be_idt E)\<rparr>"
  have "ps2_channel_open (m_ps2 M2) \<noteq> []" "length (m_idt M2) = 288"
    using t(2) by (simp_all add: M2_def M1_def machine_start_def ps2_start_def)
  then obtain M3 where M3: "arch_init E M2 = Ok M3" "mcon M3 = mcon M2" "length (m_idt M3) = 288"
      "\<forall>i<288. gate_of (m_idt M3 ! i) = entry_gate E i" "pit_rate (m_pit M3) = 1000"
      "\<forall>n<16. masked (m_bus M3) n \<longleftrightarrow> 2 \<le> n"
    using arch_init_spec [OF assms(1), of M2] t(3) by (auto simp: M2_def entry_gate_def)
  have con: "mcon M3 = console_start (bk b) page" using M3(2) by (simp add: M2_def M1_def machine_start_def console_start_def)
  obtain s where s: "kmem_init (be_end E) (k_mem (bk b)) = Ok ((), s)" "unused_from 0 (km_heap s)"
      "\<forall>a. (\<forall>i<2 * 16777216. a \<noteq> pool + of_nat i) \<longrightarrow> snd (km_heap s) a = m a"
    using kmem_init_spec [of pool_start pool "be_end E" off hw_init m] assms(3-6) mb
    by (auto simp: pool_start_def spin_held_def spinlock_new_def)
  have "kentry E magic header ?M0 = early E M3"
    using assms(2) g t(1) M3(1) by (simp add: kentry_def set_header_def M1_def M2_def)
  also have "\<dots> = Ok (M3\<lparr>mcon := console_start ((bk b)\<lparr>k_mem := s\<rparr>) page\<rparr>)"
    using s(1) con by (simp add: early_def on_mk_run on_mem_def console_start_def)
  finally have run: "kentry E magic header ?M0 = Ok (M3\<lparr>mcon := console_start ((bk b)\<lparr>k_mem := s\<rparr>) page\<rparr>)" .
  have k: "(bk b)\<lparr>k_mem := s\<rparr> = (kernel_start s)\<lparr>initrds := initrds (bk b)\<rparr>" by (subst b) (simp add: kernel_start_def)
  show ?thesis unfolding run k using s(2,3) M3(3-6) mb by (auto simp: ram_def)
qed

end
