(* ===== verification/Boot_Main.thy ===== *)
theory Boot_Main
  imports Boot
begin

text \<open>
  The kernel's main procedure, step by step: the first process, the root file system from the archive of the boot
  loader, the terminal and the first threads.
\<close>

section \<open>Processes at boot\<close>

text \<open>What the routines of \<open>proc.cpp\<close> never touch.\<close>

definition files_same :: "kernel \<Rightarrow> kernel \<Rightarrow> bool" where
  "files_same k k' \<longleftrightarrow> k_vfs k' = k_vfs k \<and> vtables k' = vtables k \<and> pipes k' = pipes k \<and>
     pipe_store k' = pipe_store k \<and> initrds k' = initrds k \<and> rd_inodes k' = rd_inodes k \<and>
     kproc k' = kproc k \<and> cproc k' = cproc k \<and> cthread k' = cthread k \<and> ctask k' = ctask k"

lemma proc_create_frame:
  assumes "proc_create stk name dir k = Ok (p, k')"
  shows "files_same k k'" "thread_table k' = thread_table k" "thread_counter k' = thread_counter k"
    "schedule k' = schedule k" "km_heap (k_mem k') = km_heap (k_mem k)" "proc_counter k' = proc_counter k + 1"
  using assms by (auto simp: proc_create_def hw_section_Ok Let_def files_same_def)

lemma spawn_thread_frame:
  assumes "ht_lookup (proc_table k) pid = Some p" "spawn_thread pid entry k = Ok (l, k')"
  shows "files_same k k'" "thread_counter k' = thread_counter k + 1" "proc_counter k' = proc_counter k"
  using assms
  by (auto simp: spawn_thread_def create_thread_def hw_section_Ok Let_def files_same_def on_mem_def thread_set_lid_def
      thread_set_def scheduler_schedule_run split: option.splits)

text \<open>The record of a process after a thread with the global id \<open>tid\<close> was entered.\<close>

abbreviation thread_added :: "proc_t \<Rightarrow> id_t \<Rightarrow> proc_t" where
  "thread_added p tid \<equiv> p\<lparr>p_thread_counter := p_thread_counter p + 1,
     threads := snd (ht_add (threads p) (p_thread_counter p) tid)\<rparr>"

lemma spawn_at_boot:
  assumes "k_core k" "ht_lookup (proc_table k) pid = Some p" "unused_from n (km_heap (k_mem k))" "n + 32 \<le> 261123"
    "unat (thread_counter k) + 1 < 2 ^ 64" "ht_size (thread_table k) < HASHTABLE_CAPACITY"
  shows "\<exists>k' stk. spawn_thread pid entry k = Ok (p_thread_counter p, k') \<and> k_core k' \<and>
    unused_from (n + 32) (km_heap (k_mem k')) \<and>
    files_same k k' \<and> proc_counter k' = proc_counter k \<and> thread_counter k' = thread_counter k + 1 \<and>
    schedule k' = q_push (schedule k) \<lparr>t_thread = thread_counter k, priority = 0, cpriority = 0\<rparr> \<and>
    ht_lookup (thread_table k') = (ht_lookup (thread_table k))(thread_counter k \<mapsto>
      (thread_new (thread_counter k) pid entry stk)\<lparr>th_lid := p_thread_counter p\<rparr>) \<and>
    ht_lookup (proc_table k') = (ht_lookup (proc_table k))(pid \<mapsto> thread_added p (thread_counter k)) \<and>
    \<not> hw_locked (hw k')"
proof -
  obtain stk h where a: "pool_alloc THREAD_STACK_SIZE (km_heap (k_mem k)) = Ok (stk, h)" "stk \<noteq> 0" "unused_from (n + 32) h"
    using stack_alloc [OF assms(3,4)] by blast
  obtain l k' where r: "spawn_thread pid entry k = Ok (l, k')" using spawn_thread_returns [OF assms(2) a(1,2)] by blast
  have "\<not> hw_locked (hw k')" using hw_section_released [OF r [unfolded spawn_thread_def]] .
  then show ?thesis
    using spawn_thread_core [OF assms(1,2) r] spawn_thread_frame [OF assms(2) r] assms(5,6) r a by fastforce
qed

lemma proc_init_at_boot:
  assumes "k_core k" "length (p_name stk) = PROC_NAME_MAX" "proc_counter k = 0" "ht_size (proc_table k) < HASHTABLE_CAPACITY"
  shows "\<exists>k' p. proc_init stk k = Ok ((), k') \<and> k_core k' \<and>
    (clean_slot stk \<longrightarrow> procs_ok (proc_table k) \<longrightarrow> procs_ok (proc_table k')) \<and>
    proc_counter k' = 1 \<and> kproc k' = 1 \<and> cproc k' = 1 \<and>
    ht_lookup (proc_table k') = (ht_lookup (proc_table k))(1 \<mapsto> p) \<and> cstr (p_name p) = ''kernel'' \<and> p_dir p = vfs_root (k_vfs k) \<and>
    p_thread_counter p = 0 \<and> lfd_counter p = 0 \<and> ht_size (fds p) = 0 \<and>
    files_same (k\<lparr>kproc := 1, cproc := 1\<rparr>) k' \<and> thread_table k' = thread_table k \<and>
    thread_counter k' = thread_counter k \<and> schedule k' = schedule k \<and> km_heap (k_mem k') = km_heap (k_mem k)"
proof -
  have inv: "vfs_inv (k_vfs k)" "k_core (k_lock k)" using assms(1) by (simp_all add: k_core_def)
  have nm: "is_cstr (lit ''kernel'')" "take (PROC_NAME_MAX - 1) (cstr (lit ''kernel'')) = ''kernel''"
    by (simp_all add: PROC_NAME_MAX_def)
  obtain k1 p where k1: "proc_create stk (lit ''kernel'') (vfs_root (k_vfs k)) (k_lock k) = Ok (1, k1)" "k_core k1"
      "ht_lookup (proc_table k1) = (ht_lookup (proc_table k))(1 \<mapsto> p)" "p_dir p = vfs_root (k_vfs k)" "cstr (p_name p) = ''kernel''"
      "p_thread_counter p = 0" "lfd_counter p = 0" "ht_size (fds p) = 0"
      "clean_slot stk \<longrightarrow> procs_ok (proc_table k) \<longrightarrow> procs_ok (proc_table k1)"
    using proc_create_core [OF inv(2) assms(2) nm(1), of "vfs_root (k_vfs k)"] assms(3,4) nm(2) by auto
  note f = proc_create_frame [OF k1(1)]
  define k' where "k' = k_unlock (k1\<lparr>kproc := 1, cproc := 1\<rparr>)"
  have "(k_lock k)\<lparr>k_vfs := k_vfs k\<rparr> = k_lock k" by (cases k) (simp add: k_lock_def)
  then have "proc_create stk (lit ''kernel'') (vfs_root (k_vfs k)) ((k_lock k)\<lparr>k_vfs := k_vfs k\<rparr>) = Ok (1, k1)"
    using k1(1) by (rule ssubst)
  then have run: "proc_init stk k = Ok ((), k')"
    using get_root_run [OF inv(1)] by (simp add: proc_init_def hw_section_def on_vfs_def k'_def)
  moreover have "k_core k'" using k1(2) by (simp add: k'_def k_core_def)
  ultimately show ?thesis using k1 f assms(3) by (auto simp: k'_def files_same_def)
qed

text \<open>No descriptor has been handed out yet.\<close>

definition no_fds :: "vfs \<Rightarrow> bool" where
  "no_fds v \<longleftrightarrow> fd_table v = ht_empty \<and> fd_counter v = 0"

section \<open>Files at boot\<close>

lemma initrd_create_all_skip:
  "\<forall>j. i \<le> j \<and> j < i + r \<longrightarrow> rd_size (initrds k ! j) = 0 \<Longrightarrow> initrd_create_all fuel i r k = Ok ((), k)"
  by (induction r arbitrary: i) auto

text \<open>One archive on an empty file system: its own root becomes the root, and every record can be found.\<close>

lemma initrd_init_at_boot:
  assumes "k_vfs k = vfs_start" "initrds k = r # replicate 31 initrd_default" "rd_size r \<noteq> 0"
    "archive (ram k) (rd_start r) (s # ss)" "length (s # ss) < fuel"
    "\<forall>a\<in>set (header_addrs (rd_start r) (s # ss)). well_named (ram k) a"
    "sum_list (map (depth (ram k)) (header_addrs (rd_start r) (s # ss))) < HASHTABLE_CAPACITY"
  shows "\<exists>k'. initrd_init fuel k = Ok ((), k') \<and> vfs_inv (k_vfs k') \<and> vfs_root (k_vfs k') = 0 \<and> no_fds (k_vfs k') \<and>
    (\<forall>a\<in>set (header_addrs (rd_start r) (s # ss)). found (ram k) a k') \<and>
    (\<exists>v rd rs. k' = k\<lparr>vtables := (vtables k)(Initrd_vtable := (vtables k Initrd_vtable)\<lparr>vt_open := Some Initrd_open_call,
      vt_close := Some Initrd_close_call, vt_read := Some Initrd_read_call\<rparr>), k_vfs := v, rd_inodes := rd, initrds := rs\<rparr>) \<and>
    unat (inode_counter (k_vfs k')) \<le> 1 + sum_list (map (depth (ram k)) (header_addrs (rd_start r) (s # ss)))"
proof -
  let ?hs = "header_addrs (rd_start r) (s # ss)"
  define k1 where "k1 = k\<lparr>vtables := (vtables k)(Initrd_vtable := (vtables k Initrd_vtable)\<lparr>
    vt_open := Some Initrd_open_call, vt_close := Some Initrd_close_call, vt_read := Some Initrd_read_call\<rparr>)\<rparr>"
  have st: "inode_counter vfs_start = 0" "fs_counter vfs_start = 0" "ht_size (fs_table vfs_start) < HASHTABLE_CAPACITY"
      "ht_size (inode_table vfs_start) < HASHTABLE_CAPACITY" "ht_lookup (inode_table vfs_start) = Map.empty"
    by (simp_all add: vfs_start_def HASHTABLE_CAPACITY_def ht_size_def ht_empty_def ht.lookup_empty [unfolded ht_empty_def])
  obtain v f n where v: "create_fs (lit ''initrd'') vfs_start = Ok (0, v)" "vfs_inv v" "inode_counter v = 1"
      "entries (inode_table v) = entries (inode_table vfs_start)" "ht_lookup (inode_table v) = [0 \<mapsto> n]"
      "ht_lookup (fs_table v) 0 = Some f" "f_root f = 0" "fd_table v = fd_table vfs_start" "fd_counter v = fd_counter vfs_start"
    using create_fs_spec [OF vfs_inv_start, of "lit ''initrd''"] st by auto
  have closed: "closed_tree (inode_table v)" using v(4) st(5) by (simp add: closed_tree_def entries_def)
  have "ht_inv (inode_table v)" using v(2) by (simp add: vfs_inv_def inodes_ok_def)
  from ht.size_card [OF this] have sz: "ht_size (inode_table v) = 1" using v(5) by simp
  define k2 where "k2 = k1\<lparr>k_vfs := v\<lparr>vfs_root := 0\<rparr>, initrds := r\<lparr>rd_fs := 0\<rparr> # replicate 31 initrd_default\<rparr>"
  have tree: "tree_ok k2" using v(2) closed by (simp add: tree_ok_def k2_def vfs_inv_def)
  have ram2: "ram k2 = ram k" by (simp add: k2_def k1_def ram_def)
  have lim: "unat (inode_counter (k_vfs k2)) = 1" "ht_size (tab k2) = 1" "vfs_root (k_vfs k2) = 0"
      "ht_lookup (tab k2) (vfs_root (k_vfs k2)) \<noteq> None" using v(3,5) sz by (simp_all add: k2_def)
  obtain k3 where k3: "initrd_walk fuel 0 (rd_start r) k2 = Ok ((), k3)" "tree_ok k3" "grows k2 k3"
      "\<forall>a\<in>set ?hs. found (ram k) a k3" "unat (inode_counter (k_vfs k3)) \<le> 1 + sum_list (map (depth (ram k)) ?hs)"
    using initrd_walk_spec [of k2 "rd_start r" s ss fuel 0] assms(4-7) tree lim ram2 by (auto simp: HASHTABLE_CAPACITY_def)
  obtain v3 rd where eq: "k3 = k2\<lparr>k_vfs := v3, rd_inodes := rd\<rparr>" using k3(3) by (auto simp: grows_def)
  have rootv: "fs_get_root 0 v = Ok (0, v)" using v(2,6,7) by (simp add: fs_get_root_def vfs_run)
  have "initrd_create fuel 0 (lit ''initrd'') k1 = Ok ((), k3)"
    using v(1) rootv set_root_run [OF v(2), of 0] k3(1) assms(1,2)
    by (simp add: initrd_create_def on_vfs_def k2_def k1_def)
  moreover have "initrd_create_all fuel 1 31 k3 = Ok ((), k3)"
    by (rule initrd_create_all_skip) (auto simp: eq k2_def nth_Cons initrd_default_def split: nat.split)
  ultimately have run: "initrd_init fuel k = Ok ((), k3)"
    using assms(2,3) unfolding initrd_init_def initrd_init_vtable_def k1_def [symmetric] INITRD_MAX_def
    by (simp add: numeral_eq_Suc k1_def)
  have "\<exists>v rd rs. k3 = k1\<lparr>k_vfs := v, rd_inodes := rd, initrds := rs\<rparr>"
    by (intro exI [of _ v3] exI [of _ rd] exI [of _ "initrds k2"]) (simp add: eq k2_def)
  moreover have "vfs_inv (k_vfs k3)" "vfs_root (k_vfs k3) = 0" "no_fds (k_vfs k3)"
    using k3(2,3) lim(3) v(8,9) by (simp_all add: tree_ok_def grows_def no_fds_def k2_def vfs_start_def)
  ultimately show ?thesis using run k3(4,5) unfolding k1_def by blast
qed

text \<open>Mounting a pipe ends in any case and takes no name away; without the directory nothing is mounted.\<close>

definition resolves_kept :: "kernel \<Rightarrow> kernel \<Rightarrow> bool" where
  "resolves_kept k k' \<longleftrightarrow> vfs_root (k_vfs k') = vfs_root (k_vfs k) \<and>
     (\<forall>x qs. resolve (tab k) x qs \<noteq> ID_INVALID \<longrightarrow> resolve (tab k') x qs = resolve (tab k) x qs)"

lemma resolve_cong: "entries t = entries t' \<Longrightarrow> resolve t x qs = resolve t' x qs"
  by (induction qs arbitrary: x) (simp_all add: child_of_def Let_def)

lemma found_kept:
  assumes "found m h k" "is_cstr (mem_string m h)" "vfs_inv (k_vfs k)" "vfs_inv (k_vfs k')" "resolves_kept k k'"
  shows "found m h k'"
proof -
  let ?es = "path_elems (cstr (mem_string m h))" and ?r = "vfs_root (k_vfs k)"
  have "resolve (tab k) ?r ?es \<noteq> ID_INVALID"
    using assms(1) get_inode_resolve [OF assms(3,2)] by (auto simp: found_def on_vfs_def)
  then have "resolve (tab k') (vfs_root (k_vfs k')) ?es \<noteq> ID_INVALID" using assms(5) by (simp add: resolves_kept_def)
  then show ?thesis
    using get_inode_resolve [OF assms(4,2)] by (simp add: found_def on_vfs_def)
qed

lemma mount_kept:
  assumes "vfs_inv v" "is_cstr path" "path_elems (cstr path) = es @ [e]"
  shows "\<exists>x t. mount n path v = Ok (x, v\<lparr>inode_table := t\<rparr>) \<and> vfs_inv (v\<lparr>inode_table := t\<rparr>) \<and>
    (\<forall>x qs. resolve (inode_table v) x qs \<noteq> ID_INVALID \<longrightarrow> resolve t x qs = resolve (inode_table v) x qs)"
proof (cases "resolve (inode_table v) (vfs_root v) es = ID_INVALID \<or>
    ht_lookup (inode_table v) (resolve (inode_table v) (vfs_root v) es) = None")
  case True
  then show ?thesis
    using mount_spec(1) [OF assms] assms(1) by (intro exI [of _ 1] exI [of _ "inode_table v"]) simp
next
  case False
  then show ?thesis using mount_spec(2) [OF assms, of _ n] resolve_append by (metis not_None_eq)
qed

lemma mount_pipe_at_boot:
  assumes "vfs_inv (k_vfs k)" "Suc (unat (inode_counter (k_vfs k))) < 2 ^ 64" "is_cstr path"
    "path_elems (cstr path) = es @ [e]"
  shows "\<exists>c k'. mount_pipe p path k = Ok (c, k') \<and> vfs_inv (k_vfs k') \<and> resolves_kept k k' \<and> no_fds (k_vfs k') = no_fds (k_vfs k) \<and>
    unat (inode_counter (k_vfs k')) = Suc (unat (inode_counter (k_vfs k))) \<and> (\<exists>v ps. k' = k\<lparr>k_vfs := v, pipes := ps\<rparr>)"
proof -
  let ?v = "k_vfs k" and ?c = "inode_counter (k_vfs k)"
  obtain v1 where v1: "create_inode PIPE ?v = Ok (?c, v1)" "vfs_inv v1" using create_inode_inv [OF assms(1,2)] by blast
  have f1: "vfs_root v1 = vfs_root ?v" "inode_counter v1 = ?c + 1" "no_fds v1 = no_fds ?v"
      "inode_table v1 = snd (ht_add (inode_table ?v) ?c ((inode_default PIPE)\<lparr>i_id := ?c, i_vtable := None\<rparr>))"
    using create_inode_run [OF assms(1), of PIPE] v1(1) by (auto simp: no_fds_def)
  have t: "ht_inv (inode_table ?v)" "ht_lookup (inode_table ?v) ?c = None"
    using assms(1) by (simp_all add: vfs_inv_def inodes_ok_def ht.below_fresh)
  have e1: "entries (inode_table v1) = entries (inode_table ?v)"
  proof (cases "ht_size (inode_table ?v) < HASHTABLE_CAPACITY")
    case True
    then show ?thesis using create_inode_lookup(1) [OF assms(1) v1(1)] t(2)
      by (intro ext) (simp add: entries_def inode_default_def vec.elems_new)
  next
    case False
    then show ?thesis using f1(4) t by (simp add: ht.add_full)
  qed
  obtain x2 v2 t2 where v2: "inode_set_vtable ?c (Some Pipe_vtable) v1 = Ok (x2, v2)" "vfs_inv v2"
      "v2 = v1\<lparr>inode_table := t2\<rparr>" "entries t2 = entries (inode_table v1)"
    using inode_update_inv [OF v1(2), of "\<lambda>n. n\<lparr>i_vtable := Some Pipe_vtable\<rparr>" ?c] by (auto simp: inode_set_vtable_def)
  obtain x3 t3 where v3: "mount ?c path v2 = Ok (x3, v2\<lparr>inode_table := t3\<rparr>)" "vfs_inv (v2\<lparr>inode_table := t3\<rparr>)"
      "\<forall>x qs. resolve (inode_table v2) x qs \<noteq> ID_INVALID \<longrightarrow> resolve t3 x qs = resolve (inode_table v2) x qs"
    using mount_kept [OF v2(2) assms(3,4), of ?c] by blast
  obtain y where gv: "inode_get_vtable ?c (v2\<lparr>inode_table := t3\<rparr>) = Ok (y, v2\<lparr>inode_table := t3\<rparr>)"
    using inode_getters_run [OF v3(2)] by blast
  have "resolve (inode_table ?v) x qs = resolve (inode_table v2) x qs" for x qs
    using resolve_cong [of "inode_table ?v" "inode_table v2"] e1 v2(3,4) by simp
  moreover have "mount_pipe p path k = Ok (?c, k\<lparr>k_vfs := v2\<lparr>inode_table := t3\<rparr>, pipes := snd (ht_add (pipes k) ?c p)\<rparr>)"
    using v1(1) v2(1) v3(1) gv by (simp add: mount_pipe_def on_vfs_def)
  ultimately show ?thesis
    using v3(2,3) v2(3) f1 assms(2) by (auto simp: resolves_kept_def unat_succ no_fds_def)
qed

section \<open>The terminal and the first threads\<close>

text \<open>\<open>with_thread pid p entry n k k'\<close>: \<open>k'\<close> is \<open>k\<close> with one more thread, of process \<open>pid\<close> (whose record was \<open>p\<close>), new and
  last in the queue, its stack taken from the blocks behind the first \<open>n\<close>; every name still leads where it led.\<close>

definition with_thread :: "id_t \<Rightarrow> proc_t \<Rightarrow> size_t \<Rightarrow> nat \<Rightarrow> kernel \<Rightarrow> kernel \<Rightarrow> bool" where
  "with_thread pid p entry n k k' \<longleftrightarrow> k_core k' \<and> \<not> hw_locked (hw k') \<and> unused_from (n + 32) (km_heap (k_mem k')) \<and>
     resolves_kept k k' \<and> no_fds (k_vfs k') = no_fds (k_vfs k) \<and> vtables k' = vtables k \<and> kproc k' = kproc k \<and> cproc k' = cproc k \<and>
     proc_counter k' = proc_counter k \<and> thread_counter k' = thread_counter k + 1 \<and>
     schedule k' = q_push (schedule k) \<lparr>t_thread = thread_counter k, priority = 0, cpriority = 0\<rparr> \<and>
     (\<exists>stk. ht_lookup (thread_table k') = (ht_lookup (thread_table k))(thread_counter k \<mapsto>
       (thread_new (thread_counter k) pid entry stk)\<lparr>th_lid := p_thread_counter p\<rparr>)) \<and>
     ht_lookup (proc_table k') = (ht_lookup (proc_table k))(pid \<mapsto> thread_added p (thread_counter k))"

definition room_for_thread :: "id_t \<Rightarrow> proc_t \<Rightarrow> nat \<Rightarrow> kernel \<Rightarrow> bool" where
  "room_for_thread pid p n k \<longleftrightarrow> k_core k \<and> ht_lookup (proc_table k) pid = Some p \<and>
     unused_from n (km_heap (k_mem k)) \<and> n + 32 \<le> 261123 \<and> unat (thread_counter k) + 1 < 2 ^ 64 \<and>
     ht_size (thread_table k) < HASHTABLE_CAPACITY"

lemma spawn_with_thread:
  assumes "room_for_thread pid p n k"
  shows "\<exists>l k'. spawn_thread pid entry k = Ok (l, k') \<and> with_thread pid p entry n k k'"
proof -
  obtain k' stk where "spawn_thread pid entry k = Ok (p_thread_counter p, k')" "k_core k'" "unused_from (n + 32) (km_heap (k_mem k'))"
    "files_same k k'" "proc_counter k' = proc_counter k" "thread_counter k' = thread_counter k + 1"
    "schedule k' = q_push (schedule k) \<lparr>t_thread = thread_counter k, priority = 0, cpriority = 0\<rparr>"
    "ht_lookup (thread_table k') = (ht_lookup (thread_table k))(thread_counter k \<mapsto>
      (thread_new (thread_counter k) pid entry stk)\<lparr>th_lid := p_thread_counter p\<rparr>)"
    "ht_lookup (proc_table k') = (ht_lookup (proc_table k))(pid \<mapsto> thread_added p (thread_counter k))" "\<not> hw_locked (hw k')"
    using spawn_at_boot [of k pid p n entry] assms unfolding room_for_thread_def by blast
  then show ?thesis by (auto simp: with_thread_def files_same_def resolves_kept_def)
qed

lemma room_for_thread_cong:
  assumes "room_for_thread pid p n k" "k_core k'" "km_heap (k_mem k') = km_heap (k_mem k)" "proc_table k' = proc_table k"
    "thread_table k' = thread_table k" "thread_counter k' = thread_counter k"
  shows "room_for_thread pid p n k'"
  using assms by (simp add: room_for_thread_def)

lemma k_core_vfs: "k_core k \<Longrightarrow> vfs_inv v \<Longrightarrow> k_core (k\<lparr>k_vfs := v, pipes := ps\<rparr>)"
  by (simp add: k_core_def)

lemma tty_init_at_boot:
  assumes "\<not> spin_held (tty_lock s)" "\<not> tty_initiated s" "length (cells (screen s)) = 2000"
    "room_for_thread (cproc (ck s)) p n (ck s)" "unat (inode_counter (k_vfs (ck s))) + 2 < 2 ^ 64"
  shows "\<exists>s'. tty_init entry s = Ok ((), s') \<and> tty_initiated s' \<and> cells (screen s') = replicate 2000 (cell 0x20) \<and>
    with_thread (cproc (ck s)) p entry n (ck s) (ck s')"
proof -
  let ?k = "ck s"
  have inv: "k_core ?k" "vfs_inv (k_vfs ?k)" using assms(4) by (simp_all add: room_for_thread_def k_core_def)
  have path: "is_cstr (lit ''/dev/stdin'')" "path_elems (cstr (lit ''/dev/stdin'')) = [''dev''] @ [''stdin'']"
      "is_cstr (lit ''/dev/stdout'')" "path_elems (cstr (lit ''/dev/stdout'')) = [''dev''] @ [''stdout'']"
    by (simp_all add: path_elems_char)
  obtain c1 k1 v1 ps1 where k1: "mount_pipe INPIPE (lit ''/dev/stdin'') ?k = Ok (c1, k1)" "vfs_inv (k_vfs k1)"
      "resolves_kept ?k k1" "no_fds (k_vfs k1) = no_fds (k_vfs ?k)" "unat (inode_counter (k_vfs k1)) = Suc (unat (inode_counter (k_vfs ?k)))"
      "k1 = ?k\<lparr>k_vfs := v1, pipes := ps1\<rparr>"
    using mount_pipe_at_boot [OF inv(2) _ path(1,2), of INPIPE] assms(5) by auto
  obtain c2 k2 v2 ps2 where k2: "mount_pipe OUTPIPE (lit ''/dev/stdout'') k1 = Ok (c2, k2)" "vfs_inv (k_vfs k2)"
      "resolves_kept k1 k2" "no_fds (k_vfs k2) = no_fds (k_vfs k1)" "k2 = k1\<lparr>k_vfs := v2, pipes := ps2\<rparr>"
    using mount_pipe_at_boot [OF k1(2) _ path(3,4), of OUTPIPE] assms(5) k1(5) by auto
  define k3 where "k3 = k_unlock (k_lock k2)"
  have eq: "k2 = ?k\<lparr>k_vfs := v2, pipes := ps2\<rparr>" using k1(6) k2(5) by simp
  have "k_core k2" using k_core_vfs [OF inv(1)] k2(2) unfolding eq by simp
  then have "room_for_thread (cproc ?k) p n k3"
    by (intro room_for_thread_cong [OF assms(4)]) (simp_all add: k3_def eq)
  then obtain l k4 where k4: "spawn_thread (cproc ?k) entry k3 = Ok (l, k4)" "with_thread (cproc ?k) p entry n k3 k4"
    using spawn_with_thread by blast
  let ?t = "(screen s)\<lparr>buffer := buffer (screen s) + arch_get_offset, tcol := 0, trow := 0\<rparr>"
  have scr: "textmode_init (screen s) = Ok (?t\<lparr>cells := replicate 2000 (cell 0x20)\<rparr>)"
    using textmode_clear_spec [of ?t] assms(3) by (simp add: textmode_init_def)
  have "tty_init entry s = Ok ((), s\<lparr>ck := k4, screen := ?t\<lparr>cells := replicate 2000 (cell 0x20)\<rparr>, tty_initiated := True\<rparr>)"
    using assms(1,2) k1(1) k2(1) scr k4(1) eq
    by (simp add: tty_init_def tty_section_run on_k_def get_current_def hw_section_def k3_def tty_unlock_it_def)
  moreover have "with_thread (cproc ?k) p entry n ?k k4"
  proof -
    have "resolves_kept ?k k3" using k1(3) k2(3) by (auto simp: resolves_kept_def k3_def)
    moreover have "no_fds (k_vfs k3) = no_fds (k_vfs ?k)" using k1(4) k2(4) by (simp add: k3_def)
    ultimately show ?thesis using k4(2) by (auto simp: with_thread_def resolves_kept_def k3_def eq)
  qed
  ultimately show ?thesis by auto
qed

section \<open>Main\<close>

lemma k_inv_start:
  assumes "heap_inv (km_heap s)"
  shows "k_inv ((kernel_start s)\<lparr>initrds := rs\<rparr>)"
  using assms vfs_inv_start
  by (simp add: k_inv_def kernel_start_def procs_all_def ht.invar_empty ht.below_empty ht.lookup_empty q_inv_empty SIZE_MOD_def)

lemma serial_init_at_boot: "\<exists>u. serial_init serial_start = Ok ((), u)"
  by (simp add: serial_init_def x86_serial_init_def d_section_run x_section_run serial_start_def spin_held_def
      spinlock_new_def)

text \<open>
  The state \<open>main\<close> leaves: the kernel's process with the terminal's output thread and \<open>init\<close>, in this order, no open
  descriptor, the operations of the ram disk in place and those of the pipes not.
\<close>

definition main_done :: "boot_env \<Rightarrow> kernel \<Rightarrow> bool" where
  "main_done E k \<longleftrightarrow> k_core k \<and> hw_ok k \<and> vfs_root (k_vfs k) = 0 \<and> kproc k = 1 \<and> cproc k = 1 \<and> proc_counter k = 1 \<and>
     thread_counter k = 2 \<and> no_fds (k_vfs k) \<and> initrd_table_ok k \<and> vtables k Pipe_vtable = vtable_null \<and>
     (\<exists>p. ht_lookup (proc_table k) = [1 \<mapsto> p] \<and> cstr (p_name p) = ''kernel'' \<and> p_dir p = ID_INVALID \<and>
       lfd_counter p = 0 \<and> ht_size (fds p) = 0) \<and>
     (\<exists>st0 st1. ht_lookup (thread_table k) = [0 \<mapsto> (thread_new 0 1 (be_tty_out E) st0)\<lparr>th_lid := 0\<rparr>,
        1 \<mapsto> (thread_new 1 1 (be_init E) st1)\<lparr>th_lid := 1\<rparr>]) \<and>
     waiting k = [\<lparr>t_thread = 0, priority = 0, cpriority = 0\<rparr>, \<lparr>t_thread = 1, priority = 0, cpriority = 0\<rparr>] \<and>
     unused_from 64 (km_heap (k_mem k))"

text \<open>In that state a file can be opened, if the tables of the kernel's process are well formed.\<close>

lemma main_done_can_open:
  assumes "main_done E k" "procs_ok (proc_table k)"
  shows "\<exists>p. can_open k p"
  using assms
  by (auto simp: main_done_def can_open_def k_inv_iff no_fds_def HASHTABLE_CAPACITY_def ht_size_def ht_empty_def)

lemma ht_size_start [simp]: "ht_size ht_empty = 0"
  by (simp add: ht_size_def ht_empty_def)

lemma table_size:
  assumes "ht_inv t" "ht_lookup t = m" "card (dom m) < HASHTABLE_CAPACITY"
  shows "ht_size t < HASHTABLE_CAPACITY"
  using ht.size_card [OF assms(1)] assms(2,3) by simp

lemma vfs_init_run: "vfs_inv v \<Longrightarrow> vfs_init v = Ok ((), v)"
  by (simp add: vfs_init_def vfs_run)

lemma on_mk_console:
  "on_mk f (M\<lparr>mcon := console_start k page\<rparr>) =
     bind_res (f k) (\<lambda>(x, k). Ok (x, M\<lparr>mcon := console_start k page\<rparr>))"
  by (cases "f k") (auto simp: on_mk_run console_start_def)

lemma push_two:
  assumes "schedule k = q_push (q_push (q_empty (replicate 256 task_default)) t) u"
  shows "waiting k = [t, u]"
proof -
  have "q_inv (q_empty (replicate 256 task_default))" by (simp add: q_inv_empty SIZE_MOD_def)
  moreover have "q_cap (q_empty (replicate 256 task_default)) = 256" by (simp add: q_cap_def q_empty_def)
  ultimately show ?thesis using assms
    by (simp add: waiting_def ring.push_room ring.invar_push ring.len_contents ring.cap_push)
qed

lemma main_threads:
  assumes "\<not> spin_held (tty_lock s)" "\<not> tty_initiated s" "length (cells (screen s)) = 2000"
    "k_core (ck s)" "kproc (ck s) = 1" "cproc (ck s) = 1" "proc_counter (ck s) = 1" "ht_lookup (proc_table (ck s)) = [1 \<mapsto> p]"
    "cstr (p_name p) = ''kernel''" "p_dir p = ID_INVALID" "p_thread_counter p = 0" "lfd_counter p = 0" "ht_size (fds p) = 0"
    "thread_table (ck s) = ht_empty" "thread_counter (ck s) = 0" "schedule (ck s) = q_empty (replicate 256 task_default)"
    "unused_from 0 (km_heap (k_mem (ck s)))" "unat (inode_counter (k_vfs (ck s))) + 2 < 2 ^ 64"
    "vfs_root (k_vfs (ck s)) = 0" "no_fds (k_vfs (ck s))" "vtables (ck s) Pipe_vtable = vtable_null" "initrd_table_ok (ck s)"
  shows "\<exists>s' k2 l k3. tty_init (be_tty_out E) s = Ok ((), s') \<and> get_kernel (ck s') = Ok (1, k2) \<and>
    spawn_thread 1 (be_init E) k2 = Ok (l, k3) \<and> main_done E (enable_interrupts k3) \<and> tty_initiated s' \<and>
    cells (screen s') = replicate 2000 (cell 0x20) \<and> resolves_kept (ck s) k3 \<and>
    (procs_ok (proc_table (ck s)) \<longrightarrow> procs_ok (proc_table k3))"
proof -
  let ?k = "ck s"
  have "room_for_thread (cproc ?k) p 0 ?k"
    using assms(4,6,8,11,14,15,17) by (simp add: room_for_thread_def HASHTABLE_CAPACITY_def)
  then obtain s' where s': "tty_init (be_tty_out E) s = Ok ((), s')" "tty_initiated s'"
      "cells (screen s') = replicate 2000 (cell 0x20)" "with_thread 1 p (be_tty_out E) 0 ?k (ck s')"
    using tty_init_at_boot [OF assms(1-3) _ assms(18), of p 0 "be_tty_out E"] assms(6) by auto
  define q where "q = thread_added p 0"
  obtain st0 where w: "k_core (ck s')" "unused_from 32 (km_heap (k_mem (ck s')))" "resolves_kept ?k (ck s')"
      "vtables (ck s') = vtables ?k" "kproc (ck s') = 1" "cproc (ck s') = 1" "proc_counter (ck s') = 1"
      "thread_counter (ck s') = 1" "schedule (ck s') = q_push (schedule ?k) \<lparr>t_thread = 0, priority = 0, cpriority = 0\<rparr>"
      "ht_lookup (thread_table (ck s')) = [0 \<mapsto> (thread_new 0 1 (be_tty_out E) st0)\<lparr>th_lid := 0\<rparr>]"
      "ht_lookup (proc_table (ck s')) = [1 \<mapsto> q]" "no_fds (k_vfs (ck s'))"
    using s'(4) assms(5-8,11,14,15,20) by (auto simp: with_thread_def ht.lookup_empty q_def)
  have q: "p_name q = p_name p" "p_dir q = p_dir p" "p_thread_counter q = 1" "lfd_counter q = 0" "ht_size (fds q) = 0"
    using assms(11-13) by (simp_all add: q_def)
  define k2 where "k2 = k_unlock (k_lock (ck s'))"
  have "ht_size (thread_table (ck s')) < HASHTABLE_CAPACITY"
    using table_size [OF _ w(10)] w(1) by (simp add: k_core_def HASHTABLE_CAPACITY_def)
  then have "room_for_thread 1 q 32 k2" using w(1,2,8,11) by (simp add: room_for_thread_def k2_def)
  then obtain l k3 where k3: "spawn_thread 1 (be_init E) k2 = Ok (l, k3)" "with_thread 1 q (be_init E) 32 k2 k3"
    using spawn_with_thread by blast
  define q' where "q' = thread_added q 1"
  obtain st1 where w3: "k_core k3" "\<not> hw_locked (hw k3)" "unused_from 64 (km_heap (k_mem k3))" "resolves_kept k2 k3"
      "vtables k3 = vtables ?k" "kproc k3 = 1" "cproc k3 = 1" "proc_counter k3 = 1" "thread_counter k3 = 2"
      "schedule k3 = q_push (schedule (ck s')) \<lparr>t_thread = 1, priority = 0, cpriority = 0\<rparr>"
      "ht_lookup (thread_table k3) = [0 \<mapsto> (thread_new 0 1 (be_tty_out E) st0)\<lparr>th_lid := 0\<rparr>,
        1 \<mapsto> (thread_new 1 1 (be_init E) st1)\<lparr>th_lid := 1\<rparr>]"
      "ht_lookup (proc_table k3) = [1 \<mapsto> q']" "no_fds (k_vfs k3)"
    using k3(2) w q(3) by (auto simp: with_thread_def k2_def q'_def)
  have q': "p_name q' = p_name p" "p_dir q' = p_dir p" "lfd_counter q' = 0" "ht_size (fds q') = 0"
    using q by (simp_all add: q'_def)
  have kept: "resolves_kept ?k k3" using w(3) w3(4) by (auto simp: resolves_kept_def k2_def)
  have "main_done E (enable_interrupts k3)"
    unfolding main_done_def
  proof (intro conjI)
    show "k_core (enable_interrupts k3)" using w3(1) by (simp add: k_core_def enable_interrupts_def)
    show "hw_ok (enable_interrupts k3)" using w3(2) by (simp add: hw_ok_def enable_interrupts_def)
    show "vfs_root (k_vfs (enable_interrupts k3)) = 0" using kept assms(19) by (simp add: resolves_kept_def enable_interrupts_def)
    show "waiting (enable_interrupts k3) =
        [\<lparr>t_thread = 0, priority = 0, cpriority = 0\<rparr>, \<lparr>t_thread = 1, priority = 0, cpriority = 0\<rparr>]"
      by (rule push_two) (simp add: enable_interrupts_def w3(10) w(9) assms(16))
    show "initrd_table_ok (enable_interrupts k3)" using w3(5) assms(22) by (simp add: initrd_table_ok_def enable_interrupts_def)
  qed (use w3 q' assms(9,10,21) in \<open>auto simp: enable_interrupts_def\<close>)
  moreover have "get_kernel (ck s') = Ok (1, k2)" using w(5) by (simp add: get_kernel_def hw_section_def k2_def)
  moreover have "procs_ok (proc_table k3)" if "procs_ok (proc_table ?k)"
  proof -
    have "proc_ok p" using that assms(8) by (simp add: procs_all_def)
    then have "proc_ok q" unfolding q_def using assms(11) by (intro thread_entered(1)) simp_all
    then have "proc_ok q'" unfolding q'_def using q(3) by (intro thread_entered(1)) simp_all
    then show ?thesis using w3(1,12) by (simp add: k_core_def procs_all_def)
  qed
  ultimately show ?thesis using s' k3(1) kept by blast
qed

lemma main_spec:
  assumes "mcon M = console_start ((kernel_start s)\<lparr>initrds := r # replicate 31 initrd_default\<rparr>) page" "length page = 2000"
    "unused_from 0 (km_heap s)" "length (p_name (be_slot E)) = PROC_NAME_MAX" "length (m_idt M) = 288" "rd_size r \<noteq> 0"
    "archive (snd (km_heap s)) (rd_start r) (z # zs)" "length (z # zs) < be_fuel E"
    "\<forall>a\<in>set (header_addrs (rd_start r) (z # zs)). well_named (snd (km_heap s)) a"
    "sum_list (map (depth (snd (km_heap s))) (header_addrs (rd_start r) (z # zs))) < HASHTABLE_CAPACITY"
  shows "\<exists>M'. main E M = Ok M' \<and> main_done E (mk M') \<and>
    (clean_slot (be_slot E) \<longrightarrow> (\<exists>p. can_open (mk M') p)) \<and> tty_initiated (mcon M') \<and>
    cells (screen (mcon M')) = replicate 2000 (cell 0x20) \<and>
    (\<forall>a\<in>set (header_addrs (rd_start r) (z # zs)). found (snd (km_heap s)) a (mk M')) \<and>
    m_pit M' = m_pit M \<and> m_bus M' = m_bus M \<and> length (m_idt M') = 288 \<and>
    (\<forall>i<288. gate_of (m_idt M' ! i) = (if i = 0x80 then Some (be_isr_syscall E) else gate_of (m_idt M ! i)))"
proof -
  let ?rs = "r # replicate 31 initrd_default" and ?hs = "header_addrs (rd_start r) (z # zs)" and ?m = "snd (km_heap s)"
  define k0 where "k0 = (kernel_start s)\<lparr>initrds := ?rs\<rparr>"
  have k0: "k_core k0" "procs_ok (proc_table k0)" "proc_counter k0 = 0" "proc_table k0 = ht_empty" "k_vfs k0 = vfs_start" "thread_table k0 = ht_empty"
      "thread_counter k0 = 0" "schedule k0 = q_empty (replicate 256 task_default)" "initrds k0 = ?rs" "k_mem k0 = s"
      "vtables k0 vt = vtable_null" for vt
    using k_inv_start [of s ?rs] assms(3) by (simp_all add: k_inv_iff k0_def kernel_start_def unused_from_def)
  obtain k1 p where k1: "proc_init (be_slot E) k0 = Ok ((), k1)" "k_core k1" "proc_counter k1 = 1" "kproc k1 = 1"
      "cproc k1 = 1" "ht_lookup (proc_table k1) = [1 \<mapsto> p]" "cstr (p_name p) = ''kernel''" "p_dir p = ID_INVALID"
      "p_thread_counter p = 0" "files_same (k0\<lparr>kproc := 1, cproc := 1\<rparr>) k1" "thread_table k1 = ht_empty"
      "thread_counter k1 = 0" "schedule k1 = q_empty (replicate 256 task_default)" "km_heap (k_mem k1) = km_heap s"
      "lfd_counter p = 0" "ht_size (fds p) = 0" "clean_slot (be_slot E) \<longrightarrow> procs_ok (proc_table k1)"
    using proc_init_at_boot [OF k0(1) assms(4) k0(3)] k0 by (auto simp: ht.lookup_empty HASHTABLE_CAPACITY_def vfs_start_def)
  have f1: "k_vfs k1 = vfs_start" "initrds k1 = ?rs" "ram k1 = ?m" "vtables k1 vt = vtable_null" for vt
    using k1(10,14) k0(5,9,11) by (simp_all add: files_same_def ram_def)
  obtain k2 v rd rs where k2: "initrd_init (be_fuel E) k1 = Ok ((), k2)" "vfs_inv (k_vfs k2)" "vfs_root (k_vfs k2) = 0" "no_fds (k_vfs k2)"
      "\<forall>a\<in>set ?hs. found ?m a k2" "unat (inode_counter (k_vfs k2)) \<le> 1 + sum_list (map (depth ?m) ?hs)"
      "k2 = k1\<lparr>vtables := (vtables k1)(Initrd_vtable := (vtables k1 Initrd_vtable)\<lparr>vt_open := Some Initrd_open_call,
        vt_close := Some Initrd_close_call, vt_read := Some Initrd_read_call\<rparr>), k_vfs := v, rd_inodes := rd, initrds := rs\<rparr>"
    using initrd_init_at_boot [OF f1(1,2) assms(6), of z zs "be_fuel E"] assms(7-10) f1(3) by auto
  have inv2: "k_core k2" "initrd_table_ok k2"
    using k1(2) k2(2) f1(4) by (simp_all add: k2(7) k_core_def initrd_table_ok_def vtable_null_def)
  define M1 where "M1 = M\<lparr>mcon := console_start k1 page\<rparr>"
  obtain t where t: "call_init E M1 = Ok (M1\<lparr>m_idtr := idt_install (be_idt E), m_idt := t\<rparr>)" "length t = 288"
      "\<forall>i<288. gate_of (t ! i) = (if i = 0x80 then Some (be_isr_syscall E) else gate_of (m_idt M ! i))"
    using on_idt_bind [of M1 CALL_IRQ "be_isr_syscall E" False "be_idt E"] assms(5)
    by (auto simp: call_init_def call_bind_def CALL_IRQ_def M1_def)
  define N where "N = M1\<lparr>m_idtr := idt_install (be_idt E), m_idt := t\<rparr>"
  obtain u where u: "serial_init serial_start = Ok ((), u)" using serial_init_at_boot by blast
  define s3 where "s3 = (console_start k2 page)\<lparr>uart := u\<rparr>"
  have s3: "ck s3 = k2" "\<not> spin_held (tty_lock s3)" "\<not> tty_initiated s3" "length (cells (screen s3)) = 2000"
    using assms(2) by (simp_all add: s3_def console_start_def spin_held_def spinlock_new_def textmode_start_def)
  have lim: "unat (inode_counter (k_vfs k2)) + 2 < 2 ^ 64" using k2(6) assms(10) by (simp add: HASHTABLE_CAPACITY_def)
  obtain s' k3 l k4 where d: "tty_init (be_tty_out E) s3 = Ok ((), s')" "get_kernel (ck s') = Ok (1, k3)"
      "spawn_thread 1 (be_init E) k3 = Ok (l, k4)" "main_done E (enable_interrupts k4)" "tty_initiated s'"
      "cells (screen s') = replicate 2000 (cell 0x20)" "resolves_kept k2 k4" "procs_ok (proc_table k2) \<longrightarrow> procs_ok (proc_table k4)"
    using main_threads [OF s3(2-4), of p E] s3(1) inv2 k1(3-9,11-16) lim k2(3,4) f1(4) assms(3) by (auto simp: k2(7))
  have v0: "on_vfs vfs_init k0 = Ok ((), k0)"
    using vfs_init_run [OF vfs_inv_start] by (simp add: on_vfs_def k0(5))
  have M0: "M = M\<lparr>mcon := console_start k0 page\<rparr>" using assms(1) by (simp add: k0_def)
  have N: "N = N\<lparr>mcon := console_start k1 page\<rparr>" by (simp add: N_def M1_def)
  have r1: "on_mk (on_vfs vfs_init) M = Ok ((), M)" by (subst (1 2) M0) (simp add: on_mk_console v0)
  have r2: "on_mk (proc_init (be_slot E)) M = Ok ((), M1)"
    by (subst M0) (simp add: on_mk_console k1(1) M1_def)
  have r3: "on_mk (initrd_init (be_fuel E)) N = Ok ((), N\<lparr>mcon := console_start k2 page\<rparr>)"
    by (subst N) (simp add: on_mk_console k2(1))
  have r4: "on_con (\<lambda>s. bind_res (serial_init (uart s)) (\<lambda>(x, u). Ok (x, s\<lparr>uart := u\<rparr>))) (N\<lparr>mcon := console_start k2 page\<rparr>) =
      Ok ((), N\<lparr>mcon := s3\<rparr>)"
    using u by (simp add: on_con_def s3_def console_start_def)
  have run: "main E M = Ok (N\<lparr>mcon := s'\<lparr>ck := enable_interrupts k4\<rparr>\<rparr>)"
    unfolding main_def using r1 r2 t(1) [folded N_def] r3 r4 d(1-3)
    by (simp add: scheduler_init_def on_con_def [of "tty_init (be_tty_out E)"] on_mk_run [of get_kernel]
        on_mk_run [of "spawn_thread 1 (be_init E)"] enable_all_def)
  have vinv: "vfs_inv (k_vfs (enable_interrupts k4))" using d(4) by (simp add: main_done_def k_core_def)
  have "resolves_kept k2 (enable_interrupts k4)" using d(7) by (simp add: resolves_kept_def enable_interrupts_def)
  then have "\<forall>a\<in>set ?hs. found ?m a (enable_interrupts k4)"
    using found_kept [OF _ _ k2(2) vinv] k2(5) assms(9) unfolding well_named_def by blast
  moreover have "\<exists>p. can_open (enable_interrupts k4) p" if "clean_slot (be_slot E)"
    using that k1(17) d(8) by (intro main_done_can_open [OF d(4)]) (simp add: k2(7) enable_interrupts_def)
  ultimately show ?thesis unfolding run using d(4-6) t(2,3) by (simp add: N_def M1_def)
qed

section \<open>Moving an archive\<close>

text \<open>The address behind the last record.\<close>

fun archive_end :: "addr \<Rightarrow> size_t list \<Rightarrow> addr" where
  "archive_end h [] = h"
| "archive_end h (s # ss) = archive_end (h + align_ceiling (512 + s) 512) ss"

text \<open>\<open>moved d m m' h ss\<close>: the headers of the archive at \<open>h\<close> in \<open>m\<close> are found \<open>d\<close> further in \<open>m'\<close>.\<close>

definition moved :: "addr \<Rightarrow> memory \<Rightarrow> memory \<Rightarrow> addr \<Rightarrow> size_t list \<Rightarrow> bool" where
  "moved d m m' h ss \<longleftrightarrow> (\<forall>a\<in>insert (archive_end h ss) (set (header_addrs h ss)).
     \<forall>j<512. m' (a + d + of_nat j) = m (a + of_nat j))"

lemma tar_size_loop_moved:
  assumes "\<forall>j<512. m' (h' + of_nat j) = m (h + of_nat j)" "i + n \<le> 12"
  shows "tar_size_loop m' h' i n acc = tar_size_loop m h i n acc"
  using assms(2)
proof (induction n arbitrary: i acc)
  case (Suc n)
  have "m' (h' + TAR_SIZE_OFF + of_nat i) = m (h + TAR_SIZE_OFF + of_nat i)"
    using assms(1) [rule_format, of "124 + i"] Suc.prems by (simp add: TAR_SIZE_OFF_def add.assoc)
  then show ?case using Suc by (simp add: Let_def)
qed simp

lemma tar_size_moved: "\<forall>j<512. m' (h' + of_nat j) = m (h + of_nat j) \<Longrightarrow> tar_size m' h' = tar_size m h"
  by (simp add: tar_size_def tar_size_loop_moved)

lemma header_addrs_moved: "header_addrs (h + d) ss = map (\<lambda>a. a + d) (header_addrs h ss)"
proof (induction ss arbitrary: h)
  case (Cons s ss)
  have eq: "h + d + align_ceiling (512 + s) 512 = h + align_ceiling (512 + s) 512 + d" by (simp only: add.assoc add.commute [of d])
  show ?case by (simp add: eq Cons)
qed simp

lemma archive_moved:
  assumes "archive m h ss" "moved d m m' h ss" "\<forall>a\<in>set (header_addrs h ss). a + d \<noteq> 0"
  shows "archive m' (h + d) ss"
  using assms
proof (induction ss arbitrary: h)
  case Nil
  then show ?case by (auto simp: moved_def dest: spec [of _ 0])
next
  case (Cons s ss)
  have same: "\<forall>j<512. m' (h + d + of_nat j) = m (h + of_nat j)" using Cons.prems(2) by (simp add: moved_def)
  have "moved d m m' (h + align_ceiling (512 + s) 512) ss" using Cons.prems(2) by (simp add: moved_def)
  then have "archive m' (h + align_ceiling (512 + s) 512 + d) ss" using Cons.IH Cons.prems(1,3) by simp
  moreover have "h + align_ceiling (512 + s) 512 + d = h + d + align_ceiling (512 + s) 512"
    by (simp only: add.assoc add.commute [of d])
  ultimately show ?case
    using Cons.prems(1,3) tar_size_moved [OF same] same [rule_format, of 0] by simp
qed

lemma archive_nonzero: "archive m h ss \<Longrightarrow> \<forall>a\<in>set (header_addrs h ss). a \<noteq> 0"
  by (induction ss arbitrary: h) auto

lemma mem_string_moved:
  assumes "\<forall>j<512. m' (a + d + of_nat j) = m (a + of_nat j)" "length (mem_string m a) \<le> 512"
  shows "mem_string m' (a + d) = mem_string m a"
  unfolding mem_string_def
  by (rule mem_string_from_cong [of 512]) (use assms in \<open>simp_all add: mem_string_def\<close>)

text \<open>A well-formed archive with short names: what the kernel needs of it, wherever it is.\<close>

definition good_archive :: "memory \<Rightarrow> addr \<Rightarrow> size_t list \<Rightarrow> bool" where
  "good_archive m h ss \<longleftrightarrow> ss \<noteq> [] \<and> archive m h ss \<and>
     (\<forall>a\<in>set (header_addrs h ss). well_named m a \<and> length (mem_string m a) \<le> 512) \<and>
     sum_list (map (depth m) (header_addrs h ss)) < HASHTABLE_CAPACITY"

lemma good_archive_moved:
  assumes "good_archive m h ss" "moved d m m' h ss" "\<forall>a\<in>set (header_addrs h ss). a + d \<noteq> 0"
  shows "good_archive m' (h + d) ss"
proof -
  have str: "mem_string m' (a + d) = mem_string m a" if "a \<in> set (header_addrs h ss)" for a
    using that assms(1,2) by (intro mem_string_moved) (auto simp: moved_def good_archive_def)
  have "map (depth m') (header_addrs (h + d) ss) = map (depth m) (header_addrs h ss)"
    using str by (simp add: header_addrs_moved depth_def)
  then show ?thesis
    using assms(1) archive_moved [OF _ assms(2,3)] str
    by (auto simp: good_archive_def header_addrs_moved well_named_def simp del: map_map)
qed

section \<open>The first thread\<close>

text \<open>A process record is more than four times as big as the stack \<open>init\<close> builds one on.\<close>

lemma proc_t_size: "proc_t_bytes = 9016"
  by (simp add: proc_t_bytes_def hashtable_bytes_def HASHTABLE_CAPACITY_def PROC_NAME_MAX_def)

lemma init_overruns_stack:
  assumes "main_done E (mk M)"
  shows "init_thread E M = Fail OutOfBounds"
proof -
  have "on_vfs get_root (mk M) = Ok (0, mk M)"
    using assms by (simp add: main_done_def on_vfs_def get_root_run k_core_def)
  then show ?thesis by (simp add: init_thread_def on_mk_run stack_small proc_t_size)
qed

section \<open>From the loader to the first thread\<close>

lemma kernel_boot:
  assumes env: "latching (be_dev E)" "length (p_name (be_slot E)) = PROC_NAME_MAX" "length page = 2000"
    and tags: "multiboot_set_header (be_end E) magic header
      \<lparr>bk = mk (machine_start m page), mb_meminfo = m_meminfo (machine_start m page)\<rparr> = Ok b"
    and rd: "initrds (bk b) = r # replicate 31 initrd_default" "rd_size r \<noteq> 0"
      "good_archive (ram (bk b)) (rd_start r) sizes" "length sizes < be_fuel E"
    and pool: "pool = fst (arch_kernel_alloc (be_end E) KMEM_SIZE (km_end_offset (k_mem (bk b))))" "16 dvd unat pool"
      "pool \<noteq> 0" "unat pool + 2 * 16777216 < 2 ^ 64"
    and apart: "\<forall>a\<in>insert (archive_end (rd_start r) sizes) (set (header_addrs (rd_start r) sizes)).
      clear_of pool (2 * 16777216) a 512"
  shows "\<exists>M1 M2. kentry E magic header (machine_start m page) = Ok M1 \<and> kmain E M1 = Ok M2 \<and> main_done E (mk M2) \<and>
    (clean_slot (be_slot E) \<longrightarrow> (\<exists>p. can_open (mk M2) p)) \<and>
    (\<forall>a\<in>set (header_addrs (rd_start r) sizes). found (ram (bk b)) a (mk M2)) \<and>
    (\<forall>i<288. gate_of (m_idt M2 ! i) = (if i = 0x80 then Some (be_isr_syscall E) else entry_gate E i)) \<and>
    (\<forall>n<16. masked (m_bus M2) n \<longleftrightarrow> 2 \<le> n) \<and> pit_rate (m_pit M2) = 1000 \<and>
    tty_initiated (mcon M2) \<and> cells (screen (mcon M2)) = replicate 2000 (cell 0x20)"
proof -
  let ?h = "rd_start r" and ?m0 = "ram (bk b)"
  obtain M1 s where k: "kentry E magic header (machine_start m page) = Ok M1"
      "mcon M1 = console_start ((kernel_start s)\<lparr>initrds := r # replicate 31 initrd_default\<rparr>) page"
      "unused_from 0 (km_heap s)" "\<forall>a. (\<forall>i<2 * 16777216. a \<noteq> pool + of_nat i) \<longrightarrow> snd (km_heap s) a = ?m0 a"
      "length (m_idt M1) = 288" "\<forall>i<288. gate_of (m_idt M1 ! i) = entry_gate E i" "pit_rate (m_pit M1) = 1000"
      "\<forall>n<16. masked (m_bus M1) n \<longleftrightarrow> 2 \<le> n"
    using kentry_spec [OF env(1) tags pool] unfolding rd(1) by blast
  let ?m1 = "snd (km_heap s)"
  have same: "?m1 (a + of_nat j) = ?m0 (a + of_nat j)" if "a \<in> insert (archive_end ?h sizes) (set (header_addrs ?h sizes))" "j < 512" for a j
    using that apart k(4) unfolding clear_of_def by metis
  have mv: "moved 0 ?m0 ?m1 ?h sizes" unfolding moved_def using same by simp
  have nz: "\<forall>a\<in>set (header_addrs ?h sizes). a \<noteq> 0" using archive_nonzero rd(3) unfolding good_archive_def by blast
  have good: "good_archive ?m1 ?h sizes" using good_archive_moved [OF rd(3) mv] nz by simp
  obtain z zs where zs: "sizes = z # zs" using rd(3) by (cases sizes) (auto simp: good_archive_def)
  obtain M2 where M2: "main E M1 = Ok M2" "main_done E (mk M2)" "clean_slot (be_slot E) \<longrightarrow> (\<exists>p. can_open (mk M2) p)" "tty_initiated (mcon M2)"
      "cells (screen (mcon M2)) = replicate 2000 (cell 0x20)" "\<forall>a\<in>set (header_addrs ?h sizes). found ?m1 a (mk M2)"
      "m_pit M2 = m_pit M1" "m_bus M2 = m_bus M1"
      "\<forall>i<288. gate_of (m_idt M2 ! i) = (if i = 0x80 then Some (be_isr_syscall E) else gate_of (m_idt M1 ! i))"
    using main_spec [OF k(2) env(3) k(3) env(2) k(5) rd(2), of z zs] good rd(4) unfolding zs good_archive_def by blast
  have "mem_string ?m1 a = mem_string ?m0 a" if "a \<in> set (header_addrs ?h sizes)" for a
    using mem_string_moved [of ?m1 a 0 ?m0] same that rd(3) by (simp add: good_archive_def)
  then have "\<forall>a\<in>set (header_addrs ?h sizes). found ?m0 a (mk M2)" using M2(6) by (simp add: found_def)
  then show ?thesis using k M2 by (auto simp: kmain_def)
qed

end
