(* ===== verification/Sample_Boot.thy ===== *)
theory Sample_Boot
  imports Boot_Main Sample_State
begin

text \<open>
  A machine to boot: the loader left the one-file archive of \<open>Sample_State\<close> at \<open>0x1000\<close> and an information block with one
  module tag at \<open>0x9000\<close>; the image ends at \<open>0x200000\<close>.
\<close>

definition boot_ram :: memory where
  "boot_ram = sample_mem(0xFFFFFFFF80009000 := 0x20, 0xFFFFFFFF80009008 := 3, 0xFFFFFFFF8000900C := 23,
     0xFFFFFFFF80009011 := 0x10, 0xFFFFFFFF80009015 := 0x16, 0xFFFFFFFF80009018 := 0x69, 0xFFFFFFFF80009019 := 0x6E,
     0xFFFFFFFF8000901A := 0x69, 0xFFFFFFFF8000901B := 0x74, 0xFFFFFFFF8000901C := 0x72, 0xFFFFFFFF8000901D := 0x64)"

definition boot_page :: "u16 list" where
  "boot_page = replicate 2000 0"

definition boot_slot :: proc_t where
  "boot_slot = \<lparr>p_id = 0, p_name = replicate 256 NUL, p_state = P_ACTIVE, p_dir = 0, p_thread_counter = 0,
     threads = ht_empty, lfd_counter = 0, fds = ht_empty\<rparr>"

definition boot_sample :: boot_env where
  "boot_sample = \<lparr>be_end = 0x200000, be_gdt = 0xFFFFFFFF80110000, be_idt = 0xFFFFFFFF80111000,
     be_isr = (\<lambda>i. 0xFFFFFFFF80100000 + of_nat (16 * i)), be_stub = 0xFFFFFFFF80101000, be_spurious = 0xFFFFFFFF80101010,
     be_isr_pit = 0xFFFFFFFF80101020, be_isr_kbd = 0xFFFFFFFF80101030, be_isr_syscall = 0xFFFFFFFF80101040,
     be_tty_out = 0xFFFFFFFF80102000, be_init = 0xFFFFFFFF80102100, be_shell = 0xFFFFFFFF80102200, be_dev = latch_dev,
     be_slot = boot_slot, be_fuel = 4\<rparr>"

lemma boot_low: "x < 0x10000 \<Longrightarrow> boot_ram x = sample_mem x"
  by (auto simp: boot_ram_def)

lemma boot_fields:
  "load32 boot_ram 0xFFFFFFFF80009000 = 32" "load32 boot_ram 0xFFFFFFFF80009008 = 3"
  "load32 boot_ram 0xFFFFFFFF8000900C = 23" "load32 boot_ram 0xFFFFFFFF80009010 = 0x1000"
  "load32 boot_ram 0xFFFFFFFF80009014 = 0x1600" "mem_string boot_ram 0xFFFFFFFF80009018 = lit ''initrd''"
proof -
  have ch: "char_of (0x69 :: nat) = CHR ''i''" "char_of (0x6E :: nat) = CHR ''n''" "char_of (0x74 :: nat) = CHR ''t''"
      "char_of (0x72 :: nat) = CHR ''r''" "char_of (0x64 :: nat) = CHR ''d''" by code_simp+
  show "mem_string boot_ram 0xFFFFFFFF80009018 = lit ''initrd''"
    by (simp add: mem_string_def boot_ram_def sample_mem_def mem_string_from.simps ch lit_def)
qed (simp_all add: load32_def boot_ram_def sample_mem_def)

lemma boot_slot_clean: "clean_slot boot_slot"
  by (simp add: clean_slot_def boot_slot_def PROC_NAME_MAX_def ht_empty_def)

lemma boot_alloc:
  "arch_kernel_alloc 0x200000 0x600 0 = (0xFFFFFFFF80200000, 0x1000)"
  "fst (arch_kernel_alloc 0x200000 KMEM_SIZE 0x1000) = 0xFFFFFFFF80202000"
  by (simp_all add: arch_kernel_alloc_def Let_def align_ceiling_def ARCH_PAGE_SIZE_def arch_get_offset_def)

abbreviation boot_start :: boot where
  "boot_start \<equiv> \<lparr>bk = mk (machine_start boot_ram boot_page), mb_meminfo = m_meminfo (machine_start boot_ram boot_page)\<rparr>"

lemma boot_start_fields:
  "ram (bk boot_start) = boot_ram" "km_end_offset (k_mem (bk boot_start)) = 0"
  "initrds (bk boot_start) = replicate 32 initrd_default"
  by (simp_all add: machine_start_def console_start_def kernel_start_def ram_def INITRD_MAX_def)

lemma boot_module:
  "\<exists>b. multiboot_parse_module 0x200000 0xFFFFFFFF80009008 boot_start = Ok b \<and>
    bytes_at (ram (bk b)) 0xFFFFFFFF80200000 0x600 = bytes_at boot_ram 0x1000 0x600 \<and>
    initrds (bk b) = \<lparr>rd_start = 0xFFFFFFFF80200000, rd_size = 0xFFFFFFFF80000601, rd_args = 0xFFFFFFFF80009018, rd_fs = 0\<rparr> #
      replicate 31 initrd_default \<and> km_end_offset (k_mem (bk b)) = 0x1000 \<and> load32 (ram (bk b)) 0xFFFFFFFF8000900C = 23"
proof -
  have clear: "clear_of 0xFFFFFFFF80200000 0x600 0xFFFFFFFF80009008 23" "clear_of 0xFFFFFFFF80200000 0x600 0x1000 0x600"
    by (simp_all add: clear_ofI)
  obtain b where b: "multiboot_parse_module 0x200000 0xFFFFFFFF80009008 boot_start = Ok b"
      "bytes_at (ram (bk b)) 0xFFFFFFFF80200000 0x600 = bytes_at boot_ram 0x1000 0x600"
      "initrds (bk b) = initrd_add_from 0xFFFFFFFF80200000 0xFFFFFFFF80000601 0xFFFFFFFF80009018 (replicate 32 initrd_default)"
      "km_end_offset (k_mem (bk b)) = 0x1000"
      "\<forall>i<8. ram (bk b) (0xFFFFFFFF80009008 + of_nat i) = boot_ram (0xFFFFFFFF80009008 + of_nat i)"
    using module_spec [of "0x200000" boot_start "0xFFFFFFFF80009008"] boot_start_fields boot_fields boot_alloc(1) clear
    by (auto simp: arch_get_offset_def)
  have "ram (bk b) (0xFFFFFFFF8000900C + of_nat i) = boot_ram (0xFFFFFFFF8000900C + of_nat i)" if "i < 4" for i
    using b(5) [rule_format, of "4 + i"] that by simp
  then have "load32 (ram (bk b)) 0xFFFFFFFF8000900C = 23"
    using load32_cong [of "ram (bk b)" "0xFFFFFFFF8000900C" boot_ram] boot_fields(3) by simp
  moreover have "initrd_add_from x y z (replicate 32 initrd_default) =
      initrd_default\<lparr>rd_start := x, rd_size := y, rd_args := z\<rparr> # replicate 31 initrd_default" for x y z
    by (simp add: numeral_eq_Suc initrd_default_def)
  ultimately show ?thesis using b by (simp add: initrd_default_def)
qed

lemma boot_tags:
  "\<exists>b. multiboot_set_header 0x200000 MULTIBOOT_EAX_MAGIC 0x9000 boot_start = Ok b \<and>
    bytes_at (ram (bk b)) 0xFFFFFFFF80200000 0x600 = bytes_at boot_ram 0x1000 0x600 \<and>
    initrds (bk b) = \<lparr>rd_start = 0xFFFFFFFF80200000, rd_size = 0xFFFFFFFF80000601, rd_args = 0xFFFFFFFF80009018, rd_fs = 0\<rparr> #
      replicate 31 initrd_default \<and> km_end_offset (k_mem (bk b)) = 0x1000"
proof -
  obtain b where b: "multiboot_parse_module 0x200000 0xFFFFFFFF80009008 boot_start = Ok b"
      "bytes_at (ram (bk b)) 0xFFFFFFFF80200000 0x600 = bytes_at boot_ram 0x1000 0x600"
      "initrds (bk b) = \<lparr>rd_start = 0xFFFFFFFF80200000, rd_size = 0xFFFFFFFF80000601, rd_args = 0xFFFFFFFF80009018, rd_fs = 0\<rparr> #
        replicate 31 initrd_default" "km_end_offset (k_mem (bk b)) = 0x1000" "load32 (ram (bk b)) 0xFFFFFFFF8000900C = 23"
    using boot_module by blast
  have nxt: "next_tag (ram (bk b)) 0xFFFFFFFF80009008 = 0xFFFFFFFF80009020"
    using b(5) by (simp add: next_tag_def align_ceiling_def)
  have "multiboot_parse 0x200000 0xFFFFFFFF80009008 boot_start = Ok b"
    unfolding multiboot_parse_def Let_def boot_start_fields(1) boot_fields(2) using b(1) by simp
  then have "multiboot_loop 0x200000 (Suc (Suc 1022)) 0xFFFFFFFF80009000 32 0xFFFFFFFF80009008 boot_start = Ok b"
    using nxt unfolding multiboot_loop.simps by simp
  moreover have tags: "MAX_TAGS = Suc (Suc 1022)" by (simp add: MAX_TAGS_def)
  ultimately have "multiboot_set_header 0x200000 MULTIBOOT_EAX_MAGIC 0x9000 boot_start = Ok b"
    unfolding multiboot_set_header_def Let_def boot_start_fields(1) tags
    by (simp add: arch_get_offset_def boot_fields(1) align_ceiling_def)
  then show ?thesis using b(2-4) by blast
qed

lemma sample_good: "good_archive sample_mem 0x1000 [5]"
  using sample_archive sample_well_named sample_strings(1) by (simp add: good_archive_def HASHTABLE_CAPACITY_def)

text \<open>The copy of the module is the archive, at its new place.\<close>

lemma boot_archive:
  assumes "bytes_at m 0xFFFFFFFF80200000 0x600 = bytes_at boot_ram 0x1000 0x600"
  shows "good_archive m 0xFFFFFFFF80200000 [5]" "mem_string m 0xFFFFFFFF80200000 = ''a'' @ [NUL]"
proof -
  have copy: "m (0xFFFFFFFF80200000 + of_nat i) = sample_mem (0x1000 + of_nat i)" if "i < 0x600" for i
  proof -
    have "m (0xFFFFFFFF80200000 + of_nat i) = boot_ram (0x1000 + of_nat i)"
      using arg_cong [OF assms, of "\<lambda>xs. xs ! i"] that by (simp add: bytes_at_def)
    moreover have "(0x1000 + of_nat i :: addr) < 0x10000"
      using that by (simp add: word_less_nat_alt unat_add_offset64)
    ultimately show ?thesis by (simp add: boot_low)
  qed
  have "archive_end 0x1000 [5] = 0x1400" "header_addrs 0x1000 [5] = [0x1000]" by (simp_all add: align_ceiling_def)
  then have mv: "moved 0xFFFFFFFF801FF000 sample_mem m 0x1000 [5]"
    using copy copy [of "0x400 + j" for j] by (simp add: moved_def add.assoc)
  show "good_archive m 0xFFFFFFFF80200000 [5]" using good_archive_moved [OF sample_good mv] by simp
  show "mem_string m 0xFFFFFFFF80200000 = ''a'' @ [NUL]"
    using mem_string_moved [of m "0x1000" "0xFFFFFFFF801FF000" sample_mem] mv sample_strings(1) by (simp add: moved_def)
qed

lemma boot_sample_fields:
  "be_end boot_sample = 0x200000" "be_fuel boot_sample = 4" "be_slot boot_sample = boot_slot" "be_dev boot_sample = latch_dev"
  by (simp_all add: boot_sample_def)

lemma boot_apart:
  "\<forall>a\<in>insert (archive_end 0xFFFFFFFF80200000 [5]) (set (header_addrs 0xFFFFFFFF80200000 [5])).
    clear_of 0xFFFFFFFF80202000 (2 * 16777216) a 512"
proof -
  have "archive_end 0xFFFFFFFF80200000 [5] = 0xFFFFFFFF80200400" "header_addrs 0xFFFFFFFF80200000 [5] = [0xFFFFFFFF80200000]"
    by (simp_all add: align_ceiling_def)
  then show ?thesis by (simp add: clear_ofI)
qed

end
