(* ===== verification/Kernel_Types.thy ===== *)
theory Kernel_Types
  imports Boot_Main Vfs_Trace Shell
begin

text \<open>
  The type of a kernel state. \<open>k_typed\<close> adds to \<open>k_core\<close> what the rest of the state promises: every slot of a \<open>vtable_t\<close>
  holds a function of the slot's type, the tables of pipes and of ram disk headers are keyed by inodes that exist or
  existed, every pipe is a well-formed FIFO, and there are \<open>INITRD_MAX\<close> registered archives. Each lemma \<open>..._typed\<close> says
  that a routine of \<open>kernel/proc/\<close>, \<open>kernel/vfs/\<close> or \<open>kernel/sys/\<close> keeps it on every branch, and each lemma
  \<open>..._returns\<close> that a call through a function pointer reaches a function of the right type and returns.
\<close>

section \<open>Well-typed states\<close>

definition vtable_typed :: "vtable_t \<Rightarrow> bool" where
  "vtable_typed v \<longleftrightarrow>
     vt_open v \<in> {None, Some Initrd_open_call, Some Pipe_open_call} \<and>
     vt_close v \<in> {None, Some Initrd_close_call, Some Pipe_close_call} \<and>
     vt_read v \<in> {None, Some Initrd_read_call, Some Pipe_read_call} \<and>
     vt_write v \<in> {None, Some Pipe_write_call}"

text \<open>A table keyed by inodes that have been handed out.\<close>

definition by_inode :: "vfs \<Rightarrow> 'a hashtable \<Rightarrow> bool" where
  "by_inode v t \<longleftrightarrow> ht_inv t \<and> ht.below t (unat (inode_counter v))"

definition k_typed :: "kernel \<Rightarrow> bool" where
  "k_typed k \<longleftrightarrow> k_core k \<and> (\<forall>vt. vtable_typed (vtables k vt)) \<and> by_inode (k_vfs k) (pipes k) \<and>
     by_inode (k_vfs k) (rd_inodes k) \<and> (\<forall>p. fifo_inv (pipe_store k p)) \<and> length (initrds k) = INITRD_MAX"

lemma k_typed_inv: "k_typed k \<Longrightarrow> k_core k" "k_typed k \<Longrightarrow> vfs_inv (k_vfs k)"
  by (simp_all add: k_typed_def k_core_def)

definition frame :: "kernel \<Rightarrow> kernel \<Rightarrow> bool" where
  "frame k k' \<longleftrightarrow> vtables k' = vtables k \<and> pipes k' = pipes k \<and> rd_inodes k' = rd_inodes k \<and>
     pipe_store k' = pipe_store k \<and> initrds k' = initrds k \<and>
     unat (inode_counter (k_vfs k)) \<le> unat (inode_counter (k_vfs k'))"

lemma k_typed_frame: "k_typed k \<Longrightarrow> k_core k' \<Longrightarrow> frame k k' \<Longrightarrow> k_typed k'"
  by (auto simp: k_typed_def by_inode_def frame_def intro: ht.below_mono)

lemma k_typed_lock [simp]: "k_typed (k_lock k) = k_typed k" "k_typed (k_unlock k) = k_typed k"
  by (simp_all add: k_typed_def)

lemma k_typed_start:
  assumes "heap_inv (km_heap s)" "length rs = INITRD_MAX"
  shows "k_typed ((kernel_start s)\<lparr>initrds := rs\<rparr>)"
proof -
  have "fifo_inv pipe_new"
    by (simp add: pipe_new_def fifo_new_def fifo_inv_def PIPE_SIZE_def q_inv_empty SIZE_MOD_def)
  then show ?thesis using k_inv_start [OF assms(1), of rs] assms(2)
    by (simp add: k_inv_iff k_typed_def kernel_start_def vtable_typed_def vtable_null_def by_inode_def ht.invar_empty ht.below_empty)
qed

lemma post_section: "post k_typed (f (k_lock k)) \<Longrightarrow> post k_typed (hw_section f k)"
  by (auto simp: post_def hw_section_Ok)

section \<open>The file system\<close>

lemma section_counter:
  assumes "vfs_section f v = Ok (x, v')"
    "\<And>y w. f (locked_vfs v) = Ok (y, w) \<Longrightarrow> unat (inode_counter v) \<le> unat (inode_counter w)"
  shows "unat (inode_counter v) \<le> unat (inode_counter v')"
  using assms
  by (auto simp: with_lock_def vfs_lock_def spinlock_lock_def vfs_unlock_def split: if_splits)

lemma push_child_counter: "push_child c nm d n v = Ok v' \<Longrightarrow> inode_counter v' = inode_counter v"
  by (auto simp: push_child_def split: option.splits)

lemma inode_update_counter: "inode_update i f v = Ok (x, v') \<Longrightarrow> unat (inode_counter v) \<le> unat (inode_counter v')"
  unfolding inode_update_def by (rule section_counter) (auto split: option.splits)

lemma fd_update_counter: "fd_update i f v = Ok (x, v') \<Longrightarrow> unat (inode_counter v) \<le> unat (inode_counter v')"
  unfolding fd_update_def by (rule section_counter) (auto split: option.splits)

lemma create_inode_counter:
  assumes "Suc (unat (inode_counter v)) < 2 ^ 64" "create_inode ty v = Ok (x, v')"
  shows "unat (inode_counter v) \<le> unat (inode_counter v')"
  using assms(2) unat_succ [OF assms(1)] unfolding create_inode_def
  by (elim section_counter) (auto simp: Let_def)

lemma vfs_step_counter:
  assumes "vfs_step v v'" "vfs_inv v"
  shows "unat (inode_counter v) \<le> unat (inode_counter v')"
  using assms
proof (induction rule: vfs_step.induct)
  case (st_create_inode v ty k v')
  then show ?case using create_inode_counter by blast
next
  case (st_create_fs name v k v')
  then show ?case using create_fs_spec [of v name] unat_succ [of "inode_counter v"] by auto
qed (auto simp: set_root_def mount_def create_fd_def delete_inode_def delete_fs_def delete_fd_def fs_set_name_def
    fs_set_root_def inode_set_type_def inode_set_vtable_def inode_set_fs_def inode_mount_child_def fd_set_inode_def
    fd_set_mode_def fd_set_offset_def Let_def case_prod_unfold
    split: if_splits option.splits
    elim!: section_counter inode_update_counter fd_update_counter dest!: push_child_counter)

lemma vfs_steps: "vfs_step\<^sup>*\<^sup>* v v' \<Longrightarrow> vfs_inv v \<Longrightarrow> vfs_inv v' \<and> unat (inode_counter v) \<le> unat (inode_counter v')"
proof (induction rule: rtranclp_induct)
  case (step w u)
  then show ?case using vfs_step_inv [OF step.hyps(2)] vfs_step_counter [OF step.hyps(2)] by auto
qed simp

lemma k_typed_vfs:
  assumes "k_typed k" "vfs_step\<^sup>*\<^sup>* (k_vfs k) v"
  shows "k_typed (k\<lparr>k_vfs := v\<rparr>)"
proof -
  have v: "vfs_inv v" "unat (inode_counter (k_vfs k)) \<le> unat (inode_counter v)"
    using vfs_steps [OF assms(2)] k_typed_inv(2) [OF assms(1)] by auto
  then have "k_core (k\<lparr>k_vfs := v\<rparr>)" using k_typed_inv(1) [OF assms(1)] by (simp add: k_core_def)
  then show ?thesis using v(2) by (intro k_typed_frame [OF assms(1)]) (simp_all add: frame_def)
qed

lemma on_vfs_Ok: "on_vfs f k = Ok (x, k') \<longleftrightarrow> (\<exists>v. f (k_vfs k) = Ok (x, v) \<and> k' = k\<lparr>k_vfs := v\<rparr>)"
  by (auto simp: on_vfs_def)

section \<open>Pipes and the ram disk\<close>

lemma by_inode_add:
  assumes "by_inode v t" "unat (inode_counter v) < unat (inode_counter v')"
  shows "by_inode v' (snd (ht_add t (inode_counter v) x))"
proof -
  have inv: "ht_inv t" and below: "ht.below t (unat (inode_counter v))" using assms(1) by (simp_all add: by_inode_def)
  show ?thesis
    using ht.below_mono [OF ht.below_add [OF inv below, of x], of "unat (inode_counter v')"]
      ht.invar_add [OF inv ht.below_fresh [OF below], of x] assms(2) by (simp add: by_inode_def)
qed

lemma create_inode_step:
  assumes "vfs_inv v" "Suc (unat (inode_counter v)) < 2 ^ 64" "create_inode ty v = Ok (c, v')"
  shows "c = inode_counter v" "vfs_step v v'" "unat (inode_counter v') = Suc (unat (inode_counter v))"
  using create_inode_run [OF assms(1), of ty] assms(2,3) by (auto simp: unat_succ intro: st_create_inode)

lemma mount_pipe_typed:
  assumes "k_typed k" "Suc (unat (inode_counter (k_vfs k))) < 2 ^ 64" "is_cstr path" "mount_pipe p path k = Ok (c, k')"
  shows "k_typed k'"
proof -
  let ?v = "k_vfs k"
  have inv: "vfs_inv ?v" using k_typed_inv(2) [OF assms(1)] .
  obtain v1 v2 v3 v4 x2 x3 x4 where v: "create_inode PIPE ?v = Ok (c, v1)" "inode_set_vtable c (Some Pipe_vtable) v1 = Ok (x2, v2)"
      "mount c path v2 = Ok (x3, v3)" "inode_get_vtable c v3 = Ok (x4, v4)"
      and k': "k' = k\<lparr>k_vfs := v4, pipes := snd (ht_add (pipes k) c p)\<rparr>"
    using assms(4) by (auto simp: mount_pipe_def on_vfs_Ok)
  note s1 = create_inode_step [OF inv assms(2) v(1)]
  have "vfs_step v1 v2" "vfs_step v2 v3" using v(2,3) assms(3) by (auto intro: st_vtable st_mount)
  then have s: "vfs_step\<^sup>*\<^sup>* v1 v3" by auto
  have i1: "vfs_inv v1" using vfs_steps [of ?v v1] s1(2) inv by auto
  have i3: "vfs_inv v3" "unat (inode_counter v1) \<le> unat (inode_counter v3)" using vfs_steps [OF s i1] by auto
  have v4: "v4 = v3" using inode_getters_run [OF i3(1)] v(4) by auto
  have "k_typed (k\<lparr>k_vfs := v3\<rparr>)" using s s1(2) by (intro k_typed_vfs [OF assms(1)]) auto
  moreover have "by_inode v3 (snd (ht_add (pipes k) c p))"
    using by_inode_add [of ?v "pipes k" v3 p] assms(1) s1 i3(2) by (simp add: k_typed_def)
  ultimately show ?thesis using k' v4 by (simp add: k_typed_def k_core_def)
qed

lemma path_buffer_cstr:
  assumes "is_cstr s" "path_element_get s (replicate 256 NUL) i = Ok (f, b)"
  shows "is_cstr b"
proof -
  have buf: "length (replicate 256 NUL) = FILENAME_MAX" by (simp add: FILENAME_MAX_def)
  show ?thesis
  proof (cases "i < length (path_elems (cstr s))")
    case True
    obtain b' where "path_element_get s (replicate 256 NUL) i = Ok (True, b')" "is_cstr b'"
      using path_element_get_spec(1) [OF assms(1) buf True] by blast
    then show ?thesis using assms(2) by simp
  next
    case False
    then have "b = replicate 256 NUL" using path_element_get_spec(2) [OF assms(1) buf, of i] assms(2) by simp
    then show ?thesis by (simp add: is_cstr_def)
  qed
qed

lemma initrd_element_typed:
  assumes "k_typed k" "Suc (unat (inode_counter (k_vfs k))) < 2 ^ 64" "is_cstr (mem_string (ram k) h)"
    "initrd_element fs h n i d k = Ok (c, k')"
  shows "k_typed k'"
proof -
  let ?v = "k_vfs k"
  have inv: "vfs_inv ?v" using k_typed_inv(2) [OF assms(1)] .
  obtain f b where b: "path_element_get (mem_string (ram k) h) (replicate 256 NUL) i = Ok (f, b)"
    using assms(4) by (auto simp: initrd_element_def)
  have cb: "is_cstr b" using path_buffer_cstr [OF assms(3) b] .
  obtain t v0 where t: "inode_get_child d b ?v = Ok (t, v0)"
    using assms(4) b by (auto simp: initrd_element_def on_vfs_Ok)
  have "v0 = ?v" using t inv by (auto simp: inode_get_child_def vfs_run split: option.splits)
  show ?thesis
  proof (cases "t = ID_INVALID")
    case False
    then show ?thesis using assms(1,4) b t \<open>v0 = ?v\<close> by (auto simp: initrd_element_def on_vfs_Ok)
  next
    case True
    define ty where "ty = (if i + 1 = n then type_of_flag (ram k (h + TAR_TYPE_OFF)) else DIRECTORY)"
    have child: "on_vfs (inode_get_child d b) k = Ok (ID_INVALID, k)" using t True \<open>v0 = ?v\<close> by (simp add: on_vfs_def)
    have run: "initrd_element fs h n i d k = bind_res (on_vfs (create_inode ty) k) (\<lambda>(ninode, k2).
          bind_res (on_vfs (inode_set_fs ninode fs) k2) (\<lambda>(_, k3).
          bind_res (on_vfs (inode_mount_child d ninode b) k3) (\<lambda>(_, k4).
          if ty = NORMAL_FILE \<and> i + 1 = n
          then bind_res (on_vfs (inode_set_vtable ninode (Some Initrd_vtable)) k4) (\<lambda>(_, k5).
               Ok (ninode, k5\<lparr>rd_inodes := snd (ht_add (rd_inodes k5) ninode h)\<rparr>))
          else bind_res (on_vfs (inode_set_vtable ninode None) k4) (\<lambda>(_, k5). Ok (ninode, k5)))))"
      by (simp add: initrd_element_def b child ty_def Let_def)
    obtain v1 v2 v3 x2 x3 where v: "create_inode ty ?v = Ok (c, v1)" "inode_set_fs c fs v1 = Ok (x2, v2)"
        "inode_mount_child d c b v2 = Ok (x3, v3)"
      using assms(4) unfolding run by (cases "ty = NORMAL_FILE \<and> i + 1 = n") (auto simp: on_vfs_Ok)
    obtain v4 x4 w where v4: "inode_set_vtable c w v3 = Ok (x4, v4)"
        and k': "k' = k\<lparr>k_vfs := v4\<rparr> \<or> k' = k\<lparr>k_vfs := v4, rd_inodes := snd (ht_add (rd_inodes k) c h)\<rparr>"
      using assms(4) v unfolding run by (cases "ty = NORMAL_FILE \<and> i + 1 = n") (auto simp: on_vfs_def)
    note s1 = create_inode_step [OF inv assms(2) v(1)]
    have "vfs_step v1 v2" "vfs_step v2 v3" "vfs_step v3 v4" using v(2,3) v4 cb by (auto intro: st_inode_fs st_mount_child st_vtable)
    then have s: "vfs_step\<^sup>*\<^sup>* v1 v4" by auto
    have i1: "vfs_inv v1" using vfs_steps [of ?v v1] s1(2) inv by auto
    have i4: "vfs_inv v4" "unat (inode_counter v1) \<le> unat (inode_counter v4)" using vfs_steps [OF s i1] by auto
    have t4: "k_typed (k\<lparr>k_vfs := v4\<rparr>)" using s s1(2) by (intro k_typed_vfs [OF assms(1)]) auto
    have "by_inode v4 (snd (ht_add (rd_inodes k) c h))"
      using by_inode_add [of ?v "rd_inodes k" v4 h] assms(1) s1 i4(2) by (simp add: k_typed_def)
    then show ?thesis using k' t4 by (auto simp: k_typed_def k_core_def)
  qed
qed

section \<open>Processes and threads\<close>

lemma files_same_frame: "files_same k k' \<Longrightarrow> frame k k'"
  by (simp add: files_same_def frame_def)

lemma proc_create_typed:
  assumes "k_typed k" "length (p_name stk) = PROC_NAME_MAX" "is_cstr name" "Suc (Suc (unat (proc_counter k))) < 2 ^ 64"
  shows "post k_typed (proc_create stk name dir k)"
proof -
  obtain p k' where k': "proc_create stk name dir k = Ok (p, k')" "k_core k'"
    using proc_create_core [OF k_typed_inv(1) [OF assms(1)] assms(2-4), of dir] by blast
  then show ?thesis
    using k_typed_frame [OF assms(1) k'(2) files_same_frame [OF proc_create_frame(1) [OF k'(1)]]] by simp
qed

lemma spawn_thread_typed:
  assumes "k_typed k" "Suc (unat (thread_counter k)) < 2 ^ 64"
  shows "post k_typed (spawn_thread pid entry k)"
proof (cases "ht_lookup (proc_table k) pid")
  case None
  then show ?thesis using assms(1) by (simp add: spawn_thread_def hw_section_def)
next
  case (Some p)
  show ?thesis unfolding post_def
  proof (intro allI impI)
    fix l k' assume run: "spawn_thread pid entry k = Ok (l, k')"
    then have "k_core k'" using spawn_thread_core [OF k_typed_inv(1) [OF assms(1)] Some run assms(2)] by blast
    then show "k_typed k'"
      using k_typed_frame [OF assms(1) _ files_same_frame [OF spawn_thread_frame(1) [OF Some run]]] by blast
  qed
qed

lemma thread_get_typed [post_rules]: "k_typed k \<Longrightarrow> post k_typed (thread_get tid d f k)"
  by (simp add: thread_get_run)

lemma thread_set_typed [post_rules]:
  assumes "k_typed k"
  shows "post k_typed (thread_set tid f k)"
  unfolding post_def
proof (intro allI impI)
  fix x k' assume run: "thread_set tid f k = Ok (x, k')"
  have "frame k k'" using run by (auto simp: thread_set_run frame_def split: option.splits)
  then show "k_typed k'" using k_typed_frame [OF assms thread_set_inv(2) [OF k_typed_inv(1) [OF assms] run]] by blast
qed

lemma set_current_typed: "k_typed k \<Longrightarrow> post k_typed (set_current p k)"
  by (simp add: set_current_def hw_section_def k_typed_def k_core_def)

lemma set_current_thread_typed [post_rules]:
  assumes "k_typed k"
  shows "post k_typed (set_current_thread t k)"
  using assms by (simp add: set_current_thread_def thread_get_process_def thread_get_run hw_section_def k_typed_def k_core_def)

lemma delete_thread_typed [post_rules]:
  assumes "k_typed k"
  shows "post k_typed (delete_thread pid t k)"
  unfolding post_def
proof (intro allI impI)
  fix x k' assume run: "delete_thread pid t k = Ok (x, k')"
  have "frame k k'" using run
    by (auto simp: delete_thread_def hw_section_Ok thread_get_lid_def thread_get_run Let_def frame_def split: option.splits)
  then show "k_typed k'" using k_typed_frame [OF assms delete_thread_core [OF k_typed_inv(1) [OF assms] run]] by blast
qed

lemma schedule_typed: "k_typed k \<Longrightarrow> q_inv q \<Longrightarrow> k_typed (k\<lparr>ctask := t, schedule := q\<rparr>)"
  by (simp add: k_typed_def k_core_def)

lemma scheduler_schedule_typed: "k_typed k \<Longrightarrow> post k_typed (scheduler_schedule t p k)"
  by (simp add: scheduler_schedule_run k_typed_def k_core_def q_inv_push)

lemma proc_create_fd_typed:
  assumes "k_typed k" "Suc (unat (fd_counter (k_vfs k))) < 2 ^ 64"
  shows "post k_typed (proc_create_fd pid ino k)"
  unfolding post_def
proof (intro allI impI)
  fix x k' assume run: "proc_create_fd pid ino k = Ok (x, k')"
  have "inode_counter v = inode_counter (k_vfs k)" if "create_fd ino (k_vfs k) = Ok (fd, v)" for fd v
    using that create_fd_run [OF k_typed_inv(2) [OF assms(1)], of ino] by auto
  then have "frame k k'" using run
    by (auto simp: proc_create_fd_def hw_section_Ok on_vfs_Ok Let_def frame_def split: option.splits)
  then show "k_typed k'"
    using k_typed_frame [OF assms(1) proc_create_fd_core [OF k_typed_inv(1) [OF assms(1)] assms(2) run]] by blast
qed

lemma proc_delete_fd_typed [post_rules]:
  assumes "k_typed k"
  shows "post k_typed (proc_delete_fd pid lfd k)"
  unfolding post_def
proof (intro allI impI)
  fix x k' assume run: "proc_delete_fd pid lfd k = Ok (x, k')"
  have "frame k k'" using run by (auto simp: proc_delete_fd_def hw_section_Ok frame_def split: option.splits)
  then show "k_typed k'" using k_typed_frame [OF assms proc_delete_fd_core [OF k_typed_inv(1) [OF assms] run]] by blast
qed

section \<open>The scheduler\<close>

lemma next_task_inv: "q_inv q \<Longrightarrow> q_list q \<noteq> [] \<Longrightarrow> next_task q = Some (t, q') \<Longrightarrow> q_inv q'"
  using next_task_pick [of q] by auto

lemma q_push_nonempty: "q_inv q \<Longrightarrow> 0 < qlen (q_push q t)"
  by (auto simp: q_push_def Let_def q_inv_def q_cap_def)

lemma scheduler_increment_typed:
  assumes "k_typed k" "contenders k \<noteq> []"
  shows "post k_typed (scheduler_increment k)"
proof -
  have inv: "q_inv (schedule k)" using k_typed_inv(1) [OF assms(1)] by (simp add: k_core_def)
  let ?go = "\<lambda>k4. case next_task (schedule k4) of None \<Rightarrow> Fail Diverges
     | Some (t, q) \<Rightarrow> set_current_thread (t_thread t) (k4\<lparr>ctask := t, schedule := q\<rparr>)"
  have go: "post k_typed (?go k4)" if "k_typed k4" "q_list (schedule k4) \<noteq> []" for k4
    using that next_task_inv [of "schedule k4"] k_typed_inv(1) [OF that(1)]
    by (auto simp: k_core_def intro!: set_current_thread_typed schedule_typed split: option.splits)
  let ?retire = "if t_thread (ctask (k_lock k)) \<noteq> ID_INVALID
    then bind_res (thread_get_state (t_thread (ctask (k_lock k))) (k_lock k)) (\<lambda>(st, k1).
         if st = DEAD
         then bind_res (thread_get_process (t_thread (ctask k1)) k1) (\<lambda>(p, k2).
              bind_res (delete_thread p (t_thread (ctask k2)) k2) (\<lambda>(_, k3). Ok k3))
         else let t = (ctask k1)\<lparr>cpriority := priority (ctask k1)\<rparr>
              in Ok (k1\<lparr>ctask := t, schedule := q_push (schedule k1) t\<rparr>))
    else Ok (k_lock k)"
  have retire: "k_typed k4 \<and> q_list (schedule k4) \<noteq> []" if r: "?retire = Ok k4" for k4
  proof -
    consider "t_thread (ctask k) = ID_INVALID" "k4 = k_lock k"
      | "runnable k" "\<exists>t. k4 = (k_unlock (k_lock (k_lock k)))\<lparr>ctask := t, schedule := q_push (schedule k) t\<rparr>"
      | x p where "\<not> runnable k"
          "delete_thread p (t_thread (ctask k)) (k_unlock (k_lock (k_unlock (k_lock (k_lock k))))) = Ok (x, k4)"
      using r assms(1)
      by (auto simp: runnable_def state_of_def thread_get_state_def thread_get_process_def thread_get_run Let_def
          split: if_splits option.splits)
    then show ?thesis
    proof cases
      case 1
      then show ?thesis using assms by (simp add: contenders_def waiting_def runnable_def)
    next
      case 2
      then show ?thesis using assms(1) inv by (auto simp: schedule_typed q_inv_push q_push_nonempty)
    next
      case 3
      have "schedule k4 = schedule k" using 3(2)
        by (auto simp: delete_thread_def hw_section_Ok thread_get_lid_def thread_get_run Let_def split: option.splits)
      then show ?thesis
        using 3 assms postD [OF delete_thread_typed 3(2)] by (simp add: contenders_def waiting_def)
    qed
  qed
  have "scheduler_increment k = bind_res (bind_res ?retire ?go) (\<lambda>(x, k'). Ok (x, k_unlock k'))"
    by (simp add: scheduler_increment_def hw_section_def)
  then show ?thesis using retire go by (fastforce simp: post_def)
qed

lemma thread_set_contenders:
  assumes "k_core k" "\<And>th. th_state (f th) = th_state th" "thread_set tid f k = Ok (x, k')"
  shows "contenders k' = contenders k"
proof -
  have "ht_inv (thread_table k)" using assms(1) by (simp add: k_core_def)
  then have st: "state_of k' t = state_of k t" for t
    using thread_set_lookup [OF _ assms(3)] assms(2) by (auto simp: state_of_def split: option.splits)
  have "ctask k' = ctask k" "schedule k' = schedule k"
    using assms(3) by (auto simp: thread_set_run split: option.splits)
  then show ?thesis using st by (simp add: contenders_def waiting_def runnable_def)
qed

lemma scheduler_preempt_typed:
  assumes "k_typed k" "contenders k \<noteq> []"
  shows "post k_typed (scheduler_preempt old k)"
proof -
  let ?save = "if t_thread (ctask k) \<noteq> ID_INVALID then thread_set_stack (t_thread (ctask k)) old k else Ok ((), k)"
  have save: "post (\<lambda>k1. k_typed k1 \<and> contenders k1 \<noteq> []) ?save"
    using assms thread_set_typed [OF assms(1), of "t_thread (ctask k)" "\<lambda>th. th\<lparr>th_stack := old\<rparr>"]
      thread_set_contenders [OF k_typed_inv(1) [OF assms(1)], of "\<lambda>th. th\<lparr>th_stack := old\<rparr>"]
    by (auto simp: post_def thread_set_stack_def)
  show ?thesis unfolding scheduler_preempt_def
    by (rule post_bind [OF save]) (auto simp: thread_get_stack_def thread_get_state_def thread_get_entry_def thread_set_state_def
        intro!: post_bind [OF scheduler_increment_typed] post_bind [OF thread_get_typed] post_bind [OF thread_set_typed])
qed

section \<open>Memory\<close>

text \<open>A store that leaves the map of the heap alone.\<close>

definition map_same :: "kernel \<Rightarrow> memory \<Rightarrow> bool" where
  "map_same k m \<longleftrightarrow> (let pool = fst (km_heap (k_mem k))
     in \<forall>j<(blocks pool + 3) div 4. m (pmap pool + of_nat j) = ram k (pmap pool + of_nat j))"

lemma set_ram_typed:
  assumes "k_typed k" "map_same k m"
  shows "k_typed (set_ram m k)"
proof -
  have "heap_inv (fst (km_heap (k_mem k)), ram k)" using k_typed_inv(1) [OF assms(1)] by (simp add: k_core_def ram_def)
  then have "heap_inv (fst (km_heap (k_mem k)), m)"
    using assms(2) by (elim heap_inv_cong) (simp add: map_same_def Let_def)
  then show ?thesis using assms(1) by (simp add: k_typed_def k_core_def set_ram_def)
qed

lemma map_same_clear:
  assumes "heap_map_clear p n k" "\<And>a. (\<And>j. j < n \<Longrightarrow> a \<noteq> p + of_nat j) \<Longrightarrow> m a = ram k a"
  shows "map_same k m"
  unfolding map_same_def Let_def
proof (intro allI impI)
  fix j assume "j < (blocks (fst (km_heap (k_mem k))) + 3) div 4"
  then have "pmap (fst (km_heap (k_mem k))) + of_nat j \<noteq> p + of_nat i" if "i < n" for i
    using assms(1) that unfolding heap_map_clear_def clear_of_def Let_def by metis
  then show "m (pmap (fst (km_heap (k_mem k))) + of_nat j) = ram k (pmap (fst (km_heap (k_mem k))) + of_nat j)"
    by (rule assms(2))
qed

lemma read_loop_writes:
  "read_loop src rbuff n filesize i off m = (i', off', m') \<Longrightarrow>
     (i' = i \<or> i' < n) \<and> (\<forall>a. (\<forall>j<n. a \<noteq> rbuff + of_nat j) \<longrightarrow> m' a = m a)"
proof (induction src rbuff n filesize i off m rule: read_loop.induct)
  case (1 src rbuff n filesize i off m)
  show ?case
  proof (cases "i + 1 < n \<and> off < filesize")
    case True
    then have "read_loop src rbuff n filesize (Suc i) (off + 1) (m(rbuff + of_nat i := m (src + off))) = (i', off', m')"
      using "1.prems" by (subst (asm) read_loop.simps) simp
    from "1.IH" [OF True this] show ?thesis using True by auto
  next
    case False
    then show ?thesis using "1.prems" by (subst (asm) read_loop.simps) (auto split: if_splits)
  qed
qed

section \<open>Files\<close>

lemma fifo_read_inv: "fifo_inv f \<Longrightarrow> read_unsafe f = Ok (b, f') \<Longrightarrow> fifo_inv f'"
  using fifo.take_none [of f] fifo.take_some [of f] by (cases "fifo_list f") force+

lemma pipe_store_typed: "k_typed k \<Longrightarrow> fifo_inv f \<Longrightarrow> k_typed (k\<lparr>pipe_store := (pipe_store k)(p := f)\<rparr>)"
  by (simp add: k_typed_def k_core_def)

lemma heap_map_clear_mono: "heap_map_clear p n k \<Longrightarrow> m \<le> n \<Longrightarrow> heap_map_clear p m k"
  by (simp add: heap_map_clear_def clear_of_def Let_def)

lemma pipe_read_typed:
  assumes "k_typed k" "heap_map_clear rbuff 2 k"
  shows "post k_typed (pipe_read_call fd rbuff n k)"
proof -
  have w: "map_same (k\<lparr>pipe_store := ps\<rparr>) ((ram k)(rbuff := b, rbuff + 1 := 0))" for b ps
  proof -
    have "map_same k ((ram k)(rbuff := b, rbuff + 1 := 0))"
    proof (rule map_same_clear [OF assms(2)])
      fix a assume "\<And>j. j < 2 \<Longrightarrow> a \<noteq> rbuff + of_nat j"
      from this [of 0] this [of 1] show "((ram k)(rbuff := b, rbuff + 1 := 0)) a = ram k a" by simp
    qed
    then show ?thesis by (simp add: map_same_def ram_def)
  qed
  have r: "ram (k\<lparr>pipe_store := ps\<rparr>) = ram k" for ps by (simp add: ram_def)
  have "fifo_inv (pipe_store k p)" for p using assms(1) by (simp add: k_typed_def)
  note f = fifo_read_inv [OF this]
  have "k_typed (set_ram ((ram k)(rbuff := b, rbuff + 1 := 0)) (k\<lparr>pipe_store := (pipe_store k)(p := f)\<rparr>))"
    if "read_unsafe (pipe_store k p) = Ok (b, f)" for p b f
    using set_ram_typed [OF pipe_store_typed [OF assms(1) f [OF that]] w] by simp
  then show ?thesis using assms(1)
    by (auto simp: pipe_read_call_def fd_inode_run [OF k_typed_inv(2) [OF assms(1)]] post_def r Let_def split: option.splits)
qed

lemma pipe_write_typed [post_rules]:
  assumes "k_typed k"
  shows "post k_typed (pipe_write_call fd buff n k)"
proof -
  have "fifo_inv (pipe_store k p)" for p using assms by (simp add: k_typed_def)
  then have "fifo_inv (pipe_write_loop (ram k) buff 0 (unat n) (pipe_store k p))" for p
    by (simp add: pipe_write_loop_eq put_all_foldl fifo_inv_foldl)
  then show ?thesis using assms
    by (simp add: pipe_write_call_def fd_inode_run [OF k_typed_inv(2) [OF assms]] pipe_store_typed split: option.split)
qed

lemma initrd_read_typed:
  assumes "k_typed k" "heap_map_clear rbuff (max 1 (unat n)) k"
  shows "post k_typed (initrd_read_call fd rbuff n k)"
proof -
  have inv: "vfs_inv (k_vfs k)" using k_typed_inv(2) [OF assms(1)] .
  have w: "k_typed (set_ram (m'(rbuff + of_nat i' := 0)) k)"
    if "read_loop src rbuff (unat n) fsize 0 off (ram k) = (i', off', m')" for src fsize off i' off' m'
  proof (intro set_ram_typed [OF assms(1)] map_same_clear [OF assms(2)])
    fix a assume a: "\<And>j. j < max 1 (unat n) \<Longrightarrow> a \<noteq> rbuff + of_nat j"
    have "i' < max 1 (unat n)" "m' a = ram k a" using read_loop_writes [OF that] a by auto
    then show "(m'(rbuff + of_nat i' := 0)) a = ram k a" using a by auto
  qed
  have off: "post k_typed (on_vfs (fd_set_offset fd off') k1)" if "k_typed k1" for k1 off'
    using that by (auto simp: post_def on_vfs_Ok intro!: k_typed_vfs r_into_rtranclp intro: st_fd_offset)
  show ?thesis
  proof (cases "ht_lookup (rd_inodes k) (case ht_lookup (fd_table (k_vfs k)) fd of None \<Rightarrow> ID_INVALID | Some d \<Rightarrow> d_inode d)")
    case None
    then show ?thesis using assms(1) by (simp add: initrd_read_call_def fd_inode_run [OF inv])
  next
    case (Some header)
    obtain o1 where o1: "on_vfs (fd_get_offset fd) k = Ok (o1, k)" using fd_offset_run [OF inv, of fd] by blast
    obtain i' off' m' where l: "read_loop (tar_data header) rbuff (unat n) (tar_size (ram k) header) 0 o1 (ram k) = (i', off', m')"
      by (metis prod_cases3)
    show ?thesis using post_bind [OF off [OF w [OF l], of off'], where Q = k_typed and f = "\<lambda>(_, k4). Ok (of_nat i', k4)"]
      by (simp add: initrd_read_call_def fd_inode_run [OF inv] Some o1 l Let_def)
  qed
qed

lemma call_typed [post_rules]:
  assumes "k_typed k"
  shows "post k_typed (call_open f ino k)" "post k_typed (call_close f fd k)" "post k_typed (call_write f fd buff n k)"
  using assms
  by (simp_all add: call_open_def call_close_def call_write_def initrd_open_call_def pipe_open_call_def
      initrd_close_call_def pipe_close_call_def pipe_write_typed split: fnptr.split)

lemma call_read_typed:
  assumes "k_typed k" "heap_map_clear rbuff (max 2 (unat n)) k"
  shows "post k_typed (call_read f fd rbuff n k)"
  using assms pipe_read_typed [OF assms(1) heap_map_clear_mono [OF assms(2)]]
    initrd_read_typed [OF assms(1) heap_map_clear_mono [OF assms(2)]]
  by (simp add: call_read_def split: fnptr.split)

lemma k_typed_same: "same k k' \<Longrightarrow> k_typed k' = k_typed k"
  using same_fields [of k k'] by (auto simp: k_typed_def same_def)

lemma heap_map_clear_same: "same k k' \<Longrightarrow> heap_map_clear p n k' = heap_map_clear p n k"
  by (auto simp: same_def heap_map_clear_def)

definition fds_left :: "kernel \<Rightarrow> bool" where
  "fds_left k \<longleftrightarrow> Suc (unat (fd_counter (k_vfs k))) < 2 ^ 64"

lemma fds_left_same: "same k k' \<Longrightarrow> fds_left k' = fds_left k"
  using same_fields [of k k'] by (simp add: fds_left_def)

lemma fd_open_typed:
  assumes "k_typed k" "fds_left k"
  shows "post k_typed (fd_open ino k)"
proof -
  have inv: "vfs_inv (k_vfs k)" using k_typed_inv(2) [OF assms(1)] .
  obtain y where y: "on_vfs (inode_get_vtable ino) k = Ok (y, k)"
    using inode_getters_run [OF inv] by (auto simp: on_vfs_def)
  obtain k1 where k1: "get_current k = Ok (cproc k, k1)" "same k k1" using get_current_run by blast
  have t1: "k_typed k1" "fds_left k1" using assms k_typed_same [OF k1(2)] fds_left_same [OF k1(2)] by simp_all
  have c: "post k_typed (proc_create_fd (cproc k) ino k1)"
    using t1 by (intro proc_create_fd_typed) (simp_all add: fds_left_def)
  obtain z vt where y': "y = (z, vt)" by (cases y)
  consider "vt = None \<or> (\<exists>v. vt = Some v \<and> vt_open (vtables k v) = None)"
    | v f where "vt = Some v" "vt_open (vtables k v) = Some f" by (cases vt) auto
  then show ?thesis
  proof cases
    case 1
    then show ?thesis using assms(1) by (auto simp: fd_open_def y y')
  next
    case 2
    have "(\<exists>r. call_open f ino k = Ok (r, k)) \<or> call_open f ino k = Fail NullDeref"
      by (cases f) (simp_all add: call_open_def initrd_open_call_def pipe_open_call_def)
    then show ?thesis using assms(1) c 2 by (auto simp: fd_open_def y y' k1(1))
  qed
qed

lemma fd_read_typed:
  assumes "k_typed k" "heap_map_clear rbuff (max 2 (unat n)) k"
  shows "post k_typed (fd_read lfd rbuff n k)"
proof (cases "cproc k = ID_INVALID")
  case True
  then show ?thesis using fd_no_process(1) [OF True, of lfd rbuff n] assms(1) by (auto simp: k_typed_same)
next
  case False
  then obtain k' where k': "same k k'" "fd_read lfd rbuff n k = (case vtable_of k (lfd_of k lfd) of
       None \<Rightarrow> Ok (0, k')
     | Some vt \<Rightarrow> (case vt_read (vtables k vt) of None \<Rightarrow> Ok (0, k')
         | Some f \<Rightarrow> call_read f (lfd_of k lfd) rbuff n k'))"
    using fd_read_run [OF k_typed_inv(2) [OF assms(1)] False] by blast
  then show ?thesis using assms call_read_typed
    by (auto simp: k_typed_same heap_map_clear_same split: option.split)
qed

lemma fd_write_typed [post_rules]:
  assumes "k_typed k"
  shows "post k_typed (fd_write lfd buff n k)"
proof (cases "cproc k = ID_INVALID")
  case True
  then show ?thesis using fd_no_process(2) [OF True, of lfd buff n] assms by (auto simp: k_typed_same)
next
  case False
  then obtain k' where k': "same k k'" "fd_write lfd buff n k = (case vtable_of k (lfd_of k lfd) of
       None \<Rightarrow> Ok (1, k')
     | Some vt \<Rightarrow> (case vt_write (vtables k vt) of None \<Rightarrow> Ok (1, k')
         | Some f \<Rightarrow> call_write f (lfd_of k lfd) buff n k'))"
    using fd_write_run [OF k_typed_inv(2) [OF assms] False] by blast
  then show ?thesis using assms call_typed(3) by (auto simp: k_typed_same split: option.split)
qed

lemma fd_close_typed [post_rules]:
  assumes "k_typed k"
  shows "post k_typed (fd_close lfd k)"
proof (cases "cproc k = ID_INVALID")
  case True
  then show ?thesis using fd_no_process(3) [OF True, of lfd] assms by (auto simp: k_typed_same)
next
  case False
  obtain k1 k2 where k: "get_current k = Ok (cproc k, k1)" "same k k2"
      "fd_target (cproc k) lfd k1 = Ok ((lfd_of k lfd, vtable_of k (lfd_of k lfd)), k2)"
    using fd_dispatch [OF k_typed_inv(2) [OF assms] False] by blast
  have t2: "k_typed k2" using assms k_typed_same [OF k(2)] by simp
  have del: "post k_typed (on_vfs (delete_fd fd) k3)" if "k_typed k3" for k3 fd
    using that by (auto simp: post_def on_vfs_Ok intro!: k_typed_vfs r_into_rtranclp intro: st_delete_fd)
  show ?thesis using t2 False
    by (auto simp: fd_close_def k(1,3) intro!: post_bind [OF call_typed(2)] post_bind [OF del] post_bind [OF proc_delete_fd_typed]
      split: option.split)
qed

abbreviation pool_of :: "kernel \<Rightarrow> pool_t" where
  "pool_of k \<equiv> fst (km_heap (k_mem k))"

lemma pool_of_same: "same k k' \<Longrightarrow> pool_of k' = pool_of k"
  by (auto simp: same_def)

lemma call_pool:
  "call_open f ino k = Ok (x, k') \<Longrightarrow> pool_of k' = pool_of k"
  "call_read f fd rbuff n k = Ok (y, k') \<Longrightarrow> pool_of k' = pool_of k"
  "call_write f fd rbuff n k = Ok (y, k') \<Longrightarrow> pool_of k' = pool_of k"
  by (auto simp: call_open_def call_read_def call_write_def initrd_open_call_def pipe_open_call_def pipe_read_call_def
      pipe_write_call_def initrd_read_call_def on_vfs_def set_ram_def Let_def case_prod_unfold split: fnptr.splits option.splits)

lemma proc_create_fd_pool: "proc_create_fd p ino k = Ok (x, k') \<Longrightarrow> pool_of k' = pool_of k"
  by (auto simp: proc_create_fd_def hw_section_Ok on_vfs_Ok Let_def split: option.splits)

lemma fd_open_pool:
  assumes "fd_open ino k = Ok (x, k')"
  shows "pool_of k' = pool_of k"
proof -
  have v: "post (\<lambda>k'. pool_of k' = pool_of k) (on_vfs (inode_get_vtable ino) k)" by (auto simp: post_def on_vfs_def)
  have "pool_of k2 = pool_of k1" if "call_open f ino k1 = Ok (r, k2)" for f r k1 k2 using call_pool(1) [OF that] .
  moreover have "pool_of k2 = pool_of k1" if "proc_create_fd p ino (k_unlock (k_lock k1)) = Ok (r, k2)" for p r k1 k2
    using proc_create_fd_pool [OF that] by simp
  ultimately have "post (\<lambda>k'. pool_of k' = pool_of k) (fd_open ino k)"
    unfolding fd_open_def
    by (intro post_bind [OF v]) (auto simp: get_current_def hw_section_def post_def split: option.splits if_splits)
  then show ?thesis using assms by (rule postD)
qed

lemma fd_read_pool:
  assumes "vfs_inv (k_vfs k)" "fd_read lfd rbuff n k = Ok (x, k')"
  shows "pool_of k' = pool_of k"
proof (cases "cproc k = ID_INVALID")
  case True
  then show ?thesis using fd_no_process(1) [OF True, of lfd rbuff n] assms(2) pool_of_same by fastforce
next
  case False
  obtain k1 where "same k k1" "fd_read lfd rbuff n k = (case vtable_of k (lfd_of k lfd) of
       None \<Rightarrow> Ok (0, k1)
     | Some vt \<Rightarrow> (case vt_read (vtables k vt) of None \<Rightarrow> Ok (0, k1)
         | Some f \<Rightarrow> call_read f (lfd_of k lfd) rbuff n k1))"
    using fd_read_run [OF assms(1) False] by blast
  then show ?thesis using assms(2) by (auto simp: pool_of_same split: option.splits dest!: sym [of "Ok _"] call_pool(2))
qed

lemma fd_write_pool:
  assumes "vfs_inv (k_vfs k)" "fd_write lfd buff n k = Ok (x, k')"
  shows "pool_of k' = pool_of k"
proof (cases "cproc k = ID_INVALID")
  case True
  then show ?thesis using fd_no_process(2) [OF True, of lfd buff n] assms(2) pool_of_same by fastforce
next
  case False
  obtain k1 where "same k k1" "fd_write lfd buff n k = (case vtable_of k (lfd_of k lfd) of
       None \<Rightarrow> Ok (1, k1)
     | Some vt \<Rightarrow> (case vt_write (vtables k vt) of None \<Rightarrow> Ok (1, k1)
         | Some f \<Rightarrow> call_write f (lfd_of k lfd) buff n k1))"
    using fd_write_run [OF assms(1) False] by blast
  then show ?thesis using assms(2) by (auto simp: pool_of_same split: option.splits dest!: sym [of "Ok _"] call_pool(3))
qed

section \<open>System calls\<close>

lemma store64_typed:
  assumes "k_typed k'" "heap_map_clear p 8 k" "pool_of k' = pool_of k"
  shows "k_typed (set_ram (store64 p x (ram k')) k')"
proof (intro set_ram_typed [OF assms(1)] map_same_clear)
  show "heap_map_clear p 8 k'" using assms(2,3) by (simp add: heap_map_clear_def)
  show "store64 p x (ram k') a = ram k' a" if "\<And>j. j < 8 \<Longrightarrow> a \<noteq> p + of_nat j" for a
    using that by (rule store64_other)
qed

definition call_ok :: "u64 \<Rightarrow> addr \<Rightarrow> addr \<Rightarrow> kernel \<Rightarrow> bool" where
  "call_ok arg0 arg2 arg3 k \<longleftrightarrow> (let call = (ucast arg0 :: 32 word)
     in (call = CALL_YIELD \<longrightarrow> contenders k \<noteq> []) \<and> (call = CALL_OPEN \<longrightarrow> fds_left k) \<and>
        (call \<in> {CALL_OPEN, CALL_READ, CALL_WRITE} \<longrightarrow> heap_map_clear arg2 8 k) \<and>
        (call = CALL_READ \<longrightarrow> heap_map_clear arg3 (max 2 (unat (load64 (ram k) arg2))) k))"

lemma contenders_same: "same k k' \<Longrightarrow> contenders k' = contenders k"
  by (auto simp: same_def contenders_def waiting_def runnable_def state_of_def)

lemma call_ok_same: "same k k' \<Longrightarrow> call_ok a0 a2 a3 k' = call_ok a0 a2 a3 k"
  by (simp add: call_ok_def contenders_same fds_left_same heap_map_clear_same same_fields)

lemma syscall_typed:
  assumes "k_typed k" "call_ok arg0 arg2 arg3 k"
  shows "post k_typed (syscall_isr_main stk arg0 arg1 arg2 arg3 k)"
proof -
  define k0 where "k0 = enable_interrupts k"
  have t: "k_typed k0" and ok: "call_ok arg0 arg2 arg3 k0"
    using assms k_typed_same [OF same_enable [of k]] call_ok_same [OF same_enable [of k]] by (simp_all add: k0_def)
  have inv: "vfs_inv (k_vfs k0)" using k_typed_inv(2) [OF t] .
  let ?c = "ucast arg0 :: 32 word"
  consider "?c = CALL_YIELD" | "?c = CALL_OPEN" | "?c = CALL_CLOSE" | "?c = CALL_READ" | "?c = CALL_WRITE"
    | "?c \<notin> {CALL_YIELD, CALL_OPEN, CALL_CLOSE, CALL_READ, CALL_WRITE}" by blast
  then show ?thesis
  proof cases
    case 1
    then show ?thesis using scheduler_preempt_typed [OF t] ok by (simp add: syscall_isr_main_def k0_def call_ok_def)
  next
    case 2
    then have g: "fds_left k0" "heap_map_clear arg2 8 k0" using ok by (simp_all add: call_ok_def call_numbers)
    have r: "on_vfs (get_inode s) k0 = Ok (i, k1) \<Longrightarrow> k1 = k0" for s i k1
      using inv by (auto simp: on_vfs_Ok get_inode_def vfs_run)
    have "k_typed (set_ram (store64 arg2 x (ram k0)) k0)" for x using store64_typed [OF t g(2)] by simp
    moreover have "k_typed (set_ram (store64 arg2 x (ram k2)) k2)" if "fd_open i k0 = Ok (l, k2)" for x i l k2
      using store64_typed [OF postD [OF fd_open_typed [OF t g(1)] that] g(2) fd_open_pool [OF that]] .
    ultimately show ?thesis using 2
      by (auto simp: syscall_isr_main_def k0_def [symmetric] call_numbers post_def split: if_splits dest!: r)
  next
    case 3
    then show ?thesis using fd_close_typed [OF t, of arg1]
      by (auto simp: syscall_isr_main_def k0_def [symmetric] call_numbers post_def)
  next
    case 4
    then have g: "heap_map_clear arg3 (max 2 (unat (load64 (ram k0) arg2))) k0" "heap_map_clear arg2 8 k0"
      using ok by (simp_all add: call_ok_def call_numbers)
    have "k_typed (set_ram (store64 arg2 x (ram k2)) k2)" if "fd_read l arg3 (load64 (ram k0) arg2) k0 = Ok (y, k2)" for x l y k2
      using store64_typed [OF postD [OF fd_read_typed [OF t g(1)] that] g(2) fd_read_pool [OF inv that]] .
    then show ?thesis using 4 by (auto simp: syscall_isr_main_def k0_def [symmetric] call_numbers post_def)
  next
    case 5
    then have g: "heap_map_clear arg2 8 k0" using ok by (simp add: call_ok_def call_numbers)
    have "k_typed (set_ram (store64 arg2 x (ram k2)) k2)" if "fd_write l arg3 (load64 (ram k0) arg2) k0 = Ok (y, k2)" for x l y k2
      using store64_typed [OF postD [OF fd_write_typed [OF t] that] g fd_write_pool [OF inv that]] .
    then show ?thesis using 5 by (auto simp: syscall_isr_main_def k0_def [symmetric] call_numbers post_def)
  next
    case 6
    then show ?thesis using syscall_unknown [OF 6] t by (simp add: k0_def)
  qed
qed

section \<open>Calls return\<close>

lemma typed_slots:
  assumes "k_typed k"
  shows "vt_open (vtables k v) = Some f \<Longrightarrow> f = Initrd_open_call \<or> f = Pipe_open_call"
    "vt_close (vtables k v) = Some f \<Longrightarrow> f = Initrd_close_call \<or> f = Pipe_close_call"
    "vt_read (vtables k v) = Some f \<Longrightarrow> f = Initrd_read_call \<or> f = Pipe_read_call"
    "vt_write (vtables k v) = Some f \<Longrightarrow> f = Pipe_write_call"
proof -
  have "vtable_typed (vtables k v)" using assms by (simp add: k_typed_def)
  then show "vt_open (vtables k v) = Some f \<Longrightarrow> f = Initrd_open_call \<or> f = Pipe_open_call"
    "vt_close (vtables k v) = Some f \<Longrightarrow> f = Initrd_close_call \<or> f = Pipe_close_call"
    "vt_read (vtables k v) = Some f \<Longrightarrow> f = Initrd_read_call \<or> f = Pipe_read_call"
    "vt_write (vtables k v) = Some f \<Longrightarrow> f = Pipe_write_call"
    by (auto simp: vtable_typed_def)
qed

lemma open_returns:
  assumes "k_typed k"
  shows "is_ok (fd_open ino k)"
proof -
  have inv: "vfs_inv (k_vfs k)" using k_typed_inv(2) [OF assms] .
  obtain y0 where y0: "on_vfs (inode_get_vtable ino) k = Ok (y0, k)"
    using inode_getters_run [OF inv] by (auto simp: on_vfs_def)
  obtain z vt where y: "on_vfs (inode_get_vtable ino) k = Ok ((z, vt), k)" using y0 by (cases y0) simp
  have create: "is_ok (proc_create_fd p ino k1)" if "vfs_inv (k_vfs k1)" for p k1
    using that by (auto simp: is_ok_iff proc_create_fd_def hw_section_def Let_def on_vfs_def create_fd_run split: option.split)
  obtain k1 where k1: "get_current k = Ok (cproc k, k1)" "same k k1" using get_current_run by blast
  have "\<exists>r. call_open f ino k = Ok (r, k)" if "vt_open (vtables k v) = Some f" for v f
    using typed_slots(1) [OF assms that] by (auto simp: call_open_def initrd_open_call_def pipe_open_call_def)
  then show ?thesis using create [of k1 "cproc k"] inv same_fields [OF k1(2)]
    by (force simp: fd_open_def y k1(1) split: option.split)
qed

lemma write_returns:
  assumes "k_typed k"
  shows "is_ok (fd_write lfd buff n k)"
proof (cases "cproc k = ID_INVALID")
  case True
  then show ?thesis using fd_no_process(2) [OF True, of lfd buff n] by (auto simp: is_ok_iff)
next
  case False
  obtain k1 where k1: "same k k1" "fd_write lfd buff n k = (case vtable_of k (lfd_of k lfd) of
       None \<Rightarrow> Ok (1, k1)
     | Some vt \<Rightarrow> (case vt_write (vtables k vt) of None \<Rightarrow> Ok (1, k1)
         | Some f \<Rightarrow> call_write f (lfd_of k lfd) buff n k1))"
    using fd_write_run [OF k_typed_inv(2) [OF assms] False] by blast
  have "vfs_inv (k_vfs k1)" using k_typed_inv(2) [OF assms] same_fields [OF k1(1)] by simp
  then show ?thesis
    by (auto simp: k1(2) call_write_def pipe_write_call_def fd_inode_run split: option.split dest!: typed_slots(4) [OF assms])
qed

text \<open>The pipe a descriptor of the file system stands for, if it is one.\<close>

definition fd_pipe :: "kernel \<Rightarrow> id_t \<Rightarrow> nat option" where
  "fd_pipe k fd = ht_lookup (pipes k) (case ht_lookup (fd_table (k_vfs k)) fd of None \<Rightarrow> ID_INVALID | Some d \<Rightarrow> d_inode d)"

definition waits_for_pipe :: "kernel \<Rightarrow> id_t \<Rightarrow> bool" where
  "waits_for_pipe k fd \<longleftrightarrow> (case fd_pipe k fd of None \<Rightarrow> False | Some p \<Rightarrow> fifo_list (pipe_store k p) = [])"

lemma pipe_read_returns:
  assumes "k_typed k"
  shows "is_ok (pipe_read_call fd rbuff n k) \<or> pipe_read_call fd rbuff n k = Fail Diverges \<and> waits_for_pipe k fd"
proof -
  have inv: "vfs_inv (k_vfs k)" "\<And>p. fifo_inv (pipe_store k p)"
    using assms k_typed_inv(2) [OF assms] by (simp_all add: k_typed_def)
  show ?thesis
  proof (cases "fd_pipe k fd")
    case None
    then show ?thesis by (simp add: pipe_read_call_def fd_inode_run [OF inv(1)] fd_pipe_def)
  next
    case (Some p)
    then show ?thesis
      using fifo.take_none [OF inv(2), of p] fifo.take_some [OF inv(2), of p]
      by (cases "fifo_list (pipe_store k p)")
        (fastforce simp: pipe_read_call_def fd_inode_run [OF inv(1)] Let_def waits_for_pipe_def fd_pipe_def)+
  qed
qed

lemma waits_same: "same k k' \<Longrightarrow> waits_for_pipe k' fd = waits_for_pipe k fd"
  using same_fields [of k k'] by (simp add: waits_for_pipe_def fd_pipe_def split: option.split)

lemma initrd_read_returns:
  assumes "vfs_inv (k_vfs k)"
  shows "is_ok (initrd_read_call fd rbuff n k)"
proof (cases "ht_lookup (rd_inodes k) (case ht_lookup (fd_table (k_vfs k)) fd of None \<Rightarrow> ID_INVALID | Some d \<Rightarrow> d_inode d)")
  case None
  then show ?thesis by (simp add: initrd_read_call_def fd_inode_run [OF assms])
next
  case (Some header)
  obtain o1 where o1: "on_vfs (fd_get_offset fd) k = Ok (o1, k)" using fd_offset_run [OF assms] by blast
  have "\<exists>x k2. on_vfs (fd_set_offset fd off') (set_ram m k) = Ok (x, k2)" for m off'
    using fd_update_inv [OF assms, of fd "\<lambda>d. d\<lparr>d_offset := off'\<rparr>"] by (auto simp: fd_set_offset_def on_vfs_def)
  then show ?thesis
    by (force simp: initrd_read_call_def fd_inode_run [OF assms] Some o1 Let_def case_prod_unfold is_ok_iff)
qed

lemma read_returns:
  assumes "k_typed k"
  shows "is_ok (fd_read lfd rbuff n k) \<or>
    fd_read lfd rbuff n k = Fail Diverges \<and> waits_for_pipe k (lfd_of k lfd)"
proof (cases "cproc k = ID_INVALID")
  case True
  then show ?thesis using fd_no_process(1) [OF True, of lfd rbuff n] by (auto simp: is_ok_iff)
next
  case False
  obtain k1 where k1: "same k k1" "fd_read lfd rbuff n k = (case vtable_of k (lfd_of k lfd) of
       None \<Rightarrow> Ok (0, k1)
     | Some vt \<Rightarrow> (case vt_read (vtables k vt) of None \<Rightarrow> Ok (0, k1)
         | Some f \<Rightarrow> call_read f (lfd_of k lfd) rbuff n k1))"
    using fd_read_run [OF k_typed_inv(2) [OF assms] False] by blast
  have t1: "k_typed k1" using assms k_typed_same [OF k1(1)] by simp
  show ?thesis
    using pipe_read_returns [OF t1, of "lfd_of k lfd" rbuff n] initrd_read_returns [OF k_typed_inv(2) [OF t1], of "lfd_of k lfd" rbuff n]
    unfolding waits_same [OF k1(1)] by (auto simp: k1(2) call_read_def split: option.split dest!: typed_slots(3) [OF assms])
qed

lemma close_returns:
  assumes "k_typed k"
  shows "is_ok (fd_close lfd k)"
proof (cases "cproc k = ID_INVALID")
  case True
  then show ?thesis using fd_no_process(3) [OF True, of lfd] by (auto simp: is_ok_iff)
next
  case False
  obtain k1 k2 where k: "get_current k = Ok (cproc k, k1)" "same k k2"
      "fd_target (cproc k) lfd k1 = Ok ((lfd_of k lfd, vtable_of k (lfd_of k lfd)), k2)"
    using fd_dispatch [OF k_typed_inv(2) [OF assms] False] by blast
  have inv: "vfs_inv (k_vfs k2)" and vt: "vtables k2 = vtables k"
    using k_typed_inv(2) [OF assms] same_fields [OF k(2)] by simp_all
  let ?fd = "lfd_of k lfd"
  obtain x3 k3 where k3: "on_vfs (delete_fd ?fd) k2 = Ok (x3, k3)" using delete_fd_inv [OF inv, of ?fd] by (auto simp: on_vfs_def)
  obtain x4 k4 where k4: "proc_delete_fd (cproc k) lfd k3 = Ok (x4, k4)"
    by (cases "ht_lookup (proc_table k3) (cproc k)") (simp_all add: proc_delete_fd_def hw_section_def)
  consider "vtable_of k ?fd = None \<or> (\<exists>v. vtable_of k ?fd = Some v \<and> vt_close (vtables k v) = None)"
    | v f where "vtable_of k ?fd = Some v" "vt_close (vtables k v) = Some f" by (cases "vtable_of k ?fd") auto
  then show ?thesis
  proof cases
    case 1
    then show ?thesis using False by (auto simp: fd_close_def k(1,3) vt)
  next
    case 2
    obtain r where "call_close f ?fd k2 = Ok (r, k2)"
      using typed_slots(2) [OF assms 2(2)] by (auto simp: call_close_def initrd_close_call_def pipe_close_call_def)
    then show ?thesis using False 2 by (simp add: fd_close_def k(1,3) vt k3 k4)
  qed
qed

end
