(* ===== verification/Kernel_Trace.thy ===== *)
theory Kernel_Trace
  imports Kernel_Types
begin

text \<open>
  Sequences of kernel operations. \<open>k_step\<close> has one rule per routine that changes the shared state, with what the code
  needs of its caller as guard: ids are left, strings end, a buffer does not lie over the map of the heap, a freed block is
  allocated, somebody can run when the scheduler is asked for a task (taking a task from the empty queue wraps its length).
  Nothing is asked of the stack slot a process record is built in: only that its name array has its declared length. Memory written by a thread is a step too (\<open>ks_store\<close>). Whatever the order of the steps, the
  state stays well typed.
\<close>

section \<open>Steps\<close>

inductive k_step :: "kernel \<Rightarrow> kernel \<Rightarrow> bool" where
  ks_vfs: "vfs_step (k_vfs k) v \<Longrightarrow> k_step k (k\<lparr>k_vfs := v\<rparr>)"
| ks_pipe_init: "k_step k (pipe_init k)"
| ks_mount_pipe: "is_cstr path \<Longrightarrow> Suc (unat (inode_counter (k_vfs k))) < 2 ^ 64 \<Longrightarrow>
    mount_pipe p path k = Ok (x, k') \<Longrightarrow> k_step k k'"
| ks_initrd_table: "k_step k (initrd_init_vtable k)"
| ks_initrd_add: "k_step k (initrd_add start siz args k)"
| ks_initrd_fs: "k_step k (k\<lparr>initrds := (initrds k)[idx := (initrds k ! idx)\<lparr>rd_fs := fs\<rparr>]\<rparr>)"
| ks_initrd_element: "is_cstr (mem_string (ram k) h) \<Longrightarrow> Suc (unat (inode_counter (k_vfs k))) < 2 ^ 64 \<Longrightarrow>
    initrd_element fs h n i d k = Ok (c, k') \<Longrightarrow> k_step k k'"
| ks_proc_init: "length (p_name stk) = PROC_NAME_MAX \<Longrightarrow> Suc (Suc (unat (proc_counter k))) < 2 ^ 64 \<Longrightarrow>
    proc_init stk k = Ok (u, k') \<Longrightarrow> k_step k k'"
| ks_proc_create: "length (p_name stk) = PROC_NAME_MAX \<Longrightarrow> is_cstr name \<Longrightarrow> Suc (Suc (unat (proc_counter k))) < 2 ^ 64 \<Longrightarrow>
    proc_create stk name dir k = Ok (pid, k') \<Longrightarrow> k_step k k'"
| ks_spawn_thread: "Suc (unat (thread_counter k)) < 2 ^ 64 \<Longrightarrow>
    spawn_thread pid entry k = Ok (t, k') \<Longrightarrow> k_step k k'"
| ks_delete_thread: "delete_thread pid t k = Ok (x, k') \<Longrightarrow> k_step k k'"
| ks_thread_lid: "thread_set_lid t lid k = Ok (u, k') \<Longrightarrow> k_step k k'"
| ks_thread_state: "thread_set_state t st k = Ok (u, k') \<Longrightarrow> k_step k k'"
| ks_thread_stack: "thread_set_stack t stack k = Ok (u, k') \<Longrightarrow> k_step k k'"
| ks_thread_kill: "thread_kill t k = Ok (x, k') \<Longrightarrow> k_step k k'"
| ks_set_current: "set_current p k = Ok (u, k') \<Longrightarrow> k_step k k'"
| ks_set_current_thread: "set_current_thread t k = Ok (u, k') \<Longrightarrow> k_step k k'"
| ks_create_fd: "Suc (unat (fd_counter (k_vfs k))) < 2 ^ 64 \<Longrightarrow>
    proc_create_fd pid ino k = Ok (lfd, k') \<Longrightarrow> k_step k k'"
| ks_delete_fd: "proc_delete_fd pid lfd k = Ok (x, k') \<Longrightarrow> k_step k k'"
| ks_schedule: "scheduler_schedule t prio k = Ok (u, k') \<Longrightarrow> k_step k k'"
| ks_preempt: "contenders k \<noteq> [] \<Longrightarrow> scheduler_preempt stk k = Ok (sw, k') \<Longrightarrow> k_step k k'"
| ks_fd_open: "fds_left k \<Longrightarrow> fd_open ino k = Ok (lfd, k') \<Longrightarrow> k_step k k'"
| ks_fd_close: "fd_close lfd k = Ok (x, k') \<Longrightarrow> k_step k k'"
| ks_fd_read: "heap_map_clear rbuff (max 2 (unat n)) k \<Longrightarrow> fd_read lfd rbuff n k = Ok (y, k') \<Longrightarrow> k_step k k'"
| ks_fd_write: "fd_write lfd buff n k = Ok (y, k') \<Longrightarrow> k_step k k'"
| ks_syscall: "call_ok arg0 arg2 arg3 k \<Longrightarrow> syscall_isr_main stk arg0 arg1 arg2 arg3 k = Ok (sw, k') \<Longrightarrow> k_step k k'"
| ks_pipe_put: "k_step k (k\<lparr>pipe_store := (pipe_store k)(p := write_unsafe (pipe_store k p) b)\<rparr>)"
| ks_pipe_get: "read_unsafe (pipe_store k p) = Ok (b, f) \<Longrightarrow> k_step k (k\<lparr>pipe_store := (pipe_store k)(p := f)\<rparr>)"
| ks_new: "unat sz < 2 ^ 63 \<Longrightarrow> on_mem (operator_new sz) k = Ok (a, k') \<Longrightarrow> k_step k k'"
| ks_delete: "live (km_heap (k_mem k)) a = Some a \<Longrightarrow> on_mem (operator_delete a) k = Ok (u, k') \<Longrightarrow> k_step k k'"
| ks_store: "map_same k m \<Longrightarrow> k_step k (set_ram m k)"
| ks_interrupts: "k_step k (k\<lparr>k_mem := (k_mem k)\<lparr>km_hw := h\<rparr>\<rparr>)"

lemma initrd_add_length: "length (initrd_add_from start siz args rs) = length rs"
  by (induction rs) auto

lemma proc_init_typed:
  assumes "k_typed k" "length (p_name stk) = PROC_NAME_MAX" "Suc (Suc (unat (proc_counter k))) < 2 ^ 64"
  shows "post k_typed (proc_init stk k)"
proof -
  have "on_vfs get_root (k_lock k) = Ok (vfs_root (k_vfs k), k_lock k)"
    using get_root_run [OF k_typed_inv(2) [OF assms(1)]] by (simp add: on_vfs_def)
  moreover have "k_typed (k'\<lparr>kproc := p, cproc := p\<rparr>)"
    if "proc_create stk (lit ''kernel'') d (k_lock k) = Ok (p, k')" for d p k'
    using postD [OF proc_create_typed that] assms by (simp add: k_typed_def k_core_def)
  ultimately show ?thesis by (auto simp: proc_init_def hw_section_def post_def)
qed

lemma heap_typed:
  assumes "k_typed k" "heap_inv (km_heap m)"
  shows "k_typed (k\<lparr>k_mem := m\<rparr>)"
  using assms by (simp add: k_typed_def k_core_def)

lemma operator_new_typed:
  assumes "k_typed k" "unat n < 2 ^ 63"
  shows "post k_typed (on_mem (operator_new n) k)"
proof -
  have h: "heap_inv (km_heap (k_mem k))" using k_typed_inv(1) [OF assms(1)] by (simp add: k_core_def)
  have "heap_inv (km_heap m)" if "operator_new n (k_mem k) = Ok (a, m)" for a m
    using pool.alloc_owns [OF h assms(2) operator_new_heap(2,1) [OF that]] by blast
  then show ?thesis using heap_typed [OF assms(1)] by (auto simp: post_def on_mem_def)
qed

lemma operator_delete_typed:
  assumes "k_typed k" "live (km_heap (k_mem k)) a = Some a"
  shows "post k_typed (on_mem (operator_delete a) k)"
proof -
  have h: "heap_inv (km_heap (k_mem k))" using k_typed_inv(1) [OF assms(1)] by (simp add: k_core_def)
  obtain g where "pool_dealloc a (km_heap (k_mem k)) = Ok ((), g)" "heap_inv g"
    using pool.free_owns [OF h assms(2)] by blast
  then show ?thesis using heap_typed [OF assms(1)] by (simp add: on_mem_def operator_delete_def kmem_dealloc_def Let_def)
qed

lemma k_step_typed: "k_step k k' \<Longrightarrow> k_typed k \<Longrightarrow> k_typed k'"
proof (induction rule: k_step.induct)
  case (ks_vfs k v)
  then show ?case by (auto intro: k_typed_vfs)
next
  case (ks_pipe_init k)
  then show ?case by (simp add: pipe_init_def k_typed_def k_core_def vtable_typed_def)
next
  case (ks_mount_pipe path k p x k')
  then show ?case using mount_pipe_typed by blast
next
  case (ks_initrd_table k)
  then show ?case by (simp add: initrd_init_vtable_def k_typed_def k_core_def vtable_typed_def)
next
  case (ks_initrd_add k start siz args)
  then show ?case by (simp add: initrd_add_def k_typed_def k_core_def initrd_add_length)
next
  case (ks_initrd_fs k idx fs)
  then show ?case by (simp add: k_typed_def k_core_def)
next
  case (ks_initrd_element k h fs n i d c k')
  then show ?case using initrd_element_typed by blast
next
  case (ks_thread_kill t k x k')
  then show ?case using thread_set_typed [of k t] by (auto simp: thread_kill_def thread_set_state_def post_def)
next
  case (ks_pipe_put k p b)
  have "fifo_inv (write_unsafe (pipe_store k p) b)"
    using fifo_inv_foldl [of "pipe_store k p" "[b]"] ks_pipe_put by (simp add: k_typed_def)
  then show ?case using ks_pipe_put by (simp add: pipe_store_typed)
next
  case (ks_pipe_get k p b f)
  then show ?case using fifo_read_inv [of "pipe_store k p"] by (simp add: pipe_store_typed k_typed_def k_core_def)
next
  case (ks_store k m)
  then show ?case by (simp add: set_ram_typed)
next
  case (ks_interrupts k h)
  then show ?case by (simp add: k_typed_def k_core_def)
qed (auto simp: thread_set_lid_def thread_set_state_def thread_set_stack_def
  elim!: postD [rotated] intro: post_rules proc_init_typed proc_create_typed spawn_thread_typed set_current_typed proc_create_fd_typed
    scheduler_schedule_typed scheduler_preempt_typed fd_open_typed fd_read_typed syscall_typed operator_new_typed operator_delete_typed)

section \<open>Reachable states\<close>

text \<open>What \<open>kentry\<close> leaves: every static variable at its initial value, a constructed heap, the archives the loader passed.\<close>

definition k_start :: "kernel \<Rightarrow> bool" where
  "k_start k \<longleftrightarrow> heap_inv (km_heap (k_mem k)) \<and> length (initrds k) = INITRD_MAX \<and>
     k = (kernel_start (k_mem k))\<lparr>initrds := initrds k\<rparr>"

interpretation ksys: invariant_system k_start k_step k_typed
proof unfold_locales
  show "k_typed k" if "k_start k" for k
    using that k_typed_start [of "k_mem k" "initrds k"] unfolding k_start_def by metis
qed (rule k_step_typed)

text \<open>\<open>kentry\<close> does leave such a state.\<close>

lemma kentry_starts:
  assumes "latching (be_dev E)"
    "multiboot_set_header (be_end E) magic header
      \<lparr>bk = mk (machine_start m0 page), mb_meminfo = m_meminfo (machine_start m0 page)\<rparr> = Ok b"
    "pool = fst (arch_kernel_alloc (be_end E) KMEM_SIZE (km_end_offset (k_mem (bk b))))" "16 dvd unat pool"
    "pool \<noteq> 0" "unat pool + 2 * 16777216 < 2 ^ 64" "length (initrds (bk b)) = INITRD_MAX"
  shows "\<exists>M. kentry E magic header (machine_start m0 page) = Ok M \<and> k_start (mk M)"
proof -
  obtain M s where M: "kentry E magic header (machine_start m0 page) = Ok M"
      "mcon M = console_start ((kernel_start s)\<lparr>initrds := initrds (bk b)\<rparr>) page" "unused_from 0 (km_heap s)"
    using kentry_spec [OF assms(1-6)] by blast
  then show ?thesis using assms(7)
    by (intro exI [of _ M]) (simp add: k_start_def kernel_start_def console_start_def unused_from_def)
qed

end
