(* ===== verification/Util_Char.thy ===== *)
theory Util_Char
  imports Prelude
begin

text \<open>
  Character classes and digit conversions: \<open>include/tupai/util/char.hpp\<close>. \<open>char\<close> is signed on the
  x86 targets, so comparisons and arithmetic go through \<open>schar\<close>; a result is narrowed back to
  \<open>char\<close>. \<open>('0', false)\<close> is the comma operator: its value is \<open>false\<close>, the character 0.
\<close>

definition schar :: "char \<Rightarrow> int" where
  "schar c = (let n = of_char c in if n < 128 then n else n - 256)"

definition to_char :: "int \<Rightarrow> char" where
  "to_char n = char_of (n mod 256)"

definition is_newline :: "char \<Rightarrow> bool" where
  "is_newline c \<longleftrightarrow> c = CHR 0x0A \<or> c = CHR 0x0D"

definition is_whitespace :: "char \<Rightarrow> bool" where
  "is_whitespace c \<longleftrightarrow> c = CHR '' '' \<or> c = CHR 0x0A \<or> is_newline c"

definition is_printable :: "char \<Rightarrow> bool" where
  "is_printable c \<longleftrightarrow> (of_char c :: int) \<ge> 0x20 \<and> (of_char c :: int) \<le> 0x7F"

definition is_backspace :: "char \<Rightarrow> bool" where
  "is_backspace c \<longleftrightarrow> c = CHR 0x08"

definition is_escape :: "char \<Rightarrow> bool" where
  "is_escape c \<longleftrightarrow> c = CHR 0x1B"

definition is_digit :: "char \<Rightarrow> bool" where
  "is_digit c \<longleftrightarrow> schar c \<ge> schar CHR ''0'' \<and> schar c \<le> schar CHR ''9''"

definition is_lowercase :: "char \<Rightarrow> bool" where
  "is_lowercase c \<longleftrightarrow> schar c \<ge> schar CHR ''a'' \<and> schar c \<le> schar CHR ''z''"

definition is_uppercase :: "char \<Rightarrow> bool" where
  "is_uppercase c \<longleftrightarrow> schar c \<ge> schar CHR ''A'' \<and> schar c \<le> schar CHR ''Z''"

definition is_hex :: "char \<Rightarrow> bool" where
  "is_hex c \<longleftrightarrow>
     (schar c \<ge> schar CHR ''0'' \<and> schar c \<le> schar CHR ''9'') \<or>
     (schar c \<ge> schar CHR ''a'' \<and> schar c \<le> schar CHR ''f'') \<or>
     (schar c \<ge> schar CHR ''A'' \<and> schar c \<le> schar CHR ''F'')"

definition hex_to_num :: "char \<Rightarrow> char" where
  "hex_to_num c =
     (if schar c \<ge> schar CHR ''0'' \<and> schar c \<le> schar CHR ''9''
      then to_char (schar c - schar CHR ''0'')
      else if schar c \<ge> schar CHR ''a'' \<and> schar c \<le> schar CHR ''f''
      then to_char (schar c - schar CHR ''a'' + 10)
      else if schar c \<ge> schar CHR ''A'' \<and> schar c \<le> schar CHR ''F''
      then to_char (schar c - schar CHR ''A'' + 10)
      else to_char 0)"

definition digit_to_num :: "char \<Rightarrow> char" where
  "digit_to_num c =
     (if schar c \<ge> schar CHR ''0'' \<and> schar c \<le> schar CHR ''9''
      then to_char (schar c - schar CHR ''0'') else to_char 0)"

definition num_to_hex :: "char \<Rightarrow> char" where
  "num_to_hex n =
     (if schar n \<ge> 0 \<and> schar n \<le> 9 then to_char (schar CHR ''0'' + schar n)
      else if schar n \<ge> 0xA \<and> schar n \<le> 0xF then to_char (schar CHR ''A'' + schar n - 10)
      else to_char 0)"

definition num_to_digit :: "char \<Rightarrow> char" where
  "num_to_digit n =
     (if schar n \<ge> 0 \<and> schar n \<le> 9 then to_char (schar CHR ''0'' + schar n) else to_char 0)"

definition to_lowercase :: "char \<Rightarrow> char" where
  "to_lowercase c =
     (if is_uppercase c then to_char (schar c - schar CHR ''A'' + schar CHR ''a'') else c)"

definition to_uppercase :: "char \<Rightarrow> char" where
  "to_uppercase c =
     (if is_lowercase c then to_char (schar c - schar CHR ''a'' + schar CHR ''A'') else c)"

section \<open>Conversions\<close>

lemma schar_range: "- 128 \<le> schar c" "schar c < 128"
proof -
  have "(of_char c :: int) = int (of_char c)" by (simp add: of_nat_of_char)
  then have "(of_char c :: int) < 256" "0 \<le> (of_char c :: int)"
    using nat_of_char_less_256 [of c] by linarith+
  then show "- 128 \<le> schar c" "schar c < 128" by (simp_all add: schar_def Let_def)
qed

lemma to_char_schar [simp]: "to_char (schar c) = c"
proof -
  have "(of_char c - 256) mod 256 = (of_char c :: int) mod 256"
    by (metis minus_mod_self2)
  then have "schar c mod 256 = of_char c mod 256" by (simp add: schar_def Let_def)
  then show ?thesis by (simp add: to_char_def)
qed

lemma schar_to_char:
  assumes "- 128 \<le> n" "n < 128"
  shows "schar (to_char n) = n"
proof (cases "0 \<le> n")
  case True
  then show ?thesis using assms by (simp add: schar_def to_char_def Let_def)
next
  case False
  then have "n mod 256 = n + 256"
    using assms mod_pos_pos_trivial [of "n + 256" 256] by simp
  then show ?thesis using assms False by (simp add: schar_def to_char_def Let_def)
qed

lemmas schar_consts =
  schar_def [of "CHR ''0''", simplified] schar_def [of "CHR ''9''", simplified]
  schar_def [of "CHR ''a''", simplified] schar_def [of "CHR ''f''", simplified]
  schar_def [of "CHR ''z''", simplified] schar_def [of "CHR ''A''", simplified]
  schar_def [of "CHR ''F''", simplified] schar_def [of "CHR ''Z''", simplified]

lemma hex_to_num_num_to_hex:
  assumes "0 \<le> schar n" "schar n < 16"
  shows "hex_to_num (num_to_hex n) = n" "is_hex (num_to_hex n)"
proof -
  have "schar n \<le> 9 \<or> 10 \<le> schar n" by linarith
  then have "hex_to_num (num_to_hex n) = to_char (schar n) \<and> is_hex (num_to_hex n)"
    using assms by (auto simp: hex_to_num_def num_to_hex_def is_hex_def schar_to_char schar_consts)
  then show "hex_to_num (num_to_hex n) = n" "is_hex (num_to_hex n)" by simp_all
qed

lemma digit_to_num_num_to_digit:
  assumes "0 \<le> schar n" "schar n < 10"
  shows "digit_to_num (num_to_digit n) = n"
  using assms by (simp add: digit_to_num_def num_to_digit_def schar_to_char schar_consts)

lemma to_lowercase_to_uppercase:
  "is_lowercase c \<Longrightarrow> is_uppercase (to_uppercase c) \<and> to_lowercase (to_uppercase c) = c"
  by (simp add: is_lowercase_def is_uppercase_def to_lowercase_def to_uppercase_def schar_to_char
      schar_consts)

end
