(* ===== verification/I386.thy ===== *)
theory I386
  imports Exception Multiboot
begin

text \<open>
  The 32-bit variant of the register dump (\<open>kernel/x86/i386/arch.cpp\<close>): the layout of the block the interrupt stubs push
  and the lines that are logged. The tables of this processor are in \<open>Descriptors\<close>.
\<close>

definition i386_arch_get_target :: string where
  "i386_arch_get_target = lit ''i386''"

definition i386_arch_get_offset :: u32 where
  "i386_arch_get_offset = 0xC0000000"

text \<open>\<open>arch_reg_state\<close>: 4 bytes per register, \<open>edi\<close> first.\<close>

definition i386_reg_names :: "string list" where
  "i386_reg_names = [''edi'', ''esi'', ''ebp'', ''esp'', ''ebx'', ''edx'', ''ecx'', ''eax'', ''eip'', ''eflags'']"

definition i386_reg_offset :: "string \<Rightarrow> u32" where
  "i386_reg_offset r = 4 * of_nat (length (takeWhile (\<lambda>x. x \<noteq> r) i386_reg_names))"

definition i386_get_reg_state_size :: u32 where
  "i386_get_reg_state_size = 4 * of_nat (length i386_reg_names)"

text \<open>The stack pointer is not read from the block but computed from its address.\<close>

definition i386_reg_value :: "memory \<Rightarrow> u32 \<Rightarrow> string \<Rightarrow> u32" where
  "i386_reg_value m state r =
     (if r = ''esp'' then ucast (ucast state + 4 :: u64) else load32 m (ucast (state + i386_reg_offset r)))"

definition i386_reg_line :: "memory \<Rightarrow> u32 \<Rightarrow> string \<times> string \<Rightarrow> fmt_arg list" where
  "i386_reg_line m state = (\<lambda>(label, r).
     [Str (lit (''  '' @ label @ '' = '')), Num False 32 (uint (i386_reg_value m state r)) 16 16])"

definition i386_reg_lines :: "memory \<Rightarrow> u32 \<Rightarrow> fmt_arg list list" where
  "i386_reg_lines m state =
     [[Str (lit ''--- Register Dump ---'')], [Str (lit ''Execution registers:'')]] @
     map (i386_reg_line m state) [(''EIP   '', ''eip''), (''EFLAGS'', ''eflags''), (''ESP   '', ''esp'')] @
     [[Str (lit ''General-purpose registers:'')]] @
     map (i386_reg_line m state) [(''EAX   '', ''eax''), (''EBX   '', ''ebx''), (''ECX   '', ''ecx''), (''EDX   '', ''edx''),
       (''EBP   '', ''ebp'')]"

definition i386_display_reg_state :: "u32 \<Rightarrow> logger \<Rightarrow> logger res" where
  "i386_display_reg_state state s = loglns (i386_reg_lines (ram (ck (lcon s))) state) s"

text \<open>The block has ten registers at distinct offsets inside its size.\<close>

lemma i386_offsets: "map (\<lambda>r. unat (i386_reg_offset r)) i386_reg_names = map ((*) 4) [0 ..< 10]"
  by (simp add: i386_reg_names_def i386_reg_offset_def upt_rec)

lemma i386_offsets_inside:
  assumes "r \<in> set i386_reg_names"
  shows "unat (i386_reg_offset r) + 4 \<le> unat i386_get_reg_state_size"
  using assms by (auto simp: i386_reg_names_def i386_reg_offset_def i386_get_reg_state_size_def)

end
