(* ===== verification/Arm.thy ===== *)
theory Arm
  imports Serial
begin

text \<open>
  The Raspberry Pi variant (\<open>kernel/arm\<close>): memory-mapped registers, the PL011 serial driver, the interrupt flag, the
  frame buffer and the loop that parks the other cores. Registers are 32 bits wide and \<open>size_t\<close> is too. As for ports, a
  device is a function from the trace of accesses to the next value read; \<open>delay\<close> has no effect on it.
\<close>

section \<open>Registers\<close>

datatype mmio_event =
    MWrite u32 u32
  | MRead u32 u32

type_synonym mmio_trace = "mmio_event list"
type_synonym mmio_device = "mmio_trace \<Rightarrow> u32 \<Rightarrow> u32"

definition mmio_write :: "u32 \<Rightarrow> u32 \<Rightarrow> mmio_trace \<Rightarrow> mmio_trace" where
  "mmio_write reg data tr = tr @ [MWrite reg data]"

definition mmio_read :: "mmio_device \<Rightarrow> u32 \<Rightarrow> mmio_trace \<Rightarrow> u32 \<times> mmio_trace" where
  "mmio_read dev reg tr = (dev tr reg, tr @ [MRead reg (dev tr reg)])"

definition PERIPHERAL_BASE :: u32 where "PERIPHERAL_BASE = 0x3F000000"
definition GPIO_BASE :: u32 where "GPIO_BASE = PERIPHERAL_BASE + 0x200000"
definition GPPUD :: u32 where "GPPUD = GPIO_BASE + 0x94"
definition GPPUDCLK0 :: u32 where "GPPUDCLK0 = GPIO_BASE + 0x98"
definition UART0_BASE :: u32 where "UART0_BASE = GPIO_BASE + 0x1000"
definition UART0_DR :: u32 where "UART0_DR = UART0_BASE + 0x00"
definition UART0_FR :: u32 where "UART0_FR = UART0_BASE + 0x18"
definition UART0_IBRD :: u32 where "UART0_IBRD = UART0_BASE + 0x24"
definition UART0_FBRD :: u32 where "UART0_FBRD = UART0_BASE + 0x28"
definition UART0_LCRH :: u32 where "UART0_LCRH = UART0_BASE + 0x2C"
definition UART0_CR :: u32 where "UART0_CR = UART0_BASE + 0x30"
definition UART0_IMSC :: u32 where "UART0_IMSC = UART0_BASE + 0x38"
definition UART0_ICR :: u32 where "UART0_ICR = UART0_BASE + 0x44"

section \<open>The serial driver\<close>

definition rpi2_port_names :: "string list" where
  "rpi2_port_names = [lit ''UART0'']"

text \<open>Five elements, three of them given.\<close>

definition rpi2_parity_values :: "u8 list" where
  "rpi2_parity_values = [0b000, 0b010, 0b110, 0, 0]"

definition RPI2_CLOCK_RATE :: u32 where
  "RPI2_CLOCK_RATE = 3000000"

definition rpi2_serial_init :: "mmio_trace \<Rightarrow> mmio_trace" where
  "rpi2_serial_init tr = tr"

definition rpi2_serial_count_ports :: nat where
  "rpi2_serial_count_ports = 1"

definition rpi2_serial_list_ports :: "string list" where
  "rpi2_serial_list_ports = rpi2_port_names"

definition rpi2_line_control :: "u8 \<Rightarrow> u8 \<Rightarrow> u8 \<Rightarrow> u32" where
  "rpi2_line_control databits stopbits parity_val =
     push_bit 5 (ucast databits - 5) OR push_bit 3 (ucast stopbits - 1) OR ucast parity_val OR push_bit 4 1"

definition rpi2_serial_open_port ::
    "int \<Rightarrow> u32 \<Rightarrow> u8 \<Rightarrow> u8 \<Rightarrow> serial_parity \<Rightarrow> mmio_trace \<Rightarrow> (bool \<times> mmio_trace) res" where
  "rpi2_serial_open_port port_id baudrate databits stopbits parity tr =
     (if port_id \<noteq> 0 then Ok (False, tr)
      else if databits < 5 \<or> databits > 8 then Ok (False, tr)
      else if stopbits < 1 \<or> stopbits > 2 then Ok (False, tr)
      else if parity_index parity > 2 then Ok (False, tr)
      else let tr = mmio_write UART0_CR 0 tr;
               tr = mmio_write GPPUD 0 tr;
               tr = mmio_write GPPUDCLK0 (push_bit 14 1 OR push_bit 15 1) tr;
               tr = mmio_write GPPUDCLK0 0 tr;
               tr = mmio_write UART0_ICR 0x7FF tr
           in if 16 * baudrate = 0 then Fail DivByZero
              else let dividerx100 = (100 * RPI2_CLOCK_RATE) div (16 * baudrate);
                       tr = mmio_write UART0_IBRD (dividerx100 div 100) tr;
                       tr = mmio_write UART0_FBRD ((((dividerx100 mod 100) * 64) + 50) div 100) tr
                   in bind_res (arr_get rpi2_parity_values (parity_index parity)) (\<lambda>parity_val.
                      let tr = mmio_write UART0_LCRH (rpi2_line_control databits stopbits parity_val) tr;
                          tr = mmio_write UART0_IMSC (push_bit 1 1 OR push_bit 4 1 OR push_bit 5 1 OR push_bit 6 1 OR
                            push_bit 7 1 OR push_bit 8 1 OR push_bit 9 1 OR push_bit 10 1) tr;
                          tr = mmio_write UART0_CR (push_bit 0 1 OR push_bit 8 1 OR push_bit 9 1) tr
                      in Ok (True, tr)))"

text \<open>\<open>while (mmio_read(UART0_FR) & (1 << n));\<close> nothing bounds the number of reads.\<close>

partial_function (option) mmio_wait :: "nat \<Rightarrow> mmio_device \<Rightarrow> mmio_trace \<Rightarrow> mmio_trace option" where
  "mmio_wait n dev tr =
     (let (v, tr') = mmio_read dev UART0_FR tr in if bit v n then mmio_wait n dev tr' else Some tr')"

definition rpi2_serial_write :: "mmio_device \<Rightarrow> int \<Rightarrow> u8 \<Rightarrow> mmio_trace \<Rightarrow> mmio_trace res" where
  "rpi2_serial_write dev port_id b tr =
     (if port_id \<noteq> 0 then Ok tr
      else case mmio_wait 5 dev tr of None \<Rightarrow> Fail Diverges | Some tr \<Rightarrow> Ok (mmio_write UART0_DR (ucast b) tr))"

definition rpi2_serial_read :: "mmio_device \<Rightarrow> int \<Rightarrow> mmio_trace \<Rightarrow> (u8 \<times> mmio_trace) res" where
  "rpi2_serial_read dev port_id tr =
     (if port_id \<noteq> 0 then Ok (0, tr)
      else case mmio_wait 4 dev tr of
             None \<Rightarrow> Fail Diverges
           | Some tr \<Rightarrow> let (v, tr) = mmio_read dev UART0_DR tr in Ok (ucast v, tr))"

section \<open>Start-up\<close>

definition CORE_OFFSET :: u32 where "CORE_OFFSET = 0x4000008C"
definition CORE_COUNT :: nat where "CORE_COUNT = 4"

text \<open>The loop of \<open>kentry\<close>: \<open>CORE_OFFSET * 0x10 * i\<close> is a product of a 32-bit \<open>size_t\<close>.\<close>

definition rpi2_park_cores :: "u32 \<Rightarrow> mmio_trace \<Rightarrow> mmio_trace" where
  "rpi2_park_cores core_hang tr =
     foldl (\<lambda>tr i. mmio_write (CORE_OFFSET * 0x10 * of_nat i) core_hang tr) tr [1 ..< CORE_COUNT]"

text \<open>The interrupt mask bit of the status register; binding a handler does nothing yet.\<close>

definition arm_interrupt_enable :: "bool \<Rightarrow> u32 \<Rightarrow> u32" where
  "arm_interrupt_enable enable cpsr = (if enable then cpsr AND NOT (push_bit 7 1) else cpsr OR push_bit 7 1)"

definition arm_interrupt_bind :: "u8 \<Rightarrow> u32 \<Rightarrow> bool \<Rightarrow> 's \<Rightarrow> 's" where
  "arm_interrupt_bind irq address hardware s = s"

record framebuffer_t =
  fb_valid :: int
  fb_width :: u32
  fb_height :: u32
  fb_data :: u32

definition framebuffer_init :: "u32 \<Rightarrow> u32 \<Rightarrow> framebuffer_t \<Rightarrow> framebuffer_t" where
  "framebuffer_init width height fb = fb\<lparr>fb_valid := 0\<rparr>"

definition rpi2_arch_get_target :: string where "rpi2_arch_get_target = lit ''rpi2''"
definition rpi2_arch_get_offset :: u32 where "rpi2_arch_get_offset = 0"
definition arm_arch_get_family :: string where "arm_arch_get_family = lit ''arm''"

section \<open>Opening the port\<close>

text \<open>The two divisor registers together hold 64 times the divisor, rounded; the fraction fits its six bits, and from 3
  baud on the integer part fits its sixteen.\<close>

lemma rpi2_divisor:
  fixes baudrate :: u32
  assumes "3 \<le> unat baudrate" "unat baudrate < 2 ^ 28"
  defines "d \<equiv> 300000000 div (16 * unat baudrate)"
  shows "unat ((100 * RPI2_CLOCK_RATE) div (16 * baudrate) div 100) = d div 100"
    "unat ((((100 * RPI2_CLOCK_RATE) div (16 * baudrate) mod 100) * 64 + 50) div 100) = (d mod 100 * 64 + 50) div 100"
    "64 * (d div 100) + (d mod 100 * 64 + 50) div 100 = (64 * d + 50) div 100"
    "(d mod 100 * 64 + 50) div 100 < 64" "d div 100 < 2 ^ 16" "16 * baudrate \<noteq> 0"
proof -
  have u16: "unat (16 * baudrate) = 16 * unat baudrate"
    using assms(2) by (subst unat_mult_lem [THEN iffD1]) simp_all
  then show "16 * baudrate \<noteq> 0" using assms(1) by (metis mult_eq_0_iff not_numeral_le_zero unat_0 zero_neq_numeral)
  have ud: "unat ((100 * RPI2_CLOCK_RATE) div (16 * baudrate)) = d"
    using u16 by (simp add: unat_div_distrib RPI2_CLOCK_RATE_def d_def)
  then show "unat ((100 * RPI2_CLOCK_RATE) div (16 * baudrate) div 100) = d div 100" by (simp add: unat_div_distrib)
  have um: "unat ((100 * RPI2_CLOCK_RATE) div (16 * baudrate) mod 100) = d mod 100" using ud by (simp add: unat_mod_distrib)
  have "d mod 100 < 100" by simp
  then have "d mod 100 * 64 + 50 < 2 ^ 32" by simp
  then have "unat (((100 * RPI2_CLOCK_RATE) div (16 * baudrate) mod 100) * 64 + 50) = d mod 100 * 64 + 50"
    using um by (simp add: unat_word_ariths)
  then show "unat ((((100 * RPI2_CLOCK_RATE) div (16 * baudrate) mod 100) * 64 + 50) div 100) = (d mod 100 * 64 + 50) div 100"
    by (simp add: unat_div_distrib)
  have "64 * d + 50 = 100 * (64 * (d div 100)) + (d mod 100 * 64 + 50)"
    using div_mult_mod_eq [of d 100] by linarith
  then show "64 * (d div 100) + (d mod 100 * 64 + 50) div 100 = (64 * d + 50) div 100" by simp
  show "(d mod 100 * 64 + 50) div 100 < 64" using \<open>d mod 100 < 100\<close> by linarith
  have "d \<le> 300000000 div (16 * 3)" unfolding d_def using assms(1) by (intro div_le_mono2) simp_all
  then show "d div 100 < 2 ^ 16" by simp
qed

lemma u8_range:
  fixes b :: u8
  shows "5 \<le> unat b \<Longrightarrow> unat b \<le> 8 \<Longrightarrow> b \<in> {5, 6, 7, 8}" "1 \<le> unat b \<Longrightarrow> unat b \<le> 2 \<Longrightarrow> b \<in> {1, 2}"
proof -
  assume "5 \<le> unat b" "unat b \<le> 8"
  then have "unat b \<in> {5, 6, 7, 8}" by auto
  then show "b \<in> {5, 6, 7, 8}" by (auto simp: word_unat_eq_iff)
next
  assume "1 \<le> unat b" "unat b \<le> 2"
  then have "unat b \<in> {1, 2}" by auto
  then show "b \<in> {1, 2}" by (auto simp: word_unat_eq_iff)
qed

text \<open>The fields of the line control register as the device reads them.\<close>

lemma rpi2_line_control_fields:
  fixes databits stopbits :: u8
  assumes "databits \<in> {5, 6, 7, 8}" "stopbits \<in> {1, 2}" "parity_index parity \<le> 2"
  defines "r \<equiv> rpi2_line_control databits stopbits (rpi2_parity_values ! parity_index parity)"
  shows "unat (take_bit 2 (drop_bit 5 r)) + 5 = unat databits \<and> bit r 4 \<and>
    (bit r 3 \<longleftrightarrow> unat stopbits = 2) \<and> (bit r 1 \<longleftrightarrow> parity \<noteq> PARITY_NONE) \<and> (bit r 2 \<longleftrightarrow> parity = PARITY_EVEN)"
  using assms(1-3) unfolding r_def rpi2_line_control_def rpi2_parity_values_def
  by (elim insertE emptyE; cases parity; simp)

text \<open>
  The divisor is cut to hundredths before it is rounded to 64ths. Against the formula in the comment, the exact divisor
  times 64 plus one half, one 64th can be lost and no more.
\<close>

lemma divisor_cut:
  fixes b :: nat
  assumes "0 < b"
  defines "v \<equiv> (64 * (300000000 div (16 * b)) + 50) div 100"
  shows "v \<le> (24000000 + b) div (2 * b)" "(24000000 + b) div (2 * b) \<le> v + 1"
proof -
  define y where "y = 300000000 div (16 * b)"
  have y: "16 * (y * b) \<le> 300000000" "300000000 < 16 * (y * b) + 16 * b"
    using times_div_less_eq_dividend [of "16 * b" 300000000] dividend_less_times_div [of "16 * b" 300000000] assms(1)
    unfolding y_def [symmetric] by (simp_all add: algebra_simps)
  have "v = (64 * y + 50) div 100" by (simp only: v_def y_def)
  then have v: "100 * v \<le> 64 * y + 50" "64 * y + 50 < 100 * v + 100" by linarith+
  have "100 * v * b \<le> (64 * y + 50) * b" using v(1) by (rule mult_le_mono1)
  then have "v * (2 * b) \<le> 24000000 + b" using y(1) by (simp add: algebra_simps)
  then show "v \<le> (24000000 + b) div (2 * b)" using assms(1) by (simp add: less_eq_div_iff_mult_less_eq)
  have "(64 * y + 51) * b \<le> (100 * v + 100) * b" using v(2) by (intro mult_le_mono1) simp
  then have "24000000 + b < (v + 2) * (2 * b)" using y(2) assms(1) by (simp add: algebra_simps)
  then have "(24000000 + b) div (2 * b) < v + 2" using assms(1) by (simp add: div_less_iff_less_mult)
  then show "(24000000 + b) div (2 * b) \<le> v + 1" by simp
qed

lemma rpi2_serial_opens:
  assumes "5 \<le> unat databits" "unat databits \<le> 8" "1 \<le> unat stopbits" "unat stopbits \<le> 2" "parity_index parity \<le> 2"
    "3 \<le> unat baudrate" "unat baudrate < 2 ^ 28"
  shows "\<exists>ibrd fbrd lcrh. rpi2_serial_open_port 0 baudrate databits stopbits parity tr = Ok (True, tr @
      [MWrite UART0_CR 0, MWrite GPPUD 0, MWrite GPPUDCLK0 0xC000, MWrite GPPUDCLK0 0, MWrite UART0_ICR 0x7FF,
       MWrite UART0_IBRD ibrd, MWrite UART0_FBRD fbrd, MWrite UART0_LCRH lcrh, MWrite UART0_IMSC 0x7F2, MWrite UART0_CR 0x301]) \<and>
    64 * unat ibrd + unat fbrd = (64 * (300000000 div (16 * unat baudrate)) + 50) div 100 \<and> unat ibrd < 2 ^ 16 \<and>
    unat fbrd < 64 \<and> unat (take_bit 2 (drop_bit 5 lcrh)) + 5 = unat databits \<and> bit lcrh 4 \<and>
    (bit lcrh 3 \<longleftrightarrow> unat stopbits = 2) \<and> (bit lcrh 1 \<longleftrightarrow> parity \<noteq> PARITY_NONE) \<and> (bit lcrh 2 \<longleftrightarrow> parity = PARITY_EVEN)"
proof -
  note d = rpi2_divisor [OF assms(6,7)]
  note l = rpi2_line_control_fields [OF u8_range(1) [OF assms(1,2)] u8_range(2) [OF assms(3,4)] assms(5)]
  have "\<not> databits < 5" "\<not> 8 < databits" "\<not> stopbits < 1" "\<not> 2 < stopbits"
    using assms(1-4) by (simp_all add: word_less_nat_alt)
  then have run: "rpi2_serial_open_port 0 baudrate databits stopbits parity tr = Ok (True, tr @
      [MWrite UART0_CR 0, MWrite GPPUD 0, MWrite GPPUDCLK0 0xC000, MWrite GPPUDCLK0 0, MWrite UART0_ICR 0x7FF,
       MWrite UART0_IBRD ((100 * RPI2_CLOCK_RATE) div (16 * baudrate) div 100),
       MWrite UART0_FBRD ((((100 * RPI2_CLOCK_RATE) div (16 * baudrate) mod 100) * 64 + 50) div 100),
       MWrite UART0_LCRH (rpi2_line_control databits stopbits (rpi2_parity_values ! parity_index parity)),
       MWrite UART0_IMSC 0x7F2, MWrite UART0_CR 0x301])"
    using assms(5) d(6) by (simp add: rpi2_serial_open_port_def Let_def mmio_write_def rpi2_parity_values_def)
  show ?thesis unfolding run using d(1-5) l by (intro exI conjI) (rule refl | simp)+
qed

text \<open>Parameters outside their ranges are refused before any register is touched.\<close>

lemma rpi2_serial_refuses:
  "port_id \<noteq> 0 \<or> unat databits < 5 \<or> 8 < unat databits \<or> stopbits = 0 \<or> 2 < unat stopbits \<or> 2 < parity_index parity \<Longrightarrow>
    rpi2_serial_open_port port_id baudrate databits stopbits parity tr = Ok (False, tr)"
  by (auto simp: rpi2_serial_open_port_def word_less_nat_alt)

section \<open>Waiting for the device\<close>

fun wait_trace :: "mmio_device \<Rightarrow> nat \<Rightarrow> mmio_trace \<Rightarrow> mmio_trace" where
  "wait_trace dev 0 tr = tr"
| "wait_trace dev (Suc k) tr = wait_trace dev k (snd (mmio_read dev UART0_FR tr))"

lemma mmio_wait_returns:
  assumes "\<not> bit (dev (wait_trace dev k tr) UART0_FR) n" "\<forall>i<k. bit (dev (wait_trace dev i tr) UART0_FR) n"
  shows "mmio_wait n dev tr = Some (wait_trace dev (Suc k) tr)"
  using assms
proof (induction k arbitrary: tr)
  case 0
  then show ?case by (subst mmio_wait.simps) (simp add: mmio_read_def)
next
  case (Suc k)
  let ?tr = "snd (mmio_read dev UART0_FR tr)"
  have "\<forall>i<k. bit (dev (wait_trace dev i ?tr) UART0_FR) n" using Suc.prems(2) by (metis Suc_mono wait_trace.simps(2))
  then have "mmio_wait n dev ?tr = Some (wait_trace dev (Suc k) ?tr)" using Suc.IH Suc.prems(1) by simp
  moreover have "bit (dev tr UART0_FR) n" using Suc.prems(2) by force
  ultimately show ?case by (subst mmio_wait.simps) (simp add: mmio_read_def)
qed

text \<open>A byte is sent as soon as the transmit queue has room, after as many looks as that takes.\<close>

lemma rpi2_serial_write_sends:
  assumes "\<exists>k. \<not> bit (dev (wait_trace dev k tr) UART0_FR) 5"
  shows "\<exists>k. rpi2_serial_write dev 0 b tr = Ok (wait_trace dev (Suc k) tr @ [MWrite UART0_DR (ucast b)])"
proof -
  obtain k where "\<not> bit (dev (wait_trace dev k tr) UART0_FR) 5" "\<forall>i<k. bit (dev (wait_trace dev i tr) UART0_FR) 5"
    using assms exists_least_iff [of "\<lambda>k. \<not> bit (dev (wait_trace dev k tr) UART0_FR) 5"] by blast
  then show ?thesis using mmio_wait_returns [of dev k tr 5] by (auto simp: rpi2_serial_write_def mmio_write_def)
qed

text \<open>The addresses written for the other cores wrap around and miss their mailboxes.\<close>

lemma rpi2_park_addresses:
  "rpi2_park_cores f tr = tr @ [MWrite 0x8C0 f, MWrite 0x1180 f, MWrite 0x1A40 f]"
  by (simp add: rpi2_park_cores_def CORE_COUNT_def CORE_OFFSET_def mmio_write_def upt_rec)

end
