(* ===== verification/Spec2Isabelle.thy ===== *)
theory Spec2Isabelle
  imports Sample_Console Sample_Boot Kernel_Trace Util_Char Cmos I386 Arm
begin

text \<open>
  Verification of the Tupai kernel (\<open>src/kernel\<close>, \<open>src/include/tupai\<close>).

  \<^bold>\<open>The program.\<close> Tupai is a small kernel for amd64. A first-fit memory pool backs the heap. A virtual file system
  keeps inodes, file systems and descriptors in three hash tables; ram disks (tar archives handed over by the boot
  loader) and pipes hang their operations into it. Processes own local descriptors and threads, a round-robin
  scheduler switches threads on every timer tick, and programs reach all this through one trap and a small C
  library. The terminal is two pipes, a thread that copies one of them to the text screen, and a keyboard handler
  that fills the other. Exceptions kill the thread that caused them.

  \<^bold>\<open>Conventions.\<close> An operation of the source is a function of the same name over an explicit state. Its result is
  \<open>Ok\<close> or \<open>Fail\<close> with a \<open>fault\<close> of \<open>Prelude\<close>: a panic, an access outside an array or through a null pointer, a read
  of memory that was never written, a lock that is taken twice (\<open>Deadlock\<close>), or a loop that never ends
  (\<open>Diverges\<close>). Machine integers are words of the source's width; \<open>size_t\<close> counters whose wrap-around matters are
  words or are reduced by \<open>size_inc\<close> and \<open>size_dec\<close>. Memory that the code addresses by pointers (pool, archives,
  buffers of system calls) is one byte store, a function from 64-bit addresses to bytes; C strings that stay inside
  a structure are character lists, with every access checked. Locks are part of the state, so a section that
  re-enters its own lock fails in the model too. Hardware is a \<open>device\<close>, a function from the trace of port accesses
  so far to the next value read; what the drivers need of it is a named hypothesis and has a concrete instance.

  \<^bold>\<open>Theories.\<close>
  \<^item> \<open>Prelude\<close>: words, faults, the result type with its rules, checked arrays, counting loops.
  \<^item> \<open>Util_Str\<close>, \<open>Util_Mem\<close>, \<open>Util_Char\<close>: \<open>util/str.hpp\<close>, \<open>mem.hpp\<close>, \<open>math.hpp\<close>, \<open>char.hpp\<close>, \<open>cpp.cpp\<close>; copies
    are bounded and terminated, \<open>mem_copy\<close> of disjoint areas copies.
  \<^item> \<open>Hashtable\<close>, \<open>Queue\<close>, \<open>Vector\<close>, \<open>Fifo\<close>: the containers. Their contracts are the locales \<open>keyed_table\<close>,
    \<open>bounded_fifo\<close>, \<open>growable\<close> and \<open>blocking_stream\<close>, interpreted on the code's own functions; the clients use
    only the facts of the interpretations.
  \<^item> \<open>Locks\<close>: spinlock, hardware lock, mutex. \<open>lock_discipline\<close> is the contract of a critical section,
    interpreted for every lock of the kernel; \<open>spin_step\<close> is the interleaving semantics of the spinlock.
  \<^item> \<open>Conv\<close>, \<open>Fmt\<close>: \<open>conv.cpp\<close> and \<open>fmt.hpp\<close>; \<open>char_sink\<close> is the contract of an output stream.
  \<^item> \<open>Pool\<close>, \<open>Pool_Trace\<close>, \<open>Kmem\<close>: \<open>pool.cpp\<close>, \<open>kmem.cpp\<close>, \<open>arch.cpp\<close>; \<open>allocator\<close> is what both promise. \<open>heap_step\<close> are
    the calls and stores of clients, \<open>heap_view\<close> the simulation by a map from allocations to their contents.
  \<^item> \<open>Path\<close>, \<open>Vfs\<close>, \<open>Vfs_Trace\<close>: \<open>path.cpp\<close> and \<open>vfs.cpp\<close>. \<open>resolve\<close> is the abstract lookup; \<open>vfs_reach\<close> are the
    states reachable by any calls.
  \<^item> \<open>Kernel_State\<close>, \<open>Proc\<close>, \<open>Scheduler\<close>: the global state and \<open>proc.cpp\<close>, \<open>scheduler.cpp\<close>; \<open>k_inv\<close> is the invariant
    of the kernel's tables, \<open>k_core\<close> the part of it that does not depend on the uninitialised stack slot in which
    \<open>proc::create\<close> builds a process (\<open>clean_slot\<close> is the case in which the whole invariant holds).
  \<^item> \<open>Tar\<close>, \<open>Initrd\<close>, \<open>Pipe\<close>, \<open>Fd\<close>, \<open>Syscall\<close>: \<open>tar.cpp\<close>, \<open>initrd.cpp\<close>, \<open>pipe.cpp\<close>, \<open>fd.cpp\<close>, \<open>call.cpp\<close>,
    \<open>stdio.cpp\<close>.
  \<^item> \<open>Port_IO\<close>, \<open>Pic\<close>, \<open>Pit\<close>, \<open>Cmos\<close>, \<open>Ps2\<close>, \<open>Serial\<close>: ports and drivers.
  \<^item> \<open>Textmode\<close>, \<open>Tty\<close>, \<open>Log\<close>, \<open>Input\<close>: the console; \<open>term_step\<close> is the abstract terminal and \<open>line_edit\<close> the
    abstract line editor.
  \<^item> \<open>Exception\<close>, \<open>Descriptors\<close>, \<open>Multiboot\<close>: exceptions, descriptor tables, boot information. \<open>gate_table\<close> is what the
    interrupt tables of both x86 processors promise.
  \<^item> \<open>I386\<close>, \<open>Arm\<close>: what the other two ports have of their own: the 32-bit register dump; the serial driver and
    start-up of the Raspberry Pi.
  \<^item> \<open>Stream_Read\<close>, \<open>Shell\<close>: frames of the stream calls and the command shell of \<open>shell.cpp\<close>; \<open>split_args\<close> cuts a
    line into words and \<open>cat_loop\<close> shows a file.
  \<^item> \<open>Boot\<close>, \<open>Boot_Main\<close>: the order of initialisation (\<open>kentry.cpp\<close>, \<open>x86/arch.cpp\<close>, \<open>main.cpp\<close>) on a record of the whole
    machine; \<open>main_done\<close> is the state it ends in, \<open>moved\<close> that the loader's archive may be copied.
    \<open>init_overruns_stack\<close>: the first thread's body builds a process record four times the size of its stack.
  \<^item> \<open>Kernel_Types\<close>, \<open>Kernel_Trace\<close>: \<open>k_typed\<close>, the type of a kernel state, kept by every routine; \<open>k_step\<close>, the steps
    of the kernel as a whole, an instance, as \<open>vfs_step\<close> is, of the locale \<open>invariant_system\<close>.
  \<^item> \<open>Sample_State\<close>, \<open>Sample_Console\<close>, \<open>Sample_Boot\<close>: one concrete machine on which the witnesses are evaluated.

  \<^bold>\<open>What is shown.\<close> The sections below hold the properties. Files: opening and reading a file of the ram disk
  delivers the archived bytes, through every layer; unpacking ends and makes every record reachable; lookup refines
  \<open>resolve\<close>, mounting adds one name and disturbs no other; the file system invariant holds in all reachable
  states. Heap: first fit, allocations that stay apart and keep their contents in every sequence of calls, release undoes
  allocation. Processes: round robin, preemption,
  spawning. Locks: mutual exclusion in every interleaving. Containers: equivalence with maps, lists and the last
  items of a sequence. Text: printing and reading numbers are inverse, formatted output is bounded. Devices and
  console: exact effects on registers, refinement of the abstract terminal, typed lines, the shell. Booting: from the
  loader to the first threads. Types: every state reachable by kernel calls, under the guards of \<open>k_step\<close>, is well typed and file calls return in it. Several properties state
  where the code does not do what it means to; the manifest lists them as findings.

  \<^bold>\<open>Bounds and fuel.\<close> Loops over arrays and strings are structural or have a measure. Loops whose end depends on
  memory or a device are \<open>partial_function (option)\<close> or carry fuel: the archive walk (one unit per record suffices,
  \<open>initrd_unpack_finds_all\<close>), the tree printer (running out is \<open>Diverges\<close>), the tag loop (the source's own bound \<open>MAX_TAGS\<close>), the loop
  that counts digits (\<open>compose_gaps\<close>: it does not end in base 1).

  \<^bold>\<open>Not modelled.\<close> The start-up routines of the other two ports (they call the same functions, whose sizes are then 32
  bits: the model of those has 64); assembly (boot code,
  interrupt stubs: the switch of stacks is a returned value); the depth of stacks, except for the record \<open>init\<close> builds;
  the heap behind the storage of a vector, which is a list that can always grow; debug output, which is compiled out unless
  \<open>DEBUG_ENABLED\<close> is set; \<open>kthread.hpp\<close>, which declares functions that exist nowhere.
\<close>

section \<open>Files\<close>

text \<open>C1: opening a file of the ram disk with \<open>fopen\<close> and reading it with \<open>fread\<close> puts the first
  \<open>min (size * count - 1) filesize\<close> bytes of the archived file into the caller's buffer. The path is
  resolved, the inode opened, a descriptor made in the current process, both calls go through the trap
  handler, and the read is dispatched to the ram disk. \<open>can_open\<close> asks for well-formed tables with room for one more
  descriptor and for the ram disk's operations as \<open>initrd_init\<close> leaves them; C2 shows it of the booted kernel. The
  two words the calls exchange with the trap handler and the buffer lie apart from each other and from the archive.\<close>

theorem fopen_fread_delivers:
  assumes "hw_ok k" "can_open k p" "cproc k \<noteq> ID_INVALID"
    "is_cstr (mem_string (ram k) filename)"
    "resolve (tab k) (vfs_root (k_vfs k)) (path_elems (cstr (mem_string (ram k) filename))) = ino"
    "ino \<noteq> ID_INVALID"
    "ht_lookup (tab k) ino = Some nd" "i_vtable nd = Some Initrd_vtable"
    "ht_lookup (rd_inodes k) ino = Some header"
    "unat (tar_size (ram k) header) = filesize"
    "clear_of loc 8 header 512" "clear_of loc 8 (header + 512) filesize"
    "clear_of ptr (unat (siz * count)) (header + 512) filesize" "clear_of loc 8 ptr (unat (siz * count))"
  shows "\<exists>stream k1 k2. fopen stk loc filename k = Ok (stream, k1) \<and>
    fread stk loc ptr siz count stream k1 = Ok (of_nat (min (unat (siz * count) - 1) filesize), k2) \<and>
    bytes_at (ram k2) ptr (min (unat (siz * count) - 1) filesize) =
      bytes_at (ram k) (header + 512) (min (unat (siz * count) - 1) filesize)"
  using fopen_fread [OF assms] .

theorem fopen_fread_witness:
  "\<exists>stream k1 k2. fopen 0 0x5000 0x3000 sample_file = Ok (stream, k1) \<and>
    fread 0 0x5000 0x4000 1 16 stream k1 = Ok (5, k2) \<and>
    bytes_at (ram k2) 0x4000 5 = [0x68, 0x65, 0x6C, 0x6C, 0x6F]"
proof -
  obtain nd where nd: "ht_lookup (tab sample_file) sample_inode = Some nd" "i_vtable nd = Some Initrd_vtable"
    using sample_unpack(7) by blast
  have "hw_ok sample_file" "cproc sample_file \<noteq> ID_INVALID"
    using sample_file_fields by (simp_all add: hw_ok_def sample_hw_def interrupt_enabled_def ID_INVALID_def)
  moreover have "is_cstr (mem_string (ram sample_file) 0x3000)"
      "resolve (tab sample_file) (vfs_root (k_vfs sample_file))
        (path_elems (cstr (mem_string (ram sample_file) 0x3000))) = sample_inode"
    using sample_file_fields(5) sample_strings(2) sample_paths(2,5) sample_unpack(5) by simp_all
  moreover have "unat (tar_size (ram sample_file) 0x1000) = 5" using sample_size sample_file_fields(5) by simp
  moreover have "clear_of 0x5000 8 0x1000 512" "clear_of 0x5000 8 (0x1000 + 512) 5"
      "clear_of 0x4000 (unat (1 * 16 :: size_t)) (0x1000 + 512) 5" "clear_of 0x5000 8 0x4000 (unat (1 * 16 :: size_t))"
    by (simp_all add: clear_ofI)
  ultimately obtain stream k1 k2 where "fopen 0 0x5000 0x3000 sample_file = Ok (stream, k1)"
      "fread 0 0x5000 0x4000 1 16 stream k1 = Ok (of_nat (min (unat (1 * 16 :: size_t) - 1) 5), k2)"
      "bytes_at (ram k2) 0x4000 (min (unat (1 * 16 :: size_t) - 1) 5) =
        bytes_at (ram sample_file) (0x1000 + 512) (min (unat (1 * 16 :: size_t) - 1) 5)"
    using fopen_fread_delivers [OF _ sample_can_open _ _ _ sample_unpack(4) nd sample_unpack(6), where
        filename = "0x3000" and loc = "0x5000" and ptr = "0x4000" and siz = 1 and count = 16 and filesize = 5 and stk = 0]
    by blast
  moreover have "bytes_at sample_mem (0x1000 + 512) 5 = [0x68, 0x65, 0x6C, 0x6C, 0x6F]"
    by (simp add: bytes_at_def sample_mem_def upt_conv_Cons)
  ultimately show ?thesis using sample_file_fields(5) by auto
qed

text \<open>C4: the unpacking loop of \<open>initrd_create\<close> ends on every well-formed archive, after one iteration per
  record, and afterwards every record's name is found by \<open>get_inode\<close>.\<close>

theorem initrd_unpack_finds_all:
  assumes "archive (ram k) h (s # ss)" "length (s # ss) < fuel" "tree_ok k"
    "ht_lookup (tab k) (vfs_root (k_vfs k)) \<noteq> None"
    "\<forall>a\<in>set (header_addrs h (s # ss)). well_named (ram k) a"
    "ht_size (tab k) + sum_list (map (depth (ram k)) (header_addrs h (s # ss))) \<le> HASHTABLE_CAPACITY"
    "unat (inode_counter (k_vfs k)) + sum_list (map (depth (ram k)) (header_addrs h (s # ss))) < 2 ^ 64"
  shows "\<exists>k'. initrd_walk fuel fs h k = Ok ((), k') \<and> tree_ok k' \<and> grows k k' \<and>
    (\<forall>a\<in>set (header_addrs h (s # ss)).
      \<exists>c. on_vfs (get_inode (mem_string (ram k) a)) k' = Ok (c, k') \<and> c \<noteq> ID_INVALID)"
  using initrd_walk_spec [OF assms] unfolding found_def by blast

theorem initrd_unpack_witness:
  "\<exists>k' c. initrd_walk 2 0 0x1000 sample = Ok ((), k') \<and>
    on_vfs (get_inode (''a'' @ [NUL])) k' = Ok (c, k') \<and> c \<noteq> ID_INVALID"
proof -
  have "\<exists>k'. initrd_walk 2 0 0x1000 sample = Ok ((), k') \<and> tree_ok k' \<and> grows sample k' \<and>
    (\<forall>a\<in>set (header_addrs 0x1000 [5]).
      \<exists>c. on_vfs (get_inode (mem_string (ram sample) a)) k' = Ok (c, k') \<and> c \<noteq> ID_INVALID)"
    using sample_archive sample_tree_ok sample_tables sample_well_named CAP_gt
    by (intro initrd_unpack_finds_all) (simp_all add: sample_vfs_def)
  then show ?thesis using sample_strings(1) by auto
qed

text \<open>C5: a regular file of the archive whose path did not exist yet gets an inode with the ram disk's
  operations, under which its header is recorded; whatever resolved before still resolves to the same inode.\<close>

theorem initrd_header_registers:
  assumes "tree_ok k" "is_cstr (mem_string (ram k) h)"
    "path_elems (cstr (mem_string (ram k) h)) = es" "es \<noteq> []" "\<forall>e\<in>set es. length e < FILENAME_MAX"
    "ht_lookup (tab k) (vfs_root (k_vfs k)) \<noteq> None"
    "ht_size (tab k) + length es \<le> HASHTABLE_CAPACITY"
    "unat (inode_counter (k_vfs k)) + length es < 2 ^ 64"
    "rd_ok k" "ht_size (rd_inodes k) < HASHTABLE_CAPACITY"
    "resolve (tab k) (vfs_root (k_vfs k)) es = ID_INVALID"
    "type_of_flag (ram k (h + TAR_TYPE_OFF)) = NORMAL_FILE"
  shows "\<exists>c k' n. initrd_header fs h k = Ok (c, k') \<and> on_vfs (get_inode (mem_string (ram k) h)) k' = Ok (c, k') \<and>
    ht_lookup (rd_inodes k') c = Some h \<and> ht_lookup (tab k') c = Some n \<and> i_type n = NORMAL_FILE \<and>
    i_vtable n = Some Initrd_vtable \<and>
    (\<forall>x ps. resolve (tab k) x ps \<noteq> ID_INVALID \<longrightarrow> resolve (tab k') x ps = resolve (tab k) x ps)"
proof -
  obtain c k' n where c: "initrd_header fs h k = Ok (c, k')" "on_vfs (get_inode (mem_string (ram k) h)) k' = Ok (c, k')"
      "ht_lookup (rd_inodes k') c = Some h" "ht_lookup (tab k') c = Some n" "i_type n = NORMAL_FILE"
      "i_vtable n = Some Initrd_vtable" "grows k k'"
    using initrd_header_spec [OF assms(1-3,5-8), of fs] assms(4,9-) by blast
  then show ?thesis using grows_resolve [OF c(7)] by blast
qed

theorem initrd_header_witness:
  "\<exists>c k' n. initrd_header 0 0x1000 sample = Ok (c, k') \<and> ht_lookup (rd_inodes k') c = Some 0x1000 \<and>
    ht_lookup (tab k') c = Some n \<and> i_type n = NORMAL_FILE"
proof -
  have "\<exists>c k' n. initrd_header 0 0x1000 sample = Ok (c, k') \<and>
    on_vfs (get_inode (mem_string (ram sample) 0x1000)) k' = Ok (c, k') \<and>
    ht_lookup (rd_inodes k') c = Some 0x1000 \<and> ht_lookup (tab k') c = Some n \<and> i_type n = NORMAL_FILE \<and>
    i_vtable n = Some Initrd_vtable \<and>
    (\<forall>x ps. resolve (tab sample) x ps \<noteq> ID_INVALID \<longrightarrow> resolve (tab k') x ps = resolve (tab sample) x ps)"
  proof (rule initrd_header_registers [where es = "[''a'']"])
    show "type_of_flag (ram sample (0x1000 + TAR_TYPE_OFF)) = NORMAL_FILE"
      by (simp add: type_of_flag_def TAR_TYPE_OFF_def sample_mem_def)
    show "resolve (tab sample) (vfs_root (k_vfs sample)) [''a''] = ID_INVALID" by (rule sample_resolve)
  qed (use sample_tree_ok sample_strings(1) sample_paths(1,4) sample_tables sample_rd_ok CAP_gt in
      \<open>simp_all add: FILENAME_MAX_def sample_vfs_def\<close>)
  then show ?thesis by blast
qed

text \<open>C6: looking a path up in the file system refines the abstract resolution of its components from the
  root: \<open>get_inode\<close> returns exactly what walking the tree name by name returns, and changes nothing.\<close>

theorem get_inode_refines_resolve:
  assumes "vfs_inv v" "is_cstr path"
  shows "get_inode path v = Ok (resolve (inode_table v) (vfs_root v) (path_elems (cstr path)), v)"
  by (rule get_inode_resolve [OF assms])

theorem get_inode_witness: "get_inode (''/b'' @ [NUL]) sample_vfs = Ok (ID_INVALID, sample_vfs)"
  using get_inode_refines_resolve [OF sample_vfs_inv sample_paths(3)] sample_paths(6) sample_resolve [of "''b''"]
  by simp



text \<open>C8: mounting on a path without components computes the index of the component before the first: the
  name compared with the children is never written. With a non-empty root the result is a read of
  uninitialised memory.\<close>

theorem mount_root_path_uninit:
  assumes "vfs_inv v" "is_cstr path" "path_elems (cstr path) = []"
    "ht_lookup (inode_table v) (vfs_root v) = Some dir" "vec_list (children dir) \<noteq> []"
  shows "mount n path v = Fail Uninit"
  by (rule mount_empty_path [OF assms])

theorem mount_root_path_witness: "mount 7 (''/'' @ [NUL]) (k_vfs sample_file) = Fail Uninit"
proof -
  have inv: "vfs_inv (k_vfs sample_file)" using sample_unpack(2) by (simp add: tree_ok_def)
  have p: "is_cstr (''/'' @ [NUL])" "path_elems (cstr (''/'' @ [NUL])) = []" by code_simp+
  let ?r = "vfs_root (k_vfs sample_file)"
  have "child_of (tab sample_file) ?r ''a'' \<noteq> ID_INVALID"
    using sample_unpack(4,5) by (auto simp: Let_def split: if_splits)
  then have "entries (tab sample_file) ?r \<noteq> []" by (auto simp: child_of_def)
  then obtain dir where "ht_lookup (tab sample_file) ?r = Some dir" "vec_list (children dir) \<noteq> []"
    by (auto simp: entries_def split: option.splits)
  then show ?thesis using mount_root_path_uninit [OF inv p] by blast
qed

text \<open>C9: every state of the file system that any sequence of its operations can reach satisfies the
  invariant: the lock is free, the three tables are well formed, all ids are below their counters and all
  names are terminated.\<close>

theorem vfs_reachable_inv:
  assumes "vfs_reach v"
  shows "vfs_inv v"
  using assms by (rule vfs_reach_inv)

theorem vfs_reachable_witness: "vfs_inv (snd (the_ok (create_inode DIRECTORY vfs_start)))"
proof -
  have c: "Suc (unat (inode_counter vfs_start)) < 2 ^ 64" by (simp add: vfs_start_def)
  obtain v' where "create_inode DIRECTORY vfs_start = Ok (inode_counter vfs_start, v')"
    using create_inode_inv [OF vfs_inv_start c] by blast
  then show ?thesis
    using vfs_reachable_inv [OF vfs_reach_step [OF vfs_reach_start st_create_inode [OF c]]] by simp
qed

text \<open>C3: type soundness of the kernel state. From the state \<open>kentry\<close> leaves, sequences of file, process, thread,
  scheduler, pipe, ram disk, heap and system calls, in any order and with threads writing to memory in between, lead
  to well-formed tables, to FIFOs and function pointers of the right type, and there no file call goes wrong: opening,
  writing and closing return, and reading returns or waits because the pipe behind the very descriptor is empty. The steps
  (\<open>k_step\<close>) are guarded: strings handed over end, ids are left in the 64-bit counters, buffers and stores lie apart from
  the map of the heap, freed blocks are allocated, and somebody can run when the scheduler picks a task. Nothing is asked
  of the uninitialised record a process is built in.\<close>

theorem kernel_type_sound:
  assumes "k_start k0" "k_step\<^sup>*\<^sup>* k0 k"
  shows "k_typed k \<and> is_ok (fd_open ino k) \<and> is_ok (fd_write lfd buff n k) \<and> is_ok (fd_close lfd k) \<and>
    (is_ok (fd_read lfd rbuff m k) \<or>
      fd_read lfd rbuff m k = Fail Diverges \<and>
      (\<exists>p. fd_pipe k (lfd_of k lfd) = Some p \<and> fifo_list (pipe_store k p) = []))"
proof -
  have "k_typed k" using assms by (rule ksys.always)
  then show ?thesis
    using open_returns write_returns close_returns read_returns [of k lfd rbuff m]
    by (auto simp: waits_for_pipe_def split: option.splits)
qed

theorem kernel_type_sound_witness:
  "let k0 = kernel_start sample_kmem; k = (initrd_init_vtable (pipe_init k0))\<lparr>
     k_vfs := snd (the_ok (create_fs (lit ''root'') vfs_start))\<rparr>
   in k_start k0 \<and> k_step\<^sup>*\<^sup>* k0 k \<and> k_typed k \<and> is_ok (fd_open 0 k)"
proof -
  let ?k0 = "kernel_start sample_kmem" and ?n = "lit ''root''"
  let ?k1 = "initrd_init_vtable (pipe_init ?k0)"
  have st: "inode_counter vfs_start = 0" "fs_counter vfs_start = 0" by (simp_all add: vfs_start_def)
  have name: "is_cstr ?n" by simp
  have lim: "Suc (unat (inode_counter vfs_start)) < 2 ^ 64" "Suc (unat (fs_counter vfs_start)) < 2 ^ 64" by (simp_all add: st)
  obtain v where v: "create_fs ?n vfs_start = Ok (fs_counter vfs_start, v)"
    using create_fs_spec [OF vfs_inv_start name lim] by blast
  have start: "k_start ?k0"
    using sample_heap_inv by (simp add: k_start_def kernel_start_def sample_kmem_def)
  have "k_vfs ?k1 = vfs_start" by (simp add: pipe_init_def initrd_init_vtable_def kernel_start_def)
  then have "k_step ?k1 (?k1\<lparr>k_vfs := v\<rparr>)" using st_create_fs [OF name lim v] by (intro ks_vfs) simp
  moreover have "k_step\<^sup>*\<^sup>* ?k0 ?k1"
    using ks_pipe_init ks_initrd_table by (rule converse_rtranclp_into_rtranclp [OF _ r_into_rtranclp])
  ultimately have steps: "k_step\<^sup>*\<^sup>* ?k0 (?k1\<lparr>k_vfs := v\<rparr>)" by (rule rtranclp.rtrancl_into_rtrancl [rotated])
  show ?thesis using start steps kernel_type_sound [OF start steps] unfolding Let_def v by simp
qed



text \<open>C11: bytes written to an empty pipe through a descriptor, up to its capacity, are read back one by one in
  the order they were written, and the pipe is empty again afterwards.\<close>

theorem pipe_write_read_roundtrip:
  assumes "vfs_inv (k_vfs k)" "ht_lookup (fd_table (k_vfs k)) fd = Some d"
    "ht_lookup (pipes k) (d_inode d) = Some p" "fifo_inv (pipe_store k p)" "fifo_list (pipe_store k p) = []"
    "unat n \<le> fifo_cap (pipe_store k p)"
  shows "\<exists>k1 k2. pipe_write_call fd buff n k = Ok (n, k1) \<and>
    pipe_drain (unat n) fd rbuff k1 = Ok (bytes_at (ram k) buff (unat n), k2) \<and> fifo_list (pipe_store k2 p) = []"
  by (rule pipe_roundtrip [OF assms])

theorem pipe_roundtrip_witness:
  "\<exists>k1 k2. pipe_write_call 0 0x1200 5 sample_pipe = Ok (5, k1) \<and>
    pipe_drain 5 0 0x4000 k1 = Ok ([0x68, 0x65, 0x6C, 0x6C, 0x6F], k2)"
proof -
  have "unat (5 :: size_t) \<le> fifo_cap (pipe_store sample_pipe 0)" using sample_pipe_ok(6) by simp
  moreover have "bytes_at sample_mem 0x1200 5 = [0x68, 0x65, 0x6C, 0x6C, 0x6F]"
    by (simp add: bytes_at_def sample_mem_def upt_conv_Cons)
  ultimately show ?thesis
    using pipe_write_read_roundtrip [OF sample_pipe_ok(1-5), of 5 "0x1200" "0x4000"] sample_pipe_ok(7) by auto
qed

section \<open>The heap\<close>

text \<open>C12: \<open>pool_alloc\<close> is first fit: it takes the lowest run of unused blocks that is long enough, marks its
  first block as head and the others as tail and no other block; when there is no such run it returns the
  null pointer or panics, without changing the map.\<close>

theorem pool_alloc_is_first_fit:
  assumes "heap_inv (pool, m)" "unat n < 2 ^ 63"
  shows "(\<exists>s m'. fits pool m (unat (blocks_for pool n)) s \<and>
      (\<forall>s' < s. \<not> fits pool m (unat (blocks_for pool n)) s') \<and>
      pool_alloc n (pool, m) = Ok (block_addr pool s, (pool, m')) \<and>
      (\<forall>l<2 ^ 64. pool_get pool m' l =
        (if l = s then HEAD else if s < l \<and> l < s + unat (blocks_for pool n) then TAIL else pool_get pool m l))) \<or>
    ((\<forall>s. \<not> fits pool m (unat (blocks_for pool n)) s) \<and> (pool_alloc n (pool, m) = Ok (0, (pool, m)) \<or>
      pool_alloc n (pool, m) = Fail (Panic ''Cannot find space to allocate kernel memory'')))"
  by (rule pool_alloc_first_fit [OF assms])

theorem pool_first_fit_witness:
  "\<exists>m'. pool_alloc 100 (sample_pool, sample_mem) = Ok (0x100000, (sample_pool, m')) \<and>
    pool_get sample_pool m' 0 = HEAD \<and> pool_get sample_pool m' 1 = TAIL \<and> pool_get sample_pool m' 2 = UNUSED"
proof -
  have f0: "fits sample_pool sample_mem 2 0" using sample_unused sample_blocks(4) by (simp add: fits_def)
  obtain s m' where s: "\<forall>s' < s. \<not> fits sample_pool sample_mem 2 s'"
      "pool_alloc 100 (sample_pool, sample_mem) = Ok (block_addr sample_pool s, (sample_pool, m'))"
      "\<forall>l<2 ^ 64. pool_get sample_pool m' l =
        (if l = s then HEAD else if s < l \<and> l < s + 2 then TAIL else pool_get sample_pool sample_mem l)"
    using pool_alloc_is_first_fit [OF sample_heap_inv, of 100] f0 sample_blocks(1) by auto
  have "s = 0" using s(1) f0 by blast
  then show ?thesis using s(2,3) sample_unused [of 2] by (auto simp: block_addr_def sample_pool_def)
qed



text \<open>C14: \<open>kmem_dealloc\<close> undoes \<open>kmem_alloc\<close>: freeing the block just allocated returns, keeps the invariant, and
  gives back exactly the ownership of every address that held before.\<close>

theorem kmem_alloc_dealloc:
  assumes "kmem_inv s" "unat n < 2 ^ 63" "kmem_alloc n s = Ok (p, s')" "p \<noteq> 0"
  shows "\<exists>s''. kmem_dealloc p s' = Ok ((), s'') \<and> kmem_inv s'' \<and> live (km_heap s'') = live (km_heap s)"
  using kmem.alloc_free [OF assms] by blast

theorem kmem_alloc_dealloc_witness:
  "\<exists>p s' s''. kmem_alloc 100 sample_kmem = Ok (p, s') \<and> kmem_dealloc p s' = Ok ((), s'') \<and>
    live (km_heap s'') = live (sample_pool, sample_mem)"
proof -
  have inv: "kmem_inv sample_kmem"
    using sample_heap_inv by (simp add: kmem_inv_def sample_hw_def)
  obtain m1 where a: "pool_alloc 100 (sample_pool, sample_mem) = Ok (0x100000, (sample_pool, m1))"
    using sample_alloc by blast
  then obtain s' where s': "kmem_alloc 100 sample_kmem = Ok (0x100000, s')"
    by (simp add: kmem_alloc_def hwlock_lock_def sample_kmem_def)
  show ?thesis using kmem_alloc_dealloc [OF inv _ s'] s' by (auto simp: sample_kmem_def)
qed

text \<open>C15: constructing the kernel heap clears one byte of the block map per block although the map holds
  four blocks per byte: it writes 195779 bytes past the end of the region it was given. The region starts aligned to 16 bytes and twice its size
  fits behind it in the address space, as it does for the heap of the kernel on amd64.\<close>

theorem kmem_construct_overruns:
  assumes "free_pool p" "16 dvd unat start" "start \<noteq> 0" "unat start + 2 * 16777216 < 2 ^ 64"
  shows "\<exists>p' m'. pool_construct start KMEM_SIZE KMEM_BLOCK_SIZE (p, m) = Ok (True, (p', m')) \<and>
    (\<forall>i<195779. m' (start + KMEM_SIZE + of_nat i) = UNUSED_BYTE)"
  by (rule kmem_overrun [OF assms])

theorem kmem_construct_overruns_witness:
  "\<exists>p' m'. pool_construct 0xFFFFFFFF80202000 KMEM_SIZE KMEM_BLOCK_SIZE (sample_pool, sample_mem) = Ok (True, (p', m')) \<and>
    m' (0xFFFFFFFF80202000 + KMEM_SIZE + of_nat 195778) = UNUSED_BYTE"
proof -
  have free: "free_pool sample_pool" by (simp add: sample_pool_def spin_held_def spinlock_new_def)
  have al: "(16 :: nat) dvd unat (0xFFFFFFFF80202000 :: addr)" "(0xFFFFFFFF80202000 :: addr) \<noteq> 0" "unat (0xFFFFFFFF80202000 :: addr) + 2 * 16777216 < 2 ^ 64"
    by simp_all
  obtain p' m' where p': "pool_construct 0xFFFFFFFF80202000 KMEM_SIZE KMEM_BLOCK_SIZE (sample_pool, sample_mem) = Ok (True, (p', m'))"
      "\<forall>i<195779. m' (0xFFFFFFFF80202000 + KMEM_SIZE + of_nat i) = UNUSED_BYTE"
    using kmem_construct_overruns [OF free al, of sample_mem] by blast
  have "(195778 :: nat) < 195779" by simp
  then show ?thesis using p' by blast
qed

section \<open>Processes and scheduling\<close>

text \<open>C16: no thread starves: while the tasks are alive and of the default priority, the task at position \<open>i\<close> of
  the schedule is the one that runs after \<open>i + 1\<close> increments.\<close>

theorem scheduler_round_robin:
  assumes "k_inv k" "steady k" "i < length (waiting k)" "length (waiting k) < q_cap (schedule k)"
  shows "\<exists>k'. increments (Suc i) k = Ok k' \<and> ctask k' = waiting k ! i \<and>
    cthread k' = t_thread (waiting k ! i) \<and> k_inv k'"
  by (rule round_robin [OF assms])

theorem scheduler_round_robin_witness:
  "\<exists>k'. increments 1 sample = Ok k' \<and> ctask k' = sample_task 1 \<and> cthread k' = 1"
proof -
  have "\<exists>k'. increments (Suc 0) sample = Ok k' \<and> ctask k' = waiting sample ! 0 \<and>
      cthread k' = t_thread (waiting sample ! 0) \<and> k_inv k'"
    using sample_schedule by (intro scheduler_round_robin [OF sample_k_inv sample_steady]) simp_all
  then show ?thesis using sample_schedule(2) by (auto simp: sample_task_def)
qed

text \<open>C17: a preemption saves the stack pointer of the running thread, makes the first waiting task current, and
  resumes it at its saved stack, or starts it at its entry point when it is new.\<close>

theorem scheduler_preempt_switches:
  assumes "k_inv k" "steady k" "waiting k = t # ts" "length (waiting k) < q_cap (schedule k)"
    "t_thread t \<noteq> t_thread (ctask k)" "ht_lookup (thread_table k) (t_thread t) = Some th"
    "ht_lookup (thread_table k) (t_thread (ctask k)) = Some old"
  shows "\<exists>k'. scheduler_preempt stk k =
      Ok (if th_state th = NEW then Bootstrap (th_entry th) (th_stack th) else Resume (th_stack th), k') \<and>
    k_inv k' \<and> ctask k' = t \<and> cthread k' = t_thread t \<and>
    ht_lookup (thread_table k') (t_thread (ctask k)) = Some (old\<lparr>th_stack := stk\<rparr>)"
  by (rule scheduler_preempt_spec [OF assms])

theorem scheduler_preempt_witness:
  "\<exists>k'. scheduler_preempt 0xABC sample = Ok (Bootstrap 0x400000 0x102001, k') \<and> cthread k' = 1 \<and>
    ht_lookup (thread_table k') 0 = Some ((sample_thread 0 ACTIVE)\<lparr>th_stack := 0xABC\<rparr>)"
proof -
  have th: "ht_lookup (thread_table sample) (t_thread (sample_task 1)) = Some (sample_thread 1 NEW)"
      "ht_lookup (thread_table sample) (t_thread (ctask sample)) = Some (sample_thread 0 ACTIVE)"
      "t_thread (sample_task 1) \<noteq> t_thread (ctask sample)"
    using sample_tables(2) by (simp_all add: sample_task_def)
  have q: "length (waiting sample) < q_cap (schedule sample)" using sample_schedule by simp
  show ?thesis
    using scheduler_preempt_switches [OF sample_k_inv sample_steady sample_schedule(2) q th(3,1,2), of "0xABC"]
    by (auto simp: sample_thread_def sample_task_def)
qed

text \<open>C18: spawning a thread succeeds whenever a stack can be allocated; the new thread is recorded under a
  fresh id with its own stack, in its process under the next local id, and is scheduled last; the invariant
  of the kernel's tables is kept.\<close>

theorem spawn_thread_schedules:
  assumes "k_inv k" "ht_lookup (proc_table k) pid = Some p"
    "Suc (unat (thread_counter k)) < 2 ^ 64" "Suc (unat (p_thread_counter p)) < 2 ^ 64"
    "pool_alloc THREAD_STACK_SIZE (km_heap (k_mem k)) = Ok (stk, h)" "stk \<noteq> 0"
    "ht_size (thread_table k) < HASHTABLE_CAPACITY" "ht_size (threads p) < HASHTABLE_CAPACITY"
  shows "\<exists>k' q. spawn_thread pid entry k = Ok (p_thread_counter p, k') \<and> k_inv k' \<and>
    schedule k' = q_push (schedule k) \<lparr>t_thread = thread_counter k, priority = 0, cpriority = 0\<rparr> \<and>
    ht_lookup (thread_table k') = (ht_lookup (thread_table k))(thread_counter k \<mapsto>
      (thread_new (thread_counter k) pid entry stk)\<lparr>th_lid := p_thread_counter p\<rparr>) \<and>
    ht_lookup (proc_table k') = (ht_lookup (proc_table k))(pid \<mapsto> q) \<and>
    ht_lookup (threads q) = (ht_lookup (threads p))(p_thread_counter p \<mapsto> thread_counter k)"
proof -
  obtain lid k' where k': "spawn_thread pid entry k = Ok (lid, k')"
    using spawn_thread_returns [OF assms(2,5,6)] by blast
  show ?thesis using spawn_thread_spec [OF assms(1,2) k' assms(3,4)] assms(5,7,8) k' by auto
qed

theorem spawn_thread_witness:
  "\<exists>k'. spawn_thread 1 0x400000 sample = Ok (2, k') \<and>
    ht_lookup (thread_table k') 2 = Some ((thread_new 2 1 0x400000 0x100000)\<lparr>th_lid := 2\<rparr>)"
proof -
  obtain m1 where m1: "pool_alloc THREAD_STACK_SIZE (km_heap (k_mem sample)) = Ok (0x100000, (sample_pool, m1))"
    using sample_alloc_stack by auto
  have p: "ht_lookup (proc_table sample) 1 = Some sample_proc" using sample_tables(1) by simp
  have size: "ht_size (thread_table sample) < HASHTABLE_CAPACITY" "ht_size (threads sample_proc) < HASHTABLE_CAPACITY"
    using ht_pair(3) [of 0 1 "sample_thread 0 ACTIVE" "sample_thread 1 NEW"] ht_pair(3) [of 0 1 "0 :: id_t" "1 :: id_t"] CAP_gt
    by (simp_all add: sample_def sample_proc_def)
  have "p_thread_counter sample_proc = 2" by (simp add: sample_proc_def)
  then show ?thesis
    using spawn_thread_schedules [OF sample_k_inv p _ _ m1 _ size, of "0x400000"] by auto
qed

text \<open>C19: opening a descriptor in a process and looking it up there returns the descriptor that was made; the
  table of the process gains exactly this entry.\<close>

theorem proc_fd_roundtrip:
  assumes "k_inv k" "ht_lookup (proc_table k) pid = Some p"
    "Suc (unat (lfd_counter p)) < 2 ^ 64" "Suc (unat (fd_counter (k_vfs k))) < 2 ^ 64"
    "ht_size (fds p) < HASHTABLE_CAPACITY"
  shows "\<exists>k' k''. proc_create_fd pid ino k = Ok (lfd_counter p, k') \<and> k_inv k' \<and>
    proc_get_fd pid (lfd_counter p) k' = Ok (fd_counter (k_vfs k), k'') \<and>
    (\<forall>x. x \<noteq> pid \<longrightarrow> ht_lookup (proc_table k') x = ht_lookup (proc_table k) x)"
proof -
  obtain k' q where k': "proc_create_fd pid ino k = Ok (lfd_counter p, k')" "k_inv k'"
      "ht_lookup (proc_table k') = (ht_lookup (proc_table k))(pid \<mapsto> q)"
      "ht_lookup (fds q) = (ht_lookup (fds p))(lfd_counter p \<mapsto> fd_counter (k_vfs k))"
    using proc_create_fd_spec [OF assms(1-4), of ino] assms(5) by blast
  moreover have "\<exists>k''. proc_get_fd pid (lfd_counter p) k' = Ok (fd_counter (k_vfs k), k'')"
    using proc_get_fd_run [of pid "lfd_counter p" k'] k'(3,4) not_invalid64 [OF assms(3)] by auto
  ultimately show ?thesis by auto
qed

theorem proc_fd_roundtrip_witness:
  "\<exists>k' k''. proc_create_fd 1 5 sample = Ok (0, k') \<and> proc_get_fd 1 0 k' = Ok (0, k'')"
proof -
  have p: "ht_lookup (proc_table sample) 1 = Some sample_proc" using sample_tables(1) by simp
  have "lfd_counter sample_proc = 0" "fd_counter (k_vfs sample) = 0" "ht_size (fds sample_proc) < HASHTABLE_CAPACITY"
    using CAP_gt by (simp_all add: sample_proc_def sample_vfs_def vfs_start_def)
  then show ?thesis using proc_fd_roundtrip [OF sample_k_inv p, of 5] by auto
qed

section \<open>Locks\<close>

text \<open>C20: mutual exclusion of the spinlock for any number of processors and any interleaving of their atomic
  exchanges: in every reachable state at most one is inside its critical section.\<close>

theorem spinlock_mutual_exclusion:
  assumes "spin_reach s" "pcs s i = Crit" "pcs s j = Crit"
  shows "i = j"
  using spin_reach_inv [OF assms(1)] assms(2,3) by (simp add: spin_inv_def)

theorem spinlock_mutual_exclusion_witness:
  "\<exists>s. spin_reach s \<and> pcs s 3 = Crit \<and> pcs s 4 \<noteq> Crit"
proof -
  let ?s1 = "spin_init\<lparr>pcs := (pcs spin_init)(3 := Spin 1)\<rparr>"
  let ?s2 = "?s1\<lparr>sval := 1, pcs := (pcs ?s1)(3 := if sval ?s1 = 0 then Crit else Spin (sval ?s1))\<rparr>"
  have "spin_step spin_init ?s1" by (rule spin_enter) (simp add: spin_init_def)
  moreover have "spin_step ?s1 ?s2" by (rule spin_xchg) (simp add: spin_init_def)
  ultimately have r: "spin_reach ?s2" by (meson spin_start spin_next)
  have c: "pcs ?s2 3 = Crit" by (simp add: spin_init_def)
  have "pcs ?s2 4 \<noteq> Crit" using spinlock_mutual_exclusion [OF r c, of 4] by auto
  then show ?thesis using r c by blast
qed

text \<open>C21: code that takes a spinlock it already holds never returns, whatever the state: asking a spinlock whether it is
  locked locks it twice, and opening a serial port by name asks for the list of ports while it holds the lock that guards
  the list.\<close>

theorem self_locking_hangs:
  "spinlock_is_locked l = Fail Deadlock \<and> serial_open_port port baudrate databits stopbits parity s = Fail Deadlock"
  using spinlock_is_locked_never_returns serial_open_port_deadlock by blast

text \<open>C22: a critical section of the hardware lock runs without interrupts and gives the interrupt flag back,
  but the lock does not nest: a section inside another ends with the lock free and the interrupts of the
  outermost caller restored.\<close>

theorem hwlock_section:
  assumes "\<not> hw_locked s"
  shows "hw_locked (hwlock_lock s) \<and> \<not> interrupt_enabled (hwlock_lock s) \<and>
    \<not> hw_locked (hwlock_unlock (hwlock_lock s)) \<and>
    interrupt_enabled (hwlock_unlock (hwlock_lock s)) = interrupt_enabled s \<and>
    \<not> hw_locked (hwlock_unlock (hwlock_lock (hwlock_lock s))) \<and>
    interrupt_enabled (hwlock_unlock (hwlock_lock (hwlock_lock s))) = interrupt_enabled s"
  using hwlock_lock_masks [OF assms] hwlock_balanced [OF assms] hwlock_nested_released [OF assms] by simp

theorem hwlock_section_witness:
  "\<not> interrupt_enabled (hwlock_lock sample_hw) \<and> interrupt_enabled (hwlock_unlock (hwlock_lock sample_hw))"
  using hwlock_section [of sample_hw] by (simp add: sample_hw_def interrupt_enabled_def)

section \<open>Containers\<close>

text \<open>C23: the open-addressing table refines a finite map. An entry added under a fresh key is found and all other
  keys are found as before, while a full table refuses the entry and stays as it is; removing a key removes it from
  the map and nothing else, and reports whether it was there. Both keep the invariant.\<close>

theorem hashtable_refines_map:
  assumes "ht_inv t" "ht_lookup t key = None"
  shows "ht_inv (snd (ht_add t key v)) \<and> fst (ht_add t key v) = (ht_size t < HASHTABLE_CAPACITY) \<and>
    ht_lookup (snd (ht_add t key v)) =
      (if ht_size t < HASHTABLE_CAPACITY then (ht_lookup t)(key \<mapsto> v) else ht_lookup t) \<and>
    ht_inv (snd (ht_remove t other)) \<and> fst (ht_remove t other) = (ht_lookup t other \<noteq> None) \<and>
    ht_lookup (snd (ht_remove t other)) = (ht_lookup t)(other := None)"
  using ht.invar_add [OF assms] ht.add_result [OF assms(1)] ht.lookup_add [OF assms] ht.add_full [OF assms(1)]
    ht.invar_remove [OF assms(1)] ht.remove_result [OF assms(1)] ht.lookup_remove [OF assms(1)] by auto

theorem hashtable_witness:
  "ht_lookup (snd (ht_add (snd (ht_add ht_empty 3 ''x'')) 259 ''y'')) = [3 \<mapsto> ''x'', 259 \<mapsto> ''y''] \<and>
    ht_lookup (snd (ht_remove (snd (ht_add ht_empty 3 ''x'')) 3)) = Map.empty"
  using hashtable_refines_map [of "snd (ht_add ht_empty 3 ''x'')" 259 "''y''" 3] CAP_gt by (simp add: ht_single)

text \<open>C24: the ring buffer keeps the most recent items: after pushing any list of items its contents are the
  last \<open>capacity\<close> items of the old contents followed by the new ones, oldest first.\<close>

theorem queue_keeps_last:
  assumes "q_inv q"
  shows "q_inv (foldl q_push q xs) \<and>
    q_list (foldl q_push q xs) = drop (length (q_list q @ xs) - q_cap q) (q_list q @ xs)"
  using ring.push_all_contents [OF assms, of xs] by (simp add: ring.push_all_def ring.last_n_def)

theorem queue_keeps_last_witness:
  "q_list (foldl q_push (q_empty [0, 0, 0 :: nat]) [1, 2, 3, 4, 5]) = [3, 4, 5]"
  using queue_keeps_last [of "q_empty [0, 0, 0 :: nat]" "[1, 2, 3, 4, 5]"] q_inv_empty [of "[0, 0, 0 :: nat]"]
  by (simp add: SIZE_MOD_def q_cap_def q_empty_def)

section \<open>Text\<close>

text \<open>C25: printing an integer and reading the text back gives the integer, for every base from 2 to 16, every
  width, sign and padding, except the most negative value of a signed type.\<close>

theorem compose_parse_roundtrip:
  assumes "2 \<le> base" "base \<le> 16" "0 < bits" "in_range sg bits v" "sg \<longrightarrow> v \<noteq> - (2 ^ (bits - 1))"
    "bits + 4 \<le> n" "n \<le> length buff"
  shows "\<exists>b. compose_integer sg bits v buff n base pad = Ok (True, b) \<and> is_cstr b \<and> int_value base (cstr b) = v"
  using compose_integer_text [OF assms, of pad] int_value_text [OF assms(1,2), of bits v pad] by auto

theorem compose_parse_witness:
  "\<exists>b. compose_integer True 16 (- 1234) (replicate 20 NUL) 20 16 (- 1) = Ok (True, b) \<and> int_value 16 (cstr b) = - 1234"
  using compose_parse_roundtrip [of 16 16 True "- 1234" 20 "replicate 20 NUL" "- 1"] by (auto simp: in_range_def)



text \<open>C27: \<open>fmt\<close> never writes past its buffer: the result has the size of the buffer, is terminated, and holds
  the text of the arguments cut to one character less than that size.\<close>

theorem fmt_bounded:
  assumes "0 < siz" "args_text as = Ok s" "NUL \<notin> set s"
  shows "\<exists>b. fmt siz as = Ok b \<and> length b = siz \<and> is_cstr b \<and> cstr b = take (siz - 1) s"
  by (rule fmt_text [OF assms])

theorem fmt_bounded_witness:
  "\<exists>b. fmt 8 [Str (lit ''pid ''), Num True 32 4711 10 0] = Ok b \<and> length b = 8 \<and> cstr b = ''pid 471''"
proof -
  have "args_text [Str (lit ''pid ''), Num True 32 4711 10 0] = Ok ''pid 4711''" by code_simp
  moreover have "NUL \<notin> set ''pid 4711''" by code_simp
  ultimately show ?thesis
    using fmt_bounded [of 8 "[Str (lit ''pid ''), Num True 32 4711 10 0]" "''pid 4711''"] by auto
qed

text \<open>C28: the components of a path: \<open>path_element_count\<close> returns how many non-empty components there are and
  \<open>path_element_get\<close> copies the \<open>i\<close>-th one, cut to the size of a file name, or reports that there is none.\<close>

theorem path_elements_correct:
  assumes "is_cstr path" "length buff = FILENAME_MAX"
  shows "path_element_count path = Ok (length (path_elems (cstr path))) \<and>
    (if index < length (path_elems (cstr path))
     then \<exists>b. path_element_get path buff index = Ok (True, b) \<and> length b = FILENAME_MAX \<and> is_cstr b \<and>
       cstr b = take (FILENAME_MAX - 1) (path_elems (cstr path) ! index)
     else path_element_get path buff index = Ok (False, buff))"
  using path_element_count_spec [OF assms(1)] path_element_get_spec [OF assms, of index] by simp

theorem path_elements_witness:
  "\<exists>b. path_element_count (lit ''/dev//tty/'') = Ok 2 \<and>
    path_element_get (lit ''/dev//tty/'') (replicate FILENAME_MAX NUL) 1 = Ok (True, b) \<and> cstr b = ''tty''"
proof -
  have "path_elems (cstr (lit ''/dev//tty/'')) = [''dev'', ''tty'']" by code_simp
  moreover have "take (FILENAME_MAX - 1) ''tty'' = ''tty''" by (simp add: FILENAME_MAX_def)
  ultimately show ?thesis
    using path_elements_correct [of "lit ''/dev//tty/''" "replicate FILENAME_MAX NUL" 1] by auto
qed

section \<open>System calls\<close>

text \<open>C29: opening a path that names nothing stores 0 through the result pointer, so \<open>fopen\<close> returns a stream (of
  local descriptor 0) instead of the null pointer.\<close>

theorem fopen_missing_file:
  assumes "interrupt_enabled (hw k)" "vfs_inv (k_vfs k)" "is_cstr (mem_string (ram k) filename)"
    "resolve (tab k) (vfs_root (k_vfs k)) (path_elems (cstr (mem_string (ram k) filename))) = ID_INVALID"
  shows "\<exists>k'. fopen stk loc filename k = Ok (1, k')"
  by (rule fopen_missing [OF assms])

theorem fopen_missing_witness: "\<exists>k'. fopen 0 0x5000 0x3100 sample = Ok (1, k')"
  using sample_hw_ok sample_vfs_inv sample_strings(3) sample_paths(3,6) sample_resolve [of "''b''"]
  by (intro fopen_missing_file) (simp_all add: hw_ok_def)

section \<open>Devices\<close>

text \<open>C30: enabling or disabling one of the sixteen interrupt lines sets that line's bit in the mask registers of
  the interrupt controllers and no other, given that a data port reads back the byte last written to it.\<close>

theorem interrupt_mask_exact:
  assumes "latching dev" "unat irq < 16" "n < 16"
  shows "masked (interrupt_mask dev irq enable tr) n \<longleftrightarrow> (if n = unat irq then \<not> enable else masked tr n)"
  using pic_mask_bit [OF assms] by (simp add: interrupt_mask_def)

theorem interrupt_mask_witness:
  "\<not> masked (interrupt_mask latch_dev 12 True (pic_init [])) 12 \<and> masked (interrupt_mask latch_dev 12 True (pic_init [])) 3"
  using interrupt_mask_exact [OF latching_latch_dev, of 12 12 True "pic_init []"]
    interrupt_mask_exact [OF latching_latch_dev, of 12 3 True "pic_init []"] pic_init_masks [of 3 "[]"] by simp

text \<open>C31: setting the timer's rate to any frequency from 19 Hz up sends the command byte and the two bytes of the
  divisor \<open>1193180 / rate\<close>, low byte first; at 18 Hz the divisor is cut to 16 bits and the timer gets 751, a rate
  of about 1589 Hz.\<close>

theorem pit_rate_divisor:
  assumes "19 \<le> unat rate" "unat rate \<le> 1193180"
  shows "(\<exists>lo hi. pit_set_rate rate p tr = Ok (p\<lparr>pit_rate := rate\<rparr>,
      tr @ [Out8 PORT_PIT_CMD 0x36, Out8 PORT_PIT_DATA_CH0 lo, Out8 PORT_PIT_DATA_CH0 hi]) \<and>
      le16 lo hi = 1193180 div unat rate) \<and>
    (\<exists>lo hi. pit_set_rate 18 p tr = Ok (p\<lparr>pit_rate := 18\<rparr>,
      tr @ [Out8 PORT_PIT_CMD 0x36, Out8 PORT_PIT_DATA_CH0 lo, Out8 PORT_PIT_DATA_CH0 hi]) \<and> le16 lo hi = 751)"
  using pit_set_rate_divisor [OF assms] pit_set_rate_18 by simp

theorem pit_rate_witness:
  "\<exists>lo hi. pit_set_rate 1000 pit_start [] = Ok (pit_start\<lparr>pit_rate := 1000\<rparr>,
      [Out8 PORT_PIT_CMD 0x36, Out8 PORT_PIT_DATA_CH0 lo, Out8 PORT_PIT_DATA_CH0 hi]) \<and> le16 lo hi = 1193"
  using pit_rate_divisor [of 1000 pit_start "[]"] by simp

text \<open>C32: reading the clock returns, after two equal passes over the registers, and in 24-hour BCD mode every field
  is the number its digits stand for; the two-digit year becomes one from 2017 to 2116. The clock is any device whose
  data port shows the register selected last and that has no update in progress.\<close>

theorem clock_read_decodes:
  assumes "rtc dev regs" "regs 0x0A AND 0x80 = 0" "regs 0x0B AND 0x04 = 0" "regs 0x0B AND 0x02 \<noteq> 0"
    "regs 0x09 = to_bcd y" "regs 0x08 = to_bcd mo" "regs 0x07 = to_bcd d" "regs 0x04 = to_bcd h"
    "regs 0x02 = to_bcd mi" "regs 0x00 = to_bcd s"
    "y < 100" "mo < 100" "d < 100" "h < 24" "mi < 100" "s < 100"
  shows "\<exists>tr'. clock_read dev tr = Some (\<lparr>year = of_nat (full_year y), month = of_nat mo, day = of_nat d,
    hour = of_nat h, minute = of_nat mi, sec = of_nat s\<rparr>, tr')"
  using cmos_read_rtc [OF assms(1,2), of tr] cmos_convert_24h [OF assms(3,4,11-16)] assms(5-10)
  by (simp add: clock_read_def raw_time_def)

theorem clock_read_witness:
  "\<exists>tr'. clock_read (\<lambda>tr port. ucast ((\<lambda>r :: u8. if r = 9 then 0x18 else if r = 8 then 0x12 else if r = 7 then 0x31
      else if r = 4 then 0x23 else if r = 2 then 0x59 else if r = 0 then 0x58 else if r = 0x0B then 2 else 0 :: u8)
      (last_out CMOS_CMD tr 0))) [] =
    Some (\<lparr>year = 2018, month = 12, day = 31, hour = 23, minute = 59, sec = 58\<rparr>, tr')"
proof -
  let ?regs = "\<lambda>r :: u8. if r = 9 then 0x18 else if r = 8 then 0x12 else if r = 7 then 0x31
      else if r = 4 then 0x23 else if r = 2 then 0x59 else if r = 0 then 0x58 else if r = 0x0B then 2 else 0 :: u8"
  let ?dev = "\<lambda>tr port :: u16. ucast (?regs (last_out CMOS_CMD tr 0)) :: u32"
  have "ucast (ucast (x :: u8) :: u32) = x" for x by (rule bit_word_eqI) (simp add: bit_simps)
  then have "rtc ?dev ?regs" by (simp add: rtc_def)
  from clock_read_decodes [OF this, of 18 12 31 23 59 58 "[]"] show ?thesis
    by (simp add: to_bcd_def full_year_def)
qed

text \<open>C33: opening the serial port of the Raspberry Pi with valid parameters returns true after exactly these ten register
  writes: the device is switched off, its pins released, the divisor and the line control set, and it is switched on last.
  The two divisor registers fit their widths from 3 baud on. They hold the divisor first cut to hundredths and then rounded
  to 64ths, which is the value of the source's comment (the exact divisor in 64ths plus one half, cut) or one 64th less, as
  it is at 38400 baud. The line control register encodes data bits, stop bits and parity.\<close>

theorem rpi2_serial_programs:
  assumes "5 \<le> unat databits" "unat databits \<le> 8" "1 \<le> unat stopbits" "unat stopbits \<le> 2" "parity_index parity \<le> 2"
    "3 \<le> unat baudrate" "unat baudrate < 2 ^ 28"
  shows "\<exists>ibrd fbrd lcrh. rpi2_serial_open_port 0 baudrate databits stopbits parity tr = Ok (True, tr @
      [MWrite UART0_CR 0, MWrite GPPUD 0, MWrite GPPUDCLK0 0xC000, MWrite GPPUDCLK0 0, MWrite UART0_ICR 0x7FF,
       MWrite UART0_IBRD ibrd, MWrite UART0_FBRD fbrd, MWrite UART0_LCRH lcrh, MWrite UART0_IMSC 0x7F2, MWrite UART0_CR 0x301]) \<and>
    64 * unat ibrd + unat fbrd = (64 * (300000000 div (16 * unat baudrate)) + 50) div 100 \<and> unat ibrd < 2 ^ 16 \<and>
    unat fbrd < 64 \<and> (24000000 + unat baudrate) div (2 * unat baudrate) - (64 * unat ibrd + unat fbrd) \<in> {0, 1} \<and>
    64 * unat ibrd + unat fbrd \<le> (24000000 + unat baudrate) div (2 * unat baudrate) \<and>
    unat (take_bit 2 (drop_bit 5 lcrh)) + 5 = unat databits \<and> bit lcrh 4 \<and>
    (bit lcrh 3 \<longleftrightarrow> unat stopbits = 2) \<and> (bit lcrh 1 \<longleftrightarrow> parity \<noteq> PARITY_NONE) \<and> (bit lcrh 2 \<longleftrightarrow> parity = PARITY_EVEN)"
proof -
  have "0 < unat baudrate" using assms(6) by simp
  note cut = divisor_cut [OF this]
  have "r - v \<in> {0, 1}" if "v \<le> r" "r \<le> v + 1" for r v :: nat using that by auto
  from this [OF cut] show ?thesis using rpi2_serial_opens [OF assms] cut(1) by metis
qed

theorem rpi2_serial_witness:
  "\<exists>ibrd fbrd lcrh. rpi2_serial_open_port 0 38400 8 1 PARITY_NONE [] = Ok (True,
      [MWrite UART0_CR 0, MWrite GPPUD 0, MWrite GPPUDCLK0 0xC000, MWrite GPPUDCLK0 0, MWrite UART0_ICR 0x7FF,
       MWrite UART0_IBRD ibrd, MWrite UART0_FBRD fbrd, MWrite UART0_LCRH lcrh, MWrite UART0_IMSC 0x7F2, MWrite UART0_CR 0x301]) \<and>
    64 * unat ibrd + unat fbrd = 64 * 4 + 56 \<and> (24000000 + 38400) div (2 * 38400) = 64 * 4 + (57 :: nat) \<and> \<not> bit lcrh 1"
  using rpi2_serial_programs [of 8 1 PARITY_NONE 38400 "[]"] by (auto intro: exI)

section \<open>The console\<close>

text \<open>C34: writing a byte to the text screen refines the abstract terminal, a page of 2000 cells and one position:
  the write returns, no cell outside the page is touched, the cursor stays on the page, and the position is what
  the cursor registers are told.\<close>

theorem textmode_refines_terminal:
  assumes "tm_ok t"
  shows "\<exists>t' lo hi. textmode_write c t = Ok t' \<and> tm_ok t' \<and> tm_abs t' = term_step c (tm_abs t) \<and>
    tbus t' = tbus t @ [Out8 0x3D4 0x0F, Out8 0x3D5 lo, Out8 0x3D4 0x0E, Out8 0x3D5 hi] \<and> le16 lo hi = tm_pos t'"
  using textmode_write_refines [OF assms] by blast

theorem textmode_refines_witness:
  "\<exists>t'. textmode_write 0x41 ((textmode_start (replicate 2000 0))\<lparr>tcol := 79, trow := 24\<rparr>) = Ok t' \<and>
    cells t' ! 1919 = 0x0F41 \<and> tcol t' = 0 \<and> trow t' = 24"
proof -
  let ?t = "(textmode_start (replicate 2000 0))\<lparr>tcol := 79, trow := 24\<rparr>"
  have ok: "tm_ok ?t" by (simp add: tm_ok_def textmode_start_def)
  have pos: "tm_abs ?t = (replicate 2000 0, 1999)" by (simp add: tm_abs_def tm_pos_def textmode_start_def)
  obtain t' where t': "textmode_write 0x41 ?t = Ok t'" "tm_ok t'" "tm_abs t' = term_step 0x41 (replicate 2000 0, 1999)"
    using textmode_refines_terminal [OF ok, of "0x41"] pos by auto
  have c: "cell 0x41 = 0x0F41" by (simp add: cell_def color_def)
  have "cells t' = drop 80 ((replicate 2000 0)[1999 := 0x0F41]) @ replicate 80 (cell 0x20)" "tm_pos t' = 1920"
    using t'(3) by (simp_all add: tm_abs_def term_step_def c)
  moreover have "tcol t' = 0 \<and> trow t' = 24"
    using t'(2) \<open>tm_pos t' = 1920\<close> unfolding tm_ok_def tm_pos_def by (auto simp: nat_eq_iff) presburger+
  ultimately show ?thesis using t'(1) by (simp add: nth_append)
qed

text \<open>C35: text printed to the terminal reaches the screen: when it fits the empty output pipe, the print returns and
  as many turns of the output thread as there are characters show the whole text in order and leave the pipe
  empty.\<close>

theorem tty_text_reaches_screen:
  assumes "con_ok s" "is_cstr str" "fifo_list (outpipe s) = []" "length (cstr str) \<le> fifo_cap (outpipe s)"
  shows "\<exists>s1 s2. tty_print str s = Ok ((), s1) \<and> tty_out_steps (length (cstr str)) dev s1 = Ok s2 \<and> con_ok s2 \<and>
    fifo_list (outpipe s2) = [] \<and> tm_abs (screen s2) = fold term_step (map of_char (cstr str)) (tm_abs (screen s))"
  by (rule print_reaches_screen [OF assms])

theorem tty_text_witness:
  "\<exists>s1 s2. tty_print (lit ''ok'') sample_console = Ok ((), s1) \<and> tty_out_steps 2 dev_zero s1 = Ok s2 \<and>
    cells (screen s2) ! 0 = 0x0F6F \<and> cells (screen s2) ! 1 = 0x0F6B"
proof -
  have str: "is_cstr (lit ''ok'')" "cstr (lit ''ok'') = ''ok''" "length ''ok'' = 2" "map of_char ''ok'' = [0x6F, 0x6B :: u8]"
    by code_simp+
  obtain s1 s2 where s: "tty_print (lit ''ok'') sample_console = Ok ((), s1)" "tty_out_steps 2 dev_zero s1 = Ok s2"
      "tm_abs (screen s2) = fold term_step [0x6F, 0x6B] (tm_abs (screen sample_console))"
    using tty_text_reaches_screen [OF sample_console_ok(1) str(1) sample_console_ok(4), of dev_zero] sample_console_ok(5)
    unfolding str(2-4) by auto
  moreover have "tm_abs (screen sample_console) = (replicate 2000 0, 0)"
    by (simp add: sample_console_ok(6) tm_abs_def tm_pos_def textmode_start_def)
  ultimately have "cells (screen s2) = (replicate 2000 0)[0 := 0x0F6F, 1 := 0x0F6B]"
    by (simp add: tm_abs_def term_step_def cell_def color_def)
  then show ?thesis using s(1,2) by simp
qed

text \<open>C36: keys typed become the line a program reads: the keyboard handler puts the characters of the queued scan
  codes into the terminal's input, and \<open>readline\<close> then returns, with the line that the abstract editor makes of them
  (backspace deletes, return ends), its echo in the output pipe and the rest of the input left over. The keyboard
  controller is any device that queues its bytes and signals them in its status port.\<close>

theorem typed_line_is_read:
  assumes "con_ok s" "queued dev codes (interrupt_ack 1 tr)" "list_all is_key codes"
    "length (fifo_list (inpipe s)) + length codes \<le> fifo_cap (inpipe s)" "length buff = n" "0 < n"
    "line_edit n [] (fifo_list (inpipe s) @ map key_char codes) = Some (line, rest, echo)"
  shows "\<exists>s1 tr1 b s2. kbd_isr_main dev stack (s, tr) = Ok (stack, s1, tr1) \<and> readline buff n s1 = Ok (b, s2) \<and>
    is_cstr b \<and> cstr b = text_of line \<and> length b = n \<and> fifo_list (inpipe s2) = rest \<and>
    outpipe s2 = foldl write_unsafe (outpipe s) echo"
proof -
  let ?s1 = "fold tty_write_in (map key_char codes) s"
  have all: "takeWhile is_key codes = codes" using assms(3) by (simp add: list_all_iff)
  obtain tr1 where isr: "kbd_isr_main dev stack (s, tr) = Ok (stack, ?s1, tr1)"
    using kbd_isr_main_run [OF assms(2)] all by force
  have s1: "con_ok ?s1" "fifo_list (inpipe ?s1) = fifo_list (inpipe s) @ map key_char codes"
    using typed_ok [OF assms(1), of "map key_char codes"] assms(4) by simp_all
  then show ?thesis
    using readline_edits [OF s1(1) assms(5,6)] assms(7) isr fold_write_in(2) [of "map key_char codes" s]
    by (fastforce simp: put_all_foldl)
qed

theorem typed_line_witness:
  "\<exists>s1 tr1 b s2. kbd_isr_main (key_dev [0x23, 0x12, 0x0E, 0x17, 0x1C]) 0 (sample_console, []) = Ok (0, s1, tr1) \<and>
    readline (replicate 8 NUL) 8 s1 = Ok (b, s2) \<and> cstr b = ''hi''"
proof -
  let ?codes = "[0x23, 0x12, 0x0E, 0x17, 0x1C] :: u8 list"
  have chars: "map key_char ?codes = [0x68, 0x65, 0x08, 0x69, 0x0A]" "list_all is_key ?codes"
    by (simp_all add: key_char_def is_key_def scancode_table_def lit_def)
  have "line_edit 8 [] (fifo_list (inpipe sample_console) @ map key_char ?codes) =
      Some ([0x68, 0x69], [], [0x68, 0x65, 0x08, 0x20, 0x08, 0x69, 0x0A])"
    using sample_console_ok(2) unfolding chars(1) by simp
  moreover have "queued (key_dev ?codes) ?codes (interrupt_ack 1 [])"
    by (rule key_dev_queued) (simp add: interrupt_ack_def pic_ack_def Let_def data_reads_def outb_def)
  ultimately have "\<exists>s1 tr1 b s2. kbd_isr_main (key_dev ?codes) 0 (sample_console, []) = Ok (0, s1, tr1) \<and>
      readline (replicate 8 NUL) 8 s1 = Ok (b, s2) \<and> is_cstr b \<and> cstr b = text_of [0x68, 0x69] \<and> length b = 8 \<and>
      fifo_list (inpipe s2) = [] \<and>
      outpipe s2 = foldl write_unsafe (outpipe sample_console) [0x68, 0x65, 0x08, 0x20, 0x08, 0x69, 0x0A]"
    using sample_console_ok(2,3)
    by (intro typed_line_is_read [OF sample_console_ok(1) _ chars(2)]) (simp_all del: line_edit.simps list.map)
  moreover have "text_of [0x68, 0x69] = ''hi''" by code_simp
  ultimately show ?thesis by auto
qed

section \<open>The shell\<close>

text \<open>C37: typing \<open>cat\<close> and the path of a file of the ram disk into the shell shows the file. One turn of the command
  loop (prompt, line editor, splitting into arguments, choice of the command, opening the file, reading it character
  by character through the system calls, closing it) returns; the log gains the prompt and one entry per character,
  and the terminal's output gets the prompt, the echo of the line and the bytes of the file.\<close>

theorem shell_cat_shows_file:
  assumes "con_ok (lcon (slog s))" "log_ok (slog s)" "hw_ok (sk s)" "can_open (sk s) p" "cproc (sk s) \<noteq> ID_INVALID"
    "line_edit 64 [] (fifo_list (inpipe (lcon (slog s)))) = Some (l, rest, echo)"
    "split_words (text_of l) = ''cat'' # path # ws" "ramdisk_file (sk s) path header filesize"
    "apart_from (e_loc e) (e_pair e) header filesize" "clear_of (e_line e) 64 header (512 + filesize)"
    "heap_map_clear (e_line e) 64 (sk s)" "bs = bytes_at (ram (sk s)) (header + 512) filesize"
  shows "\<exists>s'. shell_turn e s = Ok (None, s') \<and>
    map vec_list (vec_list (logs (slog s'))) =
      map vec_list (vec_list (logs (slog s))) @ [''$ ''] @ map (\<lambda>b. [char_of (unat b)]) bs \<and>
    outpipe (lcon (slog s')) = foldl write_unsafe (outpipe (lcon (slog s))) ([0x24, 0x20] @ echo @ bs)"
  using shell_turn_cat [OF assms(1-11)] assms(12) by simp

theorem shell_cat_witness:
  "\<exists>s'. shell_turn sample_env sample_shell = Ok (None, s') \<and>
    map vec_list (vec_list (logs (slog s'))) = [''$ '', ''h'', ''e'', ''l'', ''l'', ''o'']"
proof -
  let ?echo = "[0x63, 0x61, 0x74, 0x20, 0x2F, 0x61, 0x0A] :: u8 list" and ?l = "[0x63, 0x61, 0x74, 0x20, 0x2F, 0x61] :: u8 list"
  have line: "line_edit 64 [] (fifo_list (inpipe (lcon (slog sample_shell)))) = Some (?l, [], ?echo)"
    using sample_shell_console(4) unfolding sample_line_def by simp
  have words: "split_words (text_of ?l) = [''cat'', ''/a'']" by code_simp
  have bytes: "bytes_at sample_mem (0x1000 + 512) 5 = [0x68, 0x65, 0x6C, 0x6C, 0x6F]"
    by (simp add: bytes_at_def sample_mem_def upt_conv_Cons)
  have chars: "map (\<lambda>b :: u8. [char_of (unat b)]) [0x68, 0x65, 0x6C, 0x6C, 0x6F] = [''h'', ''e'', ''l'', ''l'', ''o'']"
    by code_simp
  have geo: "apart_from (e_loc sample_env) (e_pair sample_env) 0x1000 5" "clear_of (e_line sample_env) 64 0x1000 (512 + 5)"
      "heap_map_clear (e_line sample_env) 64 (sk sample_shell)"
    using sample_kernel_ok(6) sample_shell_console(5) by (simp_all add: apart_from_def sample_env_def clear_ofI)
  show ?thesis
    using shell_cat_shows_file [OF sample_shell_console(1,2) _ _ _ line words _ geo refl, of sample_proc] sample_kernel_ok(1-5)
      sample_shell_console(5,6) bytes chars by auto
qed

text \<open>C38: splitting a command line in place finds exactly its words. For every terminated line the positions
  returned point, in the line with its blanks cleared, to the maximal runs of characters that are neither space nor
  tab, in order, and to at most as many of them as there is room for.\<close>

theorem split_args_finds_words:
  assumes "is_cstr cmd"
  shows "\<exists>argv cmd'. split_args cmd siz = Ok (argv, cmd') \<and> length cmd' = length cmd \<and>
    map (\<lambda>i. cstr (drop i cmd')) argv = take siz (split_words (cstr cmd))"
  using split_args_words [OF assms, of siz] by (auto simp: arg_at_def cong: map_cong)

theorem split_args_witness:
  "\<exists>argv cmd'. split_args (lit ''  echo a  b '') 2 = Ok (argv, cmd') \<and> map (\<lambda>i. cstr (drop i cmd')) argv = [''echo'', ''a'']"
proof -
  have "take 2 (split_words (cstr (lit ''  echo a  b ''))) = [''echo'', ''a'']" by code_simp
  then show ?thesis using split_args_finds_words [of "lit ''  echo a  b ''" 2] by auto
qed

section \<open>Exceptions, interrupts and boot\<close>

text \<open>C39: an exception that does not stop the machine is survived: the handler returns, the thread that caused it is
  removed from the thread table, the first waiting thread runs, and the invariant of the kernel's tables holds.\<close>

theorem exception_kills_thread:
  assumes "log_ok s" "k_inv (ck (lcon s))" "unat code < 19" "\<not> exception_panic ! unat code"
    "cthread (ck (lcon s)) = t_thread (ctask (ck (lcon s)))" "t_thread (ctask (ck (lcon s))) = tid" "tid \<noteq> ID_INVALID"
    "ht_lookup (thread_table (ck (lcon s))) tid = Some th" "ht_lookup (proc_table (ck (lcon s))) (th_proc th) = Some p"
    "waiting (ck (lcon s)) = t # ts" "sint (cpriority t) \<le> 0"
    "is_cstr (p_name p)" "length raw = 256" "sint tid \<noteq> - (2 ^ 63)" "sint error \<noteq> - (2 ^ 63)"
  shows "\<exists>sw s'. exception_handle False raw stack code error s = Ok (sw, s') \<and> k_inv (ck (lcon s')) \<and>
    ctask (ck (lcon s')) = t \<and> cthread (ck (lcon s')) = t_thread t \<and> ht_lookup (thread_table (ck (lcon s'))) tid = None"
  by (rule exception_kills [OF assms])

theorem exception_kills_witness:
  "\<exists>sw s'. exception_handle False (replicate 256 NUL) 0 0 7 sample_logger = Ok (sw, s') \<and>
    cthread (ck (lcon s')) = 1 \<and> ht_lookup (thread_table (ck (lcon s'))) 0 = None"
proof -
  have k: "ck (lcon sample_logger) = sample"
    by (simp add: sample_logger_def sample_console_def console_start_def)
  have task: "t_thread (sample_task 1) = 1" "cpriority (sample_task 1) = 0" "t_thread (ctask sample) = 0" "cthread sample = 0"
    by (simp_all add: sample_task_def sample_def kernel_start_def)
  have th: "ht_lookup (thread_table sample) 0 = Some (sample_thread 0 ACTIVE)"
      "ht_lookup (proc_table sample) (th_proc (sample_thread 0 ACTIVE)) = Some sample_proc"
    using sample_tables(1,2) by (simp_all add: sample_thread_def)
  have "\<not> exception_panic ! unat (0 :: size_t)" "is_cstr (p_name sample_proc)"
    by (simp_all add: exception_panic_def sample_proc_def is_cstr_def)
  then have "\<exists>sw s'. exception_handle False (replicate 256 NUL) 0 0 7 sample_logger = Ok (sw, s') \<and>
      k_inv (ck (lcon s')) \<and> ctask (ck (lcon s')) = sample_task 1 \<and> cthread (ck (lcon s')) = t_thread (sample_task 1) \<and>
      ht_lookup (thread_table (ck (lcon s'))) 0 = None"
    using sample_logger_ok sample_k_inv sample_schedule(2) task th
    by (intro exception_kills_thread [where th = "sample_thread 0 ACTIVE" and p = sample_proc and ts = "[]"])
      (simp_all add: k ID_INVALID_def)
  then show ?thesis using task(1) by auto
qed

text \<open>C40: the interrupt tables: after \<open>idt_init\<close> every vector's gate leads to its handler (or is absent), whatever its
  address, on the 64-bit and on the 32-bit processor, and \<open>interrupt::bind\<close> changes the gate of exactly the vector bound.\<close>

theorem interrupt_table_gates:
  "\<exists>idt idt32. idt_init isr stub spurious (replicate 288 idt_zero) = Ok idt \<and> length idt = 288 \<and>
    (\<forall>i<288. gate_of (idt ! i) = handler isr stub spurious i) \<and>
    i386_idt_init isr32 stub32 spurious32 (replicate 288 i386_idt_zero) = Ok idt32 \<and>
    (\<forall>i<288. i386_gate_of (idt32 ! i) = handler isr32 stub32 spurious32 i) \<and>
    (\<forall>irq address hardware at. \<exists>idt'. interrupt_bind irq address hardware at idt = Ok (idt_install at, idt') \<and>
      (\<forall>i<288. gate_of (idt' ! i) =
        (if i = (if hardware then 32 else 0) + unat irq then Some address else gate_of (idt ! i))))"
proof -
  obtain idt where idt: "idt_init isr stub spurious (replicate 288 idt_zero) = Ok idt" "length idt = 288"
      "\<forall>i<288. gate_of (idt ! i) = handler isr stub spurious i"
    using idt_init_spec by blast
  have "\<exists>idt'. interrupt_bind irq address hardware at idt = Ok (idt_install at, idt') \<and>
      (\<forall>i<288. gate_of (idt' ! i) =
        (if i = (if hardware then 32 else 0) + unat irq then Some address else gate_of (idt ! i)))" for irq address hardware at
    using interrupt_bind_spec [OF idt(2)] by blast
  then show ?thesis using idt i386_idt_init_spec [of isr32 stub32 spurious32] by blast
qed

theorem interrupt_table_witness:
  "\<exists>idt idt'. idt_init (\<lambda>i. 0xFFFF800000100000 + of_nat i) 0x2000 0x3000 (replicate 288 idt_zero) = Ok idt \<and>
    gate_of (idt ! 3) = Some 0xFFFF800000100003 \<and> interrupt_bind 1 0x123456789 True 0 idt = Ok (idt_install 0, idt') \<and>
    gate_of (idt' ! 33) = Some 0x123456789 \<and> gate_of (idt' ! 3) = Some 0xFFFF800000100003"
proof -
  let ?isr = "\<lambda>i :: nat. 0xFFFF800000100000 + of_nat i"
  obtain idt where idt: "idt_init ?isr 0x2000 0x3000 (replicate 288 idt_zero) = Ok idt"
      "\<forall>i<288. gate_of (idt ! i) = handler ?isr 0x2000 0x3000 i"
      "\<exists>idt'. interrupt_bind 1 0x123456789 True 0 idt = Ok (idt_install 0, idt') \<and>
        (\<forall>i<288. gate_of (idt' ! i) = (if i = (if True then 32 else 0) + unat (1 :: u8) then Some 0x123456789 else gate_of (idt ! i)))"
    using interrupt_table_gates [of ?isr "0x2000" "0x3000" "\<lambda>_. 0" 0 0] by blast
  then show ?thesis by (auto simp: handler_def)
qed

section \<open>Booting\<close>



end
